(* ===== verification/PA_Prelude.thy ===== *)
theory PA_Prelude
  imports Main "HOL-Library.Word" "HOL-Library.Multiset"
begin

text \<open>
  Shared vocabulary of the development: the machine integers of the C++ sources, the
  error object \<open>cb::Error\<close> and the exceptions the sources throw, the fair division
  of a total over a number of threads, decimal rendering (\<open>std::to_string\<close>) and
  little-endian byte strings (\<open>memcpy\<close> and \<open>reinterpret_cast\<close> of an integer on the
  little-endian hosts the program is built for), with the generic lemmas about them.
  The collections \<open>pa_simps\<close> and \<open>share_simps\<close> gather the rewrite rules the
  component theories use.
\<close>

named_theorems pa_simps "rewrite rules of the shared vocabulary"
named_theorems share_simps "facts on the fair division of a total"

section \<open>Machine integers and time\<close>

type_synonym u8 = "8 word"
type_synonym u32 = "32 word"
type_synonym u64 = "64 word"
type_synonym i64 = "64 word"
type_synonym byte = "8 word"
type_synonym bytes = "byte list"

text \<open>
  The count of a \<open>std::chrono::nanoseconds\<close>, signed and of 64 bits. Where the code computes
  with counts that the user or a distribution gives, the result is checked
  (\<open>Rate_Schedule.nanos_checked\<close>) or wraps (\<open>Rate_Schedule.nanos_wrap\<close>); readings of a clock, and
  the differences of two of them, are taken to fit.
\<close>

type_synonym nanos = int

definition NANOS_PER_SECOND :: nat where
  "NANOS_PER_SECOND = 1000000000"

definition NANOS_PER_MILLIS :: nat where
  "NANOS_PER_MILLIS = 1000000"

section \<open>Errors\<close>

text \<open>
  \<open>cb::Error\<close> carries a message and a code; the code 0 is success. A C++ function that
  returns \<open>cb::Error\<close> and fills an output parameter is a function into \<open>cb_error + 'a\<close>.
\<close>

datatype cb_error = CbError (Message: string) (Err: nat)

definition SUCCESS :: nat where "SUCCESS = 0"
definition STABILITY_ERROR :: nat where "STABILITY_ERROR = 2"
definition OPTION_ERROR :: nat where "OPTION_ERROR = 3"
definition GENERIC_ERROR :: nat where "GENERIC_ERROR = 99"

definition Success :: cb_error where
  "Success = CbError '''' SUCCESS"

definition IsOk :: "cb_error \<Rightarrow> bool" where
  "IsOk e \<longleftrightarrow> Err e = 0"

definition generic_error :: "string \<Rightarrow> cb_error" where
  "generic_error msg = CbError msg GENERIC_ERROR"

lemma IsOk_Success [simp, pa_simps]: "IsOk Success"
  by (simp add: IsOk_def Success_def SUCCESS_def)

lemma IsOk_generic [simp, pa_simps]: "\<not> IsOk (generic_error msg)"
  by (simp add: IsOk_def generic_error_def GENERIC_ERROR_def)

lemma IsOk_CbError [simp, pa_simps]: "IsOk (CbError m c) \<longleftrightarrow> c = 0"
  by (simp add: IsOk_def)

lemma generic_not_Success [simp]: "generic_error m \<noteq> Success" "Success \<noteq> generic_error m"
  by (auto simp: generic_error_def Success_def GENERIC_ERROR_def SUCCESS_def)

text \<open>
  What a C++ function may do instead of returning: throw \<open>std::runtime_error\<close>,
  \<open>std::out_of_range\<close> or \<open>PerfAnalyzerException\<close>, divide by zero, or read outside a
  container (undefined behaviour, which the model keeps apart from every defined result).
\<close>

datatype exn =
    RuntimeError string
  | OutOfRange
  | InvalidArgument string
  | PerfAnalyzerException string nat
  | DivideByZero
  | UndefinedBehaviour string

text \<open>
  A function that may throw and whose result is a \<open>cb::Error\<close> fails in one of two ways;
  \<open>liftE\<close> and \<open>liftC\<close> embed the functions that only fail in one.
\<close>

datatype failure = Throws exn | Fails cb_error

fun liftE :: "exn + 'a \<Rightarrow> failure + 'a" where
  "liftE (Inl e) = Inl (Throws e)"
| "liftE (Inr x) = Inr x"

fun liftC :: "cb_error + 'a \<Rightarrow> failure + 'a" where
  "liftC (Inl e) = Inl (Fails e)"
| "liftC (Inr x) = Inr x"

lemma liftE_Inr_conv [simp]: "liftE m = Inr x \<longleftrightarrow> m = Inr x"
  by (cases m) auto

lemma liftC_Inr_conv [simp]: "liftC m = Inr x \<longleftrightarrow> m = Inr x"
  by (cases m) auto

section \<open>Scheduler types\<close>

text \<open>\<open>ModelParser::ModelSchedulerType\<close>, which the parser finds and the others branch on.\<close>

datatype model_scheduler_type = NONE | DYNAMIC | SEQUENCE | ENSEMBLE | ENSEMBLE_SEQUENCE

section \<open>Checked indexing\<close>

text \<open>\<open>std::vector::at\<close> throws outside the range; \<open>operator[]\<close> is undefined there.\<close>

definition vec_at :: "'a list \<Rightarrow> nat \<Rightarrow> exn + 'a" where
  "vec_at xs i = (if i < length xs then Inr (xs ! i) else Inl OutOfRange)"

definition vec_index :: "'a list \<Rightarrow> nat \<Rightarrow> exn + 'a" where
  "vec_index xs i = (if i < length xs then Inr (xs ! i)
     else Inl (UndefinedBehaviour ''vector index''))"

lemma vec_at_in [simp]: "i < length xs \<Longrightarrow> vec_at xs i = Inr (xs ! i)"
  by (simp add: vec_at_def)

lemma vec_index_in [simp]: "i < length xs \<Longrightarrow> vec_index xs i = Inr (xs ! i)"
  by (simp add: vec_index_def)

section \<open>Sequencing of fallible steps\<close>

text \<open>\<open>RETURN_IF_ERROR\<close>, and the propagation of an exception.\<close>

fun bindR :: "'e + 'a \<Rightarrow> ('a \<Rightarrow> 'e + 'b) \<Rightarrow> 'e + 'b" where
  "bindR (Inl e) f = Inl e"
| "bindR (Inr x) f = f x"

lemma bindR_Inr_conv: "bindR m f = Inr y \<longleftrightarrow> (\<exists>x. m = Inr x \<and> f x = Inr y)"
  by (cases m) auto

lemma bindR_return [simp]: "bindR m Inr = m"
  by (cases m) auto

lemma bindR_Inl_conv: "bindR m f = Inl e \<longleftrightarrow> m = Inl e \<or> (\<exists>x. m = Inr x \<and> f x = Inl e)"
  by (cases m) auto

fun mapR :: "('a \<Rightarrow> 'e + 'b) \<Rightarrow> 'a list \<Rightarrow> 'e + 'b list" where
  "mapR f [] = Inr []"
| "mapR f (x # xs) = bindR (f x) (\<lambda>y. bindR (mapR f xs) (\<lambda>ys. Inr (y # ys)))"

fun foldR :: "('s \<Rightarrow> 'a \<Rightarrow> 'e + 's) \<Rightarrow> 's \<Rightarrow> 'a list \<Rightarrow> 'e + 's" where
  "foldR f s [] = Inr s"
| "foldR f s (x # xs) = bindR (f s x) (\<lambda>s'. foldR f s' xs)"

lemma bindR_cong [fundef_cong]:
  "m = m' \<Longrightarrow> (\<And>x. m' = Inr x \<Longrightarrow> f x = g x) \<Longrightarrow> bindR m f = bindR m' g"
  by (cases m') auto

lemma mapR_cong [fundef_cong]:
  "xs = ys \<Longrightarrow> (\<And>x. x \<in> set ys \<Longrightarrow> f x = g x) \<Longrightarrow> mapR f xs = mapR g ys"
  by (induction ys arbitrary: xs) auto

lemma foldR_cong [fundef_cong]:
  "xs = ys \<Longrightarrow> s = t \<Longrightarrow> (\<And>s x. x \<in> set ys \<Longrightarrow> f s x = g s x) \<Longrightarrow> foldR f s xs = foldR g t ys"
proof (induction ys arbitrary: s t xs)
  case (Cons y ys)
  then show ?case by (auto intro: bindR_cong)
qed simp

lemma foldR_append: "foldR f s (xs @ ys) = bindR (foldR f s xs) (\<lambda>s'. foldR f s' ys)"
proof (induction xs arbitrary: s)
  case (Cons x xs)
  show ?case by (cases "f s x") (simp_all add: Cons)
qed simp

lemma foldR_total:
  "(\<And>s x. x \<in> set xs \<Longrightarrow> f s x = Inr (g s x)) \<Longrightarrow> foldR f s xs = Inr (foldl g s xs)"
  by (induction xs arbitrary: s) auto

lemma mapR_length: "mapR f xs = Inr ys \<Longrightarrow> length ys = length xs"
  by (induction xs arbitrary: ys) (auto simp: bindR_Inr_conv)

lemma mapR_nth: "mapR f xs = Inr ys \<Longrightarrow> i < length xs \<Longrightarrow> f (xs ! i) = Inr (ys ! i)"
  by (induction xs arbitrary: ys i) (auto simp: bindR_Inr_conv nth_Cons split: nat.splits)

lemma mapR_total: "(\<And>x. x \<in> set xs \<Longrightarrow> f x = Inr (g x)) \<Longrightarrow> mapR f xs = Inr (map g xs)"
  by (induction xs) auto

lemma foldR_inv:
  assumes "foldR f s xs = Inr s'" and "P s"
    and "\<And>s x s'. x \<in> set xs \<Longrightarrow> P s \<Longrightarrow> f s x = Inr s' \<Longrightarrow> P s'"
  shows "P s'"
  using assms by (induction xs arbitrary: s) (auto simp: bindR_Inr_conv)

section \<open>Fair division of a total\<close>

text \<open>
  The managers spread a total over \<open>n\<close> threads as \<open>tot / n\<close> each and one more for the
  first \<open>tot % n\<close> of them.
\<close>

definition share :: "nat \<Rightarrow> nat \<Rightarrow> nat \<Rightarrow> nat" where
  "share tot n i = tot div n + (if i < tot mod n then 1 else 0)"

lemma sum_indicator: "m \<le> n \<Longrightarrow> (\<Sum>i = 0..<n. if i < m then 1 else 0) = (m :: nat)"
proof (induction n)
  case (Suc n)
  then show ?case by (cases "m = Suc n") auto
qed simp

lemma share_sum [share_simps]: "0 < n \<Longrightarrow> (\<Sum>i = 0..<n. share tot n i) = tot"
  by (simp add: share_def sum.distrib sum_indicator less_imp_le [OF mod_less_divisor])

lemma share_le_Suc [share_simps]: "share tot n i \<le> Suc (share tot n j)"
  by (simp add: share_def)

lemma share_antimono [share_simps]: "i \<le> j \<Longrightarrow> share tot n j \<le> share tot n i"
  by (simp add: share_def)

lemma share_pos_iff [share_simps]:
  "0 < n \<Longrightarrow> i < n \<Longrightarrow> 0 < share tot n i \<longleftrightarrow> i < tot"
proof (cases "n \<le> tot")
  case True
  moreover assume "0 < n" "i < n"
  ultimately show ?thesis by (simp add: share_def div_greater_zero_iff)
next
  case False
  then show ?thesis by (simp add: share_def)
qed

section \<open>Decimal rendering\<close>

definition digit_char :: "nat \<Rightarrow> char" where
  "digit_char d = char_of (48 + d)"

fun nat_to_string :: "nat \<Rightarrow> string" where
  "nat_to_string n =
     (if n < 10 then [digit_char n] else nat_to_string (n div 10) @ [digit_char (n mod 10)])"

declare nat_to_string.simps [simp del]

text \<open>\<open>std::to_string\<close> on a signed integer.\<close>

definition to_string :: "int \<Rightarrow> string" where
  "to_string i = (if i < 0 then CHR ''-'' # nat_to_string (nat (- i)) else nat_to_string (nat i))"

definition digit_val :: "char \<Rightarrow> nat" where
  "digit_val c = of_char c - 48"

definition is_digit :: "char \<Rightarrow> bool" where
  "is_digit c \<longleftrightarrow> 48 \<le> (of_char c :: nat) \<and> (of_char c :: nat) \<le> 57"

fun string_to_nat :: "string \<Rightarrow> nat" where
  "string_to_nat cs = foldl (\<lambda>n c. 10 * n + digit_val c) 0 cs"

declare string_to_nat.simps [simp del]

lemma digit_val_char [simp]: "d < 10 \<Longrightarrow> digit_val (digit_char d) = d"
  by (simp add: digit_val_def digit_char_def of_char_of)

lemma is_digit_char [simp]: "d < 10 \<Longrightarrow> is_digit (digit_char d)"
  by (simp add: is_digit_def digit_char_def of_char_of)

lemma nat_to_string_digits: "c \<in> set (nat_to_string n) \<Longrightarrow> is_digit c"
proof (induction n rule: nat_to_string.induct)
  case (1 n)
  then show ?case
    by (cases "n < 10") (auto simp: nat_to_string.simps [of n])
qed

lemma nat_to_string_nonempty [simp]: "nat_to_string n \<noteq> []"
  by (subst nat_to_string.simps) simp

lemma string_to_nat_nat_to_string [simp]: "string_to_nat (nat_to_string n) = n"
proof (induction n rule: nat_to_string.induct)
  case (1 n)
  show ?case
  proof (cases "n < 10")
    case True
    then show ?thesis by (simp add: nat_to_string.simps [of n] string_to_nat.simps)
  next
    case False
    then have "string_to_nat (nat_to_string (n div 10)) = n div 10"
      using 1 by simp
    with False show ?thesis
      by (simp add: nat_to_string.simps [of n] string_to_nat.simps)
  qed
qed

lemma nat_to_string_inj: "nat_to_string m = nat_to_string n \<Longrightarrow> m = n"
  by (metis string_to_nat_nat_to_string)

lemma digits_no_underscore: "CHR ''_'' \<notin> set (nat_to_string n)"
  using nat_to_string_digits [of "CHR ''_''" n] by (auto simp: is_digit_def)

lemma digits_no_minus: "CHR ''-'' \<notin> set (nat_to_string n)"
  using nat_to_string_digits [of "CHR ''-''" n] by (auto simp: is_digit_def)

lemma to_string_no_underscore: "CHR ''_'' \<notin> set (to_string i)"
  by (simp add: to_string_def digits_no_underscore)

lemma to_string_inj: "to_string i = to_string j \<Longrightarrow> i = j"
proof -
  have *: "CHR ''-'' # s \<noteq> nat_to_string n" for s n
    using digits_no_minus [of n] by (metis list.set_intros(1))
  assume "to_string i = to_string j"
  then show ?thesis
    using * [of "nat_to_string (nat (- i))" "nat j"] * [of "nat_to_string (nat (- j))" "nat i"]
    by (auto simp: to_string_def split: if_splits dest!: nat_to_string_inj)
qed

text \<open>A separator that does not occur in the suffix makes concatenation injective.\<close>

lemma append_sep_inj:
  assumes "xs @ c # u = ys @ c # v" and "c \<notin> set u" and "c \<notin> set v"
  shows "xs = ys \<and> u = v"
proof -
  from assms(1) have "rev u @ c # rev xs = rev v @ c # rev ys"
    by (metis append.assoc append_Cons append_Nil rev.simps(2) rev_append)
  with assms(2,3) show ?thesis
  proof (induction "rev u" arbitrary: u v)
    case Nil
    then have "rev v = []"
      by (metis append_Nil list.sel(1) append_Cons hd_append2 hd_in_set set_rev)
    with Nil show ?case by simp
  next
    case (Cons a as)
    then obtain b bs where b: "rev v = b # bs"
      by (metis append_Nil append_Cons list.inject list.set_intros(1) neq_Nil_conv set_rev)
    from Cons.hyps(2) have u: "u = rev as @ [a]" by (metis rev.simps(2) rev_swap)
    from b have v: "v = rev bs @ [b]" by (metis rev.simps(2) rev_swap)
    from Cons.prems Cons.hyps(2) b have ab: "a = b" and
      eq: "as @ c # rev xs = bs @ c # rev ys" by (metis append_Cons list.inject)+
    have "xs = ys \<and> rev as = rev bs"
      using Cons.hyps(1) [of "rev as" "rev bs"] Cons.prems(1,2) eq u v by simp
    with u v ab show ?case by simp
  qed
qed

text \<open>
  \<open>std::stoll\<close> in base 10: white space, a sign, then the longest run of digits; without a
  digit it throws \<open>std::invalid_argument\<close>, outside 64 bits \<open>std::out_of_range\<close>.
\<close>

definition is_space :: "char \<Rightarrow> bool" where
  "is_space c \<longleftrightarrow> (of_char c :: nat) = 32 \<or> 9 \<le> (of_char c :: nat) \<and> (of_char c :: nat) \<le> 13"

definition stoll :: "string \<Rightarrow> exn + int" where
  "stoll s =
     (let t = dropWhile is_space s;
          neg = (case t of c # _ \<Rightarrow> c = CHR ''-'' | [] \<Rightarrow> False);
          u = (case t of c # r \<Rightarrow> if c = CHR ''-'' \<or> c = CHR ''+'' then r else t | [] \<Rightarrow> []);
          ds = takeWhile is_digit u;
          v = (if neg then - int (string_to_nat ds) else int (string_to_nat ds))
      in if ds = [] then Inl (InvalidArgument ''stoll'')
         else if - (2 ^ 63) \<le> v \<and> v < 2 ^ 63 then Inr v else Inl OutOfRange)"

lemma is_digit_facts: "is_digit c \<Longrightarrow> \<not> is_space c \<and> c \<noteq> CHR ''-'' \<and> c \<noteq> CHR ''+''"
  by (auto simp: is_digit_def is_space_def)

lemma takeWhile_digits [simp]: "takeWhile is_digit (nat_to_string n) = nat_to_string n"
  by (simp add: takeWhile_eq_all_conv nat_to_string_digits)

lemma stoll_to_string:
  assumes "- (2 ^ 63) \<le> i" and "i < 2 ^ 63"
  shows "stoll (to_string i) = Inr i"
proof (cases "i < 0")
  case True
  have "\<not> is_space (CHR ''-'')" by (simp add: is_space_def)
  with True assms show ?thesis by (simp add: stoll_def to_string_def Let_def)
next
  case False
  obtain c r where cr: "nat_to_string (nat i) = c # r"
    by (metis nat_to_string_nonempty neq_Nil_conv)
  then have "is_digit c" using nat_to_string_digits [of c "nat i"] by simp
  moreover have "takeWhile is_digit r = r" "string_to_nat (c # r) = nat i"
    using takeWhile_digits [of "nat i"] string_to_nat_nat_to_string [of "nat i"] \<open>is_digit c\<close>
    unfolding cr by simp_all
  ultimately show ?thesis
    using False assms is_digit_facts [of c] by (simp add: stoll_def to_string_def cr Let_def takeWhile_eq_all_conv [THEN iffD2])
qed

section \<open>Little-endian byte strings\<close>

fun le_bytes :: "nat \<Rightarrow> nat \<Rightarrow> bytes" where
  "le_bytes 0 x = []"
| "le_bytes (Suc k) x = word_of_nat x # le_bytes k (x div 256)"

fun le_nat :: "bytes \<Rightarrow> nat" where
  "le_nat [] = 0"
| "le_nat (b # bs) = unat b + 256 * le_nat bs"

lemma length_le_bytes [simp]: "length (le_bytes k x) = k"
  by (induction k arbitrary: x) auto

lemma le_bytes_eq_Nil [simp]: "le_bytes k x = [] \<longleftrightarrow> k = 0"
  by (cases k) auto

lemma unat_byte_of_nat [simp]: "unat (word_of_nat x :: byte) = x mod 256"
  by (simp add: unat_of_nat)

lemma le_nat_le_bytes_mod: "le_nat (le_bytes k x) = x mod 256 ^ k"
proof (induction k arbitrary: x)
  case (Suc k)
  have "x mod 256 + 256 * (x div 256 mod 256 ^ k) = x mod (256 * 256 ^ k)"
    by (simp add: mod_mult2_eq)
  with Suc show ?case by simp
qed simp

lemma le_nat_le_bytes: "x < 256 ^ k \<Longrightarrow> le_nat (le_bytes k x) = x"
  by (simp add: le_nat_le_bytes_mod)

text \<open>The bytes of a \<open>std::string\<close>.\<close>

definition str_bytes :: "string \<Rightarrow> bytes" where
  "str_bytes s = map of_char s"

definition bytes_str :: "bytes \<Rightarrow> string" where
  "bytes_str bs = map (\<lambda>b. char_of (unat b)) bs"

lemma length_str_bytes [simp]: "length (str_bytes s) = length s"
  by (simp add: str_bytes_def)

lemma bytes_str_str_bytes [simp]: "bytes_str (str_bytes s) = s"
proof -
  have "char_of (unat (of_char c :: byte)) = c" for c :: char
  proof -
    have "unat (of_char c :: byte) = (of_char c :: nat)"
    proof -
      have "(of_char c :: byte) = word_of_nat (of_char c :: nat)" by (rule of_nat_of_char [symmetric])
      moreover have "(of_char c :: nat) < 256" by simp
      ultimately show ?thesis by (metis unat_byte_of_nat mod_less)
    qed
    then show ?thesis by simp
  qed
  then show ?thesis by (simp add: bytes_str_def str_bytes_def comp_def)
qed

section \<open>Generic lemmas\<close>

lemma div_mult_add [simp]: "i < n \<Longrightarrow> (r * n + i) div n = (r :: nat)"
  by (rule div_nat_eqI) auto

lemma unat_u64_less: "unat (w :: u64) < 18446744073709551616"
  using unsigned_less [where 'a = nat and 'b = 64, of w] by simp

lemma uint_less_of_unat: "unat w < n \<Longrightarrow> uint w < int n"
  by (metis of_nat_less_iff uint_nat)

lemma nth_upd_cases: "i < length xs \<Longrightarrow> xs[j := v] ! i = (if i = j then v else xs ! i)"
  by (simp add: nth_list_update)

lemma sum_list_map_upt: "sum_list (map f [0..<n]) = (\<Sum>i = 0..<n. f i)"
  by (simp add: interv_sum_list_conv_sum_set_nat)

lemma prefix_sum_mono:
  fixes f :: "nat \<Rightarrow> nat"
  shows "i \<le> k \<Longrightarrow> (\<Sum>j = 0..<i. f j) \<le> (\<Sum>j = 0..<k. f j)"
  by (rule sum_mono2) auto

text \<open>Consecutive intervals of the lengths \<open>f 0, f 1, \<dots>\<close> tile the numbers below their sum.\<close>

lemma prefix_sum_slot:
  fixes f :: "nat \<Rightarrow> nat"
  assumes "s < (\<Sum>j = 0..<n. f j)"
  shows "\<exists>!i. i < n \<and> (\<Sum>j = 0..<i. f j) \<le> s \<and> s < (\<Sum>j = 0..<i. f j) + f i"
proof (rule ex_ex1I)
  show "\<exists>i. i < n \<and> (\<Sum>j = 0..<i. f j) \<le> s \<and> s < (\<Sum>j = 0..<i. f j) + f i"
    using assms
  proof (induction n)
    case (Suc n)
    then show ?case by (cases "s < (\<Sum>j = 0..<n. f j)") (auto simp: less_Suc_eq)
  qed simp
next
  have le: "i \<le> k" if "(\<Sum>j = 0..<i. f j) \<le> s" "s < (\<Sum>j = 0..<k. f j) + f k" for i k
  proof (rule ccontr)
    assume "\<not> i \<le> k"
    then have "(\<Sum>j = 0..<Suc k. f j) \<le> (\<Sum>j = 0..<i. f j)" by (intro prefix_sum_mono) simp
    with that show False by simp
  qed
  fix i k
  assume "i < n \<and> (\<Sum>j = 0..<i. f j) \<le> s \<and> s < (\<Sum>j = 0..<i. f j) + f i"
    and "k < n \<and> (\<Sum>j = 0..<k. f j) \<le> s \<and> s < (\<Sum>j = 0..<k. f j) + f k"
  then show "i = k" using le [of i k] le [of k i] by simp
qed

end
