(* ===== verification/Ctx_Id_Tracker.thy ===== *)
theory Ctx_Id_Tracker
  imports PA_Prelude
begin

text \<open>
  The context-id trackers of \<open>ictx_id_tracker.h\<close> and its implementations
  (\<open>base_queue_ctx_id_tracker.h\<close>, \<open>fifo_ctx_id_tracker.h\<close>,
  \<open>concurrency_ctx_id_tracker.h\<close>, \<open>rand_ctx_id_tracker.h\<close>) and their factory.
  A worker takes an id before it sends a request and returns it when the request has
  completed. The interface is the locale \<open>id_tracker\<close>; the trackers built on a queue
  meet the stronger contract \<open>queue_id_tracker\<close>, from which it follows that no id is
  lost or invented however the requests complete.
\<close>

section \<open>The queue of free ids\<close>

text \<open>\<open>std::queue<size_t> free_ctx_ids_\<close>: the front of the queue is the head of the list.\<close>

record base_queue =
  free_ctx_ids :: "nat list"

definition bq_Restore :: "base_queue \<Rightarrow> nat \<Rightarrow> base_queue" where
  "bq_Restore q i = q\<lparr>free_ctx_ids := free_ctx_ids q @ [i]\<rparr>"

definition bq_IsAvailable :: "base_queue \<Rightarrow> bool" where
  "bq_IsAvailable q \<longleftrightarrow> length (free_ctx_ids q) > 0"

definition bq_Get :: "base_queue \<Rightarrow> exn + nat \<times> base_queue" where
  "bq_Get q =
     (if \<not> bq_IsAvailable q then Inl (RuntimeError ''free ctx id list is empty'')
      else Inr (hd (free_ctx_ids q), q\<lparr>free_ctx_ids := tl (free_ctx_ids q)\<rparr>))"

definition bq_Clear :: "base_queue \<Rightarrow> base_queue" where
  "bq_Clear q = q\<lparr>free_ctx_ids := []\<rparr>"

text \<open>The \<open>for\<close> loops of the two \<open>Reset\<close> functions: push one value per index below \<open>count\<close>.\<close>

fun bq_push_from :: "(nat \<Rightarrow> nat) \<Rightarrow> nat \<Rightarrow> nat \<Rightarrow> base_queue \<Rightarrow> base_queue" where
  "bq_push_from f i 0 q = q"
| "bq_push_from f i (Suc k) q = bq_push_from f (Suc i) k (bq_Restore q (f i))"

definition fifo_Reset :: "base_queue \<Rightarrow> nat \<Rightarrow> base_queue" where
  "fifo_Reset q cnt = bq_push_from (\<lambda>i. i) 0 cnt (bq_Clear q)"

definition concurrency_Reset :: "base_queue \<Rightarrow> nat \<Rightarrow> base_queue" where
  "concurrency_Reset q cnt = bq_push_from (\<lambda>_. 0) 0 cnt (bq_Clear q)"

section \<open>The random tracker\<close>

text \<open>
  \<open>std::uniform_int_distribution<uint64_t>(0, count - 1)\<close>: the upper end is computed in
  \<open>uint64_t\<close>. The generator is the argument \<open>uniform\<close>, which maps the two ends and the
  engine's state to a value and the next state.
\<close>

type_synonym 'g uniform = "u64 \<Rightarrow> u64 \<Rightarrow> 'g \<Rightarrow> u64 \<times> 'g"

record 'g rand_tracker =
  dist_max :: u64
  rng :: 'g

definition rand_Reset :: "'g rand_tracker \<Rightarrow> nat \<Rightarrow> 'g rand_tracker" where
  "rand_Reset t cnt = t\<lparr>dist_max := word_of_nat cnt - 1\<rparr>"

definition rand_Restore :: "'g rand_tracker \<Rightarrow> nat \<Rightarrow> 'g rand_tracker" where
  "rand_Restore t i = t"

definition rand_Get :: "'g uniform \<Rightarrow> 'g rand_tracker \<Rightarrow> exn + nat \<times> 'g rand_tracker" where
  "rand_Get uniform t =
     (let (r, g) = uniform 0 (dist_max t) (rng t) in Inr (unat r, t\<lparr>rng := g\<rparr>))"

definition rand_IsAvailable :: "'g rand_tracker \<Rightarrow> bool" where
  "rand_IsAvailable t \<longleftrightarrow> True"

section \<open>Dynamic dispatch and the factory\<close>

text \<open>A \<open>std::shared_ptr<ICtxIdTracker>\<close>: the object's class selects the operation.\<close>

datatype 'g ctx_id_tracker =
    FifoCtxIdTracker base_queue
  | ConcurrencyCtxIdTracker base_queue
  | RandCtxIdTracker "'g rand_tracker"

fun Reset :: "'g ctx_id_tracker \<Rightarrow> nat \<Rightarrow> 'g ctx_id_tracker" where
  "Reset (FifoCtxIdTracker q) n = FifoCtxIdTracker (fifo_Reset q n)"
| "Reset (ConcurrencyCtxIdTracker q) n = ConcurrencyCtxIdTracker (concurrency_Reset q n)"
| "Reset (RandCtxIdTracker t) n = RandCtxIdTracker (rand_Reset t n)"

fun Restore :: "'g ctx_id_tracker \<Rightarrow> nat \<Rightarrow> 'g ctx_id_tracker" where
  "Restore (FifoCtxIdTracker q) i = FifoCtxIdTracker (bq_Restore q i)"
| "Restore (ConcurrencyCtxIdTracker q) i = ConcurrencyCtxIdTracker (bq_Restore q i)"
| "Restore (RandCtxIdTracker t) i = RandCtxIdTracker (rand_Restore t i)"

fun Get :: "'g uniform \<Rightarrow> 'g ctx_id_tracker \<Rightarrow> exn + nat \<times> 'g ctx_id_tracker" where
  "Get u (FifoCtxIdTracker q) = bindR (bq_Get q) (\<lambda>(i, q'). Inr (i, FifoCtxIdTracker q'))"
| "Get u (ConcurrencyCtxIdTracker q) =
     bindR (bq_Get q) (\<lambda>(i, q'). Inr (i, ConcurrencyCtxIdTracker q'))"
| "Get u (RandCtxIdTracker t) = bindR (rand_Get u t) (\<lambda>(i, t'). Inr (i, RandCtxIdTracker t'))"

fun IsAvailable :: "'g ctx_id_tracker \<Rightarrow> bool" where
  "IsAvailable (FifoCtxIdTracker q) = bq_IsAvailable q"
| "IsAvailable (ConcurrencyCtxIdTracker q) = bq_IsAvailable q"
| "IsAvailable (RandCtxIdTracker t) = rand_IsAvailable t"

text \<open>
  A default-constructed queue is empty; a default-constructed distribution is over the
  whole range of \<open>uint64_t\<close>, and the engine starts in its default state \<open>g0\<close>.
\<close>

definition CreateTracker :: "'g \<Rightarrow> bool \<Rightarrow> bool \<Rightarrow> bool \<Rightarrow> 'g ctx_id_tracker" where
  "CreateTracker g0 is_concurrency is_sequence_model serial_sequences =
     (if is_concurrency then
        (if is_sequence_model then FifoCtxIdTracker \<lparr>free_ctx_ids = []\<rparr>
         else ConcurrencyCtxIdTracker \<lparr>free_ctx_ids = []\<rparr>)
      else
        (if is_sequence_model \<and> serial_sequences then FifoCtxIdTracker \<lparr>free_ctx_ids = []\<rparr>
         else RandCtxIdTracker \<lparr>dist_max = - 1, rng = g0\<rparr>))"

section \<open>The interface and its contracts\<close>

text \<open>What every tracker promises: \<open>Get\<close> returns an id exactly when one is available.\<close>

locale id_tracker =
  fixes restore :: "'t \<Rightarrow> nat \<Rightarrow> 't"
    and get :: "'t \<Rightarrow> exn + nat \<times> 't"
    and available :: "'t \<Rightarrow> bool"
  assumes get_iff: "available t \<longleftrightarrow> (\<exists>i t'. get t = Inr (i, t'))"
begin

lemma get_fails_iff: "\<not> available t \<longleftrightarrow> (\<exists>e. get t = Inl e)"
  using get_iff [of t] by (cases "get t") auto

text \<open>
  The use a worker makes of a tracker: take an id, or return one of the ids it holds.
  The second component of the state is the multiset of ids held by requests in flight.
\<close>

inductive use_step :: "'t \<times> nat multiset \<Rightarrow> 't \<times> nat multiset \<Rightarrow> bool" where
  take: "get t = Inr (i, t') \<Longrightarrow> use_step (t, out) (t', add_mset i out)"
| return: "i \<in># out \<Longrightarrow> use_step (t, out) (restore t i, out - {#i#})"

end

text \<open>What a tracker on a queue promises beyond that: the ids it holds are a queue.\<close>

locale queue_id_tracker = id_tracker +
  fixes ids :: "'a \<Rightarrow> nat list"
  assumes ids_restore: "ids (restore t i) = ids t @ [i]"
    and get_ids: "get t = Inr (i, t') \<longleftrightarrow> ids t = i # ids t' \<and> get t = Inr (i, t')"
    and get_nonempty: "ids t \<noteq> [] \<longleftrightarrow> available t"
begin

lemma use_step_conserves:
  "use_step s s' \<Longrightarrow> mset (ids (fst s')) + snd s' = mset (ids (fst s)) + snd s"
proof (induction rule: use_step.induct)
  case (take t i t' out)
  then have "ids t = i # ids t'" using get_ids by blast
  then show ?case by simp
next
  case (return i out t)
  then show ?case by (simp add: ids_restore)
qed

lemma uses_conserve:
  "use_step\<^sup>*\<^sup>* s s' \<Longrightarrow> mset (ids (fst s')) + snd s' = mset (ids (fst s)) + snd s"
  by (induction rule: rtranclp_induct) (auto dest: use_step_conserves)

lemma outstanding_bounded:
  assumes "use_step\<^sup>*\<^sup>* (t, {#}) (t', out)"
  shows "size out \<le> length (ids t)"
  using arg_cong [OF uses_conserve [OF assms], of size] by simp

lemma blocked_iff_all_out:
  assumes "use_step\<^sup>*\<^sup>* (t, {#}) (t', out)"
  shows "\<not> available t' \<longleftrightarrow> out = mset (ids t)"
  using uses_conserve [OF assms] get_nonempty [of t']
  by (metis add_cancel_left_left fst_conv mset_zero_iff snd_conv add.right_neutral)

end

section \<open>The trackers meet the contracts\<close>

lemma bq_push_from_ids:
  "free_ctx_ids (bq_push_from f i k q) = free_ctx_ids q @ map f [i..<i + k]"
proof (induction k arbitrary: i q)
  case (Suc k)
  show ?case by (simp add: Suc bq_Restore_def upt_conv_Cons del: upt_Suc)
qed simp

lemma fifo_Reset_ids [simp]: "free_ctx_ids (fifo_Reset q n) = [0..<n]"
  by (simp add: fifo_Reset_def bq_push_from_ids bq_Clear_def)

lemma concurrency_Reset_ids [simp]: "free_ctx_ids (concurrency_Reset q n) = replicate n 0"
  by (simp add: concurrency_Reset_def bq_push_from_ids bq_Clear_def map_replicate_const)

interpretation bq: queue_id_tracker bq_Restore bq_Get bq_IsAvailable free_ctx_ids
proof
  show "bq_IsAvailable q \<longleftrightarrow> (\<exists>i q'. bq_Get q = Inr (i, q'))" for q :: base_queue
    by (simp add: bq_Get_def)
  show "free_ctx_ids (bq_Restore q i) = free_ctx_ids q @ [i]" for q :: base_queue and i
    by (simp add: bq_Restore_def)
  show "bq_Get q = Inr (i, q') \<longleftrightarrow>
      free_ctx_ids q = i # free_ctx_ids q' \<and> bq_Get q = Inr (i, q')" for q :: base_queue and i q'
    by (auto simp: bq_Get_def bq_IsAvailable_def split: if_splits)
  show "free_ctx_ids q \<noteq> [] \<longleftrightarrow> bq_IsAvailable q" for q :: base_queue
    by (simp add: bq_IsAvailable_def)
qed

interpretation any: id_tracker Restore "Get u" IsAvailable for u :: "'g uniform"
proof
  fix t :: "'g ctx_id_tracker"
  show "IsAvailable t \<longleftrightarrow> (\<exists>i t'. Get u t = Inr (i, t'))"
    by (cases t) (auto simp: bindR_Inr_conv bq.get_iff rand_Get_def rand_IsAvailable_def
        split: prod.splits)
qed

text \<open>The ids held by a tracker object, for the classes that keep a queue.\<close>

fun queue_of :: "'g ctx_id_tracker \<Rightarrow> nat list" where
  "queue_of (FifoCtxIdTracker q) = free_ctx_ids q"
| "queue_of (ConcurrencyCtxIdTracker q) = free_ctx_ids q"
| "queue_of (RandCtxIdTracker t) = []"

section \<open>A worker's use of its tracker\<close>

text \<open>
  \<open>LoadWorker::GetCtxId\<close>, and \<open>RestoreFreeCtxId\<close> or \<open>AsyncCallbackFinalize\<close> for an id a
  request in flight holds, in any order.
\<close>

inductive worker_step ::
  "'g uniform \<Rightarrow> 'g ctx_id_tracker \<times> nat multiset \<Rightarrow> 'g ctx_id_tracker \<times> nat multiset \<Rightarrow> bool"
  for u :: "'g uniform" where
  get_ctx_id: "Get u t = Inr (i, t') \<Longrightarrow> worker_step u (t, out) (t', add_mset i out)"
| restore_ctx_id: "i \<in># out \<Longrightarrow> worker_step u (t, out) (Restore t i, out - {#i#})"

inductive_cases worker_stepE: "worker_step u (t, out) s'"

text \<open>The queue inside a tracker of one of the two queue classes.\<close>

fun wrap :: "bool \<Rightarrow> base_queue \<Rightarrow> 'g ctx_id_tracker" where
  "wrap True q = FifoCtxIdTracker q"
| "wrap False q = ConcurrencyCtxIdTracker q"

lemma wrap_step:
  assumes "worker_step u (wrap b q, out) (t', out')"
  shows "\<exists>q'. t' = wrap b q' \<and> bq.use_step (q, out) (q', out')"
  using assms
proof (rule worker_stepE)
  fix i t2 assume "Get u (wrap b q) = Inr (i, t2)" and "(t', out') = (t2, add_mset i out)"
  then show ?thesis
    by (cases b) (auto simp: bindR_Inr_conv intro: bq.use_step.take)
next
  fix i assume "i \<in># out" and "(t', out') = (Restore (wrap b q) i, out - {#i#})"
  then show ?thesis
    by (cases b) (auto intro: bq.use_step.return)
qed

lemma wrap_steps:
  assumes "(worker_step u)\<^sup>*\<^sup>* s s'"
  shows "fst s = wrap b q \<Longrightarrow>
    \<exists>q'. fst s' = wrap b q' \<and> bq.use_step\<^sup>*\<^sup>* (q, snd s) (q', snd s')"
  using assms
proof (induction rule: rtranclp_induct)
  case (step s1 s2)
  then obtain q1 where q1: "fst s1 = wrap b q1" "bq.use_step\<^sup>*\<^sup>* (q, snd s) (q1, snd s1)" by blast
  from step.hyps(2) q1(1) have "worker_step u (wrap b q1, snd s1) (fst s2, snd s2)"
    by (metis prod.collapse)
  from wrap_step [OF this] obtain q2 where "fst s2 = wrap b q2"
    "bq.use_step (q1, snd s1) (q2, snd s2)" by blast
  with q1(2) show ?case by (auto intro: rtranclp.rtrancl_into_rtrancl)
qed auto

lemma wrap_conserves:
  assumes "(worker_step u)\<^sup>*\<^sup>* (wrap b q, {#}) (t', out)"
  shows "mset (queue_of t') + out = mset (free_ctx_ids q)"
    and "IsAvailable t' \<longleftrightarrow> queue_of t' \<noteq> []"
proof -
  from wrap_steps [OF assms, of b q] obtain q' where q': "t' = wrap b q'"
    "bq.use_step\<^sup>*\<^sup>* (q, {#}) (q', out)" by auto
  have "mset (free_ctx_ids q') + out = mset (free_ctx_ids q)"
    using bq.uses_conserve [OF q'(2)] by simp
  with q'(1) show "mset (queue_of t') + out = mset (free_ctx_ids q)"
    and "IsAvailable t' \<longleftrightarrow> queue_of t' \<noteq> []"
    by (cases b; simp add: bq_IsAvailable_def)+
qed

text \<open>
  C2: In concurrency mode the ids the tracker holds and the ids of the requests in flight
  together are always exactly the ids it was reset with (each of \<open>0..n-1\<close> once for a
  sequence model, \<open>n\<close> times 0 otherwise), whatever the order in which requests are sent
  and completed. So there are never more than \<open>n\<close> requests in flight, two requests of a
  sequence worker never share a context, and a further request can be sent exactly when
  fewer than \<open>n\<close> are in flight.
\<close>

theorem concurrency_never_exceeded:
  assumes "(worker_step u)\<^sup>*\<^sup>* (Reset (CreateTracker g0 True is_seq serial) n, {#}) (t', out)"
  shows "mset (queue_of t') + out = (if is_seq then mset [0..<n] else replicate_mset n 0) \<and>
    size out \<le> n \<and> (is_seq \<longrightarrow> (\<forall>i. count out i \<le> 1)) \<and> (IsAvailable t' \<longleftrightarrow> size out < n)"
proof -
  define q where "q = (if is_seq then fifo_Reset \<lparr>free_ctx_ids = []\<rparr> n
    else concurrency_Reset \<lparr>free_ctx_ids = []\<rparr> n)"
  have "Reset (CreateTracker g0 True is_seq serial) n = wrap is_seq q"
    by (cases is_seq) (simp_all add: CreateTracker_def q_def)
  with assms have run: "(worker_step u)\<^sup>*\<^sup>* (wrap is_seq q, {#}) (t', out)" by simp
  have tot: "mset (queue_of t') + out = (if is_seq then mset [0..<n] else replicate_mset n 0)"
    using wrap_conserves(1) [OF run] by (simp add: q_def)
  have sz: "length (queue_of t') + size out = n"
    using arg_cong [OF tot, of size] by (simp split: if_splits)
  moreover have "IsAvailable t' \<longleftrightarrow> size out < n"
    using wrap_conserves(2) [OF run] sz by (cases "queue_of t'") auto
  moreover have "is_seq \<longrightarrow> (\<forall>i. count out i \<le> 1)"
  proof (intro impI allI)
    fix i assume is_seq
    then have "count (mset (queue_of t')) i + count out i = count (mset [0..<n]) i"
      using arg_cong [OF tot, of "\<lambda>M. count M i"] by simp
    moreover have "count (mset [0..<n]) i \<le> 1"
      by (simp only: distinct_count_atmost_1 [THEN iffD1, OF distinct_upt, rule_format]) simp
    ultimately show "count out i \<le> 1" by linarith
  qed
  ultimately show ?thesis using tot by simp
qed

theorem concurrency_never_exceeded_witness:
  "mset (queue_of (FifoCtxIdTracker \<lparr>free_ctx_ids = [1]\<rparr> :: unit ctx_id_tracker)) + {#0#}
     = mset [0..<2] \<and> size {#0 :: nat#} \<le> 2 \<and>
   IsAvailable (FifoCtxIdTracker \<lparr>free_ctx_ids = [1]\<rparr> :: unit ctx_id_tracker)"
proof -
  let ?u = "(\<lambda>a b g. (a, g)) :: unit uniform"
  have "worker_step ?u (Reset (CreateTracker () True True False) 2, {#})
     (FifoCtxIdTracker \<lparr>free_ctx_ids = [1]\<rparr>, add_mset 0 {#})"
    by (rule worker_step.get_ctx_id)
       (simp add: CreateTracker_def bq_Get_def bq_IsAvailable_def upt_conv_Cons)
  then have "(worker_step ?u)\<^sup>*\<^sup>* (Reset (CreateTracker () True True False) 2, {#})
     (FifoCtxIdTracker \<lparr>free_ctx_ids = [1]\<rparr>, add_mset 0 {#})" by (rule r_into_rtranclp)
  from concurrency_never_exceeded [OF this] show ?thesis by simp
qed

text \<open>
  With a generator that respects the ends of a uniform distribution, the random
  tracker returns only ids of existing contexts once it has been reset with a positive
  count, is always available and forgets nothing when an id is restored.
\<close>

theorem rand_tracker_in_range:
  assumes "\<forall>a b g. a \<le> b \<longrightarrow> a \<le> fst (u a b g) \<and> fst (u a b g) \<le> b"
    and "0 < n" and "n < 2 ^ 64"
  shows "\<exists>i t'. Get u (Reset (RandCtxIdTracker t) n) = Inr (i, t') \<and> i < n \<and>
    IsAvailable t' \<and> Restore t' i = t'"
proof -
  let ?hi = "word_of_nat n - 1 :: u64"
  have n0: "(word_of_nat n :: u64) \<noteq> 0"
    using assms(2,3) by (simp add: word_of_nat_eq_0_iff) (metis nat_dvd_not_less)
  have hi: "unat ?hi = n - 1"
  proof -
    have "unat (word_of_nat n :: u64) = n" using assms(3) by (simp add: unat_of_nat take_bit_nat_eq_self)
    then show ?thesis using n0 by (simp add: unat_minus_one)
  qed
  obtain r g where rg: "u 0 ?hi (rng t) = (r, g)" by fastforce
  with assms(1) have "r \<le> ?hi" by (metis fst_conv word_zero_le)
  then have "unat r < n" using hi assms(2) by (simp add: word_le_nat_alt)
  with rg show ?thesis
    by (auto simp: rand_Reset_def rand_Get_def rand_Restore_def rand_IsAvailable_def)
qed

theorem rand_tracker_in_range_witness:
  "\<exists>i t'. Get (\<lambda>a b g. (b, g)) (Reset (RandCtxIdTracker \<lparr>dist_max = - 1, rng = ()\<rparr>) 5) = Inr (i, t')
     \<and> i < 5 \<and> IsAvailable t' \<and> Restore t' i = t'"
  by (rule rand_tracker_in_range) auto

end
