(* ===== verification/Rate_Schedule.thy ===== *)
theory Rate_Schedule
  imports PA_Prelude
begin

text \<open>
  \<open>RateSchedule\<close> of \<open>rate_schedule.h\<close>, the timetable a request-rate worker follows, and
  \<open>IdleTimer\<close> of \<open>idle_timer.h\<close>, which measures how long a worker was not working.
\<close>

section \<open>Nanoseconds\<close>

text \<open>
  A \<open>std::chrono::nanoseconds\<close> has a signed 64-bit count. The sum of two durations is undefined
  when it does not fit; a count computed in \<open>uint64_t\<close> and converted back is taken modulo
  \<open>2 ^ 64\<close>.
\<close>

definition nanos_ok :: "int \<Rightarrow> bool" where
  "nanos_ok t \<longleftrightarrow> - (2 ^ 63) \<le> t \<and> t < 2 ^ 63"

definition nanos_checked :: "int \<Rightarrow> exn + nanos" where
  "nanos_checked t = (if nanos_ok t then Inr t else Inl (UndefinedBehaviour ''signed overflow''))"

definition nanos_wrap :: "int \<Rightarrow> nanos" where
  "nanos_wrap t = sint (word_of_int t :: u64)"

lemma nanos_wrap_ok: "nanos_ok t \<Longrightarrow> nanos_wrap t = t"
  by (simp add: nanos_ok_def nanos_wrap_def sint_uint uint_word_of_int signed_take_bit_eq_take_bit_shift)
     (simp add: take_bit_eq_mod mod_simps mod_pos_pos_trivial)

lemma nanos_checked_ok: "nanos_ok t \<Longrightarrow> nanos_checked t = Inr t"
  by (simp add: nanos_checked_def)

section \<open>The rate schedule\<close>

record rate_schedule =
  intervals :: "nanos list"
  duration :: nanos
  rounds :: nat
  index :: nat

text \<open>A value-initialised \<open>RateSchedule\<close>.\<close>

definition empty_schedule :: rate_schedule where
  "empty_schedule = \<lparr>intervals = [], duration = 0, rounds = 0, index = 0\<rparr>"

text \<open>
  \<open>duration * rounds_\<close> multiplies a signed count by a \<open>size_t\<close>: the product and the sum are
  unsigned, and the conversion of the result to \<open>nanoseconds\<close> wraps.
\<close>

definition Next :: "rate_schedule \<Rightarrow> exn + nanos \<times> rate_schedule" where
  "Next s =
     bindR (vec_index (intervals s) (index s)) (\<lambda>iv.
       let next = nanos_wrap (iv + duration s * int (rounds s));
           s1 = s\<lparr>index := Suc (index s)\<rparr>;
           s2 = (if index s1 \<ge> length (intervals s1)
                 then s1\<lparr>rounds := Suc (rounds s1), index := 0\<rparr> else s1)
       in Inr (next, s2))"

text \<open>The timestamps of the first \<open>k\<close> calls.\<close>

fun Nexts :: "nat \<Rightarrow> rate_schedule \<Rightarrow> exn + nanos list \<times> rate_schedule" where
  "Nexts 0 s = Inr ([], s)"
| "Nexts (Suc k) s =
     bindR (Next s) (\<lambda>(t, s'). bindR (Nexts k s') (\<lambda>(ts, s''). Inr (t # ts, s'')))"

text \<open>The position of a schedule: how many calls of \<open>Next\<close> led to it.\<close>

definition schedule_pos :: "rate_schedule \<Rightarrow> nat" where
  "schedule_pos s = rounds s * length (intervals s) + index s"

definition schedule_ok :: "rate_schedule \<Rightarrow> bool" where
  "schedule_ok s \<longleftrightarrow> index s < length (intervals s)"

text \<open>The timestamp of the \<open>k\<close>-th call: the intervals repeated, shifted by the duration.\<close>

definition timestamp_at :: "nanos list \<Rightarrow> nanos \<Rightarrow> nat \<Rightarrow> nanos" where
  "timestamp_at iv d k = iv ! (k mod length iv) + d * int (k div length iv)"

lemma Next_ok:
  assumes "schedule_ok s"
  obtains s' where "Next s = Inr (nanos_wrap (timestamp_at (intervals s) (duration s) (schedule_pos s)), s')"
    and "schedule_ok s'" and "intervals s' = intervals s" and "duration s' = duration s"
    and "schedule_pos s' = Suc (schedule_pos s)"
proof -
  have lt: "index s < length (intervals s)" using assms by (simp add: schedule_ok_def)
  have "schedule_pos s mod length (intervals s) = index s"
    and "schedule_pos s div length (intervals s) = rounds s"
    using lt by (simp_all add: schedule_pos_def)
  then have t: "intervals s ! index s + duration s * int (rounds s) =
      timestamp_at (intervals s) (duration s) (schedule_pos s)"
    by (simp add: timestamp_at_def)
  let ?s1 = "s\<lparr>index := Suc (index s)\<rparr>"
  let ?s2 = "if index ?s1 \<ge> length (intervals ?s1)
                 then ?s1\<lparr>rounds := Suc (rounds ?s1), index := 0\<rparr> else ?s1"
  have "Next s = Inr (nanos_wrap (timestamp_at (intervals s) (duration s) (schedule_pos s)), ?s2)"
    using lt by (simp add: Next_def t [symmetric] Let_def)
  moreover have "schedule_ok ?s2" "intervals ?s2 = intervals s" "duration ?s2 = duration s"
    "schedule_pos ?s2 = Suc (schedule_pos s)"
    using lt by (auto simp: schedule_ok_def schedule_pos_def)
  ultimately show thesis using that by blast
qed

lemma Nexts_ok:
  assumes "schedule_ok s"
  shows "\<exists>s'. Nexts k s =
      Inr (map (\<lambda>j. nanos_wrap (timestamp_at (intervals s) (duration s) j))
            [schedule_pos s..<schedule_pos s + k], s') \<and>
      schedule_ok s' \<and> intervals s' = intervals s \<and> duration s' = duration s \<and>
      schedule_pos s' = schedule_pos s + k"
  using assms
proof (induction k arbitrary: s)
  case (Suc k)
  obtain s1 where s1: "Next s = Inr (nanos_wrap (timestamp_at (intervals s) (duration s) (schedule_pos s)), s1)"
    "schedule_ok s1" "intervals s1 = intervals s" "duration s1 = duration s"
    "schedule_pos s1 = Suc (schedule_pos s)"
    using Next_ok [OF Suc.prems] by blast
  from Suc.IH [OF s1(2)] s1 show ?case by (auto simp: upt_conv_Cons simp del: upt_Suc)
qed simp

lemma timestamp_at_mono:
  assumes "sorted iv" and "iv \<noteq> []" and "last iv \<le> d" and "0 \<le> hd iv" and "j \<le> k"
  shows "timestamp_at iv d j \<le> timestamp_at iv d k"
proof (cases "j div length iv = k div length iv")
  case True
  then have "j mod length iv \<le> k mod length iv"
    using \<open>j \<le> k\<close> by (metis add_le_cancel_left mult_div_mod_eq)
  then have "iv ! (j mod length iv) \<le> iv ! (k mod length iv)"
    using assms(1,2) by (simp add: sorted_nth_mono)
  with True show ?thesis by (simp add: timestamp_at_def)
next
  case False
  then have lt: "j div length iv + 1 \<le> k div length iv"
    using \<open>j \<le> k\<close> div_le_mono [of j k "length iv"] by simp
  have a: "iv ! (j mod length iv) \<le> d"
    using assms(1-3) sorted_nth_mono [of iv "j mod length iv" "length iv - 1"]
      mod_less_divisor [of "length iv" j]
    by (simp add: last_conv_nth less_Suc_eq_le [symmetric])
  have b: "0 \<le> iv ! (k mod length iv)"
    using assms(1,2,4) sorted_nth_mono [of iv 0 "k mod length iv"] by (simp add: hd_conv_nth)
  have "0 \<le> hd iv \<and> hd iv \<le> last iv"
    using assms(1,2,4) sorted_nth_mono [of iv 0 "length iv - 1"]
    by (simp add: hd_conv_nth last_conv_nth)
  then have "0 \<le> d" using assms(3) by simp
  then have "d * int (j div length iv + 1) \<le> d * int (k div length iv)"
    using lt by (intro mult_left_mono) auto
  with a b show ?thesis by (simp add: timestamp_at_def algebra_simps)
qed

section \<open>The idle timer\<close>

text \<open>
  \<open>idle_ns_\<close> is a \<open>uint64_t\<close>; a time point of the steady clock is a count of nanoseconds.
  Every operation that reads the clock takes the reading as its argument; an operation
  that reads it twice takes both readings.
\<close>

record idle_timer =
  idle_ns :: u64
  is_idle :: bool
  timer_start :: nanos

definition new_timer :: idle_timer where
  "new_timer = \<lparr>idle_ns = 0, is_idle = False, timer_start = 0\<rparr>"

definition StartImpl :: "nanos \<Rightarrow> idle_timer \<Rightarrow> exn + idle_timer" where
  "StartImpl now t =
     (if is_idle t then Inl (RuntimeError (''Can't start a timer that is already active'' @ [CHR 0x0A]))
      else Inr (t\<lparr>is_idle := True, timer_start := now\<rparr>))"

definition StopImpl :: "nanos \<Rightarrow> idle_timer \<Rightarrow> exn + idle_timer" where
  "StopImpl now t =
     (if \<not> is_idle t then Inl (RuntimeError (''Can't stop a timer that isn't active'' @ [CHR 0x0A]))
      else Inr (t\<lparr>is_idle := False,
                  idle_ns := idle_ns t + word_of_int (now - timer_start t)\<rparr>))"

definition Start :: "nanos \<Rightarrow> idle_timer \<Rightarrow> exn + idle_timer" where
  "Start now t = StartImpl now t"

definition Stop :: "nanos \<Rightarrow> idle_timer \<Rightarrow> exn + idle_timer" where
  "Stop now t = StopImpl now t"

definition Restart :: "nanos \<Rightarrow> nanos \<Rightarrow> idle_timer \<Rightarrow> exn + idle_timer" where
  "Restart now1 now2 t =
     (if is_idle t then bindR (StopImpl now1 t) (StartImpl now2) else Inr t)"

definition ResetTimer :: "nanos \<Rightarrow> nanos \<Rightarrow> idle_timer \<Rightarrow> exn + idle_timer" where
  "ResetTimer now1 now2 t = bindR (Restart now1 now2 t) (\<lambda>t'. Inr (t'\<lparr>idle_ns := 0\<rparr>))"

definition GetIdleTime :: "nanos \<Rightarrow> nanos \<Rightarrow> idle_timer \<Rightarrow> exn + u64 \<times> idle_timer" where
  "GetIdleTime now1 now2 t = bindR (Restart now1 now2 t) (\<lambda>t'. Inr (idle_ns t', t'))"

lemmas timer_defs = StartImpl_def StopImpl_def Start_def Stop_def Restart_def
  ResetTimer_def GetIdleTime_def

lemma Restart_total: "\<exists>t'. Restart now1 now2 t = Inr t'"
  by (simp add: timer_defs)

text \<open>A timetable of idle periods \<open>(from, to)\<close> run through the timer.\<close>

fun idle_periods :: "(nanos \<times> nanos) list \<Rightarrow> idle_timer \<Rightarrow> exn + idle_timer" where
  "idle_periods [] t = Inr t"
| "idle_periods ((a, b) # ps) t =
     bindR (Start a t) (\<lambda>t1. bindR (Stop b t1) (\<lambda>t2. idle_periods ps t2))"

lemma idle_periods_sum:
  assumes "\<not> is_idle t"
  shows "\<exists>t'. idle_periods ps t = Inr t' \<and> \<not> is_idle t' \<and>
    idle_ns t' = idle_ns t + word_of_int (\<Sum>(a, b)\<leftarrow>ps. b - a)"
  using assms
proof (induction ps arbitrary: t)
  case (Cons p ps)
  obtain a b where p: "p = (a, b)" by (cases p)
  let ?t1 = "t\<lparr>is_idle := True, timer_start := a\<rparr>"
  let ?t2 = "?t1\<lparr>is_idle := False, idle_ns := idle_ns t + word_of_int (b - a)\<rparr>"
  have "idle_periods (p # ps) t = idle_periods ps ?t2"
    using Cons.prems by (simp add: p timer_defs)
  then show ?case
    using Cons.IH [of ?t2] by (auto simp: p of_int_add)
qed simp

section \<open>Properties\<close>

text \<open>
  A worker that follows a schedule with \<open>n > 0\<close> intervals gets, at its \<open>k\<close>-th call of
  \<open>Next\<close>, the interval \<open>k mod n\<close> shifted by \<open>k div n\<close> durations, modulo \<open>2 ^ 64\<close>, for any
  number of calls; no call reads outside the vector.
\<close>

theorem schedule_repeats:
  assumes "intervals s \<noteq> []" and "index s = 0" and "rounds s = 0"
  shows "\<exists>s'. Nexts k s =
    Inr (map (\<lambda>j. nanos_wrap (intervals s ! (j mod length (intervals s)) +
                  duration s * int (j div length (intervals s)))) [0..<k], s')"
proof -
  have "schedule_ok s" "schedule_pos s = 0"
    using assms by (simp_all add: schedule_ok_def schedule_pos_def)
  with Nexts_ok [of s k] show ?thesis by (auto simp: timestamp_at_def)
qed

theorem schedule_repeats_witness:
  "\<exists>s'. Nexts 3 \<lparr>intervals = [5, 9], duration = 10, rounds = 0, index = 0\<rparr> = Inr ([5, 9, 15], s')"
  using schedule_repeats [of "\<lparr>intervals = [5, 9], duration = 10, rounds = 0, index = 0\<rparr>" 3]
  by (simp add: upt_conv_Cons numeral_3_eq_3 nanos_wrap_ok nanos_ok_def)

text \<open>
  When the intervals are sorted and none is negative or beyond the duration, the
  timestamps a worker is given never go back, as long as they fit 64 bits.
\<close>

theorem schedule_monotone:
  assumes "intervals s \<noteq> []" and "index s = 0" and "rounds s = 0"
    and "sorted (intervals s)" and "0 \<le> hd (intervals s)" and "last (intervals s) \<le> duration s"
    and "Nexts k s = Inr (ts, s')"
    and "\<forall>j < k. nanos_ok (timestamp_at (intervals s) (duration s) j)"
  shows "sorted ts"
proof -
  have "schedule_ok s" "schedule_pos s = 0"
    using assms(1-3) by (simp_all add: schedule_ok_def schedule_pos_def)
  with Nexts_ok [of s k] assms(7)
  have "ts = map (\<lambda>j. nanos_wrap (timestamp_at (intervals s) (duration s) j)) [0..<k]" by auto
  then have ts: "ts = map (timestamp_at (intervals s) (duration s)) [0..<k]"
    using assms(8) by (simp add: nanos_wrap_ok)
  show ?thesis
    unfolding ts sorted_iff_nth_mono
    using timestamp_at_mono [OF assms(4,1,6,5)] by simp
qed

theorem schedule_monotone_witness:
  "sorted (fst (projr (Nexts 3 \<lparr>intervals = [5, 9], duration = 10, rounds = 0, index = 0\<rparr>)))"
proof -
  obtain ts s' where n: "Nexts 3 \<lparr>intervals = [5, 9], duration = 10, rounds = 0, index = 0\<rparr> = Inr (ts, s')"
    by (simp add: numeral_3_eq_3 Next_def vec_index_def)
  then have "sorted ts"
    by (rule schedule_monotone [rotated 6]) (simp_all add: less_Suc_eq numeral_3_eq_3 timestamp_at_def nanos_ok_def)
  with n show ?thesis by simp
qed

text \<open>
  After any number of idle periods the timer has counted the sum of their lengths,
  modulo the width of its counter; starting an active timer and stopping an inactive one
  raise, and change nothing.
\<close>

theorem idle_timer_counts:
  assumes "\<not> is_idle t"
  shows "\<exists>t'. idle_periods ps t = Inr t' \<and> \<not> is_idle t' \<and>
      idle_ns t' = idle_ns t + word_of_int (\<Sum>(a, b)\<leftarrow>ps. b - a) \<and>
      (\<exists>e. Stop now t' = Inl (RuntimeError e)) \<and>
      (\<exists>t1 e. Start a t' = Inr t1 \<and> Start b t1 = Inl (RuntimeError e))"
  using idle_periods_sum [OF assms] assms by (auto simp: timer_defs)

theorem idle_timer_counts_witness:
  "\<exists>t'. idle_periods [(1, 4), (10, 12)] new_timer = Inr t' \<and> idle_ns t' = 5"
  using idle_timer_counts [of new_timer "[(1, 4), (10, 12)]" 0 0 0]
  by (simp add: new_timer_def del: idle_periods.simps) blast

text \<open>
  Asking for the idle time in the middle of an idle period returns what has been
  counted up to the question and, when the period ends, the total is short by exactly the
  time between the two clock readings of the question; a reset in the middle leaves only
  the rest of the period.
\<close>

theorem idle_timer_query_neutral:
  assumes "is_idle t"
  shows "\<exists>t1 t2. GetIdleTime n1 n2 t = Inr (idle_ns t + word_of_int (n1 - timer_start t), t1) \<and>
      Stop b t1 = Inr t2 \<and>
      idle_ns t2 = idle_ns t + word_of_int ((b - timer_start t) - (n2 - n1)) \<and>
    (\<exists>t1 t2. ResetTimer n1 n2 t = Inr t1 \<and> Stop b t1 = Inr t2 \<and> idle_ns t2 = word_of_int (b - n2))"
  using assms by (auto simp: timer_defs of_int_diff)

theorem idle_timer_query_neutral_witness:
  "\<exists>t1 t2. GetIdleTime 7 8 \<lparr>idle_ns = 3, is_idle = True, timer_start = 2\<rparr> = Inr (8, t1) \<and>
      Stop 20 t1 = Inr t2 \<and> idle_ns t2 = 20"
  using idle_timer_query_neutral [of "\<lparr>idle_ns = 3, is_idle = True, timer_start = 2\<rparr>" 7 8 20]
  by simp blast

end
