(* ===== verification/Ieee_Float.thy ===== *)
theory Ieee_Float
  imports Complex_Main PA_Prelude
begin

text \<open>
  The C++ types \<open>double\<close> and \<open>float\<close>: IEEE 754 binary formats with rounding to nearest,
  ties to even, over exact rationals. A value is a finite rational, an infinity or not a
  number; the two zeros are one value, and \<open>x / 0\<close> for \<open>x \<noteq> 0\<close> takes the sign of \<open>x\<close>.
  Every operation is computed exactly and rounded once, as the standard prescribes.
  The lemmas are that rounding is monotone and exact on the numbers of the format, which
  is what the bounds on rounded computations in the components rest on.
\<close>

section \<open>Rounding to nearest even\<close>

definition rne :: "rat \<Rightarrow> int" where
  "rne q = (let f = \<lfloor>q\<rfloor>; r = q - of_int f in
     if r < 1 / 2 then f else if r > 1 / 2 then f + 1 else if even f then f else f + 1)"

lemma rne_of_int [simp]: "rne (of_int i) = i"
  by (simp add: rne_def)

lemma rne_bounds: "\<lfloor>q\<rfloor> \<le> rne q" "rne q \<le> \<lfloor>q\<rfloor> + 1"
  by (auto simp: rne_def Let_def)

lemma rne_mono:
  assumes "a \<le> b"
  shows "rne a \<le> rne b"
proof (cases "\<lfloor>a\<rfloor> = \<lfloor>b\<rfloor>")
  case True
  with assms show ?thesis by (auto simp: rne_def Let_def)
next
  case False
  then have "\<lfloor>a\<rfloor> + 1 \<le> \<lfloor>b\<rfloor>" using floor_mono [OF assms] by simp
  with rne_bounds [of a] rne_bounds [of b] show ?thesis by simp
qed

section \<open>The binary exponent\<close>

fun nlog2 :: "nat \<Rightarrow> nat" where
  "nlog2 n = (if n < 2 then 0 else Suc (nlog2 (n div 2)))"

declare nlog2.simps [simp del]

lemma nlog2_bounds: "0 < n \<Longrightarrow> 2 ^ nlog2 n \<le> n \<and> n < 2 ^ Suc (nlog2 n)"
proof (induction n rule: nlog2.induct)
  case (1 n)
  show ?case
  proof (cases "n < 2")
    case True
    with "1.prems" show ?thesis by (simp add: nlog2.simps [of n])
  next
    case False
    then have "2 ^ nlog2 (n div 2) \<le> n div 2 \<and> n div 2 < 2 ^ Suc (nlog2 (n div 2))"
      using "1.IH" by simp
    then have "2 * 2 ^ nlog2 (n div 2) \<le> n" "n < 2 * (2 * 2 ^ nlog2 (n div 2))"
      by (auto simp del: div_le_dividend)
    with False show ?thesis by (simp add: nlog2.simps [of n])
  qed
qed

text \<open>The exponent \<open>e\<close> with \<open>2\<^sup>e \<le> x < 2\<^sup>e\<^sup>+\<^sup>1\<close> of a positive rational.\<close>

definition ilog2 :: "rat \<Rightarrow> int" where
  "ilog2 x = (let (n, d) = quotient_of x;
                  e = int (nlog2 (nat n)) - int (nlog2 (nat d))
              in if 2 powi e \<le> x then e else e - 1)"

lemma ilog2_bounds:
  assumes "0 < x"
  shows "2 powi ilog2 x \<le> x" and "x < 2 powi (ilog2 x + 1)"
proof -
  obtain n d where q: "quotient_of x = (n, d)" by fastforce
  have d: "0 < d" using quotient_of_denom_pos [OF q] .
  have x: "x = of_int n / of_int d" using quotient_of_div [OF q] .
  have n: "0 < n" using assms d by (simp add: x zero_less_divide_iff)
  define a b where "a = nlog2 (nat n)" and "b = nlog2 (nat d)"
  have "2 ^ a \<le> nat n \<and> nat n < 2 ^ Suc a" using nlog2_bounds [of "nat n"] n a_def by simp
  then have "2 ^ a \<le> n \<and> n < 2 ^ Suc a" using n by (simp add: nat_less_iff le_nat_iff)
  then have nn: "2 ^ a \<le> (of_int n :: rat)" "(of_int n :: rat) < 2 ^ Suc a"
    by (metis of_int_le_iff of_int_numeral of_int_power, metis of_int_less_iff of_int_numeral of_int_power)
  have "2 ^ b \<le> nat d \<and> nat d < 2 ^ Suc b" using nlog2_bounds [of "nat d"] d b_def by simp
  then have "2 ^ b \<le> d \<and> d < 2 ^ Suc b" using d by (simp add: nat_less_iff le_nat_iff)
  then have dd: "2 ^ b \<le> (of_int d :: rat)" "(of_int d :: rat) < 2 ^ Suc b"
    by (metis of_int_le_iff of_int_numeral of_int_power, metis of_int_less_iff of_int_numeral of_int_power)
  have d0: "0 < (of_int d :: rat)" using d by simp
  have up: "x < 2 powi (int a - int b + 1)"
  proof -
    have "x < 2 ^ Suc a / 2 ^ b"
      unfolding x using nn dd d0 by (intro frac_less) (auto simp: n less_imp_le)
    then show ?thesis by (simp add: power_int_add power_int_diff mult.commute)
  qed
  have lo: "2 powi (int a - int b - 1) \<le> x"
  proof -
    have "2 ^ a / 2 ^ Suc b \<le> x"
      unfolding x using nn dd d0 by (intro frac_le) (auto simp: n less_imp_le)
    then show ?thesis by (simp add: power_int_diff)
  qed
  have e: "ilog2 x = (if 2 powi (int a - int b) \<le> x then int a - int b else int a - int b - 1)"
    by (simp add: ilog2_def q a_def b_def)
  show "2 powi ilog2 x \<le> x" using lo by (simp add: e)
  show "x < 2 powi (ilog2 x + 1)" using up by (simp add: e)
qed

lemma powi2_pos [simp]: "0 < (2 :: rat) powi e"
  by simp

lemma powi2_mono: "a \<le> b \<Longrightarrow> (2 :: rat) powi a \<le> 2 powi b"
  by (rule power_int_increasing) auto

lemma powi2_less_iff: "(2 :: rat) powi a < 2 powi b \<longleftrightarrow> a < b"
  by (metis linorder_not_less order_le_less powi2_mono power_int_strict_increasing one_less_numeral_iff
      semiring_norm(76))

lemma ilog2_mono:
  assumes "0 < x" and "x \<le> y"
  shows "ilog2 x \<le> ilog2 y"
proof -
  have "2 powi ilog2 x < (2 :: rat) powi (ilog2 y + 1)"
    using ilog2_bounds [of x] ilog2_bounds [of y] assms by linarith
  then show ?thesis by (simp add: powi2_less_iff)
qed

section \<open>Formats and rounding\<close>

record fmt =
  prec :: nat
  emin :: int
  emax :: int

definition binary64 :: fmt where
  "binary64 = \<lparr>prec = 53, emin = - 1022, emax = 1023\<rparr>"

definition binary32 :: fmt where
  "binary32 = \<lparr>prec = 24, emin = - 126, emax = 127\<rparr>"

definition expo :: "fmt \<Rightarrow> rat \<Rightarrow> int" where
  "expo F x = max (ilog2 x) (emin F)"

definition ulp :: "fmt \<Rightarrow> rat \<Rightarrow> rat" where
  "ulp F x = 2 powi (expo F x - int (prec F) + 1)"

definition rnd_pos :: "fmt \<Rightarrow> rat \<Rightarrow> rat" where
  "rnd_pos F x = of_int (rne (x / ulp F x)) * ulp F x"

definition rnd :: "fmt \<Rightarrow> rat \<Rightarrow> rat" where
  "rnd F x = (if x = 0 then 0 else if 0 < x then rnd_pos F x else - rnd_pos F (- x))"

lemma ulp_pos [simp]: "0 < ulp F x"
  by (simp add: ulp_def)

lemma rnd_0 [simp]: "rnd F 0 = 0"
  by (simp add: rnd_def)

lemma rnd_neg: "rnd F (- x) = - rnd F x"
  by (auto simp: rnd_def)

text \<open>A number that is a multiple of its unit in the last place is not changed.\<close>

lemma rnd_pos_multiple: "x = of_int k * ulp F x \<Longrightarrow> rnd_pos F x = x"
  by (metis rnd_pos_def nonzero_mult_div_cancel_right order_less_irrefl rne_of_int ulp_pos)

lemma powi2_multiple:
  assumes "a \<le> b"
  shows "(2 :: rat) powi b = of_int (2 ^ nat (b - a)) * 2 powi a"
proof -
  define n where "n = nat (b - a)"
  have "b = int n + a" using assms by (simp add: n_def)
  then have "(2 :: rat) powi b = 2 ^ n * 2 powi a" by (simp add: power_int_add)
  then show ?thesis by (simp add: n_def)
qed

lemma rnd_pos_lower:
  assumes "0 < x" and "0 < prec F"
  shows "2 powi ilog2 x \<le> rnd_pos F x \<or> ilog2 x < emin F"
proof (cases "ilog2 x < emin F")
  case False
  then have e: "expo F x = ilog2 x" by (simp add: expo_def)
  let ?k = "2 ^ (prec F - 1) :: int"
  have p: "2 powi ilog2 x = of_int ?k * ulp F x"
    using powi2_multiple [of "ilog2 x - int (prec F) + 1" "ilog2 x"] assms(2)
    by (simp add: ulp_def e nat_diff_distrib')
  have "of_int ?k \<le> x / ulp F x"
    using ilog2_bounds(1) [OF assms(1)] p by (simp add: le_divide_eq)
  then have "?k \<le> rne (x / ulp F x)" using rne_mono rne_of_int by metis
  then have "(of_int ?k :: rat) \<le> of_int (rne (x / ulp F x))" by (simp only: of_int_le_iff)
  then have "of_int ?k * ulp F x \<le> rnd_pos F x"
    unfolding rnd_pos_def by (intro mult_right_mono) (auto simp: less_imp_le)
  with p show ?thesis by simp
qed simp

lemma rnd_pos_upper:
  assumes "0 < x" and "0 < prec F"
  shows "rnd_pos F x \<le> 2 powi (expo F x + 1)"
proof -
  let ?k = "2 ^ prec F :: int"
  have p: "2 powi (expo F x + 1) = of_int ?k * ulp F x"
    using powi2_multiple [of "expo F x - int (prec F) + 1" "expo F x + 1"] assms(2)
    by (simp add: ulp_def)
  have "x \<le> 2 powi (expo F x + 1)"
    using ilog2_bounds(2) [OF assms(1)] powi2_mono [of "ilog2 x + 1" "expo F x + 1"]
    by (simp add: expo_def)
  then have "x / ulp F x \<le> of_int ?k" using p by (simp add: divide_le_eq)
  then have "rne (x / ulp F x) \<le> ?k" using rne_mono rne_of_int by metis
  then have "(of_int (rne (x / ulp F x)) :: rat) \<le> of_int ?k" by (simp only: of_int_le_iff)
  then have "rnd_pos F x \<le> of_int ?k * ulp F x"
    unfolding rnd_pos_def by (intro mult_right_mono) (auto simp: less_imp_le)
  with p show ?thesis by simp
qed

lemma rnd_pos_nonneg: "0 < x \<Longrightarrow> 0 \<le> rnd_pos F x"
  using rne_mono [of 0 "x / ulp F x"] rne_of_int [of 0]
  by (simp add: rnd_pos_def zero_le_mult_iff less_imp_le)

lemma rnd_pos_mono:
  assumes "0 < x" and "x \<le> y" and "0 < prec F"
  shows "rnd_pos F x \<le> rnd_pos F y"
proof (cases "expo F x = expo F y")
  case True
  then have u: "ulp F x = ulp F y" by (simp add: ulp_def)
  have "x / ulp F x \<le> y / ulp F y" using assms(2) u by (simp add: divide_right_mono less_imp_le)
  then have "rne (x / ulp F x) \<le> rne (y / ulp F y)" by (rule rne_mono)
  then have "(of_int (rne (x / ulp F x)) :: rat) \<le> of_int (rne (y / ulp F y))" by simp
  then show ?thesis
    unfolding rnd_pos_def u by (intro mult_right_mono) (auto simp: less_imp_le)
next
  case False
  have "expo F x \<le> expo F y" using ilog2_mono [OF assms(1,2)] by (simp add: expo_def)
  with False have lt: "expo F x + 1 \<le> expo F y" by simp
  then have ey: "expo F y = ilog2 y" "\<not> ilog2 y < emin F" by (auto simp: expo_def)
  have "rnd_pos F x \<le> 2 powi (expo F x + 1)" using rnd_pos_upper [OF assms(1,3)] .
  also have "\<dots> \<le> 2 powi ilog2 y" using powi2_mono [OF lt] ey by simp
  also have "\<dots> \<le> rnd_pos F y" using rnd_pos_lower [of y F] assms ey by simp
  finally show ?thesis .
qed

lemma rnd_mono:
  assumes "x \<le> y" and "0 < prec F"
  shows "rnd F x \<le> rnd F y"
proof -
  consider "0 < x" | "x \<le> 0" "0 \<le> y" | "y < 0" by linarith
  then show ?thesis
  proof cases
    case 1
    with assms show ?thesis by (simp add: rnd_def rnd_pos_mono)
  next
    case 2
    have "rnd F x \<le> 0" using 2(1) rnd_pos_nonneg [of "- x" F] by (auto simp: rnd_def)
    moreover have "0 \<le> rnd F y" using 2(2) rnd_pos_nonneg [of y F] by (auto simp: rnd_def)
    ultimately show ?thesis by simp
  next
    case 3
    with assms rnd_pos_mono [of "- y" "- x" F] show ?thesis by (simp add: rnd_def)
  qed
qed

text \<open>The numbers of a format: \<open>m\<close> times a power of two, \<open>m\<close> of at most \<open>prec\<close> bits.\<close>

lemma rnd_pos_exact:
  assumes "0 < m" and "m \<le> 2 ^ prec F" and "emin F - int (prec F) + 1 \<le> k" and "0 < prec F"
  shows "rnd_pos F (of_int m * 2 powi k) = of_int m * 2 powi k"
proof -
  let ?x = "of_int m * 2 powi k :: rat"
  have x0: "0 < ?x" using assms(1) by simp
  show ?thesis
  proof (cases "expo F ?x - int (prec F) + 1 \<le> k")
    case True
    then have "?x = of_int (m * 2 ^ nat (k - (expo F ?x - int (prec F) + 1))) * ulp F ?x"
      using powi2_multiple [OF True] by (simp add: ulp_def)
    then show ?thesis by (rule rnd_pos_multiple)
  next
    case False
    then have e: "expo F ?x = ilog2 ?x" using assms(3) by (auto simp: expo_def)
    have lo: "2 powi (k + int (prec F)) \<le> (2 :: rat) powi ilog2 ?x"
      using False e by (intro powi2_mono) simp
    have m2: "(of_int m :: rat) \<le> 2 ^ prec F"
      using assms(2) by (metis of_int_le_iff of_int_numeral of_int_power)
    have hi: "?x \<le> 2 powi (k + int (prec F))"
      using mult_right_mono [OF m2, of "2 powi k"] by (simp add: power_int_add mult.commute)
    then have eq: "?x = 2 powi (k + int (prec F))" and "2 powi ilog2 ?x = ?x"
      using lo ilog2_bounds(1) [OF x0] by (auto intro: order_antisym)
    then have "ilog2 ?x = k + int (prec F)"
      by (metis order_less_irrefl linorder_neqE powi2_less_iff)
    then have u: "ulp F ?x = 2 powi (k + 1)" unfolding ulp_def e by simp
    have "2 powi (k + int (prec F)) = of_int (2 ^ nat (int (prec F) - 1)) * (2 :: rat) powi (k + 1)"
      using powi2_multiple [of "k + 1" "k + int (prec F)"] assms(4) by simp
    then have "?x = of_int (2 ^ nat (int (prec F) - 1)) * ulp F ?x"
      by (simp only: u) (simp only: eq)
    then show ?thesis by (rule rnd_pos_multiple)
  qed
qed

lemma rnd_exact:
  assumes "\<bar>m\<bar> \<le> 2 ^ prec F" and "emin F - int (prec F) + 1 \<le> k" and "0 < prec F"
  shows "rnd F (of_int m * 2 powi k) = of_int m * 2 powi k"
proof -
  consider "m = 0" | "0 < m" | "m < 0" by linarith
  then show ?thesis
  proof cases
    case 2
    with assms show ?thesis by (simp add: rnd_def rnd_pos_exact)
  next
    case 3
    with assms have "rnd_pos F (of_int (- m) * 2 powi k) = of_int (- m) * 2 powi k"
      by (intro rnd_pos_exact) auto
    moreover have "0 < (of_int (- m) :: rat) * 2 powi k" using 3 by (intro mult_pos_pos) auto
    ultimately have "rnd F (of_int (- m) * 2 powi k) = of_int (- m) * 2 powi k"
      unfolding rnd_def by auto
    then have "rnd F (- (of_int m * 2 powi k)) = - (of_int m * 2 powi k)" by simp
    then show ?thesis by (simp add: rnd_neg)
  qed simp
qed

section \<open>Values and operations\<close>

datatype ieee = Fin rat | PInf | NInf | NaN

definition fin :: "fmt \<Rightarrow> rat \<Rightarrow> ieee" where
  "fin F x = (let r = rnd F x in
     if 2 powi (emax F + 1) \<le> r then PInf
     else if r \<le> - (2 powi (emax F + 1)) then NInf else Fin r)"

fun ieee_uminus :: "ieee \<Rightarrow> ieee" where
  "ieee_uminus (Fin x) = Fin (- x)"
| "ieee_uminus PInf = NInf"
| "ieee_uminus NInf = PInf"
| "ieee_uminus NaN = NaN"

fun ieee_add :: "fmt \<Rightarrow> ieee \<Rightarrow> ieee \<Rightarrow> ieee" where
  "ieee_add F (Fin x) (Fin y) = fin F (x + y)"
| "ieee_add F NaN _ = NaN"
| "ieee_add F _ NaN = NaN"
| "ieee_add F PInf NInf = NaN"
| "ieee_add F NInf PInf = NaN"
| "ieee_add F PInf _ = PInf"
| "ieee_add F _ PInf = PInf"
| "ieee_add F NInf _ = NInf"
| "ieee_add F _ NInf = NInf"

definition ieee_sub :: "fmt \<Rightarrow> ieee \<Rightarrow> ieee \<Rightarrow> ieee" where
  "ieee_sub F x y = ieee_add F x (ieee_uminus y)"

fun ieee_sgn :: "ieee \<Rightarrow> int" where
  "ieee_sgn (Fin x) = (if x = 0 then 0 else if 0 < x then 1 else - 1)"
| "ieee_sgn PInf = 1"
| "ieee_sgn NInf = - 1"
| "ieee_sgn NaN = 0"

definition inf_of_sgn :: "int \<Rightarrow> ieee" where
  "inf_of_sgn s = (if s = 0 then NaN else if 0 < s then PInf else NInf)"

fun ieee_mul :: "fmt \<Rightarrow> ieee \<Rightarrow> ieee \<Rightarrow> ieee" where
  "ieee_mul F (Fin x) (Fin y) = fin F (x * y)"
| "ieee_mul F NaN _ = NaN"
| "ieee_mul F _ NaN = NaN"
| "ieee_mul F x y = inf_of_sgn (ieee_sgn x * ieee_sgn y)"

fun ieee_div :: "fmt \<Rightarrow> ieee \<Rightarrow> ieee \<Rightarrow> ieee" where
  "ieee_div F (Fin x) (Fin y) =
     (if y = 0 then inf_of_sgn (ieee_sgn (Fin x)) else fin F (x / y))"
| "ieee_div F NaN _ = NaN"
| "ieee_div F _ NaN = NaN"
| "ieee_div F (Fin x) _ = Fin 0"
| "ieee_div F x (Fin y) = inf_of_sgn (ieee_sgn x * (if y < 0 then - 1 else 1))"
| "ieee_div F _ _ = NaN"

text \<open>Comparisons are false on NaN.\<close>

fun ieee_le :: "ieee \<Rightarrow> ieee \<Rightarrow> bool" where
  "ieee_le (Fin x) (Fin y) = (x \<le> y)"
| "ieee_le NaN _ = False"
| "ieee_le _ NaN = False"
| "ieee_le NInf _ = True"
| "ieee_le _ PInf = True"
| "ieee_le _ _ = False"

fun ieee_lt :: "ieee \<Rightarrow> ieee \<Rightarrow> bool" where
  "ieee_lt (Fin x) (Fin y) = (x < y)"
| "ieee_lt NaN _ = False"
| "ieee_lt _ NaN = False"
| "ieee_lt PInf _ = False"
| "ieee_lt _ NInf = False"
| "ieee_lt _ _ = True"

fun ieee_eq :: "ieee \<Rightarrow> ieee \<Rightarrow> bool" where
  "ieee_eq (Fin x) (Fin y) = (x = y)"
| "ieee_eq PInf PInf = True"
| "ieee_eq NInf NInf = True"
| "ieee_eq _ _ = False"

text \<open>Conversions: from an integer (rounded), and to an integer (towards zero).\<close>

definition ieee_of_int :: "fmt \<Rightarrow> int \<Rightarrow> ieee" where
  "ieee_of_int F i = fin F (of_int i)"

fun ieee_trunc :: "ieee \<Rightarrow> int option" where
  "ieee_trunc (Fin x) = Some (if 0 \<le> x then \<lfloor>x\<rfloor> else \<lceil>x\<rceil>)"
| "ieee_trunc _ = None"

lemma binary64_simps [simp]: "prec binary64 = 53" "emin binary64 = - 1022" "emax binary64 = 1023"
  by (simp_all add: binary64_def)

lemma binary32_simps [simp]: "prec binary32 = 24" "emin binary32 = - 126" "emax binary32 = 127"
  by (simp_all add: binary32_def)

lemma rnd64_exact_int: "\<bar>m\<bar> \<le> 2 ^ 53 \<Longrightarrow> rnd binary64 (of_int m) = of_int m"
  using rnd_exact [of m binary64 0] by simp

lemma rnd64_exact_half: "\<bar>m\<bar> \<le> 2 ^ 53 \<Longrightarrow> rnd binary64 (of_int m / 2) = of_int m / 2"
proof -
  assume "\<bar>m\<bar> \<le> 2 ^ 53"
  then have "rnd binary64 (of_int m * 2 powi - 1) = of_int m * 2 powi - 1"
    by (intro rnd_exact) simp_all
  moreover have "(2 :: rat) powi - 1 = 1 / 2"
    by (simp add: power_int_minus1_right)
  ultimately show ?thesis by simp
qed

lemma fin_bounded:
  "\<bar>rnd F x\<bar> \<le> b \<Longrightarrow> b < 2 powi (emax F + 1) \<Longrightarrow> fin F x = Fin (rnd F x)"
  by (auto simp: fin_def Let_def abs_le_iff)

lemma fin64_small: "\<bar>rnd binary64 x\<bar> \<le> 2 ^ 53 \<Longrightarrow> fin binary64 x = Fin (rnd binary64 x)"
proof (rule fin_bounded)
  have "(2 :: rat) ^ 53 = 2 powi (int 53)" by (simp only: power_int_of_nat)
  also have "\<dots> < 2 powi (emax binary64 + 1)" unfolding powi2_less_iff by simp
  finally show "(2 :: rat) ^ 53 < 2 powi (emax binary64 + 1)" .
qed

text \<open>An operation whose exact result lies between two integers of the format stays there.\<close>

lemma rnd64_between:
  assumes "of_int a \<le> x" and "x \<le> of_int b" and "\<bar>a\<bar> \<le> 2 ^ 53" and "\<bar>b\<bar> \<le> 2 ^ 53"
  shows "of_int a \<le> rnd binary64 x" and "rnd binary64 x \<le> of_int b"
  using rnd_mono [OF assms(1), of binary64] rnd_mono [OF assms(2), of binary64]
    rnd64_exact_int [OF assms(3)] rnd64_exact_int [OF assms(4)] by simp_all

lemma fin64_eq:
  assumes "of_int a \<le> x" and "x \<le> of_int b" and "\<bar>a\<bar> \<le> 2 ^ 53" and "\<bar>b\<bar> \<le> 2 ^ 53"
  shows "fin binary64 x = Fin (rnd binary64 x)"
proof -
  note r = rnd64_between [OF assms]
  have "(of_int (- (2 ^ 53)) :: rat) \<le> of_int a" "(of_int b :: rat) \<le> of_int (2 ^ 53)"
    unfolding of_int_le_iff using assms(3,4) by linarith+
  with r have "\<bar>rnd binary64 x\<bar> \<le> 2 ^ 53" by (simp add: abs_le_iff)
  then show ?thesis by (rule fin64_small)
qed

lemma fin64_between:
  assumes "of_int a \<le> x" and "x \<le> of_int b" and "\<bar>a\<bar> \<le> 2 ^ 53" and "\<bar>b\<bar> \<le> 2 ^ 53"
  obtains y where "fin binary64 x = Fin y" and "of_int a \<le> y" and "y \<le> of_int b"
  using that fin64_eq [OF assms] rnd64_between [OF assms] by blast

lemma ieee_of_int64_exact: "\<bar>m\<bar> \<le> 2 ^ 53 \<Longrightarrow> ieee_of_int binary64 m = Fin (of_int m)"
  using fin64_between [of m "of_int m" m] by (metis ieee_of_int_def order_refl order_antisym)

lemma ieee_trunc_between:
  assumes "of_int a \<le> x" and "x \<le> of_int b" and "a \<le> 0" and "0 \<le> b"
  obtains t where "ieee_trunc (Fin x) = Some t" and "a \<le> t" and "t \<le> b"
proof -
  have "a \<le> \<lfloor>x\<rfloor>" "\<lceil>x\<rceil> \<le> b" "\<lfloor>x\<rfloor> \<le> \<lceil>x\<rceil>"
    using assms by (simp_all add: le_floor_iff ceiling_le_iff floor_le_ceiling)
  with that show thesis by (cases "0 \<le> x") auto
qed

section \<open>Square root\<close>

text \<open>The integer square root, digit by digit in base 4.\<close>

fun nsqrt :: "nat \<Rightarrow> nat" where
  "nsqrt n = (if n = 0 then 0 else
     let r = 2 * nsqrt (n div 4) in if (r + 1) * (r + 1) \<le> n then r + 1 else r)"

declare nsqrt.simps [simp del]

lemma nsqrt_bounds: "nsqrt n * nsqrt n \<le> n \<and> n < (nsqrt n + 1) * (nsqrt n + 1)"
proof (induction n rule: nsqrt.induct)
  case (1 n)
  show ?case
  proof (cases "n = 0")
    case True
    then show ?thesis by (simp add: nsqrt.simps)
  next
    case False
    define r where "r = nsqrt (n div 4)"
    from 1 False have "r * r \<le> n div 4" "n div 4 < (r + 1) * (r + 1)" by (simp_all add: r_def)
    then have "4 * (r * r) \<le> n" "n < 4 * ((r + 1) * (r + 1))" by presburger+
    moreover have "nsqrt n = (if (2 * r + 1) * (2 * r + 1) \<le> n then 2 * r + 1 else 2 * r)"
      using False by (simp add: nsqrt.simps [of n] r_def Let_def)
    ultimately show ?thesis by (auto simp: algebra_simps)
  qed
qed

text \<open>
  \<open>std::sqrt\<close> of a non-negative integer in binary64. The 60 extra binary digits of the integer
  root leave more digits than the format has, and a last half unit stands for the digits that
  were cut off, so that rounding it rounds the exact root.
\<close>

definition ieee_sqrt_nat :: "nat \<Rightarrow> ieee" where
  "ieee_sqrt_nat n =
     (case ieee_of_int binary64 (int n) of
        Fin x \<Rightarrow>
          let m = nat \<lfloor>x\<rfloor> * 4 ^ 60; s = nsqrt m in
          if s * s = m then fin binary64 (of_nat s / 2 ^ 60)
          else fin binary64 ((2 * of_nat s + 1) / 2 ^ 61)
      | y \<Rightarrow> y)"

text \<open>Non-negative numbers up to a power of two of the format.\<close>

lemma rnd64_pow: "k \<le> 1023 \<Longrightarrow> rnd binary64 (2 ^ k) = 2 ^ k"
  using rnd_exact [of 1 binary64 "int k"] by simp

lemma fin64_pow:
  assumes "0 \<le> x" and "x \<le> 2 ^ k" and "k \<le> 1023"
  shows "fin binary64 x = Fin (rnd binary64 x)" and "0 \<le> rnd binary64 x" and "rnd binary64 x \<le> 2 ^ k"
proof -
  show r: "0 \<le> rnd binary64 x" "rnd binary64 x \<le> 2 ^ k"
    using rnd_mono [OF assms(1), of binary64] rnd_mono [OF assms(2), of binary64] rnd64_pow [OF assms(3)] by simp_all
  show "fin binary64 x = Fin (rnd binary64 x)"
  proof (rule fin_bounded)
    show "\<bar>rnd binary64 x\<bar> \<le> 2 ^ k" using r by simp
    have "(2 :: rat) ^ k = 2 powi (int k)" by (simp only: power_int_of_nat)
    also have "\<dots> < 2 powi (emax binary64 + 1)" unfolding powi2_less_iff using assms(3) by simp
    finally show "(2 :: rat) ^ k < 2 powi (emax binary64 + 1)" .
  qed
qed

lemma ieee_of_u64:
  assumes "0 \<le> i" and "i \<le> 2 ^ 64"
  shows "ieee_of_int binary64 i = Fin (rnd binary64 (of_int i))"
    and "0 \<le> rnd binary64 (of_int i)" and "rnd binary64 (of_int i) \<le> 2 ^ 64"
proof -
  have "(of_int i :: rat) \<le> of_int (2 ^ 64)" unfolding of_int_le_iff by (rule assms(2))
  then show "ieee_of_int binary64 i = Fin (rnd binary64 (of_int i))"
    "0 \<le> rnd binary64 (of_int i)" "rnd binary64 (of_int i) \<le> 2 ^ 64"
    using fin64_pow [of "of_int i" 64] assms(1) by (simp_all add: ieee_of_int_def)
qed

lemma nsqrt_le: "n \<le> m * m \<Longrightarrow> nsqrt n \<le> m"
proof (rule ccontr)
  assume "n \<le> m * m" and "\<not> nsqrt n \<le> m"
  then have "m < nsqrt n" by simp
  then have "m * m < nsqrt n * nsqrt n" by (intro mult_strict_mono) auto
  with nsqrt_bounds [of n] \<open>n \<le> m * m\<close> show False by linarith
qed

lemma ieee_sqrt_nat_finite:
  assumes "n \<le> 2 ^ 64"
  obtains y where "ieee_sqrt_nat n = Fin y" and "0 \<le> y" and "y \<le> 2 ^ 33"
proof -
  have i: "0 \<le> int n" "int n \<le> 2 ^ 64" using assms by simp_all
  define x where "x = rnd binary64 (of_int (int n))"
  have x: "ieee_of_int binary64 (int n) = Fin x" "0 \<le> x" "x \<le> 2 ^ 64"
    using ieee_of_u64 [OF i] by (simp_all add: x_def)
  define m where "m = nat \<lfloor>x\<rfloor> * 4 ^ 60"
  define s where "s = nsqrt m"
  have "\<lfloor>x\<rfloor> \<le> \<lfloor>2 ^ 64 :: rat\<rfloor>" using x(3) by (rule floor_mono)
  then have "nat \<lfloor>x\<rfloor> \<le> 2 ^ 64" by (simp add: nat_le_iff)
  then have "m \<le> 2 ^ 64 * 4 ^ 60" unfolding m_def by (rule mult_le_mono1)
  then have "s \<le> 2 ^ 92" unfolding s_def by (intro nsqrt_le) (simp flip: power_add add: power_mult_distrib)
  then have s: "(of_nat s :: rat) \<le> 2 ^ 92" by (simp add: of_nat_le_numeral_iff)
  have a: "(of_nat s :: rat) / 2 ^ 60 \<le> 2 ^ 33" "0 \<le> (of_nat s :: rat) / 2 ^ 60" using s by (simp_all add: divide_le_eq)
  have b: "(2 * of_nat s + 1 :: rat) / 2 ^ 61 \<le> 2 ^ 33" "0 \<le> (2 * of_nat s + 1 :: rat) / 2 ^ 61"
    using s by (simp_all add: divide_le_eq)
  have "ieee_sqrt_nat n = (if s * s = m then fin binary64 (of_nat s / 2 ^ 60)
      else fin binary64 ((2 * of_nat s + 1) / 2 ^ 61))"
    by (simp add: ieee_sqrt_nat_def x(1) Let_def m_def s_def)
  with fin64_pow [OF a(2,1)] fin64_pow [OF b(2,1)] that show thesis by (cases "s * s = m") auto
qed
end
