(* ===== verification/Sequence_Manager.thy ===== *)
theory Sequence_Manager
  imports Ctx_Id_Tracker Ieee_Float
begin

text \<open>
  \<open>SequenceManager\<close> of \<open>sequence_manager.cc\<close>: the state of the sequences in flight, the
  allocation of correlation ids, the choice of the data stream and of the length of a new
  sequence, and the start and end flags of the requests of a sequence.
\<close>

section \<open>State\<close>

text \<open>\<open>SequenceStatus\<close>; a new one has every field 0.\<close>

record sequence_status =
  seq_id :: u64
  data_stream_id :: u64
  remaining_queries :: u64
  sequence_length :: u64

definition new_status :: sequence_status where
  "new_status = \<lparr>seq_id = 0, data_stream_id = 0, remaining_queries = 0, sequence_length = 0\<rparr>"

record 'g sequence_manager =
  sequence_statuses :: "sequence_status list"
  curr_seq_id :: u64
  start_sequence_id :: u64
  sequence_id_range :: u64
  sm_sequence_length :: u64
  sequence_length_specified :: bool
  sequence_length_variation :: ieee
  using_json_data :: bool
  stream_dist_max :: u64
  stream_rng :: 'g

text \<open>The constructor: the distribution is over \<open>0 .. GetDataStreamsCount() - 1\<close>.\<close>

definition SequenceManager ::
  "'g \<Rightarrow> u64 \<Rightarrow> u64 \<Rightarrow> u64 \<Rightarrow> bool \<Rightarrow> ieee \<Rightarrow> bool \<Rightarrow> u64 \<Rightarrow> 'g sequence_manager" where
  "SequenceManager g0 start id_range len specified variation json stream_count =
     \<lparr>sequence_statuses = [], curr_seq_id = 0, start_sequence_id = start,
      sequence_id_range = id_range, sm_sequence_length = len,
      sequence_length_specified = specified, sequence_length_variation = variation,
      using_json_data = json, stream_dist_max = stream_count - 1, stream_rng = g0\<rparr>"

definition InitSequenceStatuses :: "nat \<Rightarrow> 'g sequence_manager \<Rightarrow> 'g sequence_manager" where
  "InitSequenceStatuses n m = m\<lparr>sequence_statuses := replicate n new_status\<rparr>"

section \<open>Accessors\<close>

definition GetSequenceID :: "nat \<Rightarrow> 'g sequence_manager \<Rightarrow> exn + u64" where
  "GetSequenceID i m = bindR (vec_at (sequence_statuses m) i) (\<lambda>s. Inr (seq_id s))"

definition GetDataStreamID :: "nat \<Rightarrow> 'g sequence_manager \<Rightarrow> exn + u64" where
  "GetDataStreamID i m = bindR (vec_at (sequence_statuses m) i) (\<lambda>s. Inr (data_stream_id s))"

definition GetRemainingQueries :: "nat \<Rightarrow> 'g sequence_manager \<Rightarrow> exn + u64" where
  "GetRemainingQueries i m =
     bindR (vec_at (sequence_statuses m) i) (\<lambda>s. Inr (remaining_queries s))"

definition GetSequenceLength :: "nat \<Rightarrow> 'g sequence_manager \<Rightarrow> exn + u64" where
  "GetSequenceLength i m = bindR (vec_at (sequence_statuses m) i) (\<lambda>s. Inr (sequence_length s))"

definition GetNumSequenceStatuses :: "'g sequence_manager \<Rightarrow> nat" where
  "GetNumSequenceStatuses m = length (sequence_statuses m)"

definition upd_status ::
  "nat \<Rightarrow> (sequence_status \<Rightarrow> sequence_status) \<Rightarrow> 'g sequence_manager \<Rightarrow> 'g sequence_manager" where
  "upd_status i f m = m\<lparr>sequence_statuses := (sequence_statuses m)[i := f (sequence_statuses m ! i)]\<rparr>"

definition SetRemainingQueries ::
  "nat \<Rightarrow> u64 \<Rightarrow> 'g sequence_manager \<Rightarrow> exn + 'g sequence_manager" where
  "SetRemainingQueries i r m =
     bindR (vec_at (sequence_statuses m) i) (\<lambda>_.
       Inr (upd_status i (\<lambda>s. s\<lparr>remaining_queries := r\<rparr>) m))"

definition DecrementRemainingQueries ::
  "nat \<Rightarrow> 'g sequence_manager \<Rightarrow> exn + 'g sequence_manager" where
  "DecrementRemainingQueries i m =
     bindR (vec_at (sequence_statuses m) i) (\<lambda>_.
       Inr (upd_status i (\<lambda>s. s\<lparr>remaining_queries := remaining_queries s - 1\<rparr>) m))"

section \<open>New sequences\<close>

text \<open>
  \<open>GetNextSeqId\<close> in the parts between which another thread can run: the draw from the atomic
  counter (\<open>curr_seq_id_++\<close>), the test of one slot, and the scan of all of them. It returns
  the next id of the cycle, or the id the slot had before when a slot has the next one, and
  the manager with the counter advanced.
\<close>

definition draw_seq_id ::
  "nat \<Rightarrow> 'g sequence_manager \<Rightarrow> exn + u64 \<times> u64 \<times> 'g sequence_manager" where
  "draw_seq_id i m =
     bindR (vec_index (sequence_statuses m) i) (\<lambda>s.
       if sequence_id_range m = 0 then Inl DivideByZero
       else Inr (seq_id s, curr_seq_id m mod sequence_id_range m + start_sequence_id m,
                 m\<lparr>curr_seq_id := curr_seq_id m + 1\<rparr>))"

definition id_in_use :: "u64 \<Rightarrow> sequence_status \<Rightarrow> bool" where
  "id_in_use next_seq_id st \<longleftrightarrow> next_seq_id = seq_id st"

fun scan_ids :: "u64 \<Rightarrow> u64 \<Rightarrow> sequence_status list \<Rightarrow> u64" where
  "scan_ids old_seq_id next_seq_id [] = next_seq_id"
| "scan_ids old_seq_id next_seq_id (st # sts) =
     (if id_in_use next_seq_id st then old_seq_id else scan_ids old_seq_id next_seq_id sts)"

definition GetNextSeqId :: "nat \<Rightarrow> 'g sequence_manager \<Rightarrow> exn + u64 \<times> 'g sequence_manager" where
  "GetNextSeqId i m =
     bindR (draw_seq_id i m) (\<lambda>(old_seq_id, next_seq_id, m').
       Inr (scan_ids old_seq_id next_seq_id (sequence_statuses m'), m'))"

definition GetNewDataStreamId :: "'g uniform \<Rightarrow> 'g sequence_manager \<Rightarrow> u64 \<times> 'g sequence_manager" where
  "GetNewDataStreamId uniform m =
     (let (v, g) = uniform 0 (stream_dist_max m) (stream_rng m) in (v, m\<lparr>stream_rng := g\<rparr>))"

text \<open>\<open>RAND_MAX\<close> of the C library the program is built with.\<close>

definition RAND_MAX :: int where
  "RAND_MAX = 2147483647"

text \<open>
  The \<open>double\<close> expression \<open>((2.0 * rand() / double(RAND_MAX)) - 1.0) * offset_ratio / 100.0
  * sequence_length_\<close>, evaluated left to right; \<open>r\<close> is what \<open>rand()\<close> returned.
\<close>

definition offset_value :: "int \<Rightarrow> ieee \<Rightarrow> u64 \<Rightarrow> ieee" where
  "offset_value r ratio len =
     (let unit = ieee_sub binary64
            (ieee_div binary64 (ieee_mul binary64 (Fin 2) (ieee_of_int binary64 r))
               (ieee_of_int binary64 RAND_MAX)) (Fin 1)
      in ieee_mul binary64
           (ieee_div binary64 (ieee_mul binary64 unit ratio) (Fin 100))
           (ieee_of_int binary64 (uint len)))"

definition fits_int :: "int \<Rightarrow> bool" where
  "fits_int i \<longleftrightarrow> - (2 ^ 31) \<le> i \<and> i < 2 ^ 31"

text \<open>
  The conversion of the \<open>double\<close> to \<open>int\<close> and the addition of two \<open>int\<close>s are undefined
  outside the range of \<open>int\<close>; the conversion of \<open>size_t\<close> to \<open>int\<close> keeps the low 32 bits;
  the returned sum is computed in \<open>size_t\<close>.
\<close>

definition GetRandomSequenceLength :: "int \<Rightarrow> ieee \<Rightarrow> 'g sequence_manager \<Rightarrow> exn + u64" where
  "GetRandomSequenceLength r ratio m =
     (case ieee_trunc (offset_value r ratio (sm_sequence_length m)) of
        None \<Rightarrow> Inl (UndefinedBehaviour ''conversion to int'')
      | Some off \<Rightarrow>
          if \<not> fits_int off then Inl (UndefinedBehaviour ''conversion to int'')
          else
            let len32 = sint (ucast (sm_sequence_length m) :: 32 word) in
            if \<not> fits_int (len32 + off) then Inl (UndefinedBehaviour ''signed overflow'')
            else if len32 + off \<le> 0 then Inr 1
            else Inr (sm_sequence_length m + word_of_int off))"

text \<open>
  \<open>InitNewSequence\<close>, after its first assignment and as a whole: \<open>total_steps\<close> is
  \<open>DataLoader::GetTotalSteps\<close>, \<open>r\<close> the value of the one call of \<open>rand()\<close> it may make.
\<close>

definition init_length ::
  "'g uniform \<Rightarrow> (u64 \<Rightarrow> u64) \<Rightarrow> int \<Rightarrow> nat \<Rightarrow> 'g sequence_manager \<Rightarrow> exn + 'g sequence_manager" where
  "init_length uniform total_steps r i m1 =
     (if \<not> using_json_data m1 then
        bindR (GetRandomSequenceLength r (sequence_length_variation m1) m1) (\<lambda>new_length.
          Inr (upd_status i (\<lambda>s. s\<lparr>remaining_queries :=
                 (if new_length = 0 then 1 else new_length)\<rparr>) m1))
      else
        let (stream, m2) = GetNewDataStreamId uniform m1;
            m3 = upd_status i (\<lambda>s. s\<lparr>data_stream_id := stream\<rparr>) m2;
            steps = total_steps stream
        in bindR (if sequence_length_specified m3
                  then GetRandomSequenceLength r (sequence_length_variation m3) m3
                  else Inr steps) (\<lambda>len.
             Inr (upd_status i (\<lambda>s. s\<lparr>sequence_length := len, remaining_queries := len\<rparr>) m3)))"

definition set_seq_id :: "nat \<Rightarrow> u64 \<Rightarrow> 'g sequence_manager \<Rightarrow> 'g sequence_manager" where
  "set_seq_id i nid m = upd_status i (\<lambda>s. s\<lparr>seq_id := nid\<rparr>) m"

definition InitNewSequence ::
  "'g uniform \<Rightarrow> (u64 \<Rightarrow> u64) \<Rightarrow> int \<Rightarrow> nat \<Rightarrow> 'g sequence_manager \<Rightarrow> exn + 'g sequence_manager" where
  "InitNewSequence uniform total_steps r i m =
     bindR (GetNextSeqId i m) (\<lambda>(nid, m0). init_length uniform total_steps r i (set_seq_id i nid m0))"

section \<open>The options of a request\<close>

record seq_options =
  sequence_start :: bool
  sequence_id :: u64
  sequence_end :: bool

definition SetInferSequenceOptions ::
  "'g uniform \<Rightarrow> (u64 \<Rightarrow> u64) \<Rightarrow> int \<Rightarrow> nat \<Rightarrow> 'g sequence_manager \<Rightarrow>
     exn + seq_options \<times> 'g sequence_manager" where
  "SetInferSequenceOptions uniform total_steps r i m =
     bindR (vec_index (sequence_statuses m) i) (\<lambda>s.
       let start = (remaining_queries s = 0) in
       bindR (if start then InitNewSequence uniform total_steps r i m else Inr m) (\<lambda>m'.
         bindR (vec_index (sequence_statuses m') i) (\<lambda>s'.
           Inr (\<lparr>sequence_start = start, sequence_id = seq_id s',
                 sequence_end = (remaining_queries s' = 1)\<rparr>, m'))))"

section \<open>Basic facts\<close>

lemma statuses_upd [simp]:
  "sequence_statuses (upd_status i f m) =
     (sequence_statuses m)[i := f (sequence_statuses m ! i)]"
  by (simp add: upd_status_def)

lemma upd_status_frame [simp]:
  "curr_seq_id (upd_status i f m) = curr_seq_id m"
  "start_sequence_id (upd_status i f m) = start_sequence_id m"
  "sequence_id_range (upd_status i f m) = sequence_id_range m"
  "sm_sequence_length (upd_status i f m) = sm_sequence_length m"
  "sequence_length_specified (upd_status i f m) = sequence_length_specified m"
  "sequence_length_variation (upd_status i f m) = sequence_length_variation m"
  "using_json_data (upd_status i f m) = using_json_data m"
  "stream_dist_max (upd_status i f m) = stream_dist_max m"
  "stream_rng (upd_status i f m) = stream_rng m"
  by (simp_all add: upd_status_def)

text \<open>The ids of the slots after a step, and the slots other than the one the step is on.\<close>

definition ids_of :: "'g sequence_manager \<Rightarrow> u64 list" where
  "ids_of m = map seq_id (sequence_statuses m)"

lemma scan_ids_eq:
  "scan_ids old nxt sts = (if nxt \<in> set (map seq_id sts) then old else nxt)"
  by (induction sts) (auto simp: id_in_use_def)

lemma GetNextSeqId_frame:
  assumes "GetNextSeqId i m = Inr (nid, m')"
  shows "m' = m\<lparr>curr_seq_id := curr_seq_id m + 1\<rparr>" and "i < length (sequence_statuses m)"
    and "sequence_id_range m \<noteq> 0"
    and "nid = curr_seq_id m mod sequence_id_range m + start_sequence_id m \<and> nid \<notin> set (ids_of m)
      \<or> nid = seq_id (sequence_statuses m ! i)"
  using assms
  by (auto simp: GetNextSeqId_def draw_seq_id_def scan_ids_eq vec_index_def bindR_Inr_conv ids_of_def
      split: if_splits)

lemma init_length_frame:
  assumes "init_length u ts r i m = Inr m'"
  shows "length (sequence_statuses m') = length (sequence_statuses m)"
    and "start_sequence_id m' = start_sequence_id m"
    and "sequence_id_range m' = sequence_id_range m" and "curr_seq_id m' = curr_seq_id m"
    and "\<forall>j. j \<noteq> i \<longrightarrow> sequence_statuses m' ! j = sequence_statuses m ! j"
    and "i < length (sequence_statuses m) \<longrightarrow>
      seq_id (sequence_statuses m' ! i) = seq_id (sequence_statuses m ! i)"
  using assms
  by (auto simp: init_length_def bindR_Inr_conv Let_def GetNewDataStreamId_def
      split: if_splits prod.splits)

lemma InitNewSequence_length:
  "InitNewSequence u ts r i m = Inr m' \<Longrightarrow>
     length (sequence_statuses m') = length (sequence_statuses m)"
  by (auto simp: InitNewSequence_def bindR_Inr_conv set_seq_id_def
      dest!: init_length_frame(1) GetNextSeqId_frame(1))

section \<open>Runs of the workers\<close>

text \<open>
  A worker holds the mutex of one slot (\<open>SendSequenceInferRequest\<close>, \<open>CompleteOngoingSequence\<close>)
  and no other lock, so that the allocations of several slots interleave. A slot is idle or
  its worker is in \<open>InitNewSequence\<close>: it has drawn an id and tests the slots one by one, it
  will take the id drawn, it will keep the id of the slot, or it has written the id and
  chooses the length. Each read and each write of an id and the draw from the atomic counter
  is one action; what follows the write touches nothing of another slot that an allocation
  reads, and is one action. The reads of another slot's \<open>seq_id_\<close> have no lock in the source
  and are taken to be atomic.
\<close>

datatype alloc_phase =
    Idle
  | Scanning u64 u64 nat
  | Taking u64
  | Keeping u64
  | Filling

record 'g seq_shared =
  manager :: "'g sequence_manager"
  phase :: "nat \<Rightarrow> alloc_phase"

datatype seq_action =
    Draw nat
  | Look nat
  | Write nat
  | Fill nat int
  | Decrement nat
  | SetRemaining nat u64

definition scan_slot :: "u64 \<Rightarrow> u64 \<Rightarrow> nat \<Rightarrow> sequence_status list \<Rightarrow> alloc_phase" where
  "scan_slot old_seq_id next_seq_id k sts =
     (if k < length sts then
        if id_in_use next_seq_id (sts ! k) then Keeping old_seq_id
        else Scanning old_seq_id next_seq_id (Suc k)
      else Taking next_seq_id)"

text \<open>One action of a worker, \<open>None\<close> where it cannot happen or the program stops.\<close>

definition ok_state ::
  "exn + 'g sequence_manager \<Rightarrow> (nat \<Rightarrow> alloc_phase) \<Rightarrow> 'g seq_shared option" where
  "ok_state x ph = (case x of Inl _ \<Rightarrow> None | Inr m \<Rightarrow> Some \<lparr>manager = m, phase = ph\<rparr>)"

fun seq_act ::
  "'g uniform \<Rightarrow> (u64 \<Rightarrow> u64) \<Rightarrow> seq_action \<Rightarrow> 'g seq_shared \<Rightarrow> 'g seq_shared option" where
  "seq_act u ts (Draw i) s =
     (if phase s i = Idle then
        case draw_seq_id i (manager s) of
          Inl _ \<Rightarrow> None
        | Inr (old_seq_id, next_seq_id, m') \<Rightarrow>
            if remaining_queries (sequence_statuses m' ! i) = 0 then
              Some \<lparr>manager = m', phase = (phase s)(i := Scanning old_seq_id next_seq_id 0)\<rparr>
            else None
      else None)"
| "seq_act u ts (Look i) s =
     (case phase s i of
        Scanning old_seq_id next_seq_id k \<Rightarrow>
          Some (s\<lparr>phase := (phase s)
            (i := scan_slot old_seq_id next_seq_id k (sequence_statuses (manager s)))\<rparr>)
      | _ \<Rightarrow> None)"
| "seq_act u ts (Write i) s =
     (case phase s i of
        Taking nid \<Rightarrow> ok_state (Inr (set_seq_id i nid (manager s))) ((phase s)(i := Filling))
      | Keeping nid \<Rightarrow> ok_state (Inr (set_seq_id i nid (manager s))) ((phase s)(i := Filling))
      | _ \<Rightarrow> None)"
| "seq_act u ts (Fill i r) s =
     (if phase s i = Filling
      then ok_state (init_length u ts r i (manager s)) ((phase s)(i := Idle)) else None)"
| "seq_act u ts (Decrement i) s =
     (if phase s i = Idle then ok_state (DecrementRemainingQueries i (manager s)) (phase s) else None)"
| "seq_act u ts (SetRemaining i q) s =
     (if phase s i = Idle then ok_state (SetRemainingQueries i q (manager s)) (phase s) else None)"

text \<open>One step of the program, and the effect of a list of actions.\<close>

inductive seq_step ::
  "'g uniform \<Rightarrow> (u64 \<Rightarrow> u64) \<Rightarrow> 'g seq_shared \<Rightarrow> 'g seq_shared \<Rightarrow> bool"
  for u :: "'g uniform" and ts :: "u64 \<Rightarrow> u64" where
  act: "seq_act u ts a s = Some s' \<Longrightarrow> seq_step u ts s s'"

fun seq_acts ::
  "'g uniform \<Rightarrow> (u64 \<Rightarrow> u64) \<Rightarrow> seq_action list \<Rightarrow> 'g seq_shared \<Rightarrow> 'g seq_shared option" where
  "seq_acts u ts [] s = Some s"
| "seq_acts u ts (a # as) s = Option.bind (seq_act u ts a s) (seq_acts u ts as)"

definition idle_state :: "'g sequence_manager \<Rightarrow> 'g seq_shared" where
  "idle_state m = \<lparr>manager = m, phase = \<lambda>_. Idle\<rparr>"

text \<open>
  The id an allocation under way has drawn and may still take, and the steps after which no
  two allocations under way have drawn the same id.
\<close>

fun drawn_id :: "alloc_phase \<Rightarrow> u64 option" where
  "drawn_id (Scanning old nxt k) = Some nxt"
| "drawn_id (Taking nxt) = Some nxt"
| "drawn_id _ = None"

definition draws_differ :: "'g seq_shared \<Rightarrow> bool" where
  "draws_differ s \<longleftrightarrow>
     (\<forall>i j. i \<noteq> j \<longrightarrow> drawn_id (phase s i) \<noteq> None \<longrightarrow> drawn_id (phase s i) \<noteq> drawn_id (phase s j))"

definition draws_differ_step ::
  "'g uniform \<Rightarrow> (u64 \<Rightarrow> u64) \<Rightarrow> 'g seq_shared \<Rightarrow> 'g seq_shared \<Rightarrow> bool" where
  "draws_differ_step u ts s s' \<longleftrightarrow> seq_step u ts s s' \<and> draws_differ s'"

lemma seq_acts_steps: "seq_acts u ts as s = Some s' \<Longrightarrow> (seq_step u ts)\<^sup>*\<^sup>* s s'"
  by (induction as arbitrary: s)
     (auto simp: bind_eq_Some_conv intro: converse_rtranclp_into_rtranclp seq_step.act)

lemma seq_acts_append:
  "seq_acts u ts (as @ bs) s = Option.bind (seq_acts u ts as s) (seq_acts u ts bs)"
proof (induction as arbitrary: s)
  case (Cons a as)
  then show ?case by (cases "seq_act u ts a s") simp_all
qed simp

subsection \<open>The actions of one worker make up the operation\<close>

lemma scan_uninterrupted:
  assumes "phase s i = Scanning old nxt k" and "k \<le> length (sequence_statuses (manager s))"
  shows "\<exists>as. seq_acts u ts as s = Some (s\<lparr>manager := set_seq_id i
      (scan_ids old nxt (drop k (sequence_statuses (manager s)))) (manager s),
      phase := (phase s)(i := Filling)\<rparr>)"
  using assms
proof (induction "length (sequence_statuses (manager s)) - k" arbitrary: s k)
  case 0
  then have "seq_acts u ts [Look i, Write i] s = Some (s\<lparr>manager := set_seq_id i
      (scan_ids old nxt (drop k (sequence_statuses (manager s)))) (manager s),
      phase := (phase s)(i := Filling)\<rparr>)"
    by (simp add: scan_slot_def ok_state_def)
  then show ?case by blast
next
  case (Suc d)
  let ?sts = "sequence_statuses (manager s)"
  have k: "k < length ?sts" and dr: "drop k ?sts = ?sts ! k # drop (Suc k) ?sts"
    using Suc.hyps(2) by (simp_all add: Cons_nth_drop_Suc)
  show ?case
  proof (cases "id_in_use nxt (?sts ! k)")
    case True
    then have "seq_acts u ts [Look i, Write i] s = Some (s\<lparr>manager := set_seq_id i
      (scan_ids old nxt (drop k ?sts)) (manager s), phase := (phase s)(i := Filling)\<rparr>)"
      using Suc.prems k dr by (simp add: scan_slot_def ok_state_def)
    then show ?thesis by blast
  next
    case False
    let ?s = "s\<lparr>phase := (phase s)(i := Scanning old nxt (Suc k))\<rparr>"
    have d: "d = length ?sts - Suc k" using Suc.hyps(2) by simp
    have "seq_act u ts (Look i) s = Some ?s"
      using Suc.prems k False by (simp add: scan_slot_def)
    moreover obtain as where "seq_acts u ts as ?s = Some (?s\<lparr>manager := set_seq_id i
      (scan_ids old nxt (drop (Suc k) ?sts)) (manager s), phase := (phase ?s)(i := Filling)\<rparr>)"
      using Suc.hyps(1) [of ?s "Suc k"] d k by auto
    ultimately have "seq_acts u ts (Look i # as) s = Some (s\<lparr>manager := set_seq_id i
      (scan_ids old nxt (drop k ?sts)) (manager s), phase := (phase s)(i := Filling)\<rparr>)"
      using False dr by simp
    then show ?thesis by blast
  qed
qed

lemma InitNewSequence_by_acts:
  assumes "InitNewSequence u ts r i m = Inr m'" and "ph i = Idle"
    and "remaining_queries (sequence_statuses m ! i) = 0"
  shows "\<exists>as. seq_acts u ts as \<lparr>manager = m, phase = ph\<rparr> = Some \<lparr>manager = m', phase = ph\<rparr>"
proof -
  from assms(1) obtain old nxt m0 where d: "draw_seq_id i m = Inr (old, nxt, m0)"
    and f: "init_length u ts r i (set_seq_id i (scan_ids old nxt (sequence_statuses m0)) m0) = Inr m'"
    by (auto simp: InitNewSequence_def GetNextSeqId_def bindR_Inr_conv)
  have m0: "sequence_statuses m0 = sequence_statuses m"
    using d by (auto simp: draw_seq_id_def bindR_Inr_conv split: if_splits)
  let ?s = "\<lparr>manager = m0, phase = ph(i := Scanning old nxt 0)\<rparr>"
  have "seq_act u ts (Draw i) \<lparr>manager = m, phase = ph\<rparr> = Some ?s"
    using d m0 assms(2,3) by simp
  moreover obtain as where "seq_acts u ts as ?s = Some (?s\<lparr>manager := set_seq_id i
      (scan_ids old nxt (sequence_statuses m0)) m0, phase := (phase ?s)(i := Filling)\<rparr>)"
    using scan_uninterrupted [of ?s i old nxt 0] by auto
  moreover have "seq_act u ts (Fill i r) (?s\<lparr>manager := set_seq_id i
      (scan_ids old nxt (sequence_statuses m0)) m0, phase := (phase ?s)(i := Filling)\<rparr>) =
      Some \<lparr>manager = m', phase = ph\<rparr>"
    using f assms(2) by (simp add: ok_state_def fun_upd_idem)
  ultimately have "seq_acts u ts (Draw i # as @ [Fill i r]) \<lparr>manager = m, phase = ph\<rparr> =
      Some \<lparr>manager = m', phase = ph\<rparr>"
    by (simp only: seq_acts.simps seq_acts_append Option.bind.simps append_Cons Option.bind_runit)
  then show ?thesis by blast
qed

lemma SetInferSequenceOptions_by_steps:
  assumes "SetInferSequenceOptions u ts r i m = Inr (opt, m')" and "ph i = Idle"
  shows "(seq_step u ts)\<^sup>*\<^sup>* \<lparr>manager = m, phase = ph\<rparr> \<lparr>manager = m', phase = ph\<rparr>"
  using assms InitNewSequence_by_acts [of u ts r i m m' ph]
  by (auto simp: SetInferSequenceOptions_def bindR_Inr_conv Let_def vec_index_def
      split: if_splits intro: seq_acts_steps)

section \<open>The invariant of the allocation of ids\<close>

text \<open>
  Every id of a slot is 0 (a slot that has had none) or one of the \<open>range\<close> ids from \<open>start\<close>
  on; so is every id under way.
\<close>

definition id_in_range :: "'g sequence_manager \<Rightarrow> u64 \<Rightarrow> bool" where
  "id_in_range m x \<longleftrightarrow>
     (\<exists>k < unat (sequence_id_range m). x = word_of_nat k + start_sequence_id m)"

lemma next_id_in_range:
  assumes "sequence_id_range m \<noteq> 0"
  shows "id_in_range m (curr_seq_id m mod sequence_id_range m + start_sequence_id m)"
proof -
  let ?k = "unat (curr_seq_id m mod sequence_id_range m)"
  have "?k < unat (sequence_id_range m)"
    using assms by (simp add: unat_mod unat_gt_0)
  moreover have "word_of_nat ?k = curr_seq_id m mod sequence_id_range m" by simp
  ultimately show ?thesis unfolding id_in_range_def by metis
qed

text \<open>
  The ids and the allocations under way, as a system of their own; an id \<open>x\<close> can be drawn
  when \<open>R x\<close>.
\<close>

inductive id_step ::
  "(u64 \<Rightarrow> bool) \<Rightarrow> u64 list \<times> (nat \<Rightarrow> alloc_phase) \<Rightarrow> u64 list \<times> (nat \<Rightarrow> alloc_phase) \<Rightarrow> bool"
  for R :: "u64 \<Rightarrow> bool" where
  draw: "i < length ids \<Longrightarrow> ph i = Idle \<Longrightarrow> R nxt \<Longrightarrow>
    id_step R (ids, ph) (ids, ph(i := Scanning (ids ! i) nxt 0))"
| hit: "ph i = Scanning old nxt k \<Longrightarrow> k < length ids \<Longrightarrow> nxt = ids ! k \<Longrightarrow>
    id_step R (ids, ph) (ids, ph(i := Keeping old))"
| miss: "ph i = Scanning old nxt k \<Longrightarrow> k < length ids \<Longrightarrow> nxt \<noteq> ids ! k \<Longrightarrow>
    id_step R (ids, ph) (ids, ph(i := Scanning old nxt (Suc k)))"
| through: "ph i = Scanning old nxt k \<Longrightarrow> length ids \<le> k \<Longrightarrow>
    id_step R (ids, ph) (ids, ph(i := Taking nxt))"
| take: "ph i = Taking nid \<Longrightarrow> id_step R (ids, ph) (ids[i := nid], ph(i := Filling))"
| keep: "ph i = Keeping nid \<Longrightarrow> id_step R (ids, ph) (ids[i := nid], ph(i := Filling))"
| fill: "id_step R (ids, ph) (ids, ph(i := Idle))"
| skip: "id_step R (ids, ph) (ids, ph)"

abbreviation id_view :: "'g seq_shared \<Rightarrow> u64 list \<times> (nat \<Rightarrow> alloc_phase)" where
  "id_view s \<equiv> (ids_of (manager s), phase s)"

lemma upd_status_same_ids:
  "i < length (sequence_statuses m) \<Longrightarrow> (\<And>s. seq_id (f s) = seq_id s) \<Longrightarrow> ids_of (upd_status i f m) = ids_of m"
  by (simp add: ids_of_def map_update) (metis length_map list_update_id nth_map)

lemma ids_of_set_seq_id [simp]: "ids_of (set_seq_id i nid m) = (ids_of m)[i := nid]"
  by (simp add: set_seq_id_def ids_of_def map_update)

lemma set_seq_id_frame [simp]:
  "start_sequence_id (set_seq_id i nid m) = start_sequence_id m"
  "sequence_id_range (set_seq_id i nid m) = sequence_id_range m"
  by (simp_all add: set_seq_id_def)

lemma init_length_ids:
  assumes "init_length u ts r i m = Inr m'"
  shows "ids_of m' = ids_of m"
proof -
  note fr = init_length_frame [OF assms]
  have "\<forall>j < length (sequence_statuses m). seq_id (sequence_statuses m' ! j) = seq_id (sequence_statuses m ! j)"
    using fr(5,6) by metis
  with fr(1) show ?thesis by (simp add: ids_of_def list_eq_iff_nth_eq)
qed

lemma seq_step_id_step:
  assumes "seq_step u ts s s'"
  shows "id_step (id_in_range (manager s)) (id_view s) (id_view s') \<and>
    id_in_range (manager s') = id_in_range (manager s)"
  using assms
proof cases
  case (act a)
  then show ?thesis
  proof (cases a)
    case (Draw i)
    let ?nxt = "curr_seq_id (manager s) mod sequence_id_range (manager s) + start_sequence_id (manager s)"
    have "sequence_id_range (manager s) \<noteq> 0 \<Longrightarrow> id_in_range (manager s) ?nxt"
      by (rule next_id_in_range)
    with Draw act show ?thesis
      using id_step.draw [of i "ids_of (manager s)" "phase s" "id_in_range (manager s)" ?nxt]
      by (auto simp: draw_seq_id_def ids_of_def id_in_range_def [abs_def] vec_index_def
          split: if_splits sum.splits)
  next
    case (Look i)
    with act obtain old nxt k where p: "phase s i = Scanning old nxt k"
      by (auto split: alloc_phase.splits)
    with Look act id_step.hit [of "phase s" i old nxt k "ids_of (manager s)", OF p] id_step.miss [of "phase s" i old nxt k "ids_of (manager s)", OF p]
      id_step.through [of "phase s" i old nxt k "ids_of (manager s)", OF p] show ?thesis
      by (auto simp: scan_slot_def id_in_use_def ids_of_def not_less split: if_splits)
  next
    case (Write i)
    with act show ?thesis
      by (auto simp: ok_state_def id_in_range_def [abs_def] split: alloc_phase.splits
          intro: id_step.take id_step.keep)
  next
    case (Fill i r)
    with act obtain m' where "init_length u ts r i (manager s) = Inr m'"
      and s': "s' = \<lparr>manager = m', phase = (phase s)(i := Idle)\<rparr>"
      by (auto simp: ok_state_def split: if_splits sum.splits)
    then have "ids_of m' = ids_of (manager s)" "id_in_range m' = id_in_range (manager s)"
      using init_length_ids [of u ts r i "manager s" m'] init_length_frame(2,3) [of u ts r i "manager s" m']
      by (simp_all add: id_in_range_def [abs_def])
    with s' show ?thesis by (simp add: id_step.fill)
  qed (auto simp: ok_state_def DecrementRemainingQueries_def SetRemainingQueries_def vec_at_def
      upd_status_same_ids id_in_range_def fun_eq_iff split: if_splits sum.splits intro: id_step.skip)
qed

text \<open>Ranges: what one slot and its allocation under way satisfy.\<close>

fun phase_in_range :: "(u64 \<Rightarrow> bool) \<Rightarrow> u64 \<Rightarrow> alloc_phase \<Rightarrow> bool" where
  "phase_in_range R own (Scanning old nxt k) \<longleftrightarrow> old = own \<and> R nxt"
| "phase_in_range R own (Taking nxt) \<longleftrightarrow> R nxt"
| "phase_in_range R own (Keeping old) \<longleftrightarrow> old = own"
| "phase_in_range R own _ \<longleftrightarrow> True"

definition range_inv :: "(u64 \<Rightarrow> bool) \<Rightarrow> u64 list \<times> (nat \<Rightarrow> alloc_phase) \<Rightarrow> bool" where
  "range_inv R v \<longleftrightarrow> (\<forall>i < length (fst v). (fst v ! i = 0 \<or> R (fst v ! i)) \<and>
     phase_in_range R (fst v ! i) (snd v i))"

lemma id_step_range_inv: "id_step R v v' \<Longrightarrow> range_inv R v \<Longrightarrow> range_inv R v'"
  by (induction rule: id_step.induct) (fastforce simp: range_inv_def nth_list_update)+

text \<open>
  Distinctness: no two slots share an id, and no slot an allocation has passed, or any slot
  when it has passed them all, has the id the allocation drew.
\<close>

fun passed :: "nat \<Rightarrow> u64 \<Rightarrow> alloc_phase \<Rightarrow> bool" where
  "passed j other (Scanning old nxt k) \<longleftrightarrow> (j < k \<longrightarrow> other \<noteq> nxt)"
| "passed j other (Taking nxt) \<longleftrightarrow> other \<noteq> nxt"
| "passed j other _ \<longleftrightarrow> True"

definition distinct_inv :: "u64 list \<times> (nat \<Rightarrow> alloc_phase) \<Rightarrow> bool" where
  "distinct_inv v \<longleftrightarrow> (\<forall>i < length (fst v). \<forall>j < length (fst v). i \<noteq> j \<longrightarrow>
     (fst v ! i \<noteq> 0 \<longrightarrow> fst v ! i \<noteq> fst v ! j) \<and> passed j (fst v ! j) (snd v i))"

lemma passed_other:
  "passed j x p \<Longrightarrow> drawn_id p \<noteq> Some y \<Longrightarrow> passed j y p"
  by (cases p) auto

lemma distinct_passed:
  "distinct_inv v \<Longrightarrow> i < length (fst v) \<Longrightarrow> j < length (fst v) \<Longrightarrow> j \<noteq> i \<Longrightarrow>
     passed j (fst v ! j) (snd v i)"
  by (auto simp: distinct_inv_def)

lemma id_step_distinct_inv:
  assumes "id_step R v v'" and "distinct_inv v" and "range_inv R v"
    and "\<forall>i j. i \<noteq> j \<longrightarrow> drawn_id (snd v i) \<noteq> None \<longrightarrow> drawn_id (snd v i) \<noteq> drawn_id (snd v j)"
  shows "distinct_inv v'"
  using assms
proof (induction rule: id_step.induct)
  case (miss ph i old nxt k ids)
  have "ids ! j \<noteq> nxt" if j: "j < length ids" "j \<noteq> i" "i < length ids" "j < Suc k" for j
  proof (cases "j = k")
    case False
    then have "j < k" using j by simp
    with distinct_passed [OF miss.prems(1), of i j] j miss.hyps(1) show ?thesis by simp
  qed (use miss.hyps in simp)
  with miss.prems(1) show ?case by (auto simp: distinct_inv_def)
next
  case (through ph i old nxt k ids)
  have "ids ! j \<noteq> nxt" if "j < length ids" "j \<noteq> i" "i < length ids" for j
    using distinct_passed [OF through.prems(1), of i j] through.hyps that by simp
  with through.prems(1) show ?case by (auto simp: distinct_inv_def)
next
  case (take ph i nid ids)
  show ?case
    unfolding distinct_inv_def
  proof (intro allI impI)
    fix a b assume ab: "a < length (fst (ids[i := nid], ph(i := Filling)))"
      "b < length (fst (ids[i := nid], ph(i := Filling)))" "a \<noteq> b"
    have new: "j < length ids \<Longrightarrow> j \<noteq> i \<Longrightarrow> i < length ids \<Longrightarrow> ids ! j \<noteq> nid" for j
      using distinct_passed [OF take.prems(1), of i j] take.hyps by simp
    have dr: "j \<noteq> i \<Longrightarrow> drawn_id (ph j) \<noteq> Some nid" for j
      using take.prems(3) take.hyps by (metis drawn_id.simps(2) option.distinct(1) snd_conv)
    have old: "ids ! a \<noteq> 0 \<Longrightarrow> ids ! a \<noteq> ids ! b" "passed b (ids ! b) (ph a)"
      using take.prems(1) ab by (auto simp: distinct_inv_def)
    have "passed b nid (ph a)" if "a \<noteq> i" using passed_other [OF old(2) dr [OF that]] .
    with old show "(fst (ids[i := nid], ph(i := Filling)) ! a \<noteq> 0 \<longrightarrow>
        fst (ids[i := nid], ph(i := Filling)) ! a \<noteq> fst (ids[i := nid], ph(i := Filling)) ! b) \<and>
      passed b (fst (ids[i := nid], ph(i := Filling)) ! b) (snd (ids[i := nid], ph(i := Filling)) a)"
      using ab new [of a] new [of b] by (cases "a = i"; cases "b = i") auto
  qed
next
  case (keep ph i nid ids)
  then have "i < length ids \<Longrightarrow> phase_in_range R (ids ! i) (Keeping nid)"
    unfolding range_inv_def by (metis fst_conv snd_conv)
  then have "ids[i := nid] = ids" by (cases "i < length ids") (simp_all add: list_update_beyond)
  with keep.prems(1) show ?case by (auto simp: distinct_inv_def)
qed (auto simp: distinct_inv_def)

lemma draws_differ_run:
  assumes "(draws_differ_step u ts)\<^sup>*\<^sup>* (idle_state (InitSequenceStatuses n m)) s"
  shows "range_inv (id_in_range (manager s)) (id_view s) \<and> distinct_inv (id_view s) \<and> draws_differ s"
  using assms
proof (induction rule: rtranclp_induct)
  case base
  show ?case
    by (simp add: idle_state_def range_inv_def distinct_inv_def draws_differ_def ids_of_def
        InitSequenceStatuses_def new_status_def)
next
  case (step s s')
  then have v: "id_step (id_in_range (manager s)) (id_view s) (id_view s')"
    and r: "id_in_range (manager s') = id_in_range (manager s)"
    using seq_step_id_step [of u ts s s'] by (auto simp: draws_differ_step_def)
  from step have s: "range_inv (id_in_range (manager s)) (id_view s)" "distinct_inv (id_view s)"
    "draws_differ s" "draws_differ s'" by (simp_all add: draws_differ_step_def)
  have "distinct_inv (id_view s')"
    using id_step_distinct_inv [OF v s(2,1)] s(3) by (simp add: draws_differ_def)
  with id_step_range_inv [OF v s(1)] r s(4) show ?case by simp
qed

text \<open>The values of the counter at two draws of the same id differ by the range at least.\<close>

lemma same_draws_apart:
  assumes "a mod sequence_id_range m + start_sequence_id m = b mod sequence_id_range m + start_sequence_id m"
    and "a < b"
  shows "sequence_id_range m \<le> b - a"
proof -
  have "unat a mod unat (sequence_id_range m) = unat b mod unat (sequence_id_range m)"
    using assms(1) by (simp flip: unat_mod)
  moreover have "unat a < unat b" using assms(2) by (simp add: word_less_nat_alt)
  ultimately have "unat (sequence_id_range m) \<le> unat b - unat a"
    by (metis dvd_imp_le mod_eq_dvd_iff_nat less_imp_le zero_less_diff)
  then show ?thesis using assms(2) unat_sub [of a b] by (simp add: word_le_nat_alt word_less_nat_alt)
qed

text \<open>Without any assumption on the draws, the ids stay in the range.\<close>

lemma sequence_ids_in_range:
  assumes "(seq_step u ts)\<^sup>*\<^sup>* (idle_state (InitSequenceStatuses n m)) s"
  shows "range_inv (id_in_range (manager s)) (id_view s)"
  using assms
proof (induction rule: rtranclp_induct)
  case base
  show ?case
    by (simp add: idle_state_def range_inv_def ids_of_def InitSequenceStatuses_def new_status_def)
next
  case (step s s')
  then show ?case using seq_step_id_step [of u ts s s'] id_step_range_inv by metis
qed

text \<open>
  C3: Workers allocate correlation ids concurrently, each holding only the mutex of its own
  slot while it draws an id, tests the slots one by one and writes the id. In every run in
  which no two allocations under way have drawn the same id at the same time, two slots never
  carry the same non-zero id, and every non-zero id is one of the \<open>sequence_id_range\<close> ids
  that start at \<open>start_sequence_id\<close>. Two draws of the same id are at least
  \<open>sequence_id_range\<close> draws apart (\<open>same_draws_apart\<close>); when that many fall into one
  allocation, two slots can get the same id (\<open>sequence_ids_can_collide\<close>).
\<close>

theorem sequence_ids_exclusive:
  assumes "(draws_differ_step u ts)\<^sup>*\<^sup>* (idle_state (InitSequenceStatuses n m)) s"
    and "i < length (sequence_statuses (manager s))" and "j < length (sequence_statuses (manager s))"
    and "i \<noteq> j" and "seq_id (sequence_statuses (manager s) ! i) \<noteq> 0"
  shows "seq_id (sequence_statuses (manager s) ! i) \<noteq> seq_id (sequence_statuses (manager s) ! j) \<and>
    (\<exists>k < unat (sequence_id_range (manager s)).
       seq_id (sequence_statuses (manager s) ! i) = word_of_nat k + start_sequence_id (manager s))"
proof -
  from draws_differ_run [OF assms(1)]
  have "range_inv (id_in_range (manager s)) (id_view s)" "distinct_inv (id_view s)" by simp_all
  then show ?thesis
    using assms(2-5) unfolding range_inv_def distinct_inv_def id_in_range_def by (fastforce simp: ids_of_def)
qed

text \<open>A manager for the examples: ids 1 to 3, one stream of recorded data of two steps.\<close>

definition ex_manager :: "unit sequence_manager" where
  "ex_manager = SequenceManager () 1 3 2 False (Fin 0) True 1"

abbreviation ex_uniform :: "unit uniform" where
  "ex_uniform \<equiv> \<lambda>a b g. (a, g)"

abbreviation ex_steps :: "u64 \<Rightarrow> u64" where
  "ex_steps \<equiv> \<lambda>_. 2"

lemma replicate_two: "replicate 2 x = [x, x]"
  by (simp add: numeral_2_eq_2)

lemmas seq_eval = SetInferSequenceOptions_def InitNewSequence_def GetNextSeqId_def draw_seq_id_def
  id_in_use_def init_length_def set_seq_id_def
  GetNewDataStreamId_def vec_index_def vec_at_def InitSequenceStatuses_def SequenceManager_def
  ex_manager_def new_status_def upd_status_def replicate_two DecrementRemainingQueries_def Let_def

text \<open>Two workers allocate at the same time: both have drawn before either writes.\<close>

lemma draws_differ_acts:
  assumes "seq_act u ts a s = Some s'" and "draws_differ s'"
    and "(draws_differ_step u ts)\<^sup>*\<^sup>* s' s''"
  shows "(draws_differ_step u ts)\<^sup>*\<^sup>* s s''"
  using assms converse_rtranclp_into_rtranclp [of "draws_differ_step u ts" s s' s'']
  by (auto simp: draws_differ_step_def intro: seq_step.act)

fun clean_acts ::
  "'g uniform \<Rightarrow> (u64 \<Rightarrow> u64) \<Rightarrow> seq_action list \<Rightarrow> 'g seq_shared \<Rightarrow> bool" where
  "clean_acts u ts [] s \<longleftrightarrow> True"
| "clean_acts u ts (a # as) s \<longleftrightarrow>
     (case seq_act u ts a s of None \<Rightarrow> False | Some s' \<Rightarrow> draws_differ s' \<and> clean_acts u ts as s')"

lemma clean_acts_steps:
  "clean_acts u ts as s \<Longrightarrow> seq_acts u ts as s = Some s' \<Longrightarrow> (draws_differ_step u ts)\<^sup>*\<^sup>* s s'"
  by (induction as arbitrary: s) (auto split: option.splits intro: draws_differ_acts)

abbreviation ex_overlap :: "seq_action list" where
  "ex_overlap \<equiv> [Draw 0, Draw 1, Look 0, Look 1, Look 1, Look 1, Write 1, Look 0, Look 0, Write 0,
     Fill 0 0, Fill 1 0]"

theorem sequence_ids_exclusive_witness:
  "\<exists>s. (draws_differ_step ex_uniform ex_steps)\<^sup>*\<^sup>* (idle_state (InitSequenceStatuses 2 ex_manager)) s \<and>
     seq_id (sequence_statuses (manager s) ! 0) = 1 \<and>
     seq_id (sequence_statuses (manager s) ! 0) \<noteq> seq_id (sequence_statuses (manager s) ! 1)"
proof -
  let ?s = "idle_state (InitSequenceStatuses 2 ex_manager)"
  obtain s where e: "seq_acts ex_uniform ex_steps ex_overlap ?s = Some s"
    and id: "seq_id (sequence_statuses (manager s) ! 0) = 1" and len: "length (sequence_statuses (manager s)) = 2"
    by (simp add: seq_eval idle_state_def scan_slot_def ok_state_def)
  have "clean_acts ex_uniform ex_steps ex_overlap ?s"
    by (simp add: seq_eval idle_state_def scan_slot_def ok_state_def draws_differ_def)
  from clean_acts_steps [OF this e] have st: "(draws_differ_step ex_uniform ex_steps)\<^sup>*\<^sup>* ?s s" .
  have "seq_id (sequence_statuses (manager s) ! 0) \<noteq> seq_id (sequence_statuses (manager s) ! 1)"
    using sequence_ids_exclusive [OF st, of 0 1] id len by simp
  with st id show ?thesis by blast
qed

text \<open>
  Ids 1 and 2 for two slots, sequences of one request: the worker of slot 0 has drawn id 1 and
  tested both slots; before it writes, the worker of slot 1 runs a whole sequence with id 2,
  starts another one, draws id 1 and finds it in no slot either.
\<close>

lemma sequence_ids_can_collide:
  "\<exists>s. (seq_step ex_uniform (\<lambda>_. 1))\<^sup>*\<^sup>*
       (idle_state (InitSequenceStatuses 2 (ex_manager\<lparr>sequence_id_range := 2\<rparr>))) s \<and>
     seq_id (sequence_statuses (manager s) ! 0) = 1 \<and> seq_id (sequence_statuses (manager s) ! 1) = 1"
proof -
  let ?as = "[Draw 0, Look 0, Look 0, Look 0, Draw 1, Look 1, Look 1, Look 1, Write 1, Fill 1 0,
    Decrement 1, Draw 1, Look 1, Look 1, Look 1, Write 1, Write 0]"
  obtain s where "seq_acts ex_uniform (\<lambda>_. 1) ?as
      (idle_state (InitSequenceStatuses 2 (ex_manager\<lparr>sequence_id_range := 2\<rparr>))) = Some s"
    and "seq_id (sequence_statuses (manager s) ! 0) = 1" "seq_id (sequence_statuses (manager s) ! 1) = 1"
    by (simp add: seq_eval idle_state_def scan_slot_def ok_state_def)
  then show ?thesis using seq_acts_steps by blast
qed

section \<open>The requests of one sequence\<close>

text \<open>
  What \<open>InferContext::SendSequenceInferRequest\<close> does with the manager for one request, and
  for a list of requests (one value of \<open>rand()\<close> for each).
\<close>

definition send_one ::
  "'g uniform \<Rightarrow> (u64 \<Rightarrow> u64) \<Rightarrow> nat \<Rightarrow> int \<Rightarrow> 'g sequence_manager \<Rightarrow>
     exn + seq_options \<times> 'g sequence_manager" where
  "send_one u ts i r m =
     bindR (SetInferSequenceOptions u ts r i m) (\<lambda>(opt, m1).
       bindR (DecrementRemainingQueries i m1) (\<lambda>m2. Inr (opt, m2)))"

fun send_many ::
  "'g uniform \<Rightarrow> (u64 \<Rightarrow> u64) \<Rightarrow> nat \<Rightarrow> int list \<Rightarrow> 'g sequence_manager \<Rightarrow>
     exn + seq_options list \<times> 'g sequence_manager" where
  "send_many u ts i [] m = Inr ([], m)"
| "send_many u ts i (r # rs) m =
     bindR (send_one u ts i r m) (\<lambda>(opt, m1).
       bindR (send_many u ts i rs m1) (\<lambda>(opts, m2). Inr (opt # opts, m2)))"

lemma send_one_running:
  assumes "i < length (sequence_statuses m)"
    and "remaining_queries (sequence_statuses m ! i) = word_of_nat k" and "0 < k" and "k < 2 ^ 64"
  obtains m' where "send_one u ts i r m =
      Inr (\<lparr>sequence_start = False, sequence_id = seq_id (sequence_statuses m ! i),
            sequence_end = (k = 1)\<rparr>, m')"
    and "length (sequence_statuses m') = length (sequence_statuses m)"
    and "remaining_queries (sequence_statuses m' ! i) = word_of_nat (k - 1)"
    and "seq_id (sequence_statuses m' ! i) = seq_id (sequence_statuses m ! i)"
proof -
  have k0: "(word_of_nat k :: u64) \<noteq> 0"
    using assms(3,4) by (simp add: word_of_nat_eq_0_iff) (metis nat_dvd_not_less)
  have k1: "(word_of_nat k :: u64) = 1 \<longleftrightarrow> k = 1"
  proof
    assume "(word_of_nat k :: u64) = 1"
    then have "unat (word_of_nat k :: u64) = 1" by simp
    then show "k = 1" using assms(4) by (simp add: unat_of_nat)
  qed simp
  have km: "(word_of_nat k :: u64) - 1 = word_of_nat (k - 1)"
    using assms(3) by (simp add: of_nat_diff)
  let ?m' = "upd_status i (\<lambda>s. s\<lparr>remaining_queries := remaining_queries s - 1\<rparr>) m"
  have "send_one u ts i r m = Inr (\<lparr>sequence_start = False,
      sequence_id = seq_id (sequence_statuses m ! i), sequence_end = (k = 1)\<rparr>, ?m')"
    using assms k0 k1
    by (simp add: send_one_def SetInferSequenceOptions_def DecrementRemainingQueries_def Let_def)
  moreover have "length (sequence_statuses ?m') = length (sequence_statuses m)"
    "remaining_queries (sequence_statuses ?m' ! i) = word_of_nat (k - 1)"
    "seq_id (sequence_statuses ?m' ! i) = seq_id (sequence_statuses m ! i)"
    using assms(1,2) km by simp_all
  ultimately show thesis using that by blast
qed

lemma send_many_running:
  assumes "i < length (sequence_statuses m)" and "length rs < 2 ^ 64"
    and "remaining_queries (sequence_statuses m ! i) = word_of_nat (length rs)"
  shows "\<exists>opts m'. send_many u ts i rs m = Inr (opts, m') \<and>
     map sequence_start opts = replicate (length rs) False \<and>
     map sequence_end opts = map (\<lambda>j. j = length rs - 1) [0..<length rs] \<and>
     map sequence_id opts = replicate (length rs) (seq_id (sequence_statuses m ! i)) \<and>
     remaining_queries (sequence_statuses m' ! i) = 0"
  using assms
proof (induction rs arbitrary: m)
  case Nil
  then show ?case by simp
next
  case (Cons r rs)
  obtain m1 where m1: "send_one u ts i r m =
      Inr (\<lparr>sequence_start = False, sequence_id = seq_id (sequence_statuses m ! i),
            sequence_end = (length (r # rs) = 1)\<rparr>, m1)"
    "length (sequence_statuses m1) = length (sequence_statuses m)"
    "remaining_queries (sequence_statuses m1 ! i) = word_of_nat (length rs)"
    "seq_id (sequence_statuses m1 ! i) = seq_id (sequence_statuses m ! i)"
    using send_one_running [OF Cons.prems(1,3), of u ts r] Cons.prems(2)
    by (metis One_nat_def diff_Suc_1 length_Cons zero_less_Suc)
  have "i < length (sequence_statuses m1)" "length rs < 2 ^ 64"
    using Cons.prems m1(2) by simp_all
  from Cons.IH [OF this m1(3)] obtain opts m' where
    "send_many u ts i rs m1 = Inr (opts, m')"
    "map sequence_start opts = replicate (length rs) False"
    "map sequence_end opts = map (\<lambda>j. j = length rs - 1) [0..<length rs]"
    "map sequence_id opts = replicate (length rs) (seq_id (sequence_statuses m1 ! i))"
    "remaining_queries (sequence_statuses m' ! i) = 0" by blast
  moreover have "map (\<lambda>j. j = length (r # rs) - 1) [0..<length (r # rs)] =
      (length (r # rs) = 1) # map (\<lambda>j. j = length rs - 1) [0..<length rs]"
    by (cases rs) (auto simp: upt_conv_Cons map_Suc_upt [symmetric] simp del: upt_Suc)
  ultimately show ?case using m1 by auto
qed

text \<open>
  C10: When a slot is free and the new sequence is given \<open>L > 0\<close> requests, the next \<open>L\<close>
  requests on the slot are one sequence: the first, and only the first, has the start flag,
  the last, and only the last, has the end flag, all carry the id allocated at the start,
  and the slot is free again afterwards.
\<close>

theorem sequence_flags:
  assumes "i < length (sequence_statuses m)" and "remaining_queries (sequence_statuses m ! i) = 0"
    and "InitNewSequence u ts r i m = Inr m1"
    and "remaining_queries (sequence_statuses m1 ! i) = word_of_nat (Suc (length rs))"
    and "Suc (length rs) < 2 ^ 64"
  shows "\<exists>opts m'. send_many u ts i (r # rs) m = Inr (opts, m') \<and>
     map sequence_start opts = True # replicate (length rs) False \<and>
     map sequence_end opts = map (\<lambda>j. j = length rs) [0..<Suc (length rs)] \<and>
     map sequence_id opts = replicate (Suc (length rs)) (seq_id (sequence_statuses m1 ! i)) \<and>
     remaining_queries (sequence_statuses m' ! i) = 0"
proof -
  have i1: "i < length (sequence_statuses m1)"
    using InitNewSequence_length [OF assms(3)] assms(1) by simp
  have "\<exists>opts m'. send_many u ts i (r # rs) m1 = Inr (opts, m') \<and>
     map sequence_start opts = replicate (Suc (length rs)) False \<and>
     map sequence_end opts = map (\<lambda>j. j = length rs) [0..<Suc (length rs)] \<and>
     map sequence_id opts = replicate (Suc (length rs)) (seq_id (sequence_statuses m1 ! i)) \<and>
     remaining_queries (sequence_statuses m' ! i) = 0"
    using send_many_running [OF i1, of "r # rs" u ts] assms(4,5) by (simp del: upt_Suc)
  then obtain opt m2 opts m' where run: "send_one u ts i r m1 = Inr (opt, m2)"
    "send_many u ts i rs m2 = Inr (opts, m')"
    and fl: "sequence_start opt = False" "map sequence_start opts = replicate (length rs) False"
    "map sequence_end (opt # opts) = map (\<lambda>j. j = length rs) [0..<Suc (length rs)]"
    "map sequence_id (opt # opts) = replicate (Suc (length rs)) (seq_id (sequence_statuses m1 ! i))"
    "remaining_queries (sequence_statuses m' ! i) = 0"
    by (auto simp: bindR_Inr_conv simp del: upt_Suc)
  have r1: "remaining_queries (sequence_statuses m1 ! i) \<noteq> 0"
  proof -
    have "(word_of_nat (Suc (length rs)) :: u64) \<noteq> 0"
      using assms(5) nat_dvd_not_less [of "Suc (length rs)" "2 ^ 64"]
      by (simp add: word_of_nat_eq_0_iff del: of_nat_Suc)
    then show ?thesis by (simp only: assms(4) not_False_eq_True)
  qed
  have "send_one u ts i r m = Inr (opt\<lparr>sequence_start := True\<rparr>, m2)"
    using run(1) assms(1-3) i1 r1
    by (auto simp: send_one_def SetInferSequenceOptions_def Let_def bindR_Inr_conv)
  with run(2) fl show ?thesis by (auto simp del: upt_Suc)
qed

theorem sequence_flags_witness:
  "\<exists>opts m'. send_many ex_uniform ex_steps 1 [0, 0] (InitSequenceStatuses 2 ex_manager) = Inr (opts, m') \<and>
     map sequence_start opts = [True, False] \<and> map sequence_end opts = [False, True] \<and>
     map sequence_id opts = [1, 1] \<and> remaining_queries (sequence_statuses m' ! 1) = 0"
proof -
  obtain m1 where "InitNewSequence ex_uniform ex_steps 0 1 (InitSequenceStatuses 2 ex_manager) = Inr m1"
    and "remaining_queries (sequence_statuses m1 ! 1) = 2" and "seq_id (sequence_statuses m1 ! 1) = 1"
    by (simp add: seq_eval)
  with sequence_flags [of 1 "InitSequenceStatuses 2 ex_manager" ex_uniform ex_steps 0 m1 "[0]"]
  show ?thesis by (simp add: InitSequenceStatuses_def new_status_def replicate_two)
qed

section \<open>The length of a sequence\<close>

lemma offset_value_between:
  assumes "0 \<le> r" and "r \<le> RAND_MAX" and "0 \<le> q" and "q \<le> 100" and "uint len \<le> 2 ^ 53"
  obtains y where "offset_value r (Fin q) len = Fin y"
    and "- of_int (uint len) \<le> y" and "y \<le> of_int (uint len)"
proof -
  define L where "L = uint len"
  have L0: "0 \<le> L" and L53: "L \<le> 2 ^ 53" using assms(5) by (simp_all add: L_def)
  have r2: "ieee_of_int binary64 r = Fin (of_int r)" "ieee_of_int binary64 RAND_MAX = Fin (of_int RAND_MAX)"
    "ieee_of_int binary64 L = Fin (of_int L)"
    using assms(1,2) L0 L53 by (intro ieee_of_int64_exact; simp add: RAND_MAX_def)+
  have m: "ieee_mul binary64 (Fin 2) (Fin (of_int r)) = Fin (of_int (2 * r))"
    using assms(1,2) ieee_of_int64_exact [of "2 * r"] by (simp add: ieee_of_int_def RAND_MAX_def)
  have bd: "0 \<le> (of_int (2 * r) :: rat) / of_int RAND_MAX" "(of_int (2 * r) :: rat) / of_int RAND_MAX \<le> 2"
  proof -
    have "(of_int (2 * r) :: rat) \<le> of_int (2 * RAND_MAX)"
      unfolding of_int_le_iff using assms(2) by simp
    then show "(of_int (2 * r) :: rat) / of_int RAND_MAX \<le> 2" by (simp add: RAND_MAX_def)
  qed (use assms(1) in \<open>simp add: RAND_MAX_def\<close>)
  obtain d where d: "fin binary64 (of_int (2 * r) / of_int RAND_MAX) = Fin d" "0 \<le> d" "d \<le> 2"
    using fin64_between [of 0 "of_int (2 * r) / of_int RAND_MAX" 2] bd by auto
  obtain e where e: "fin binary64 (d + - 1) = Fin e" "- 1 \<le> e" "e \<le> 1"
    using fin64_between [of "- 1" "d + - 1" 1] d by auto
  have "\<bar>e * q\<bar> \<le> 1 * 100" unfolding abs_mult using e assms(3,4) by (intro mult_mono) auto
  then obtain f where f: "fin binary64 (e * q) = Fin f" "- 100 \<le> f" "f \<le> 100"
    using fin64_between [of "- 100" "e * q" 100] by (auto simp: abs_le_iff)
  obtain g where g: "fin binary64 (f / 100) = Fin g" "- 1 \<le> g" "g \<le> 1"
    using fin64_between [of "- 1" "f / 100" 1] f by auto
  have "\<bar>g * of_int L\<bar> \<le> 1 * of_int L" unfolding abs_mult using g L0 by (intro mult_mono) auto
  then obtain h where h: "fin binary64 (g * of_int L) = Fin h" "of_int (- L) \<le> h" "h \<le> of_int L"
    using fin64_between [of "- L" "g * of_int L" "L"] L0 L53 by (auto simp: abs_le_iff)
  moreover have "RAND_MAX \<noteq> 0" by (simp add: RAND_MAX_def)
  ultimately show thesis
    using that [of h] d(1) e(1) f(1) g(1) m 
    by (simp add: offset_value_def r2 ieee_sub_def L_def [symmetric])
qed

text \<open>
  C31: With a configured length above 0 and below \<open>2 ^ 30\<close> and a variation of 0 to 100 percent,
  whatever \<open>rand()\<close> returns, the random length of a sequence is defined, at least 1 and at most
  twice the configured length, with the rounding of every \<open>double\<close> operation of the expression
  taken into account. From \<open>2 ^ 30\<close> on the \<open>int\<close> sum can overflow
  (\<open>random_length_overflows\<close>).
\<close>

theorem random_length_bounds:
  assumes "0 \<le> r" and "r \<le> RAND_MAX" and "0 \<le> q" and "q \<le> 100"
    and "0 < sm_sequence_length m" and "uint (sm_sequence_length m) < 2 ^ 30"
  shows "\<exists>v. GetRandomSequenceLength r (Fin q) m = Inr v \<and> 1 \<le> uint v \<and>
    uint v \<le> 2 * uint (sm_sequence_length m)"
proof -
  let ?w = "sm_sequence_length m"
  let ?L = "uint ?w"
  have L: "0 < ?L" "?L < 2 ^ 30" using assms(5,6) by (simp_all add: word_less_def)
  obtain y where y: "offset_value r (Fin q) ?w = Fin y" "of_int (- ?L) \<le> y" "y \<le> of_int ?L"
    using offset_value_between [OF assms(1-4), of ?w] L by auto
  obtain t where t: "ieee_trunc (Fin y) = Some t" "- ?L \<le> t" "t \<le> ?L"
    using ieee_trunc_between [OF y(2,3)] L by auto
  have i32: "sint (ucast ?w :: 32 word) = ?L"
    using L by (simp add: sint_uint unsigned_ucast_eq take_bit_int_eq_self signed_take_bit_int_eq_self)
  have s: "0 < ?L + t \<Longrightarrow> uint (?w + word_of_int t) = ?L + t"
    using t L by (simp add: uint_word_ariths uint_word_of_int mod_add_right_eq)
  show ?thesis
    using t L s unfolding GetRandomSequenceLength_def y(1) t(1)
    by (auto simp: i32 fits_int_def Let_def)
qed

theorem random_length_bounds_witness:
  "\<exists>v. GetRandomSequenceLength 5 (Fin 50) ex_manager = Inr v \<and> 1 \<le> uint v \<and> uint v \<le> 4"
  using random_length_bounds [of 5 50 ex_manager]
  by (simp add: RAND_MAX_def ex_manager_def SequenceManager_def)

text \<open>
  The bound on the length is needed: for \<open>2 ^ 30\<close> and a variation of 100 percent, the largest
  value of \<open>rand()\<close> makes the sum \<open>int(sequence_length_) + random_offset\<close> overflow.
\<close>

lemma random_length_overflows:
  "GetRandomSequenceLength RAND_MAX (Fin 100) (ex_manager\<lparr>sm_sequence_length := 2 ^ 30\<rparr>) =
     Inl (UndefinedBehaviour ''signed overflow'')"
proof -
  have ex: "fin binary64 (of_int z) = Fin (of_int z)" if "\<bar>z\<bar> \<le> 2 ^ 53" for z
    using ieee_of_int64_exact [OF that] by (simp add: ieee_of_int_def)
  have "offset_value RAND_MAX (Fin 100) (2 ^ 30) = Fin (2 ^ 30)"
    using ex [of "2 ^ 30"] ex [of RAND_MAX] ex [of "2 * RAND_MAX"] ex [of 2] ex [of 1] ex [of 100]
    by (simp add: offset_value_def RAND_MAX_def ieee_of_int_def ieee_sub_def)
  then show ?thesis
    by (simp add: GetRandomSequenceLength_def fits_int_def)
qed

end
