(* ===== verification/Std_Map.thy ===== *)
theory Std_Map
  imports PA_Prelude "HOL-Library.Char_ord" "HOL-Library.List_Lexorder"
    "HOL-Library.Product_Lexorder"
begin

text \<open>
  \<open>std::map\<close> and \<open>std::set\<close> as the sources use them: lists in increasing order of the keys,
  which is the order in which the range-based \<open>for\<close> loops visit them. The keys of the
  program are integers, strings and pairs of strings (\<open>cb::ModelIdentifier\<close>), which C++ and the
  instances of \<open>linorder\<close> imported here order the same way, lexicographically on the
  unsigned values of the characters. The locale \<open>ordered_map\<close> is the interface the
  components rely on.
\<close>

section \<open>Operations\<close>

type_synonym ('k, 'v) std_map = "('k \<times> 'v) list"

definition map_wf :: "('k :: linorder, 'v) std_map \<Rightarrow> bool" where
  "map_wf m \<longleftrightarrow> sorted_wrt (<) (map fst m)"

definition map_find :: "('k, 'v) std_map \<Rightarrow> 'k \<Rightarrow> 'v option" where
  "map_find m k = map_of m k"

text \<open>\<open>m[k] = v\<close>.\<close>

fun map_assign :: "'k :: linorder \<Rightarrow> 'v \<Rightarrow> ('k, 'v) std_map \<Rightarrow> ('k, 'v) std_map" where
  "map_assign k v [] = [(k, v)]"
| "map_assign k v ((l, w) # m) =
     (if k < l then (k, v) # (l, w) # m
      else if k = l then (k, v) # m
      else (l, w) # map_assign k v m)"

text \<open>\<open>emplace\<close> and \<open>insert\<close> leave an existing entry alone.\<close>

definition map_emplace :: "'k :: linorder \<Rightarrow> 'v \<Rightarrow> ('k, 'v) std_map \<Rightarrow> ('k, 'v) std_map" where
  "map_emplace k v m = (case map_find m k of None \<Rightarrow> map_assign k v m | Some _ \<Rightarrow> m)"

text \<open>What \<open>m[k]\<close> reads, \<open>d\<close> being the value a missing entry is given.\<close>

definition map_get :: "'v \<Rightarrow> ('k, 'v) std_map \<Rightarrow> 'k \<Rightarrow> 'v" where
  "map_get d m k = (case map_find m k of None \<Rightarrow> d | Some v \<Rightarrow> v)"

text \<open>\<open>erase\<close> of a key.\<close>

definition map_erase :: "'k \<Rightarrow> ('k, 'v) std_map \<Rightarrow> ('k, 'v) std_map" where
  "map_erase key m = filter (\<lambda>(k, _). k \<noteq> key) m"

text \<open>\<open>std::set::emplace\<close>.\<close>

fun set_emplace :: "'a :: linorder \<Rightarrow> 'a list \<Rightarrow> 'a list" where
  "set_emplace x [] = [x]"
| "set_emplace x (y # ys) =
     (if x < y then x # y # ys else if x = y then y # ys else y # set_emplace x ys)"

section \<open>Laws\<close>

lemma map_find_assign [simp]: "map_wf m \<Longrightarrow>
  map_find (map_assign k v m) l = (if l = k then Some v else map_find m l)"
proof (induction m)
  case (Cons a m)
  have "map_of m k = None" if "k < fst a"
  proof (rule ccontr)
    assume "map_of m k \<noteq> None"
    then have "k \<in> fst ` set m" by (simp add: map_of_eq_None_iff)
    with Cons.prems that show False by (auto simp: map_wf_def)
  qed
  with Cons show ?case by (cases a) (auto simp: map_find_def map_wf_def)
qed (simp add: map_find_def)

lemma map_assign_keys: "fst ` set (map_assign k v m) = insert k (fst ` set m)"
proof (induction m)
  case (Cons a m)
  then show ?case by (cases a) (simp add: insert_commute)
qed simp

lemma map_wf_assign [simp]: "map_wf m \<Longrightarrow> map_wf (map_assign k v m)"
proof (induction m)
  case (Cons a m)
  then have "map_wf (map_assign k v m)" by (simp add: map_wf_def)
  moreover have "\<forall>x \<in> fst ` set m. fst a < x" using Cons.prems by (simp add: map_wf_def)
  moreover have "fst a < k \<Longrightarrow> \<forall>x \<in> fst ` set (map_assign k v m). fst a < x"
    using Cons.prems by (auto simp: map_assign_keys map_wf_def)
  ultimately show ?case
    using Cons.prems by (cases a) (auto simp: map_wf_def)
qed (simp add: map_wf_def)

lemma map_wf_Nil [simp]: "map_wf []"
  by (simp add: map_wf_def)

lemma map_find_Nil [simp]: "map_find [] k = None"
  by (simp add: map_find_def)

lemma map_find_in: "map_find m k = Some v \<Longrightarrow> (k, v) \<in> set m"
  by (simp add: map_find_def map_of_SomeD)

lemma map_find_wf: "map_wf m \<Longrightarrow> (k, v) \<in> set m \<Longrightarrow> map_find m k = Some v"
  by (simp add: map_find_def map_wf_def strict_sorted_iff)

lemma map_wf_emplace [simp]: "map_wf m \<Longrightarrow> map_wf (map_emplace k v m)"
  by (simp add: map_emplace_def split: option.split)

lemma map_find_emplace [simp]: "map_wf m \<Longrightarrow>
  map_find (map_emplace k v m) l =
    (case map_find m l of None \<Rightarrow> if l = k then Some v else None | Some w \<Rightarrow> Some w)"
  by (auto simp: map_emplace_def split: option.split)

lemma map_emplace_keys: "fst ` set (map_emplace k v m) = insert k (fst ` set m)"
proof (cases "map_find m k")
  case (Some w)
  then have "k \<in> fst ` set m" by (force dest: map_find_in)
  with Some show ?thesis by (auto simp: map_emplace_def)
qed (simp add: map_emplace_def map_assign_keys)

lemma map_assign_length: "map_wf m \<Longrightarrow> length (map_assign k v m) = (if map_find m k = None then Suc (length m) else length m)"
proof (induction m)
  case (Cons a m)
  have "map_of m k = None" if "k < fst a"
    using that Cons.prems by (force simp: map_wf_def map_of_eq_None_iff)
  with Cons show ?case by (cases a) (auto simp: map_wf_def map_find_def)
qed (simp add: map_find_def)

lemma map_erase_wf [simp]: "map_wf m \<Longrightarrow> map_wf (map_erase key m)"
proof (induction m)
  case (Cons a m)
  then show ?case by (cases a) (auto simp: map_wf_def map_erase_def)
qed (simp add: map_erase_def)

lemma map_erase_find [simp]: "map_find (map_erase key m) l = (if l = key then None else map_find m l)"
  by (induction m) (auto simp: map_find_def map_erase_def split: if_splits)

lemma map_erase_length:
  "map_wf m \<Longrightarrow> map_find m key \<noteq> None \<Longrightarrow> Suc (length (map_erase key m)) = length m"
proof (induction m)
  case (Cons a m)
  have wf: "map_wf m" "fst a \<notin> fst ` set m" using Cons.prems(1) by (auto simp: map_wf_def)
  show ?case
  proof (cases "fst a = key")
    case True
    have "\<forall>x \<in> set m. fst x \<noteq> key" using wf(2) True by (metis image_eqI)
    then have "map_erase key m = m" by (auto simp: map_erase_def filter_id_conv)
    with True show ?thesis by (cases a) (simp add: map_erase_def)
  next
    case False
    with Cons wf show ?thesis by (cases a) (simp add: map_find_def map_erase_def)
  qed
qed (simp add: map_find_def)
lemma set_emplace_set [simp]: "set (set_emplace x ys) = insert x (set ys)"
  by (induction ys) auto

lemma set_emplace_sorted: "sorted_wrt (<) ys \<Longrightarrow> sorted_wrt (<) (set_emplace x ys)"
  by (induction ys) (auto simp: less_trans)

section \<open>Interface\<close>

text \<open>
  The laws of an ordered map that the components use, and what follows from them for a
  loop that fills a map from a list.
\<close>

locale ordered_map =
  fixes wf :: "'m \<Rightarrow> bool"
    and nil :: 'm
    and find :: "'m \<Rightarrow> 'k \<Rightarrow> 'v option"
    and put :: "'k \<Rightarrow> 'v \<Rightarrow> 'm \<Rightarrow> 'm"
  assumes wf_nil: "wf nil"
    and find_nil: "find nil k = None"
    and wf_put: "wf m \<Longrightarrow> wf (put k v m)"
    and find_put_same: "wf m \<Longrightarrow> find m k = None \<Longrightarrow> find (put k v m) k = Some v"
    and find_put_other: "wf m \<Longrightarrow> l \<noteq> k \<Longrightarrow> find (put k v m) l = find m l"
begin

definition fill :: "('a \<Rightarrow> 'k) \<Rightarrow> ('a \<Rightarrow> 'v) \<Rightarrow> 'a list \<Rightarrow> 'm \<Rightarrow> 'm" where
  "fill key val xs m = foldl (\<lambda>m x. put (key x) (val x) m) m xs"

lemma fill_wf: "wf m \<Longrightarrow> wf (fill key val xs m)"
  by (induction xs arbitrary: m) (simp_all add: fill_def wf_put)

lemma fill_other:
  "wf m \<Longrightarrow> k \<notin> key ` set xs \<Longrightarrow> find (fill key val xs m) k = find m k"
proof (induction xs arbitrary: m)
  case (Cons x xs)
  then have "find (fill key val xs (put (key x) (val x) m)) k = find (put (key x) (val x) m) k"
    by (intro Cons.IH) (auto simp: wf_put)
  also have "\<dots> = find m k" using Cons.prems by (intro find_put_other) auto
  finally show ?case by (simp add: fill_def)
qed (simp add: fill_def)

lemma fill_lookup:
  assumes "wf m" and "distinct (map key xs)" and "x \<in> set xs"
    and "find m (key x) = None"
  shows "find (fill key val xs m) (key x) = Some (val x)"
  using assms
proof (induction xs arbitrary: m)
  case (Cons y ys)
  let ?m = "put (key y) (val y) m"
  show ?case
  proof (cases "x = y")
    case True
    then have "find (fill key val ys ?m) (key x) = find ?m (key x)"
      using Cons.prems by (intro fill_other) (auto simp: wf_put)
    also have "\<dots> = Some (val x)" using Cons.prems True by (simp add: find_put_same)
    finally show ?thesis by (simp add: fill_def)
  next
    case False
    with Cons.prems have "key x \<noteq> key y" by (auto simp: image_iff)
    then have "find ?m (key x) = None" using Cons.prems by (simp add: find_put_other)
    with Cons False have "find (fill key val ys ?m) (key x) = Some (val x)" by (simp add: wf_put)
    then show ?thesis by (simp add: fill_def)
  qed
qed simp

end

interpretation assign_map: ordered_map map_wf "[]" map_find map_assign
  by unfold_locales auto

interpretation emplace_map: ordered_map map_wf "[]" map_find map_emplace
  by unfold_locales (auto split: option.split)

end
