(* ===== verification/Profile_Data.thy ===== *)
theory Profile_Data
  imports Std_Map Ieee_Float
begin

text \<open>
  The records of the requests (\<open>request_record.h\<close>) and the collector of the profile data
  (\<open>profile_data_collector.h\<close>, \<open>profile_data_collector.cc\<close>): the experiments, one per load
  mode, each with its measurement windows and its requests.
\<close>

section \<open>Request records\<close>

text \<open>
  \<open>RecordData\<close>. The constructor reads the size of the buffer after moving it into \<open>data_\<close>:
  the vector it was moved from is empty then, and \<open>size_\<close> is 0.
\<close>

record record_data =
  rd_data :: bytes
  rd_size :: nat
  rd_data_type :: string

definition RecordData :: "bytes \<Rightarrow> string \<Rightarrow> record_data" where
  "RecordData buf data_type =
     (let moved_from = [] :: bytes
      in \<lparr>rd_data = buf, rd_size = length moved_from * 1, rd_data_type = data_type\<rparr>)"

definition record_data_eq :: "record_data \<Rightarrow> record_data \<Rightarrow> bool" where
  "record_data_eq a b \<longleftrightarrow>
     (if rd_size a \<noteq> rd_size b then False else take (rd_size a) (rd_data a) = take (rd_size a) (rd_data b))"

text \<open>
  Time points of \<open>std::chrono::system_clock\<close> are counts of nanoseconds since its epoch;
  \<open>CHRONO_TO_NANOS\<close> stores one in a \<open>uint64_t\<close>.
\<close>

definition CHRONO_TO_NANOS :: "int \<Rightarrow> u64" where
  "CHRONO_TO_NANOS t = word_of_int t"

record request_record =
  start_time :: int
  response_timestamps :: "int list"
  request_inputs :: "(string, record_data) std_map list"
  response_outputs :: "(string, record_data) std_map list"
  rr_sequence_end :: bool
  rr_delayed :: bool
  rr_sequence_id :: u64
  has_null_last_response :: bool

definition new_request_record :: request_record where
  "new_request_record = \<lparr>start_time = 0, response_timestamps = [], request_inputs = [],
     response_outputs = [], rr_sequence_end = True, rr_delayed = False, rr_sequence_id = 0,
     has_null_last_response = False\<rparr>"

section \<open>The collector\<close>

record load_mode =
  lm_concurrency :: u32
  lm_request_rate :: ieee

definition LoadMode :: "u64 \<Rightarrow> ieee \<Rightarrow> load_mode" where
  "LoadMode c rr = \<lparr>lm_concurrency = ucast c, lm_request_rate = rr\<rparr>"

definition load_mode_eq :: "load_mode \<Rightarrow> load_mode \<Rightarrow> bool" where
  "load_mode_eq a b \<longleftrightarrow>
     lm_concurrency a = lm_concurrency b \<and> ieee_eq (lm_request_rate a) (lm_request_rate b)"

record 'r experiment_data =
  mode :: load_mode
  requests :: "'r list"
  window_boundaries :: "u64 list"

type_synonym 'r collector = "'r experiment_data list"

text \<open>\<open>FindExperiment\<close>: the index of the first experiment of the mode, if there is one.\<close>

fun FindExperiment :: "load_mode \<Rightarrow> 'r collector \<Rightarrow> nat option" where
  "FindExperiment lm [] = None"
| "FindExperiment lm (e # es) =
     (if load_mode_eq (mode e) lm then Some 0 else map_option Suc (FindExperiment lm es))"

definition AddWindow :: "load_mode \<Rightarrow> u64 \<Rightarrow> u64 \<Rightarrow> 'r collector \<Rightarrow> exn + 'r collector" where
  "AddWindow lm ws we es =
     (case FindExperiment lm es of
        None \<Rightarrow> Inr (es @ [\<lparr>mode = lm, requests = [], window_boundaries = [ws, we]\<rparr>])
      | Some i \<Rightarrow>
          if window_boundaries (es ! i) = [] then Inl (UndefinedBehaviour ''back of empty vector'')
          else
            let wb = window_boundaries (es ! i);
                wb1 = (if last wb \<noteq> ws then wb @ [ws] else wb)
            in Inr (es[i := (es ! i)\<lparr>window_boundaries := wb1 @ [we]\<rparr>]))"

definition AddData :: "load_mode \<Rightarrow> 'r list \<Rightarrow> 'r collector \<Rightarrow> 'r collector" where
  "AddData lm rs es =
     (case FindExperiment lm es of
        None \<Rightarrow> es @ [\<lparr>mode = lm, requests = rs, window_boundaries = []\<rparr>]
      | Some i \<Rightarrow> es[i := (es ! i)\<lparr>requests := requests (es ! i) @ rs\<rparr>])"

text \<open>What \<open>InferenceProfiler::CollectData\<close> does with one measurement.\<close>

definition collect_one :: "load_mode \<times> u64 \<times> u64 \<times> 'r list \<Rightarrow> 'r collector \<Rightarrow> exn + 'r collector" where
  "collect_one c es =
     (case c of (lm, ws, we, rs) \<Rightarrow>
        bindR (AddWindow lm ws we es) (\<lambda>es'. Inr (AddData lm rs es')))"

section \<open>Facts on record data\<close>

lemma record_data_eq_always: "record_data_eq (RecordData a s) (RecordData b t)"
  by (simp add: record_data_eq_def RecordData_def)

section \<open>Facts on the collector\<close>

text \<open>The experiment of a mode; a mode whose rate is a number equals itself only.\<close>

definition experiment_of :: "load_mode \<Rightarrow> 'r collector \<Rightarrow> 'r experiment_data option" where
  "experiment_of lm es = map_option (nth es) (FindExperiment lm es)"

definition mode_ok :: "load_mode \<Rightarrow> bool" where
  "mode_ok lm \<longleftrightarrow> lm_request_rate lm \<noteq> NaN"

lemma ieee_eq_iff: "ieee_eq x y \<longleftrightarrow> x = y \<and> x \<noteq> NaN"
  by (cases x; cases y) auto

lemma load_mode_eq_iff: "mode_ok b \<Longrightarrow> load_mode_eq a b \<longleftrightarrow> a = b"
  by (auto simp: load_mode_eq_def ieee_eq_iff mode_ok_def intro: load_mode.equality)

lemma FindExperiment_Some:
  "FindExperiment lm es = Some i \<Longrightarrow>
     i < length es \<and> load_mode_eq (mode (es ! i)) lm \<and> (\<forall>j < i. \<not> load_mode_eq (mode (es ! j)) lm)"
  by (induction es arbitrary: i) (auto split: if_splits simp: nth_Cons split: nat.splits)

lemma FindExperiment_None_iff:
  "FindExperiment lm es = None \<longleftrightarrow> (\<forall>e \<in> set es. \<not> load_mode_eq (mode e) lm)"
  by (induction es) auto

lemma FindExperiment_append:
  "FindExperiment lm (es @ fs) =
     (case FindExperiment lm es of Some i \<Rightarrow> Some i
      | None \<Rightarrow> map_option (\<lambda>i. length es + i) (FindExperiment lm fs))"
  by (cases "FindExperiment lm fs"; induction es) (auto split: option.splits)

lemma FindExperiment_update:
  "mode e = mode (es ! i) \<Longrightarrow> FindExperiment lm (es[i := e]) = FindExperiment lm es"
proof (induction es arbitrary: i)
  case (Cons a es)
  then show ?case by (cases i) auto
qed simp

lemma experiment_of_AddWindow:
  assumes "AddWindow lm ws we es = Inr es'" and "mode_ok lm" and "mode_ok lm'"
  shows "experiment_of lm' es' =
    (if lm' = lm then
       (case experiment_of lm es of
          None \<Rightarrow> Some \<lparr>mode = lm, requests = [], window_boundaries = [ws, we]\<rparr>
        | Some e \<Rightarrow> Some (e\<lparr>window_boundaries :=
            (if last (window_boundaries e) \<noteq> ws then window_boundaries e @ [ws]
             else window_boundaries e) @ [we]\<rparr>))
     else experiment_of lm' es)"
proof (cases "FindExperiment lm es")
  case None
  with assms show ?thesis
    by (auto simp: AddWindow_def experiment_of_def FindExperiment_append load_mode_eq_iff nth_append
        split: option.splits dest: FindExperiment_Some)
next
  case (Some i)
  note i = FindExperiment_Some [OF Some]
  from i assms(2) have mi: "mode (es ! i) = lm" by (simp add: load_mode_eq_iff)
  from assms(1) Some obtain wb where es': "es' = es[i := (es ! i)\<lparr>window_boundaries := wb\<rparr>]"
    and wb: "wb = (if last (window_boundaries (es ! i)) \<noteq> ws then window_boundaries (es ! i) @ [ws]
       else window_boundaries (es ! i)) @ [we]"
    by (auto simp: AddWindow_def Let_def split: if_splits)
  have F: "FindExperiment lm' es' = FindExperiment lm' es" unfolding es' by (rule FindExperiment_update) simp
  show ?thesis
  proof (cases "lm' = lm")
    case True
    with Some i F show ?thesis by (simp add: experiment_of_def es' wb)
  next
    case False
    have "es' ! j = es ! j" if "FindExperiment lm' es = Some j" for j
    proof -
      from FindExperiment_Some [OF that] False mi assms(3) have "i \<noteq> j" by (auto simp: load_mode_eq_iff)
      then show ?thesis by (simp add: es')
    qed
    with False F show ?thesis
      by (cases "FindExperiment lm' es") (simp_all add: experiment_of_def)
  qed
qed

lemma experiment_of_AddData:
  assumes "mode_ok lm" and "mode_ok lm'"
  shows "experiment_of lm' (AddData lm rs es) =
    (if lm' = lm then
       (case experiment_of lm es of
          None \<Rightarrow> Some \<lparr>mode = lm, requests = rs, window_boundaries = []\<rparr>
        | Some e \<Rightarrow> Some (e\<lparr>requests := requests e @ rs\<rparr>))
     else experiment_of lm' es)"
proof (cases "FindExperiment lm es")
  case None
  with assms show ?thesis
    by (auto simp: AddData_def experiment_of_def FindExperiment_append load_mode_eq_iff nth_append
        split: option.splits dest: FindExperiment_Some)
next
  case (Some i)
  note i = FindExperiment_Some [OF Some]
  from i assms(1) have mi: "mode (es ! i) = lm" by (simp add: load_mode_eq_iff)
  let ?es' = "es[i := (es ! i)\<lparr>requests := requests (es ! i) @ rs\<rparr>]"
  have F: "FindExperiment lm' ?es' = FindExperiment lm' es" by (rule FindExperiment_update) simp
  have other: "?es' ! j = es ! j" if "FindExperiment lm' es = Some j" "lm' \<noteq> lm" for j
  proof -
    from FindExperiment_Some [OF that(1)] that(2) mi assms(2) have "i \<noteq> j" by (auto simp: load_mode_eq_iff)
    then show ?thesis by simp
  qed
  show ?thesis
  proof (cases "lm' = lm")
    case True
    with Some i F show ?thesis by (simp add: experiment_of_def AddData_def)
  next
    case False
    with Some F other show ?thesis
      by (cases "FindExperiment lm' es") (simp_all add: experiment_of_def AddData_def)
  qed
qed

text \<open>
  The contents of an experiment after a list of measurements: what the windows and the
  requests of its mode are. Windows of one mode that follow each other without a gap share
  their boundaries.
\<close>

fun contiguous :: "(u64 \<times> u64) list \<Rightarrow> bool" where
  "contiguous ((s, e) # (s', e') # ws) \<longleftrightarrow> e = s' \<and> contiguous ((s', e') # ws)"
| "contiguous _ \<longleftrightarrow> True"

definition of_mode :: "load_mode \<Rightarrow> (load_mode \<times> u64 \<times> u64 \<times> 'r list) list \<Rightarrow> (u64 \<times> u64 \<times> 'r list) list" where
  "of_mode lm cs = map snd (filter (\<lambda>c. fst c = lm) cs)"

definition windows_of :: "load_mode \<Rightarrow> (load_mode \<times> u64 \<times> u64 \<times> 'r list) list \<Rightarrow> (u64 \<times> u64) list" where
  "windows_of lm cs = map (\<lambda>(ws, we, rs). (ws, we)) (of_mode lm cs)"

definition data_of :: "load_mode \<Rightarrow> (load_mode \<times> u64 \<times> u64 \<times> 'r list) list \<Rightarrow> 'r list" where
  "data_of lm cs = concat (map (\<lambda>(ws, we, rs). rs) (of_mode lm cs))"

definition expected :: "load_mode \<Rightarrow> (load_mode \<times> u64 \<times> u64 \<times> 'r list) list \<Rightarrow> 'r experiment_data option" where
  "expected lm cs = (case windows_of lm cs of [] \<Rightarrow> None
     | (s, e) # ws \<Rightarrow> Some \<lparr>mode = lm, requests = data_of lm cs,
         window_boundaries = s # e # map snd ws\<rparr>)"

lemma contiguous_snoc:
  "contiguous (ws @ [(s, e)]) \<longleftrightarrow> contiguous ws \<and> (ws \<noteq> [] \<longrightarrow> snd (last ws) = s)"
  by (induction ws rule: contiguous.induct) auto

lemma collect_expected:
  assumes "\<And>lm. lm \<in> fst ` set cs \<Longrightarrow> mode_ok lm \<and> contiguous (windows_of lm cs)"
  shows "\<exists>es. foldR (\<lambda>es c. collect_one c es) [] cs = Inr es \<and>
     (\<forall>lm. mode_ok lm \<longrightarrow> experiment_of lm es = expected lm cs)"
  using assms
proof (induction cs rule: rev_induct)
  case Nil
  show ?case by (simp add: experiment_of_def expected_def windows_of_def of_mode_def)
next
  case (snoc c cs)
  obtain lm ws we rs where c: "c = (lm, ws, we, rs)" by (cases c) auto
  have w: "windows_of l (cs @ [c]) = windows_of l cs @ (if l = lm then [(ws, we)] else [])"
    "data_of l (cs @ [c]) = data_of l cs @ (if l = lm then rs else [])" for l
    by (simp_all add: windows_of_def data_of_def of_mode_def c)
  have "\<And>l. l \<in> fst ` set cs \<Longrightarrow> mode_ok l \<and> contiguous (windows_of l cs)"
  proof -
    fix l
    assume "l \<in> fst ` set cs"
    with snoc.prems [of l] have "mode_ok l" "contiguous (windows_of l (cs @ [c]))" by auto
    then show "mode_ok l \<and> contiguous (windows_of l cs)"
      by (auto simp: w(1) contiguous_snoc split: if_splits)
  qed
  then obtain es where es: "foldR (\<lambda>es c. collect_one c es) [] cs = Inr es"
    and ex: "\<And>l. mode_ok l \<Longrightarrow> experiment_of l es = expected l cs" using snoc.IH by blast
  have ok: "mode_ok lm" and cont: "contiguous (windows_of lm cs @ [(ws, we)])"
    using snoc.prems [of lm] w(1) by (auto simp: c)
  from ex [OF ok] have e: "experiment_of lm es = expected lm cs" .
  have nonempty: "window_boundaries e \<noteq> []" if "expected lm cs = Some e" for e
    using that by (auto simp: expected_def split: list.splits prod.splits)
  obtain es1 where es1: "AddWindow lm ws we es = Inr es1"
    using e nonempty
    by (cases "FindExperiment lm es") (auto simp: AddWindow_def experiment_of_def Let_def)
  have "experiment_of l (AddData lm rs es1) = expected l (cs @ [c])" if l: "mode_ok l" for l
  proof (cases "l = lm")
    case False
    with experiment_of_AddData [OF ok l, of rs es1] experiment_of_AddWindow [OF es1 ok l] ex [OF l] show ?thesis
      by (simp add: expected_def w split: list.split)
  next
    case True
    have "last (window_boundaries x) = ws" if "expected lm cs = Some x" for x
      using that cont
      by (auto simp: expected_def contiguous_snoc last_map split: list.splits prod.splits if_splits)
    moreover have "data_of lm cs = []" if "windows_of lm cs = []"
      using that by (simp add: windows_of_def data_of_def)
    ultimately show ?thesis
      using True experiment_of_AddData [OF ok l, of rs es1] experiment_of_AddWindow [OF es1 ok l] e
      by (cases "windows_of lm cs") (auto simp: expected_def w)
  qed
  with es es1 show ?case by (simp add: foldR_append collect_one_def c)
qed

text \<open>
  C33: After any sequence of measurements, of any load modes and in any order, in which the
  windows of each mode follow each other without a gap, the collector holds for each mode
  that was measured the requests of all its measurements in order, and as boundaries the
  start of its first window and the ends of all its windows; nothing for any other mode.
\<close>

theorem collector_faithful:
  assumes "\<And>lm. lm \<in> fst ` set cs \<Longrightarrow> lm_request_rate lm \<noteq> NaN \<and> contiguous (windows_of lm cs)"
  shows "\<exists>es. foldR (\<lambda>es c. collect_one c es) [] cs = Inr es \<and>
     (\<forall>lm. lm_request_rate lm \<noteq> NaN \<longrightarrow>
        experiment_of lm es =
          (case windows_of lm cs of [] \<Rightarrow> None
           | (s, e) # ws \<Rightarrow> Some \<lparr>mode = lm, requests = data_of lm cs,
               window_boundaries = s # e # map snd ws\<rparr>))"
  using collect_expected [of cs] assms unfolding mode_ok_def expected_def by blast

theorem collector_faithful_witness:
  "\<exists>es. foldR (\<lambda>es c. collect_one c es) []
       [(LoadMode 1 (Fin 0), 0, 10, ''a''), (LoadMode 2 (Fin 0), 30, 40, ''x''),
        (LoadMode 1 (Fin 0), 10, 20, ''bc'')] = Inr es \<and>
     experiment_of (LoadMode 1 (Fin 0)) es = Some \<lparr>mode = LoadMode 1 (Fin 0), requests = ''abc'',
       window_boundaries = [0, 10, 20]\<rparr>"
proof -
  let ?cs = "[(LoadMode 1 (Fin 0), 0, 10, ''a''), (LoadMode 2 (Fin 0), 30, 40, ''x''),
        (LoadMode 1 (Fin 0), 10, 20, ''bc'')] :: (load_mode \<times> u64 \<times> u64 \<times> string) list"
  have "lm_request_rate lm \<noteq> NaN \<and> contiguous (windows_of lm ?cs)" if "lm \<in> fst ` set ?cs" for lm
    using that by (auto simp: LoadMode_def windows_of_def of_mode_def)
  from collector_faithful [OF this] show ?thesis
    by (auto simp: LoadMode_def windows_of_def data_of_def of_mode_def)
qed

end
