(* ===== verification/Server_Stats.thy ===== *)
theory Server_Stats
  imports Std_Map
begin

text \<open>
  The server-side statistics of \<open>inference_profiler.h\<close> and \<open>inference_profiler.cc\<close>: the
  counters of a model and of its composing models over one measurement window, their merge
  over the windows of an experiment, the choice of the model version they belong to, and
  the averages that are reported of them.
\<close>

section \<open>Data\<close>

type_synonym model_identifier = "string \<times> string"

text \<open>\<open>cb::ModelStatistics\<close>, the counters a server reports of a model.\<close>

record model_statistics =
  ms_success_count :: u64
  ms_inference_count :: u64
  ms_execution_count :: u64
  ms_queue_count :: u64
  ms_compute_input_count :: u64
  ms_compute_infer_count :: u64
  ms_compute_output_count :: u64
  ms_cache_hit_count :: u64
  ms_cache_miss_count :: u64
  ms_cumm_time_ns :: u64
  ms_queue_time_ns :: u64
  ms_compute_input_time_ns :: u64
  ms_compute_infer_time_ns :: u64
  ms_compute_output_time_ns :: u64
  ms_cache_hit_time_ns :: u64
  ms_cache_miss_time_ns :: u64

type_synonym model_stats = "(model_identifier, model_statistics) std_map"

text \<open>The counters of \<open>ServerSideStats\<close>, and the structure with its composing models.\<close>

record server_counters =
  inference_count :: u64
  execution_count :: u64
  cache_hit_count :: u64
  cache_miss_count :: u64
  success_count :: u64
  queue_count :: u64
  compute_input_count :: u64
  compute_infer_count :: u64
  compute_output_count :: u64
  cumm_time_ns :: u64
  queue_time_ns :: u64
  compute_input_time_ns :: u64
  compute_infer_time_ns :: u64
  compute_output_time_ns :: u64
  cache_hit_time_ns :: u64
  cache_miss_time_ns :: u64

datatype server_side_stats =
  ServerSideStats (counters: server_counters)
    (composing_models_stat: "(model_identifier, server_side_stats) std_map")

definition zero_counters :: server_counters where
  "zero_counters = \<lparr>inference_count = 0, execution_count = 0, cache_hit_count = 0,
     cache_miss_count = 0, success_count = 0, queue_count = 0, compute_input_count = 0,
     compute_infer_count = 0, compute_output_count = 0, cumm_time_ns = 0, queue_time_ns = 0,
     compute_input_time_ns = 0, compute_infer_time_ns = 0, compute_output_time_ns = 0,
     cache_hit_time_ns = 0, cache_miss_time_ns = 0\<rparr>"

text \<open>A value-initialised \<open>ServerSideStats()\<close>, and \<open>Reset\<close>, which keeps the composing models.\<close>

definition empty_stats :: server_side_stats where
  "empty_stats = ServerSideStats zero_counters []"

definition ResetStats :: "server_side_stats \<Rightarrow> server_side_stats" where
  "ResetStats s = ServerSideStats zero_counters (composing_models_stat s)"

section \<open>Merging the windows of an experiment\<close>

definition counters_add :: "server_counters \<Rightarrow> server_counters \<Rightarrow> server_counters" where
  "counters_add a b =
    \<lparr>inference_count = inference_count a + inference_count b,
     execution_count = execution_count a + execution_count b,
     cache_hit_count = cache_hit_count a + cache_hit_count b,
     cache_miss_count = cache_miss_count a + cache_miss_count b,
     success_count = success_count a + success_count b,
     queue_count = queue_count a + queue_count b,
     compute_input_count = compute_input_count a + compute_input_count b,
     compute_infer_count = compute_infer_count a + compute_infer_count b,
     compute_output_count = compute_output_count a + compute_output_count b,
     cumm_time_ns = cumm_time_ns a + cumm_time_ns b,
     queue_time_ns = queue_time_ns a + queue_time_ns b,
     compute_input_time_ns = compute_input_time_ns a + compute_input_time_ns b,
     compute_infer_time_ns = compute_infer_time_ns a + compute_infer_time_ns b,
     compute_output_time_ns = compute_output_time_ns a + compute_output_time_ns b,
     cache_hit_time_ns = cache_hit_time_ns a + cache_hit_time_ns b,
     cache_miss_time_ns = cache_miss_time_ns a + cache_miss_time_ns b\<rparr>"

text \<open>
  \<open>MergeServerSideStats\<close>. The first element is read without a test: on an empty vector the
  behaviour is undefined. The statistics of a composing model that a later element does not
  have are those that \<open>operator[]\<close> creates.
\<close>

lemma composing_size: "(k, s) \<in> set (composing_models_stat t) \<Longrightarrow> size s < size t"
proof (cases t)
  case (ServerSideStats c m)
  assume "(k, s) \<in> set (composing_models_stat t)"
  with ServerSideStats have "(k, s) \<in> set m" by simp
  then have "size_prod (\<lambda>_. 0) size (k, s) \<le> size_list (size_prod (\<lambda>_. 0) size) m"
    by (intro size_list_estimation') auto
  with ServerSideStats show ?thesis by simp
qed

function MergeServerSideStats :: "server_side_stats list \<Rightarrow> failure + server_side_stats" where
  "MergeServerSideStats [] = Inl (Throws (UndefinedBehaviour ''vector index''))"
| "MergeServerSideStats (s # ss) =
     (if list_ex (\<lambda>t. length (composing_models_stat t) \<noteq> length (composing_models_stat s)) ss
      then Inl (Fails (generic_error ''Inconsistent ensemble setting detected between the trials.''))
      else
        bindR (mapR (\<lambda>(k, c).
                 bindR (MergeServerSideStats
                          (c # map (\<lambda>t. map_get empty_stats (composing_models_stat t) k) ss))
                   (\<lambda>merged. Inr (k, merged)))
                 (composing_models_stat s))
          (\<lambda>composing. Inr (ServerSideStats
             (foldl counters_add zero_counters (map counters (s # ss))) composing)))"
  by pat_completeness auto
termination
  by (relation "measure (\<lambda>ss. case ss of [] \<Rightarrow> 0 | s # _ \<Rightarrow> size s)") (auto dest: composing_size)

declare MergeServerSideStats.simps [simp del]

section \<open>The version of a model\<close>

text \<open>
  \<open>DetermineStatsModelVersion\<close>. \<open>caching\<close> is \<open>parser_->TopLevelResponseCachingEnabled()\<close>, or
  None when there is no parser.
\<close>

definition version_step ::
  "string \<Rightarrow> model_stats \<Rightarrow> int \<Rightarrow> model_identifier \<times> model_statistics \<Rightarrow> failure + int" where
  "version_step name start_stats v x =
     (let (end_id, end_stat) = x in
      if name = fst end_id then
        let start_queue_count =
              (case map_find start_stats end_id of None \<Rightarrow> 0 | Some st \<Rightarrow> ms_queue_count st)
        in if ms_queue_count end_stat > start_queue_count then
             bindR (liftE (stoll (snd end_id))) (\<lambda>this_version. Inr (max v this_version))
           else Inr v
      else Inr v)"

definition DetermineStatsModelVersion ::
  "bool option \<Rightarrow> model_identifier \<Rightarrow> model_stats \<Rightarrow> model_stats \<Rightarrow> failure + int" where
  "DetermineStatsModelVersion caching ident start_stats end_stats =
     bindR (if snd ident = [] then foldR (version_step (fst ident) start_stats) (- 1) end_stats
            else case map_find end_stats ident of
                   None \<Rightarrow> Inr (- 1)
                 | Some _ \<Rightarrow> liftE (stoll (snd ident)))
       (\<lambda>v. if v = - 1 \<and> caching \<noteq> Some True
            then Inl (Fails (generic_error ''failed to find the requested model version''))
            else Inr v)"

section \<open>The statistics of a window\<close>

definition zero_statistics :: model_statistics where
  "zero_statistics = \<lparr>ms_success_count = 0, ms_inference_count = 0, ms_execution_count = 0,
     ms_queue_count = 0, ms_compute_input_count = 0, ms_compute_infer_count = 0,
     ms_compute_output_count = 0, ms_cache_hit_count = 0, ms_cache_miss_count = 0,
     ms_cumm_time_ns = 0, ms_queue_time_ns = 0, ms_compute_input_time_ns = 0,
     ms_compute_infer_time_ns = 0, ms_compute_output_time_ns = 0, ms_cache_hit_time_ns = 0,
     ms_cache_miss_time_ns = 0\<rparr>"

definition stats_difference :: "model_statistics \<Rightarrow> model_statistics \<Rightarrow> server_counters" where
  "stats_difference e s =
    \<lparr>inference_count = ms_inference_count e - ms_inference_count s,
     execution_count = ms_execution_count e - ms_execution_count s,
     cache_hit_count = ms_cache_hit_count e - ms_cache_hit_count s,
     cache_miss_count = ms_cache_miss_count e - ms_cache_miss_count s,
     success_count = ms_success_count e - ms_success_count s,
     queue_count = ms_queue_count e - ms_queue_count s,
     compute_input_count = ms_compute_input_count e - ms_compute_input_count s,
     compute_infer_count = ms_compute_infer_count e - ms_compute_infer_count s,
     compute_output_count = ms_compute_output_count e - ms_compute_output_count s,
     cumm_time_ns = ms_cumm_time_ns e - ms_cumm_time_ns s,
     queue_time_ns = ms_queue_time_ns e - ms_queue_time_ns s,
     compute_input_time_ns = ms_compute_input_time_ns e - ms_compute_input_time_ns s,
     compute_infer_time_ns = ms_compute_infer_time_ns e - ms_compute_infer_time_ns s,
     compute_output_time_ns = ms_compute_output_time_ns e - ms_compute_output_time_ns s,
     cache_hit_time_ns = ms_cache_hit_time_ns e - ms_cache_hit_time_ns s,
     cache_miss_time_ns = ms_cache_miss_time_ns e - ms_cache_miss_time_ns s\<rparr>"

definition SummarizeServerStatsHelper ::
  "bool \<Rightarrow> model_identifier \<Rightarrow> model_stats \<Rightarrow> model_stats \<Rightarrow> server_side_stats \<Rightarrow>
     failure + server_side_stats" where
  "SummarizeServerStatsHelper caching ident start_status end_status ss =
     bindR (DetermineStatsModelVersion (Some caching) ident start_status end_status)
       (\<lambda>model_version.
          let this_id = (fst ident, to_string model_version) in
          case map_find end_status this_id of
            None \<Rightarrow>
              if model_version = - 1 \<and> \<not> caching
              then Inl (Fails (generic_error ''missing statistics for requested model''))
              else Inr (ResetStats ss)
          | Some e \<Rightarrow>
              let s = (case map_find start_status this_id of None \<Rightarrow> zero_statistics | Some s \<Rightarrow> s)
              in Inr (ServerSideStats (stats_difference e s) (composing_models_stat ss)))"

text \<open>
  \<open>SummarizeServerStats\<close> calls itself on the composing models; \<open>depth\<close> is the number of
  nested calls the stack has room for. \<open>composing\<close> is the composing model map of the parser.
\<close>

type_synonym composing_map = "(string, model_identifier list) std_map"

fun SummarizeServerStats ::
  "bool \<Rightarrow> composing_map \<Rightarrow> model_stats \<Rightarrow> model_stats \<Rightarrow> nat \<Rightarrow> model_identifier \<Rightarrow>
     server_side_stats \<Rightarrow> failure + server_side_stats" where
  "SummarizeServerStats caching composing start_status end_status 0 ident ss =
     Inl (Throws (UndefinedBehaviour ''stack overflow''))"
| "SummarizeServerStats caching composing start_status end_status (Suc depth) ident ss =
     bindR (SummarizeServerStatsHelper caching ident start_status end_status ss) (\<lambda>ss1.
       foldR (\<lambda>st c.
          bindR (DetermineStatsModelVersion (Some caching) c start_status end_status) (\<lambda>version.
            let cid = (fst c, to_string version) in
            bindR (SummarizeServerStats caching composing start_status end_status depth cid
                     (map_get empty_stats (composing_models_stat st) cid)) (\<lambda>r.
              Inr (ServerSideStats (counters st)
                     (map_assign cid r (composing_models_stat st))))))
         ss1 (map_get [] composing (fst ident)))"

section \<open>Averages\<close>

definition AverageDurationInUs :: "u64 \<Rightarrow> u64 \<Rightarrow> exn + u64" where
  "AverageDurationInUs total_time_in_ns cnt =
     (if cnt = 0 then Inr 0
      else if cnt * 1000 = 0 then Inl DivideByZero
      else Inr (total_time_in_ns div (cnt * 1000)))"

record ensemble_durations =
  total_queue_time_avg_us :: u64
  total_compute_time_avg_us :: u64
  total_cache_hit_time_avg_us :: u64
  total_cache_miss_time_avg_us :: u64
  total_combined_cache_compute_time_avg_us :: u64

definition durations_add :: "ensemble_durations \<Rightarrow> ensemble_durations \<Rightarrow> ensemble_durations" where
  "durations_add a b =
    \<lparr>total_queue_time_avg_us = total_queue_time_avg_us a + total_queue_time_avg_us b,
     total_compute_time_avg_us = total_compute_time_avg_us a + total_compute_time_avg_us b,
     total_cache_hit_time_avg_us = total_cache_hit_time_avg_us a + total_cache_hit_time_avg_us b,
     total_cache_miss_time_avg_us = total_cache_miss_time_avg_us a + total_cache_miss_time_avg_us b,
     total_combined_cache_compute_time_avg_us =
       total_combined_cache_compute_time_avg_us a + total_combined_cache_compute_time_avg_us b\<rparr>"

text \<open>The contribution of a composing model that is not an ensemble itself.\<close>

definition leaf_durations :: "server_counters \<Rightarrow> exn + ensemble_durations" where
  "leaf_durations c =
     bindR (AverageDurationInUs (queue_time_ns c) (queue_count c)) (\<lambda>q.
       let compute_time = compute_input_time_ns c + compute_infer_time_ns c + compute_output_time_ns c in
       if compute_input_count c \<noteq> compute_infer_count c \<or> compute_infer_count c \<noteq> compute_output_count c
       then Inl (RuntimeError ''Server side statistics compute counts must be the same.'')
       else
         let compute_cnt = compute_input_count c in
         bindR (AverageDurationInUs compute_time compute_cnt) (\<lambda>comp.
         bindR (AverageDurationInUs (cache_hit_time_ns c) (cache_hit_count c)) (\<lambda>hit.
         bindR (AverageDurationInUs (cache_miss_time_ns c) (cache_miss_count c)) (\<lambda>miss.
         bindR (AverageDurationInUs (compute_time + cache_hit_time_ns c + cache_miss_time_ns c)
                  (compute_cnt + cache_hit_count c)) (\<lambda>comb.
           Inr \<lparr>total_queue_time_avg_us = q, total_compute_time_avg_us = comp,
                total_cache_hit_time_avg_us = hit, total_cache_miss_time_avg_us = miss,
                total_combined_cache_compute_time_avg_us = comb\<rparr>)))))"

function GetTotalEnsembleDurations :: "server_side_stats \<Rightarrow> exn + ensemble_durations" where
  "GetTotalEnsembleDurations (ServerSideStats c composing) =
     bindR (AverageDurationInUs (cache_hit_time_ns c) (cache_hit_count c)) (\<lambda>hit.
     bindR (AverageDurationInUs (cache_miss_time_ns c) (cache_miss_count c)) (\<lambda>miss.
       foldR (\<lambda>result (k, m).
          bindR (if composing_models_stat m = [] then leaf_durations (counters m)
                 else GetTotalEnsembleDurations m) (\<lambda>d. Inr (durations_add result d)))
         \<lparr>total_queue_time_avg_us = 0, total_compute_time_avg_us = 0,
          total_cache_hit_time_avg_us = hit, total_cache_miss_time_avg_us = miss,
          total_combined_cache_compute_time_avg_us = 0\<rparr> composing))"
  by pat_completeness auto
termination
  by (relation "measure size") (auto dest: composing_size [where t = "ServerSideStats c m" for c m, simplified])

definition GetOverheadDuration :: "u64 \<Rightarrow> u64 \<Rightarrow> u64 \<Rightarrow> u64" where
  "GetOverheadDuration total_time queue_time compute_time =
     (if total_time > queue_time + compute_time then total_time - queue_time - compute_time else 0)"

section \<open>The merge adds up\<close>

definition all_counters :: "(server_counters \<Rightarrow> u64) list" where
  "all_counters = [inference_count, execution_count, cache_hit_count, cache_miss_count,
     success_count, queue_count, compute_input_count, compute_infer_count, compute_output_count,
     cumm_time_ns, queue_time_ns, compute_input_time_ns, compute_infer_time_ns,
     compute_output_time_ns, cache_hit_time_ns, cache_miss_time_ns]"

lemma counter_add: "f \<in> set all_counters \<Longrightarrow> f (counters_add a b) = f a + f b"
  by (auto simp: all_counters_def counters_add_def)

lemma counter_zero: "f \<in> set all_counters \<Longrightarrow> f zero_counters = 0"
  by (auto simp: all_counters_def zero_counters_def)

lemma counter_foldl:
  "f \<in> set all_counters \<Longrightarrow> f (foldl counters_add a cs) = f a + sum_list (map f cs)"
  by (induction cs arbitrary: a) (simp_all add: counter_add add.assoc)

lemma counters_eqI: "(\<And>f. f \<in> set all_counters \<Longrightarrow> f a = f b) \<Longrightarrow> a = b"
  by (rule server_counters.equality) (auto simp: all_counters_def)

text \<open>The statistics of the model at the end of a path of composing models.\<close>

fun stats_at :: "model_identifier list \<Rightarrow> server_side_stats \<Rightarrow> server_side_stats" where
  "stats_at [] s = s"
| "stats_at (k # p) s = stats_at p (map_get empty_stats (composing_models_stat s) k)"

fun has_path :: "model_identifier list \<Rightarrow> server_side_stats \<Rightarrow> bool" where
  "has_path [] s \<longleftrightarrow> True"
| "has_path (k # p) s \<longleftrightarrow>
     (case map_find (composing_models_stat s) k of None \<Rightarrow> False | Some t \<Rightarrow> has_path p t)"

lemma mapR_keyed:
  assumes "mapR (\<lambda>(k, c). bindR (F k c) (\<lambda>y. Inr (k, y))) m = Inr m'" and "map_find m k = Some c"
  shows "\<exists>y. F k c = Inr y \<and> map_find m' k = Some y"
  using assms
proof (induction m arbitrary: m')
  case (Cons a m)
  then show ?case
    by (cases a; cases "fst a = k") (auto simp: bindR_Inr_conv map_find_def)
qed simp

lemma merge_Cons:
  assumes "MergeServerSideStats (s # ss) = Inr m"
  shows "counters m = foldl counters_add zero_counters (map counters (s # ss))"
    and "map_find (composing_models_stat s) k = Some c \<Longrightarrow>
      \<exists>y. MergeServerSideStats (c # map (\<lambda>t. map_get empty_stats (composing_models_stat t) k) ss) = Inr y \<and>
        map_find (composing_models_stat m) k = Some y"
proof -
  from assms obtain comp where comp: "mapR (\<lambda>(k, c). bindR (MergeServerSideStats
      (c # map (\<lambda>t. map_get empty_stats (composing_models_stat t) k) ss)) (\<lambda>merged. Inr (k, merged)))
      (composing_models_stat s) = Inr comp"
    and m: "m = ServerSideStats (foldl counters_add zero_counters (map counters (s # ss))) comp"
    unfolding MergeServerSideStats.simps(2) [of s ss] by (auto simp: bindR_Inr_conv split: if_splits)
  show "counters m = foldl counters_add zero_counters (map counters (s # ss))" by (simp add: m)
  show "\<exists>y. MergeServerSideStats (c # map (\<lambda>t. map_get empty_stats (composing_models_stat t) k) ss) = Inr y \<and>
        map_find (composing_models_stat m) k = Some y"
    if "map_find (composing_models_stat s) k = Some c"
    using mapR_keyed [OF comp that] by (simp add: m)
qed

lemma merge_at_path:
  assumes "MergeServerSideStats (s # ss) = Inr m" and "has_path p s" and "f \<in> set all_counters"
  shows "f (counters (stats_at p m)) = sum_list (map (\<lambda>t. f (counters (stats_at p t))) (s # ss))"
  using assms
proof (induction p arbitrary: s ss m)
  case Nil
  then show ?case by (simp add: merge_Cons(1) [OF Nil(1)] counter_foldl counter_add counter_zero comp_def)
next
  case (Cons k p)
  then obtain c where c: "map_find (composing_models_stat s) k = Some c" "has_path p c"
    by (auto split: option.splits)
  from merge_Cons(2) [OF Cons.prems(1) c(1)] obtain y where
    y: "MergeServerSideStats (c # map (\<lambda>t. map_get empty_stats (composing_models_stat t) k) ss) = Inr y"
    "map_find (composing_models_stat m) k = Some y" by blast
  have g: "map_get empty_stats (composing_models_stat m) k = y"
    "map_get empty_stats (composing_models_stat s) k = c" using y(2) c(1) by (simp_all add: map_get_def)
  from Cons.IH [OF y(1) c(2) Cons.prems(3)] show ?case by (simp add: g comp_def)
qed

text \<open>Statistics of the same shape have the same composing models, recursively.\<close>

fun same_shape :: "nat \<Rightarrow> server_side_stats \<Rightarrow> server_side_stats \<Rightarrow> bool" where
  "same_shape 0 s t \<longleftrightarrow> False"
| "same_shape (Suc n) s t \<longleftrightarrow>
     map fst (composing_models_stat s) = map fst (composing_models_stat t) \<and>
     list_all (\<lambda>(k, c). same_shape n c (map_get empty_stats (composing_models_stat t) k))
       (composing_models_stat s)"

lemma merge_same_shape:
  assumes "\<forall>t \<in> set ss. same_shape n s t" and "size s \<le> n"
  shows "\<exists>m. MergeServerSideStats (s # ss) = Inr m"
  using assms
proof (induction n arbitrary: s ss)
  case 0
  then show ?case by (cases s) simp
next
  case (Suc n)
  have len: "length (composing_models_stat t) = length (composing_models_stat s)" if "t \<in> set ss" for t
    using Suc.prems(1) that by (metis same_shape.simps(2) length_map)
  have "\<exists>y. MergeServerSideStats (c # map (\<lambda>t. map_get empty_stats (composing_models_stat t) k) ss) = Inr y"
    if kc: "(k, c) \<in> set (composing_models_stat s)" for k c
  proof (rule Suc.IH)
    show "size c \<le> n" using composing_size [OF kc] Suc.prems(2) by simp
    show "\<forall>t \<in> set (map (\<lambda>t. map_get empty_stats (composing_models_stat t) k) ss). same_shape n c t"
      using Suc.prems(1) kc by (fastforce simp: list_all_iff)
  qed
  then have "\<exists>m. mapR (\<lambda>(k, c). bindR (MergeServerSideStats
      (c # map (\<lambda>t. map_get empty_stats (composing_models_stat t) k) ss)) (\<lambda>merged. Inr (k, merged))) xs = Inr m"
    if "set xs \<subseteq> set (composing_models_stat s)" for xs
    using that
  proof (induction xs)
    case (Cons x xs)
    then show ?case by (cases x) (fastforce simp: bindR_Inr_conv)
  qed simp
  from this [OF subset_refl] len show ?case unfolding MergeServerSideStats.simps(2) [of s ss] by (auto simp: list_ex_iff)
qed

section \<open>The statistics of consecutive windows\<close>

lemma stats_difference_chain:
  "counters_add (stats_difference y x) (stats_difference z y) = stats_difference z x"
  by (simp add: counters_add_def stats_difference_def)

lemma stats_difference_self: "stats_difference x x = zero_counters"
  by (simp add: stats_difference_def zero_counters_def)

lemma stats_difference_telescope:
  "foldl counters_add (stats_difference x w) (map (\<lambda>(a, b). stats_difference b a) (zip (x # xs) xs)) =
     stats_difference (last (x # xs)) w"
  by (induction xs arbitrary: x) (auto simp: stats_difference_chain)

text \<open>The helper on a model whose version is given and known to the server.\<close>

lemma helper_known:
  assumes "map_find end_status (name, to_string v) = Some e" and "- (2 ^ 63) \<le> v" and "v < 2 ^ 63" and "v \<noteq> - 1"
    and "map_find start_status (name, to_string v) = Some s"
  shows "SummarizeServerStatsHelper caching (name, to_string v) start_status end_status ss =
    Inr (ServerSideStats (stats_difference e s) (composing_models_stat ss))"
proof -
  have "to_string v \<noteq> []" by (simp add: to_string_def)
  with assms show ?thesis
    by (simp add: SummarizeServerStatsHelper_def DetermineStatsModelVersion_def stoll_to_string)
qed

section \<open>The depth of the recursion\<close>

lemma version_no_overflow:
  "DetermineStatsModelVersion caching ident s e \<noteq> Inl (Throws (UndefinedBehaviour ''stack overflow''))"
proof -
  have st: "stoll x \<noteq> Inl (UndefinedBehaviour ''stack overflow'')" for x
    by (simp add: stoll_def Let_def)
  then have lf: "liftE (stoll x) \<noteq> Inl (Throws (UndefinedBehaviour ''stack overflow''))" for x
    by (cases "stoll x") auto
  have "foldR (version_step n s) v xs \<noteq> Inl (Throws (UndefinedBehaviour ''stack overflow''))" for n v xs
  proof (induction xs arbitrary: v)
    case (Cons x xs)
    then show ?case using lf
      by (auto simp: version_step_def bindR_Inl_conv Let_def split: prod.splits if_splits)
  qed simp
  with lf show ?thesis
    by (auto simp: DetermineStatsModelVersion_def bindR_Inl_conv split: option.splits if_splits)
qed

lemma helper_no_overflow:
  "SummarizeServerStatsHelper caching ident s e ss \<noteq> Inl (Throws (UndefinedBehaviour ''stack overflow''))"
  using version_no_overflow
  by (auto simp: SummarizeServerStatsHelper_def bindR_Inl_conv Let_def split: option.splits if_splits)

lemma foldR_no_error:
  assumes "\<And>s x. x \<in> set xs \<Longrightarrow> f s x \<noteq> Inl e"
  shows "foldR f s xs \<noteq> Inl e"
  using assms
proof (induction xs arbitrary: s)
  case (Cons x xs)
  then have "\<And>s'. foldR f s' xs \<noteq> Inl e" by simp
  with Cons.prems [of x s] show ?case by (simp add: bindR_Inl_conv)
qed simp

lemma summarize_depth:
  assumes "\<And>name c. c \<in> set (map_get [] composing name) \<Longrightarrow> rank (fst c) < (rank name :: nat)"
    and "rank (fst ident) < depth"
  shows "SummarizeServerStats caching composing st en depth ident ss \<noteq>
    Inl (Throws (UndefinedBehaviour ''stack overflow''))"
  using assms(2)
proof (induction depth arbitrary: ident ss)
  case (Suc depth)
  have "rank (fst c) < depth" if "c \<in> set (map_get [] composing (fst ident))" for c
    using assms(1) [OF that] Suc.prems by simp
  then have "SummarizeServerStats caching composing st en depth (fst c, v) t \<noteq>
      Inl (Throws (UndefinedBehaviour ''stack overflow''))"
    if "c \<in> set (map_get [] composing (fst ident))" for c v t using that by (intro Suc.IH) simp
  then show ?case
    by (auto simp: bindR_Inl_conv Let_def helper_no_overflow version_no_overflow
        intro!: foldR_no_error)
qed simp

section \<open>The version that is chosen\<close>

definition grew :: "string \<Rightarrow> model_stats \<Rightarrow> model_identifier \<times> model_statistics \<Rightarrow> bool" where
  "grew name start_stats x \<longleftrightarrow> fst (fst x) = name \<and>
     (case map_find start_stats (fst x) of None \<Rightarrow> 0 | Some st \<Rightarrow> ms_queue_count st) < ms_queue_count (snd x)"

lemma version_step_grew:
  "version_step name st v x =
     (if grew name st x then bindR (liftE (stoll (snd (fst x)))) (\<lambda>w. Inr (max v w)) else Inr v)"
  by (auto simp: version_step_def grew_def Let_def split: prod.split)

lemma version_fold:
  assumes "foldR (version_step name st) v0 xs = Inr v"
  shows "v0 \<le> v \<and> (v = v0 \<or> (\<exists>x \<in> set xs. grew name st x \<and> stoll (snd (fst x)) = Inr v)) \<and>
    (\<forall>x \<in> set xs. grew name st x \<longrightarrow> (\<exists>w \<le> v. stoll (snd (fst x)) = Inr w))"
  using assms
proof (induction xs arbitrary: v0)
  case (Cons x xs)
  from Cons.prems obtain v1 where v1: "version_step name st v0 x = Inr v1"
    "foldR (version_step name st) v1 xs = Inr v" by (auto simp: bindR_Inr_conv)
  show ?case using Cons.IH [OF v1(2)] v1(1)
    by (auto simp: version_step_grew bindR_Inr_conv max_def split: if_splits)
qed simp

section \<open>Properties\<close>

text \<open>
  C18: Merging the statistics of windows that have the same composing models succeeds, and
  for the model itself and for every model reached through its composing models, each of the
  sixteen counters of the result is the sum of that counter over the windows (in 64 bits).
\<close>

theorem merge_adds_up:
  assumes "\<forall>t \<in> set ss. same_shape n s t" and "size s \<le> n"
  shows "\<exists>m. MergeServerSideStats (s # ss) = Inr m \<and>
    (\<forall>p f. has_path p s \<longrightarrow> f \<in> set all_counters \<longrightarrow>
       f (counters (stats_at p m)) = sum_list (map (\<lambda>t. f (counters (stats_at p t))) (s # ss)))"
  using merge_same_shape [OF assms] merge_at_path by blast

definition ex_stats :: "u64 \<Rightarrow> u64 \<Rightarrow> server_side_stats" where
  "ex_stats a b = ServerSideStats (zero_counters\<lparr>success_count := a\<rparr>)
     [((''enc'', ''1''), ServerSideStats (zero_counters\<lparr>success_count := b\<rparr>) [])]"

theorem merge_adds_up_witness:
  "\<exists>m. MergeServerSideStats [ex_stats 1 2, ex_stats 3 4] = Inr m \<and> success_count (counters m) = 4 \<and>
     success_count (counters (stats_at [(''enc'', ''1'')] m)) = 6"
proof -
  obtain m where m: "MergeServerSideStats [ex_stats 1 2, ex_stats 3 4] = Inr m"
    "\<forall>p f. has_path p (ex_stats 1 2) \<longrightarrow> f \<in> set all_counters \<longrightarrow>
       f (counters (stats_at p m)) = sum_list (map (\<lambda>t. f (counters (stats_at p t))) [ex_stats 1 2, ex_stats 3 4])"
    using merge_adds_up [of "[ex_stats 3 4]" "Suc (Suc (Suc (Suc 0)))" "ex_stats 1 2"]
    by (auto simp: ex_stats_def map_get_def map_find_def)
  have "has_path [] (ex_stats 1 2)" "has_path [(''enc'', ''1'')] (ex_stats 1 2)"
    "success_count \<in> set all_counters"
    by (simp_all add: ex_stats_def map_find_def all_counters_def)
  then have "success_count (counters (stats_at [] m)) = 4"
    "success_count (counters (stats_at [(''enc'', ''1'')] m)) = 6"
  proof -
    show "success_count (counters (stats_at [] m)) = 4"
      using m(2) [rule_format, of "[]" success_count] \<open>success_count \<in> set all_counters\<close>
      by (simp add: ex_stats_def)
    show "success_count (counters (stats_at [(''enc'', ''1'')] m)) = 6"
      using m(2) [rule_format, OF \<open>has_path [(''enc'', ''1'')] (ex_stats 1 2)\<close> \<open>success_count \<in> set all_counters\<close>]
      by (simp add: ex_stats_def map_get_def map_find_def)
  qed
  with m(1) show ?thesis by auto
qed

text \<open>
  Over consecutive windows, each starting from the snapshot the previous one ended with,
  the merged server counters of a model are exactly the difference between the last and the
  first snapshot: nothing that happens between two windows is lost or counted twice.
\<close>

theorem windows_telescope:
  assumes "- (2 ^ 63) \<le> v" and "v < 2 ^ 63" and "v \<noteq> - 1" and "sts \<noteq> []"
    and "\<And>st. st \<in> set (st0 # sts) \<Longrightarrow> map_find st (name, to_string v) = Some (snap st)"
  shows "\<exists>ws m. mapR (\<lambda>(a, b). SummarizeServerStatsHelper caching (name, to_string v) a b empty_stats)
       (zip (st0 # sts) sts) = Inr ws \<and> MergeServerSideStats ws = Inr m \<and>
     counters m = stats_difference (snap (last sts)) (snap st0)"
proof -
  let ?w = "\<lambda>(a, b). ServerSideStats (stats_difference (snap b) (snap a)) []"
  let ?ws = "map ?w (zip (st0 # sts) sts)"
  have win: "mapR (\<lambda>(a, b). SummarizeServerStatsHelper caching (name, to_string v) a b empty_stats)
       (zip (st0 # sts) sts) = Inr ?ws"
  proof (rule mapR_total)
    fix x assume x: "x \<in> set (zip (st0 # sts) sts)"
    obtain a b where ab: "x = (a, b)" by (cases x)
    with x have "a \<in> set (st0 # sts)" "b \<in> set (st0 # sts)"
      by (auto dest: set_zip_leftD set_zip_rightD)
    then show "(case x of (a, b) \<Rightarrow> SummarizeServerStatsHelper caching (name, to_string v) a b empty_stats) = Inr (?w x)"
      using assms(5) by (simp add: ab helper_known [OF _ assms(1-3)] empty_stats_def)
  qed
  obtain st1 rest where sts: "sts = st1 # rest" using assms(4) by (cases sts) auto
  have ws: "?ws = ?w (st0, st1) # map ?w (zip (st1 # rest) rest)" by (simp add: sts)
  obtain m where m: "MergeServerSideStats ?ws = Inr m"
    unfolding ws using merge_same_shape [of "map ?w (zip (st1 # rest) rest)" "Suc (Suc 0)" "?w (st0, st1)"]
    by (auto simp: case_prod_beta)
  have "counters m = foldl counters_add zero_counters (map counters ?ws)"
    using m unfolding ws by (rule merge_Cons(1))
  also have "\<dots> = foldl counters_add (stats_difference (snap st1) (snap st0))
      (map (\<lambda>(a, b). stats_difference b a) (zip (snap st1 # map snap rest) (map snap rest)))"
    using stats_difference_chain [of "snap st0" "snap st0" "snap st1"]
    unfolding list.map(2) [of snap, symmetric] zip_map_map
    by (simp add: sts stats_difference_self case_prod_beta comp_def)
  also have "\<dots> = stats_difference (snap (last sts)) (snap st0)"
    unfolding stats_difference_telescope by (simp add: sts last_map)
  finally show ?thesis using win m by blast
qed

definition ex_snapshot :: "u64 \<Rightarrow> model_stats" where
  "ex_snapshot n = [((''m'', ''2''), zero_statistics\<lparr>ms_success_count := n\<rparr>)]"

theorem windows_telescope_witness:
  "\<exists>ws m. mapR (\<lambda>(a, b). SummarizeServerStatsHelper False (''m'', to_string 2) a b empty_stats)
       (zip [ex_snapshot 5, ex_snapshot 7, ex_snapshot 12] [ex_snapshot 7, ex_snapshot 12]) = Inr ws \<and>
     MergeServerSideStats ws = Inr m \<and> success_count (counters m) = 7"
proof -
  have k: "to_string 2 = ''2''" by (simp add: to_string_def nat_to_string.simps digit_char_def) code_simp
  let ?snap = "\<lambda>st :: model_stats. the (map_find st (''m'', to_string 2))"
  have "map_find st (''m'', to_string 2) = Some (?snap st)"
    if "st \<in> set [ex_snapshot 5, ex_snapshot 7, ex_snapshot 12]" for st
    using that by (auto simp: ex_snapshot_def map_find_def k)
  from windows_telescope [OF _ _ _ _ this, of "[ex_snapshot 7, ex_snapshot 12]" "ex_snapshot 5" False]
  show ?thesis by (auto simp: ex_snapshot_def map_find_def k stats_difference_def)
qed

text \<open>
  When the composing models of the ensembles have no cycle (each model has a greater
  rank than its composing models), summarising the statistics of a model never needs more
  nested calls than its rank plus one: with that depth the recursion ends, with a result or
  with one of the errors of the code.
\<close>

theorem summarize_recursion_ends:
  assumes "\<And>name c. c \<in> set (map_get [] composing name) \<Longrightarrow> rank (fst c) < (rank name :: nat)"
    and "rank (fst ident) < depth"
  shows "SummarizeServerStats caching composing st en depth ident ss \<noteq>
    Inl (Throws (UndefinedBehaviour ''stack overflow''))"
  by (rule summarize_depth [where rank = rank]) (use assms in auto)

theorem summarize_recursion_ends_witness:
  "SummarizeServerStats False [(''ens'', [(''enc'', [])])] [] [] 2 (''ens'', []) empty_stats \<noteq>
    Inl (Throws (UndefinedBehaviour ''stack overflow''))"
  by (rule summarize_recursion_ends [where rank = "\<lambda>n. if n = ''ens'' then 1 else 0"])
     (auto simp: map_get_def map_find_def split: if_splits)

text \<open>
  For a model whose version is not specified, the version that is returned, when it is
  not -1, is one whose queue count grew over the window, and the highest such version.
\<close>

theorem version_is_highest:
  assumes "DetermineStatsModelVersion caching (name, []) start_stats end_stats = Inr v" and "v \<noteq> - 1"
  shows "(\<exists>x \<in> set end_stats. grew name start_stats x \<and> stoll (snd (fst x)) = Inr v) \<and>
    (\<forall>x \<in> set end_stats. grew name start_stats x \<longrightarrow> (\<exists>w \<le> v. stoll (snd (fst x)) = Inr w))"
proof -
  from assms(1) have "foldR (version_step name start_stats) (- 1) end_stats = Inr v"
    by (auto simp: DetermineStatsModelVersion_def bindR_Inr_conv split: if_splits)
  from version_fold [OF this] assms(2) show ?thesis by blast
qed

theorem version_is_highest_witness:
  "\<exists>v. DetermineStatsModelVersion None (''m'', [])
      [((''m'', ''2''), zero_statistics\<lparr>ms_queue_count := 4\<rparr>)]
      [((''m'', ''10''), zero_statistics\<lparr>ms_queue_count := 1\<rparr>), ((''m'', ''2''), zero_statistics\<lparr>ms_queue_count := 9\<rparr>)]
     = Inr v \<and> v = 10 \<and> (\<exists>w \<le> v. stoll ''2'' = Inr w)"
proof -
  let ?s = "[((''m'', ''2''), zero_statistics\<lparr>ms_queue_count := 4\<rparr>)]"
  let ?e = "[((''m'', ''10''), zero_statistics\<lparr>ms_queue_count := 1\<rparr>), ((''m'', ''2''), zero_statistics\<lparr>ms_queue_count := 9\<rparr>)]"
  have st: "stoll ''10'' = Inr 10" "stoll ''2'' = Inr 2"
    by (simp_all add: stoll_def is_space_def is_digit_def string_to_nat.simps digit_val_def of_char_def)
  then have v: "DetermineStatsModelVersion None (''m'', []) ?s ?e = Inr 10"
    by (simp add: DetermineStatsModelVersion_def version_step_def map_find_def zero_statistics_def)
  from version_is_highest [OF v] have "\<exists>w \<le> 10. stoll ''2'' = Inr w"
    by (auto simp: grew_def map_find_def)
  with v show ?thesis by blast
qed

end
