(* ===== verification/Client_Stats.thy ===== *)
theory Client_Stats
  imports Server_Stats Profile_Data
begin

text \<open>
  The client-side statistics of \<open>inference_profiler.cc\<close>: which requests belong to a
  measurement window, their latencies, mean, deviation and percentiles, the rates and the
  overhead of a window, the merge of the windows of an experiment and of the metrics of the
  GPUs.
\<close>

section \<open>Data\<close>

record client_side_stats =
  request_count :: u64
  sequence_count :: u64
  delayed_request_count :: u64
  response_count :: u64
  duration_ns :: u64
  avg_latency_ns :: u64
  percentile_latency_ns :: "(u64, u64) std_map"
  latencies :: "u64 list"
  std_us :: u64
  avg_request_time_ns :: u64
  avg_send_time_ns :: u64
  avg_receive_time_ns :: u64
  infer_per_sec :: ieee
  responses_per_sec :: ieee
  sequence_per_sec :: ieee
  completed_count :: u64

record gpu_metrics =
  gpu_utilization_per_gpu :: "(string, ieee) std_map"
  gpu_power_usage_per_gpu :: "(string, ieee) std_map"
  gpu_memory_used_bytes_per_gpu :: "(string, u64) std_map"
  gpu_memory_total_bytes_per_gpu :: "(string, u64) std_map"

record perf_status =
  ps_concurrency :: u32
  ps_request_rate :: ieee
  batch_size :: u64
  server_stats :: server_side_stats
  client_stats :: client_side_stats
  ps_metrics :: "gpu_metrics list"
  overhead_pct :: ieee
  on_sequence_model :: bool
  stabilizing_latency_ns :: u64
  send_request_rate :: ieee

text \<open>\<open>cb::InferStat\<close>, the cumulative statistics of the client library.\<close>

record infer_stat =
  completed_request_count :: u64
  cumulative_total_request_time_ns :: u64
  cumulative_send_time_ns :: u64
  cumulative_receive_time_ns :: u64

datatype measurement_mode = TIME_WINDOWS | COUNT_WINDOWS

text \<open>
  The fields of the profiler that its methods read and do not change, and what they ask of
  the parser and of the manager.
\<close>

record profiler_config =
  measurement_window_ms :: u64
  measurement_request_count :: u64
  pc_measurement_mode :: measurement_mode
  max_trials :: u64
  extra_percentile :: bool
  pc_percentile :: u64
  latency_threshold_ms :: u64
  stability_window :: nat
  stability_threshold :: ieee
  include_lib_stats :: bool
  include_server_stats :: bool
  should_collect_metrics :: bool
  should_collect_profile_data :: bool
  async_mode :: bool
  pc_scheduler_type :: model_scheduler_type
  pc_model_id :: model_identifier
  pc_composing :: composing_map
  top_level_response_caching :: bool
  custom_schedule_manager :: bool
  manager_batch_size :: u64

section \<open>The requests of a window\<close>

text \<open>The end of a request, None when its only response is the final empty one.\<close>

definition request_end :: "request_record \<Rightarrow> exn + u64 option" where
  "request_end r =
     (let ts = response_timestamps r in
      if \<not> has_null_last_response r then
        (if ts = [] then Inl (UndefinedBehaviour ''back of empty vector'')
         else Inr (Some (CHRONO_TO_NANOS (last ts))))
      else if length ts > 1 then Inr (Some (CHRONO_TO_NANOS (ts ! (length ts - 2))))
      else Inr None)"

record window_result =
  wr_latencies :: "u64 list"
  wr_erase_indices :: "nat list"
  wr_sequence_count :: u64
  wr_delayed_count :: u64
  wr_response_count :: u64

definition window_step ::
  "u64 \<times> u64 \<Rightarrow> request_record list \<Rightarrow> window_result \<Rightarrow> nat \<Rightarrow> exn + window_result" where
  "window_step valid_range all w i =
     (let r = all ! i; request_start_ns = CHRONO_TO_NANOS (start_time r) in
      bindR (request_end r) (\<lambda>e.
        case e of
          None \<Rightarrow> Inr (w\<lparr>wr_erase_indices := wr_erase_indices w @ [i]\<rparr>)
        | Some request_end_ns \<Rightarrow>
            if request_start_ns \<le> request_end_ns then
              if request_end_ns \<ge> fst valid_range \<and> request_end_ns \<le> snd valid_range then
                Inr (w\<lparr>wr_latencies := wr_latencies w @ [request_end_ns - request_start_ns],
                       wr_response_count := wr_response_count w
                         + word_of_nat (length (response_timestamps r))
                         - (if has_null_last_response r then 1 else 0),
                       wr_erase_indices := wr_erase_indices w @ [i],
                       wr_sequence_count := wr_sequence_count w + (if rr_sequence_end r then 1 else 0),
                       wr_delayed_count := wr_delayed_count w + (if rr_delayed r then 1 else 0)\<rparr>)
              else Inr w
            else Inr w))"

definition erase_at :: "nat \<Rightarrow> 'a list \<Rightarrow> 'a list" where
  "erase_at i xs = take i xs @ drop (Suc i) xs"

text \<open>
  \<open>ValidLatencyMeasurement\<close>: the result of the loop, with the latencies sorted, the requests
  taken out and the requests that stay. \<open>delayed\<close> is the count the caller passes in.
\<close>

definition ValidLatencyMeasurement ::
  "u64 \<times> u64 \<Rightarrow> u64 \<Rightarrow> request_record list \<Rightarrow>
     exn + window_result \<times> request_record list \<times> request_record list" where
  "ValidLatencyMeasurement valid_range delayed all =
     bindR (foldR (window_step valid_range all)
              \<lparr>wr_latencies = [], wr_erase_indices = [], wr_sequence_count = 0,
               wr_delayed_count = delayed, wr_response_count = 0\<rparr> [0..<length all])
       (\<lambda>w. Inr (w\<lparr>wr_latencies := sort (wr_latencies w)\<rparr>,
                map (nth all) (wr_erase_indices w),
                foldl (\<lambda>xs i. erase_at i xs) all (rev (wr_erase_indices w))))"

text \<open>\<open>ClampWindow\<close>, on time points of 64 bits.\<close>

definition ClampWindow :: "request_record list \<Rightarrow> exn + u64 \<times> u64" where
  "ClampWindow rs =
     bindR (foldR (\<lambda>(s, e) r.
              if response_timestamps r = [] then Inl (UndefinedBehaviour ''back of empty vector'')
              else Inr (min s (start_time r), max e (last (response_timestamps r))))
              (2 ^ 63 - 1, - (2 ^ 63)) rs)
       (\<lambda>(s, e). Inr (word_of_int s, word_of_int e))"

section \<open>Latency\<close>

text \<open>
  \<open>GetMeanAndStdDev\<close>: the sum wraps, the differences and their squares are signed 64-bit
  values (undefined on overflow).
\<close>

definition i64_mul :: "u64 \<Rightarrow> u64 \<Rightarrow> exn + u64" where
  "i64_mul a b =
     (let p = sint a * sint b in
      if - (2 ^ 63) \<le> p \<and> p < 2 ^ 63 then Inr (word_of_int p)
      else Inl (UndefinedBehaviour ''signed overflow''))"

definition std_dev_us :: "u64 \<Rightarrow> nat \<Rightarrow> exn + u64" where
  "std_dev_us sq_sum n =
     (if 1 < n then
        (case ieee_trunc (ieee_div binary64 (ieee_sqrt_nat (unat (sq_sum div word_of_nat (n - 1))))
                 (ieee_of_int binary64 1000)) of
           Some t \<Rightarrow> Inr (word_of_int t)
         | None \<Rightarrow> Inl (UndefinedBehaviour ''conversion to uint64_t''))
      else Inr (- 1))"

definition GetMeanAndStdDev :: "u64 list \<Rightarrow> exn + u64 \<times> u64" where
  "GetMeanAndStdDev ls =
     (if ls = [] then Inl DivideByZero
      else
        let tol_latency_ns = foldl (+) 0 ls;
            avg = tol_latency_ns div word_of_nat (length ls)
        in bindR (foldR (\<lambda>sq l. bindR (i64_mul (l - avg) (l - avg)) (\<lambda>p. Inr (sq + p))) 0 ls)
             (\<lambda>sq. bindR (std_dev_us sq (length ls)) (\<lambda>sd. Inr (avg, sd))))"

definition percentile_index :: "u64 \<Rightarrow> nat \<Rightarrow> int option" where
  "percentile_index p n =
     ieee_trunc (ieee_add binary64
       (ieee_mul binary64 (ieee_div binary64 (ieee_of_int binary64 (uint p)) (Fin 100))
          (ieee_of_int binary64 (int (n - 1)))) (Fin (1 / 2)))"

definition percentile_value :: "u64 list \<Rightarrow> u64 \<Rightarrow> exn + u64" where
  "percentile_value ls p =
     (case percentile_index p (length ls) of
        None \<Rightarrow> Inl (UndefinedBehaviour ''conversion to size_t'')
      | Some i \<Rightarrow>
          if 0 \<le> i \<and> i < 2 ^ 64 then vec_index ls (nat i)
          else Inl (UndefinedBehaviour ''conversion to size_t''))"

definition percentiles_of :: "profiler_config \<Rightarrow> u64 list" where
  "percentiles_of cfg =
     (let ps = [50, 90, 95, 99] in
      if extra_percentile cfg then set_emplace (pc_percentile cfg) ps else ps)"

definition SummarizeLatency ::
  "profiler_config \<Rightarrow> u64 list \<Rightarrow> perf_status \<Rightarrow> failure + perf_status" where
  "SummarizeLatency cfg ls summary =
     (if ls = [] then
        Inl (Fails (CbError (''No valid requests recorded within time interval.'' @
          '' Please use a larger time window.'') OPTION_ERROR))
      else
        bindR (liftE (GetMeanAndStdDev ls)) (\<lambda>(avg, sd).
        bindR (liftE (foldR (\<lambda>m p. bindR (percentile_value ls p) (\<lambda>v. Inr (map_emplace p v m)))
                 [] (percentiles_of cfg))) (\<lambda>pm.
          let cs = (client_stats summary)\<lparr>avg_latency_ns := avg, std_us := sd, percentile_latency_ns := pm\<rparr>
          in Inr (summary\<lparr>client_stats := cs,
                   stabilizing_latency_ns :=
                     (if extra_percentile cfg then the (map_find pm (pc_percentile cfg)) else avg)\<rparr>))))"

section \<open>Rates and overhead\<close>

text \<open>\<open>(float)duration_ns / NANOS_PER_SECOND\<close>, and a count divided by it.\<close>

definition duration_sec :: "u64 \<Rightarrow> ieee" where
  "duration_sec d = ieee_div binary32 (ieee_of_int binary32 (uint d))
     (ieee_of_int binary32 (int NANOS_PER_SECOND))"

definition per_sec :: "u64 \<Rightarrow> ieee \<Rightarrow> ieee" where
  "per_sec n sec = ieee_div binary32 (ieee_of_int binary32 (uint n)) sec"

definition SummarizeClientStat ::
  "profiler_config \<Rightarrow> infer_stat \<Rightarrow> infer_stat \<Rightarrow> u64 \<Rightarrow> u64 \<Rightarrow> u64 \<Rightarrow> u64 \<Rightarrow> u64 \<Rightarrow>
     perf_status \<Rightarrow> perf_status" where
  "SummarizeClientStat cfg start_stat end_stat dur valid_request_count valid_sequence_count
       delayed resp summary =
     (let bs = max (manager_batch_size cfg) 1;
          sec = duration_sec dur;
          cs = (client_stats summary)\<lparr>
            request_count := valid_request_count,
            sequence_count := valid_sequence_count,
            delayed_request_count := delayed,
            response_count := resp,
            duration_ns := dur,
            sequence_per_sec := per_sec valid_sequence_count sec,
            infer_per_sec := per_sec (valid_request_count * bs) sec,
            responses_per_sec := per_sec resp sec\<rparr>;
          completed = completed_request_count end_stat - completed_request_count start_stat;
          request_time = cumulative_total_request_time_ns end_stat - cumulative_total_request_time_ns start_stat;
          send_time = cumulative_send_time_ns end_stat - cumulative_send_time_ns start_stat;
          receive_time = cumulative_receive_time_ns end_stat - cumulative_receive_time_ns start_stat;
          cs1 = (if include_lib_stats cfg then
                   (let c = cs\<lparr>completed_count := completed\<rparr> in
                    if completed \<noteq> 0 then
                      c\<lparr>avg_request_time_ns := request_time div completed,
                        avg_send_time_ns := send_time div completed,
                        avg_receive_time_ns := receive_time div completed\<rparr>
                    else c)
                 else cs)
      in summary\<lparr>
           on_sequence_model := (pc_scheduler_type cfg = SEQUENCE \<or> pc_scheduler_type cfg = ENSEMBLE_SEQUENCE),
           batch_size := bs, client_stats := cs1\<rparr>)"

definition SummarizeSendRequestRate :: "ieee \<Rightarrow> u64 \<Rightarrow> perf_status \<Rightarrow> exn + perf_status" where
  "SummarizeSendRequestRate window_duration_s num_sent_requests summary =
     (if ieee_le window_duration_s (Fin 0)
      then Inl (RuntimeError ''window_duration_s must be positive'')
      else Inr (summary\<lparr>send_request_rate :=
             ieee_div binary64 (ieee_of_int binary64 (uint num_sent_requests)) window_duration_s\<rparr>))"

definition SummarizeOverhead :: "u64 \<Rightarrow> u64 \<Rightarrow> perf_status \<Rightarrow> perf_status" where
  "SummarizeOverhead window_duration_ns idle_ns summary =
     summary\<lparr>overhead_pct :=
       (if idle_ns > window_duration_ns then Fin 0
        else
          ieee_mul binary64
            (ieee_div binary64 (ieee_of_int binary64 (uint (window_duration_ns - idle_ns)))
               (ieee_of_int binary64 (uint window_duration_ns)))
            (Fin 100))\<rparr>"

section \<open>Metrics of the GPUs\<close>

text \<open>The first loop of \<open>GetMetricAveragePerGPU\<close> fills the sums and the counts.\<close>

definition average_step ::
  "(string, ieee) std_map \<times> (string, u64) std_map \<Rightarrow> string \<times> ieee \<Rightarrow>
     (string, ieee) std_map \<times> (string, u64) std_map" where
  "average_step sc x =
     (let (tots, counts) = sc; (uuid, metric) = x;
          (tots1, counts1) = (if map_find tots uuid = None
             then (map_assign uuid (Fin 0) tots, map_assign uuid 0 counts) else (tots, counts))
      in (map_assign uuid (ieee_add binary64 (map_get (Fin 0) tots1 uuid) metric) tots1,
          map_assign uuid (map_get 0 counts1 uuid + 1) counts1))"

definition GetMetricAveragePerGPU ::
  "(string, ieee) std_map list \<Rightarrow> (string, ieee) std_map \<Rightarrow> (string, ieee) std_map" where
  "GetMetricAveragePerGPU inputs out =
     (let (tots, counts) = foldl average_step (out, []) (concat inputs)
      in map (\<lambda>(uuid, metric).
           let metric_count = map_get 0 counts uuid in
           (uuid, if metric_count > 0
                  then ieee_div binary64 metric (ieee_of_int binary64 (uint metric_count)) else metric))
         tots)"

definition max_step :: "(string, u64) std_map \<Rightarrow> string \<times> u64 \<Rightarrow> (string, u64) std_map" where
  "max_step out x =
     (let (uuid, metric) = x;
          out1 = (if map_find out uuid = None then map_assign uuid 0 out else out)
      in map_assign uuid (max (map_get 0 out1 uuid) metric) out1)"

definition GetMetricMaxPerGPU ::
  "(string, u64) std_map list \<Rightarrow> (string, u64) std_map \<Rightarrow> (string, u64) std_map" where
  "GetMetricMaxPerGPU inputs out = foldl max_step out (concat inputs)"

definition first_step :: "(string, u64) std_map \<Rightarrow> string \<times> u64 \<Rightarrow> (string, u64) std_map" where
  "first_step out x =
     (let (uuid, metric) = x in
      if map_find out uuid = None then map_assign uuid metric out else out)"

definition GetMetricFirstPerGPU ::
  "(string, u64) std_map list \<Rightarrow> (string, u64) std_map \<Rightarrow> (string, u64) std_map" where
  "GetMetricFirstPerGPU inputs out = foldl first_step out (concat inputs)"

definition MergeMetrics :: "gpu_metrics list \<Rightarrow> gpu_metrics \<Rightarrow> gpu_metrics" where
  "MergeMetrics all_metrics merged =
     merged\<lparr>gpu_utilization_per_gpu :=
              GetMetricAveragePerGPU (map gpu_utilization_per_gpu all_metrics) (gpu_utilization_per_gpu merged),
            gpu_power_usage_per_gpu :=
              GetMetricAveragePerGPU (map gpu_power_usage_per_gpu all_metrics) (gpu_power_usage_per_gpu merged),
            gpu_memory_used_bytes_per_gpu :=
              GetMetricMaxPerGPU (map gpu_memory_used_bytes_per_gpu all_metrics)
                (gpu_memory_used_bytes_per_gpu merged),
            gpu_memory_total_bytes_per_gpu :=
              GetMetricFirstPerGPU (map gpu_memory_total_bytes_per_gpu all_metrics)
                (gpu_memory_total_bytes_per_gpu merged)\<rparr>"

definition no_metrics :: gpu_metrics where
  "no_metrics = \<lparr>gpu_utilization_per_gpu = [], gpu_power_usage_per_gpu = [],
     gpu_memory_used_bytes_per_gpu = [], gpu_memory_total_bytes_per_gpu = []\<rparr>"

section \<open>The merge of the windows of an experiment\<close>

text \<open>The checks of \<open>MergePerfStatusReports\<close>, in the order of the code.\<close>

fun reports_consistent :: "perf_status \<Rightarrow> perf_status list \<Rightarrow> cb_error + unit" where
  "reports_consistent p [] = Inr ()"
| "reports_consistent p (q # qs) =
     (if on_sequence_model q \<noteq> on_sequence_model p
      then Inl (generic_error ''Inconsistent sequence setting detected.'')
      else if batch_size q \<noteq> batch_size p
      then Inl (generic_error ''Inconsistent batch size detected.'')
      else if length (composing_models_stat (server_stats q)) \<noteq>
              length (composing_models_stat (server_stats p))
      then Inl (generic_error ''Inconsistent ensemble setting detected between the trials.'')
      else reports_consistent p qs)"

text \<open>The reset of the merged report; \<open>response_count\<close> is not among the fields reset.\<close>

definition reset_merged :: "perf_status \<Rightarrow> perf_status" where
  "reset_merged e =
     e\<lparr>client_stats := (client_stats e)\<lparr>request_count := 0, sequence_count := 0,
          delayed_request_count := 0, duration_ns := 0, avg_latency_ns := 0,
          percentile_latency_ns := [], latencies := [], std_us := 0, avg_request_time_ns := 0,
          avg_send_time_ns := 0, avg_receive_time_ns := 0, infer_per_sec := Fin 0,
          sequence_per_sec := Fin 0, completed_count := 0\<rparr>,
       stabilizing_latency_ns := 0, overhead_pct := Fin 0, send_request_rate := Fin 0\<rparr>"

definition add_report :: "perf_status \<Rightarrow> perf_status \<Rightarrow> perf_status" where
  "add_report e p =
     (let ce = client_stats e; cp = client_stats p in
      e\<lparr>client_stats := ce\<lparr>
          request_count := request_count ce + request_count cp,
          sequence_count := sequence_count ce + sequence_count cp,
          delayed_request_count := delayed_request_count ce + delayed_request_count cp,
          response_count := response_count ce + response_count cp,
          duration_ns := duration_ns ce + duration_ns cp,
          latencies := latencies ce @ latencies cp\<rparr>,
        overhead_pct := ieee_add binary64 (overhead_pct e) (overhead_pct p),
        send_request_rate := ieee_add binary64 (send_request_rate e) (send_request_rate p)\<rparr>)"

definition add_lib_stats :: "client_side_stats \<Rightarrow> perf_status \<Rightarrow> client_side_stats" where
  "add_lib_stats ce p =
     (let cp = client_stats p in
      ce\<lparr>completed_count := completed_count ce + completed_count cp,
         avg_request_time_ns := avg_request_time_ns ce + avg_request_time_ns cp * completed_count cp,
         avg_send_time_ns := avg_send_time_ns ce + avg_send_time_ns cp * completed_count cp,
         avg_receive_time_ns := avg_receive_time_ns ce + avg_receive_time_ns cp * completed_count cp\<rparr>)"

definition average_lib_stats :: "client_side_stats \<Rightarrow> client_side_stats" where
  "average_lib_stats c =
     (if completed_count c \<noteq> 0 then
        c\<lparr>avg_request_time_ns := avg_request_time_ns c div completed_count c,
          avg_send_time_ns := avg_send_time_ns c div completed_count c,
          avg_receive_time_ns := avg_receive_time_ns c div completed_count c\<rparr>
      else c)"

text \<open>The rates of the merged report, computed once the latencies are sorted.\<close>

definition merged_rates :: "perf_status \<Rightarrow> perf_status" where
  "merged_rates e =
     (let c = client_stats e; sec = duration_sec (duration_ns c) in
      e\<lparr>client_stats := c\<lparr>latencies := sort (latencies c),
          sequence_per_sec := per_sec (sequence_count c) sec,
          infer_per_sec := per_sec (request_count c * batch_size e) sec,
          responses_per_sec := per_sec (response_count c) sec\<rparr>\<rparr>)"

definition MergePerfStatusReports ::
  "profiler_config \<Rightarrow> perf_status list \<Rightarrow> perf_status \<Rightarrow> failure + perf_status" where
  "MergePerfStatusReports cfg reports e0 =
     (case reports of
        [] \<Rightarrow> Inl (Throws (UndefinedBehaviour ''deque index''))
      | p # ps \<Rightarrow>
          bindR (liftC (reports_consistent p ps)) (\<lambda>_.
            let e1 = reset_merged (e0\<lparr>batch_size := batch_size p, on_sequence_model := on_sequence_model p\<rparr>);
                e2 = foldl add_report e1 reports;
                n = ieee_of_int binary64 (int (length reports));
                e3 = e2\<lparr>overhead_pct := ieee_div binary64 (overhead_pct e2) n,
                        send_request_rate := ieee_div binary64 (send_request_rate e2) n\<rparr>;
                e4 = (if include_lib_stats cfg
                      then e3\<lparr>client_stats := average_lib_stats (foldl add_lib_stats (client_stats e3) reports)\<rparr>
                      else e3)
            in bindR (MergeServerSideStats (map server_stats reports)) (\<lambda>ss.
               let e5 = merged_rates (e4\<lparr>server_stats := ss\<rparr>) in
               bindR (SummarizeLatency cfg (latencies (client_stats e5)) e5) (\<lambda>e6.
                 Inr (if should_collect_metrics cfg
                      then e6\<lparr>ps_metrics := ps_metrics e6 @
                             [MergeMetrics (concat (map ps_metrics reports)) no_metrics]\<rparr>
                      else e6)))))"

section \<open>The requests of a window, as filters\<close>

definition has_end :: "request_record \<Rightarrow> bool" where
  "has_end r \<longleftrightarrow> has_null_last_response r \<or> response_timestamps r \<noteq> []"

text \<open>The end of a request that has one, whether a window counts it, and whether it takes it out.\<close>

definition end_of :: "request_record \<Rightarrow> u64 option" where
  "end_of r =
     (let ts = response_timestamps r in
      if \<not> has_null_last_response r then Some (CHRONO_TO_NANOS (last ts))
      else if 1 < length ts then Some (CHRONO_TO_NANOS (ts ! (length ts - 2))) else None)"

definition counted :: "u64 \<times> u64 \<Rightarrow> request_record \<Rightarrow> bool" where
  "counted rng r \<longleftrightarrow> (case end_of r of None \<Rightarrow> False
     | Some e \<Rightarrow> CHRONO_TO_NANOS (start_time r) \<le> e \<and> fst rng \<le> e \<and> e \<le> snd rng)"

definition taken :: "u64 \<times> u64 \<Rightarrow> request_record \<Rightarrow> bool" where
  "taken rng r \<longleftrightarrow> end_of r = None \<or> counted rng r"

definition latency_of :: "request_record \<Rightarrow> u64" where
  "latency_of r = the (end_of r) - CHRONO_TO_NANOS (start_time r)"

definition responses_of :: "request_record \<Rightarrow> u64" where
  "responses_of r = word_of_nat (length (response_timestamps r)) - (if has_null_last_response r then 1 else 0)"

lemma request_end_of: "has_end r \<Longrightarrow> request_end r = Inr (end_of r)"
  by (auto simp: request_end_def end_of_def has_end_def Let_def)

lemma window_step_spec:
  assumes "has_end (all ! i)"
  shows "window_step rng all w i = Inr (w\<lparr>
      wr_latencies := wr_latencies w @ (if counted rng (all ! i) then [latency_of (all ! i)] else []),
      wr_erase_indices := wr_erase_indices w @ (if taken rng (all ! i) then [i] else []),
      wr_sequence_count := wr_sequence_count w + (if counted rng (all ! i) \<and> rr_sequence_end (all ! i) then 1 else 0),
      wr_delayed_count := wr_delayed_count w + (if counted rng (all ! i) \<and> rr_delayed (all ! i) then 1 else 0),
      wr_response_count := wr_response_count w + (if counted rng (all ! i) then responses_of (all ! i) else 0)\<rparr>)"
  using assms
  by (auto simp: window_step_def request_end_of counted_def taken_def latency_of_def responses_of_def Let_def
      intro!: window_result.equality split: option.splits)

definition window_of :: "u64 \<times> u64 \<Rightarrow> u64 \<Rightarrow> request_record list \<Rightarrow> window_result" where
  "window_of rng d rs =
     \<lparr>wr_latencies = map latency_of (filter (counted rng) rs),
      wr_erase_indices = filter (\<lambda>i. taken rng (rs ! i)) [0..<length rs],
      wr_sequence_count = word_of_nat (length (filter (\<lambda>r. counted rng r \<and> rr_sequence_end r) rs)),
      wr_delayed_count = d + word_of_nat (length (filter (\<lambda>r. counted rng r \<and> rr_delayed r) rs)),
      wr_response_count = sum_list (map responses_of (filter (counted rng) rs))\<rparr>"

lemma window_fold:
  assumes "\<forall>r \<in> set all. has_end r" and "n \<le> length all"
  shows "foldR (window_step rng all)
      \<lparr>wr_latencies = [], wr_erase_indices = [], wr_sequence_count = 0,
       wr_delayed_count = d, wr_response_count = 0\<rparr> [0..<n] =
     Inr ((window_of rng d (take n all))\<lparr>wr_erase_indices := filter (\<lambda>i. taken rng (all ! i)) [0..<n]\<rparr>)"
  using assms(2)
proof (induction n)
  case 0
  show ?case by (simp add: window_of_def)
next
  case (Suc n)
  then have n: "n < length all" by simp
  have t: "take (Suc n) all = take n all @ [all ! n]" using n by (rule take_Suc_conv_app_nth)
  have "has_end (all ! n)" using assms(1) n by simp
  from window_step_spec [OF this] Suc n show ?case
    by (auto simp: foldR_append window_of_def t nth_append intro: window_result.equality)
qed

lemma erase_indices_append:
  assumes "sorted_wrt (>) is" and "\<forall>i \<in> set is. i < length xs"
  shows "foldl (\<lambda>xs i. erase_at i xs) (xs @ ys) is = foldl (\<lambda>xs i. erase_at i xs) xs is @ ys"
  using assms
proof (induction "is" arbitrary: xs)
  case (Cons i js)
  then have i: "i < length xs" by simp
  then have "erase_at i (xs @ ys) = erase_at i xs @ ys" by (simp add: erase_at_def)
  moreover have "\<forall>j \<in> set js. j < length (erase_at i xs)" using Cons.prems i by (auto simp: erase_at_def)
  ultimately show ?case using Cons by simp
qed simp

lemma erase_filter:
  "foldl (\<lambda>xs i. erase_at i xs) xs (rev (filter (\<lambda>i. P (xs ! i)) [0..<length xs])) = filter (\<lambda>x. \<not> P x) xs"
proof (induction xs rule: rev_induct)
  case (snoc x xs)
  let ?is = "rev (filter (\<lambda>i. P (xs ! i)) [0..<length xs])"
  have f: "filter (\<lambda>i. P ((xs @ [x]) ! i)) [0..<length xs] = filter (\<lambda>i. P (xs ! i)) [0..<length xs]"
    by (rule filter_cong) (auto simp: nth_append)
  have "sorted_wrt (>) ?is" "\<forall>i \<in> set ?is. i < length xs"
    by (auto simp: sorted_wrt_rev intro: sorted_wrt_filter)
  from erase_indices_append [OF this] have e:
    "foldl (\<lambda>xs i. erase_at i xs) (xs @ ys) ?is = filter (\<lambda>x. \<not> P x) xs @ ys" for ys
    using snoc by simp
  have "erase_at (length xs) (xs @ [x]) = xs" by (simp add: erase_at_def)
  then show ?case using e [of "[x]"] snoc f by simp
qed simp

lemma take_out_filter: "map (nth xs) (filter (\<lambda>i. P (xs ! i)) [0..<length xs]) = filter P xs"
proof -
  have "filter P xs = filter P (map (nth xs) [0..<length xs])" by (simp add: map_nth)
  also have "\<dots> = map (nth xs) (filter (P \<circ> nth xs) [0..<length xs])" by (rule filter_map)
  finally show ?thesis by (simp add: comp_def)
qed

lemma ValidLatencyMeasurement_eq:
  assumes "\<forall>r \<in> set all. has_end r"
  shows "ValidLatencyMeasurement rng d all =
    Inr ((window_of rng d all)\<lparr>wr_latencies := sort (map latency_of (filter (counted rng) all))\<rparr>,
      filter (taken rng) all, filter (\<lambda>r. \<not> taken rng r) all)"
  using window_fold [OF assms, of "length all" rng d]
  by (simp add: ValidLatencyMeasurement_def window_of_def take_out_filter erase_filter)

section \<open>Mean, percentiles and overhead\<close>

abbreviation r64 :: "rat \<Rightarrow> rat" where
  "r64 \<equiv> rnd binary64"

definition index_real :: "int \<Rightarrow> int \<Rightarrow> rat" where
  "index_real p N = r64 (r64 (r64 (of_int p / 100) * of_int N) + 1 / 2)"

lemma index_real_mono:
  assumes "p \<le> q" and "0 \<le> N"
  shows "index_real p N \<le> index_real q N"
proof -
  have "(of_int p :: rat) / 100 \<le> of_int q / 100" using assms(1) by (simp add: divide_right_mono)
  then have "r64 (of_int p / 100) * of_int N \<le> r64 (of_int q / 100) * of_int N"
    using assms(2) by (intro mult_right_mono rnd_mono) simp_all
  then show ?thesis unfolding index_real_def by (intro rnd_mono add_right_mono) simp_all
qed

lemma index_real_bounds:
  assumes "0 \<le> p" and "p \<le> 100" and "0 \<le> N" and "N < 2 ^ 52"
  shows "0 \<le> r64 (of_int p / 100)" and "r64 (of_int p / 100) \<le> 1"
    and "0 \<le> r64 (r64 (of_int p / 100) * of_int N)" and "r64 (r64 (of_int p / 100) * of_int N) \<le> of_int N"
    and "0 \<le> index_real p N" and "index_real p N \<le> of_int N + 1 / 2"
proof -
  have p: "(0 :: rat) \<le> of_int p" "(of_int p :: rat) \<le> of_int 100"
    using assms(1) unfolding of_int_le_iff by (simp_all add: assms(2))
  show q: "0 \<le> r64 (of_int p / 100)" "r64 (of_int p / 100) \<le> 1"
    using rnd64_between [of 0 "of_int p / 100" 1] p by simp_all
  have N: "0 \<le> (of_int N :: rat)" using assms(3) by simp
  have "r64 (of_int p / 100) * of_int N \<le> of_int N" "0 \<le> r64 (of_int p / 100) * of_int N"
    using q N mult_right_mono [of "r64 (of_int p / 100)" 1 "of_int N"] by auto
  then show y: "0 \<le> r64 (r64 (of_int p / 100) * of_int N)" "r64 (r64 (of_int p / 100) * of_int N) \<le> of_int N"
    using rnd64_between [of 0 "r64 (of_int p / 100) * of_int N" N] assms(3,4) by simp_all
  have "(of_int (2 * N + 1) :: rat) / 2 = of_int N + 1 / 2" by (simp add: add_divide_distrib)
  moreover have "\<bar>2 * N + 1\<bar> \<le> 2 ^ 53" using assms(3,4) by simp
  ultimately have half: "r64 (of_int N + 1 / 2) = of_int N + 1 / 2"
    using rnd64_exact_half [of "2 * N + 1"] by (simp only:)
  let ?y = "r64 (r64 (of_int p / 100) * of_int N)"
  show "0 \<le> index_real p N" "index_real p N \<le> of_int N + 1 / 2"
    using rnd_mono [of 0 "?y + 1 / 2" binary64] rnd_mono [of "?y + 1 / 2" "of_int N + 1 / 2" binary64] y half
    by (simp_all add: index_real_def)
qed

lemma percentile_index_eq:
  assumes "uint p \<le> 100" and "0 < n" and "n \<le> 2 ^ 52"
  shows "percentile_index p n = Some \<lfloor>index_real (uint p) (int (n - 1))\<rfloor>"
proof -
  define N where "N = int (n - 1)"
  define P where "P = uint p"
  have N: "0 \<le> N" "N < 2 ^ 52" and P: "0 \<le> P" "P \<le> 100" using assms by (auto simp: N_def P_def)
  note b = index_real_bounds [OF P N]
  have i: "ieee_of_int binary64 P = Fin (of_int P)" "ieee_of_int binary64 N = Fin (of_int N)"
    using P N ieee_of_int64_exact [of P] ieee_of_int64_exact [of N] by simp_all
  have P': "(0 :: rat) \<le> of_int P" "(of_int P :: rat) \<le> of_int 100"
    unfolding of_int_le_iff by (simp_all add: P)
  have f1: "fin binary64 (of_int P / 100) = Fin (r64 (of_int P / 100))"
    using fin64_eq [of 0 "of_int P / 100" 1] P' by simp
  let ?x = "r64 (of_int P / 100) * of_int N"
  have "0 \<le> ?x" "?x \<le> of_int N" using b(1,2) N mult_right_mono [of "r64 (of_int P / 100)" 1 "of_int N"] by auto
  then have f2: "fin binary64 ?x = Fin (r64 ?x)" using fin64_eq [of 0 ?x N] N by simp
  have "(of_int N :: rat) \<le> of_int (2 ^ 52)" unfolding of_int_le_iff using N by simp
  with b(5,6) have f3: "fin binary64 (r64 ?x + 1 / 2) = Fin (index_real P N)"
    unfolding index_real_def by (intro fin64_small) simp
  show ?thesis
    unfolding percentile_index_def N_def [symmetric] P_def [symmetric]
    using f1 f2 f3 i b(5) by simp
qed

lemma percentile_index_range:
  assumes "0 \<le> p" and "p \<le> 100" and "0 < n" and "n \<le> 2 ^ 52"
  shows "0 \<le> \<lfloor>index_real p (int (n - 1))\<rfloor> \<and> \<lfloor>index_real p (int (n - 1))\<rfloor> < int n"
proof -
  have N: "0 \<le> int (n - 1)" "int (n - 1) < 2 ^ 52" using assms(3,4) by auto
  note b = index_real_bounds [OF assms(1,2) N]
  have "\<lfloor>1 / 2 :: rat\<rfloor> = 0" by (simp add: floor_eq_iff)
  then have "\<lfloor>index_real p (int (n - 1))\<rfloor> \<le> int (n - 1)"
    using floor_mono [OF b(6)] floor_add_int [of "1 / 2 :: rat" "int (n - 1)"] by (simp add: add.commute)
  with b(5) assms(3) show ?thesis by simp
qed

text \<open>The value of a percentile of at most 100 is defined, and grows with the percentile.\<close>

definition pct :: "u64 list \<Rightarrow> u64 \<Rightarrow> u64" where
  "pct ls p = ls ! nat \<lfloor>index_real (uint p) (int (length ls - 1))\<rfloor>"

lemma percentile_value_eq:
  assumes "uint p \<le> 100" and "ls \<noteq> []" and "length ls \<le> 2 ^ 52"
  shows "percentile_value ls p = Inr (pct ls p)" and "pct ls p \<in> set ls"
proof -
  define i where "i = \<lfloor>index_real (uint p) (int (length ls - 1))\<rfloor>"
  have n: "0 < length ls" using assms(2) by simp
  have r: "0 \<le> i" "i < int (length ls)"
    using percentile_index_range [OF _ assms(1) n assms(3)] by (auto simp: i_def)
  have e: "percentile_index p (length ls) = Some i"
    unfolding i_def by (rule percentile_index_eq [OF assms(1) n assms(3)])
  have P: "pct ls p = ls ! nat i" by (simp add: pct_def i_def)
  have "i < 2 ^ 64" using order.strict_trans2 [OF r(2), of "2 ^ 64"] assms(3) by simp
  moreover have "nat i < length ls" using r by linarith
  ultimately show "percentile_value ls p = Inr (pct ls p)" "pct ls p \<in> set ls"
    using r(1) by (simp_all add: percentile_value_def e P vec_index_def)
qed

lemma pct_mono:
  assumes "p \<le> q" and "uint q \<le> 100" and "ls \<noteq> []" and "length ls \<le> 2 ^ 52" and "sorted ls"
  shows "pct ls p \<le> pct ls q"
proof -
  have pq: "uint p \<le> uint q" using assms(1) by (simp add: word_le_def)
  have "\<lfloor>index_real (uint p) (int (length ls - 1))\<rfloor> \<le> \<lfloor>index_real (uint q) (int (length ls - 1))\<rfloor>"
    by (intro floor_mono index_real_mono pq) simp
  moreover have "\<lfloor>index_real (uint q) (int (length ls - 1))\<rfloor> < int (length ls)"
    using percentile_index_range [OF _ assms(2), of "length ls"] assms(3,4) by simp
  moreover have "0 < length ls" using assms(3) by simp
  ultimately show ?thesis
    unfolding pct_def by (intro sorted_nth_mono [OF assms(5)]) linarith+
qed

lemma percentile_map:
  assumes "\<forall>p \<in> set ps. uint p \<le> 100" and "ls \<noteq> []" and "length ls \<le> 2 ^ 52"
  shows "foldR (\<lambda>m p. bindR (percentile_value ls p) (\<lambda>v. Inr (map_emplace p v m))) m0 ps =
    Inr (foldl (\<lambda>m p. map_emplace p (pct ls p) m) m0 ps)"
  by (rule foldR_total) (use assms percentile_value_eq in auto)

lemma percentiles_of_facts:
  "distinct (percentiles_of cfg)" "set (percentiles_of cfg) =
     {50, 90, 95, 99} \<union> (if extra_percentile cfg then {pc_percentile cfg} else {})"
  using set_emplace_sorted [of "[50, 90, 95, 99 :: u64]" "pc_percentile cfg"]
  by (auto simp: percentiles_of_def Let_def strict_sorted_iff)

lemma percentile_lookup:
  assumes "p \<in> set (percentiles_of cfg)"
  shows "map_find (foldl (\<lambda>m p. map_emplace p (pct ls p) m) [] (percentiles_of cfg)) p = Some (pct ls p)"
  using emplace_map.fill_lookup [of "[]" "\<lambda>p. p" "percentiles_of cfg" p "pct ls"]
    percentiles_of_facts(1) assms by (simp add: emplace_map.fill_def)
lemma foldl_plus: "foldl (+) a xs = a + sum_list (xs :: u64 list)"
  by (induction xs arbitrary: a) (simp_all add: add.assoc)

lemma unat_sum_list:
  "sum_list (map unat xs) < 2 ^ 64 \<Longrightarrow> unat (sum_list (xs :: u64 list)) = sum_list (map unat xs)"
  by (induction xs) (auto simp: unat_word_ariths)

definition mean_latency :: "u64 list \<Rightarrow> u64" where
  "mean_latency ls = sum_list ls div word_of_nat (length ls)"

lemma unat_mean:
  assumes "ls \<noteq> []" and "sum_list (map unat ls) < 2 ^ 64" and "length ls < 2 ^ 64"
  shows "unat (mean_latency ls) = sum_list (map unat ls) div length ls"
  using assms by (simp add: mean_latency_def unat_div unat_sum_list unat_of_nat)

lemma sum_list_bounds:
  assumes "\<forall>x \<in> set xs. a \<le> x \<and> x \<le> (b :: nat)"
  shows "a * length xs \<le> sum_list xs \<and> sum_list xs \<le> b * length xs"
  using assms by (induction xs) auto

lemma mean_between:
  assumes "xs \<noteq> []" and "\<forall>x \<in> set xs. a \<le> x \<and> x \<le> (b :: nat)"
  shows "a \<le> sum_list xs div length xs \<and> sum_list xs div length xs \<le> b"
proof -
  have "0 < length xs" using assms(1) by simp
  then show ?thesis
    using sum_list_bounds [OF assms(2)] div_le_mono [of "a * length xs" "sum_list xs" "length xs"]
      div_le_mono [of "sum_list xs" "b * length xs" "length xs"] by simp
qed

text \<open>Below \<open>2^31\<close> nanoseconds no square overflows, and the deviation is defined.\<close>

lemma i64_mul_small:
  assumes "unat l < 2 ^ 31" and "unat a < 2 ^ 31"
  obtains p where "i64_mul (l - a) (l - a) = Inr p"
proof -
  have s: "sint (l - a) = uint l - uint a"
  proof -
    have "uint l < 2147483648" "uint a < 2147483648" using assms [THEN uint_less_of_unat] by simp_all
    moreover have "0 \<le> uint l" "0 \<le> uint a" by simp_all
    ultimately have "- (2 ^ 63) \<le> uint l - uint a" "uint l - uint a < 2 ^ 63"
      unfolding power_numeral by (simp_all, linarith+)
    then have "signed_take_bit 63 (uint l - uint a) = uint l - uint a"
      by (intro signed_take_bit_int_eq_self)
    moreover have "sint (l - a) = sint (word_of_int (uint l - uint a) :: u64)" by simp
    ultimately show ?thesis using sint_sbintrunc' [where 'a = 64, of "uint l - uint a"] by simp
  qed
  let ?d = "uint l - uint a"
  have "\<bar>?d\<bar> \<le> 2 ^ 31" 
  proof -
    have "uint l < 2 ^ 31" "uint a < 2 ^ 31" using assms [THEN uint_less_of_unat] by simp_all
    moreover have "0 \<le> uint l" "0 \<le> uint a" by simp_all
    ultimately show ?thesis by linarith
  qed
  then have "\<bar>?d\<bar> * \<bar>?d\<bar> \<le> 2 ^ 31 * 2 ^ 31" by (intro mult_mono) auto
  then have "?d * ?d < 2 ^ 63" by (simp add: abs_mult [symmetric])
  moreover have "- (2 ^ 63) \<le> ?d * ?d" by (rule order_trans [of _ 0]) simp_all
  ultimately show thesis using that by (simp add: i64_mul_def s Let_def)
qed

lemma std_dev_us_defined: "\<exists>v. std_dev_us sq n = Inr v"
proof (cases "1 < n")
  case True
  let ?k = "unat (sq div word_of_nat (n - 1))"
  have "?k \<le> 2 ^ 64" using unat_u64_less [of "sq div word_of_nat (n - 1)"] by simp
  then obtain y where y: "ieee_sqrt_nat ?k = Fin y" "0 \<le> y" "y \<le> 2 ^ 33"
    by (rule ieee_sqrt_nat_finite)
  have k: "ieee_of_int binary64 1000 = Fin 1000" using ieee_of_int64_exact [of 1000] by simp
  have "fin binary64 (y / 1000) = Fin (rnd binary64 (y / 1000))" using y by (intro fin64_pow [of _ 33]) simp_all
  with True show ?thesis unfolding std_dev_us_def y(1) k by simp
qed (simp add: std_dev_us_def)

lemma mean_and_std_defined:
  assumes "ls \<noteq> []" and "\<forall>l \<in> set ls. unat l < 2 ^ 31" and "length ls < 2 ^ 32"
  obtains sd where "GetMeanAndStdDev ls = Inr (mean_latency ls, sd)"
    and "unat (mean_latency ls) = sum_list (map unat ls) div length ls"
proof -
  have b: "\<forall>x \<in> set (map unat ls). 0 \<le> x \<and> x \<le> 2 ^ 31 - 1" using assms(2) by fastforce
  from sum_list_bounds [OF b] have "sum_list (map unat ls) \<le> (2 ^ 31 - 1) * length ls" by simp
  also have "\<dots> \<le> (2 ^ 31 - 1) * 2 ^ 32" using assms(3) by (intro mult_le_mono) simp_all
  finally have "sum_list (map unat ls) < 2 ^ 64" by simp
  then have u: "unat (mean_latency ls) = sum_list (map unat ls) div length ls"
    using assms(1,3) by (intro unat_mean) simp_all
  have "unat (mean_latency ls) < 2 ^ 31"
    using mean_between [of "map unat ls" 0 "2 ^ 31 - 1"] b assms(1) u by simp
  then have "\<exists>sq. foldR (\<lambda>sq l. bindR (i64_mul (l - mean_latency ls) (l - mean_latency ls))
      (\<lambda>p. Inr (sq + p))) s ms = Inr sq" if "set ms \<subseteq> set ls" for s ms
    using that
  proof (induction ms arbitrary: s)
    case (Cons m ms)
    then obtain p where "i64_mul (m - mean_latency ls) (m - mean_latency ls) = Inr p"
      using assms(2) i64_mul_small [of m "mean_latency ls"] by auto
    with Cons show ?case by simp
  qed simp
  then obtain sq where "foldR (\<lambda>sq l. bindR (i64_mul (l - mean_latency ls) (l - mean_latency ls))
      (\<lambda>p. Inr (sq + p))) 0 ls = Inr sq" by blast
  with that u std_dev_us_defined [of sq "length ls"] assms(1) show thesis
    by (auto simp: GetMeanAndStdDev_def foldl_plus Let_def simp flip: mean_latency_def)
qed

text \<open>A difference of more than about three seconds from the mean overflows.\<close>

lemma std_dev_overflow:
  "GetMeanAndStdDev [0, 8000000000] = Inl (UndefinedBehaviour ''signed overflow'')"
proof -
  have m: "foldl (+) 0 [0, 8000000000 :: u64] div word_of_nat (length [0, 8000000000 :: u64]) = 4000000000"
    by simp
  have "i64_mul (0 - 4000000000) (0 - 4000000000) = Inl (UndefinedBehaviour ''signed overflow'')"
    by (simp add: i64_mul_def)
  then show ?thesis unfolding GetMeanAndStdDev_def Let_def m by simp
qed

section \<open>Overhead\<close>

lemma overhead_range:
  assumes "idle \<le> dur" and "0 < dur"
  shows "\<exists>y. overhead_pct (SummarizeOverhead dur idle s) = Fin y \<and> 0 \<le> y \<and> y \<le> 100"
proof -
  let ?o = "rnd binary64 (of_int (uint (dur - idle)))"
  let ?d = "rnd binary64 (of_int (uint dur))"
  have le: "uint (dur - idle) \<le> uint dur" using assms(1)
    by (metis word_le_def word_sub_le_iff)
  have u: "uint w \<le> 2 ^ 64" for w :: u64 using uint_lt2p [of w] by simp
  note o = ieee_of_u64 [OF _ u, of "dur - idle"] and d = ieee_of_u64 [OF _ u, of dur]
  have "1 \<le> uint dur" using assms(2) by (simp add: word_less_def)
  then have "(of_int 1 :: rat) \<le> of_int (uint dur)" unfolding of_int_le_iff .
  then have "1 \<le> ?d" using rnd_mono [of 1 "of_int (uint dur)" binary64] rnd64_exact_int [of 1] by simp
  moreover have "?o \<le> ?d" by (rule rnd_mono) (simp_all add: le del: of_int_uint)
  ultimately have "0 \<le> ?o / ?d" "?o / ?d \<le> 1" using o(2) by simp_all
  then obtain q where q: "fin binary64 (?o / ?d) = Fin q" "0 \<le> q" "q \<le> 1"
    using fin64_between [of 0 "?o / ?d" 1] by auto
  then obtain y where "fin binary64 (q * 100) = Fin y" "0 \<le> y" "y \<le> 100"
    using fin64_between [of 0 "q * 100" 100] by auto
  moreover have "?d \<noteq> 0" using \<open>1 \<le> ?d\<close> by auto
  ultimately show ?thesis using assms(1) q(1) by (simp add: SummarizeOverhead_def o(1) d(1) not_less [symmetric])
qed

section \<open>The merged report\<close>

lemma add_reports:
  "request_count (client_stats (foldl add_report e ps)) =
     request_count (client_stats e) + sum_list (map (\<lambda>p. request_count (client_stats p)) ps)"
  "sequence_count (client_stats (foldl add_report e ps)) =
     sequence_count (client_stats e) + sum_list (map (\<lambda>p. sequence_count (client_stats p)) ps)"
  "delayed_request_count (client_stats (foldl add_report e ps)) =
     delayed_request_count (client_stats e) + sum_list (map (\<lambda>p. delayed_request_count (client_stats p)) ps)"
  "response_count (client_stats (foldl add_report e ps)) =
     response_count (client_stats e) + sum_list (map (\<lambda>p. response_count (client_stats p)) ps)"
  "duration_ns (client_stats (foldl add_report e ps)) =
     duration_ns (client_stats e) + sum_list (map (\<lambda>p. duration_ns (client_stats p)) ps)"
  "latencies (client_stats (foldl add_report e ps)) =
     latencies (client_stats e) @ concat (map (\<lambda>p. latencies (client_stats p)) ps)"
  by (induction ps arbitrary: e) (simp_all add: add_report_def Let_def add.assoc)

lemma add_libs:
  "request_count (foldl add_lib_stats c ps) = request_count c"
  "sequence_count (foldl add_lib_stats c ps) = sequence_count c"
  "delayed_request_count (foldl add_lib_stats c ps) = delayed_request_count c"
  "response_count (foldl add_lib_stats c ps) = response_count c"
  "duration_ns (foldl add_lib_stats c ps) = duration_ns c"
  "latencies (foldl add_lib_stats c ps) = latencies c"
  by (induction ps arbitrary: c) (simp_all add: add_lib_stats_def Let_def)

lemma average_libs:
  "request_count (average_lib_stats c) = request_count c"
  "sequence_count (average_lib_stats c) = sequence_count c"
  "delayed_request_count (average_lib_stats c) = delayed_request_count c"
  "response_count (average_lib_stats c) = response_count c"
  "duration_ns (average_lib_stats c) = duration_ns c"
  "latencies (average_lib_stats c) = latencies c"
  by (simp_all add: average_lib_stats_def)

lemma SummarizeLatency_frame:
  assumes "SummarizeLatency cfg ls s = Inr s'"
  shows "request_count (client_stats s') = request_count (client_stats s)"
    "sequence_count (client_stats s') = sequence_count (client_stats s)"
    "delayed_request_count (client_stats s') = delayed_request_count (client_stats s)"
    "response_count (client_stats s') = response_count (client_stats s)"
    "duration_ns (client_stats s') = duration_ns (client_stats s)"
    "latencies (client_stats s') = latencies (client_stats s)"
    "server_stats s' = server_stats s"
  using assms by (auto simp: SummarizeLatency_def bindR_Inr_conv Let_def split: if_splits)
lemma merged_report_exists:
  assumes "reports_consistent p qs = Inr ()" and "MergeServerSideStats (map server_stats (p # qs)) = Inr ss"
    and "\<And>s. \<exists>s'. SummarizeLatency cfg (sort (concat (map (\<lambda>p. latencies (client_stats p)) (p # qs)))) s = Inr s'"
  shows "\<exists>e. MergePerfStatusReports cfg (p # qs) e0 = Inr e"
proof -
  define e1 where "e1 = reset_merged (e0\<lparr>batch_size := batch_size p, on_sequence_model := on_sequence_model p\<rparr>)"
  define e3 where "e3 = (let e2 = foldl add_report e1 (p # qs); n = ieee_of_int binary64 (int (length (p # qs))) in
     e2\<lparr>overhead_pct := ieee_div binary64 (overhead_pct e2) n,
        send_request_rate := ieee_div binary64 (send_request_rate e2) n\<rparr>)"
  define e4 where "e4 = (if include_lib_stats cfg
     then e3\<lparr>client_stats := average_lib_stats (foldl add_lib_stats (client_stats e3) (p # qs))\<rparr> else e3)"
  define e5 where "e5 = merged_rates (e4\<lparr>server_stats := ss\<rparr>)"
  have "client_stats e3 = client_stats (foldl add_report e1 (p # qs))" by (simp add: e3_def Let_def)
  then have "latencies (client_stats e3) = concat (map (\<lambda>p. latencies (client_stats p)) (p # qs))"
    by (simp only: add_reports) (simp add: e1_def reset_merged_def)
  then have "latencies (client_stats e4) = concat (map (\<lambda>p. latencies (client_stats p)) (p # qs))"
    unfolding e4_def by (cases "include_lib_stats cfg") (simp_all add: add_libs average_libs del: foldl_Cons)
  then have "latencies (client_stats e5) = sort (concat (map (\<lambda>p. latencies (client_stats p)) (p # qs)))"
    by (simp add: e5_def merged_rates_def Let_def)
  with assms(3) [of e5] obtain s' where "SummarizeLatency cfg (latencies (client_stats e5)) e5 = Inr s'" by auto
  with assms(1,2) show ?thesis
    unfolding MergePerfStatusReports_def e5_def e4_def e3_def e1_def Let_def by simp
qed

section \<open>Consecutive windows\<close>

text \<open>
  What \<open>Measure\<close> does with the records: it appends those that arrived, then takes out those of
  the window.
\<close>

fun measure_windows ::
  "(request_record list \<times> u64 \<times> u64) list \<Rightarrow> request_record list \<Rightarrow>
     exn + (window_result \<times> request_record list) list \<times> request_record list" where
  "measure_windows [] all = Inr ([], all)"
| "measure_windows ((new, rng) # ws) all =
     bindR (ValidLatencyMeasurement rng 0 (all @ new)) (\<lambda>(w, valid, rest).
       bindR (measure_windows ws rest) (\<lambda>(res, final). Inr ((w, valid) # res, final)))"

lemma measure_windows_partition:
  assumes "\<forall>r \<in> set all. has_end r" and "\<forall>w \<in> set ws. \<forall>r \<in> set (fst w). has_end r"
  shows "\<exists>res rest. measure_windows ws all = Inr (res, rest) \<and> length res = length ws \<and>
     mset all + mset (concat (map fst ws)) = mset (concat (map snd res)) + mset rest \<and>
     (\<forall>i < length ws. \<forall>r \<in> set (snd (res ! i)). taken (snd (ws ! i)) r)"
  using assms
proof (induction ws arbitrary: all)
  case (Cons a ws)
  obtain new rng where a: "a = (new, rng)" by (cases a)
  let ?all = "all @ new"
  have he: "\<forall>r \<in> set ?all. has_end r" using Cons.prems a by auto
  let ?rest = "filter (\<lambda>r. \<not> taken rng r) ?all"
  have "\<forall>r \<in> set ?rest. has_end r" "\<forall>w \<in> set ws. \<forall>r \<in> set (fst w). has_end r"
    using he Cons.prems by auto
  from Cons.IH [OF this] obtain res rest where IH: "measure_windows ws ?rest = Inr (res, rest)"
    "length res = length ws"
    "mset ?rest + mset (concat (map fst ws)) = mset (concat (map snd res)) + mset rest"
    "\<forall>i < length ws. \<forall>r \<in> set (snd (res ! i)). taken (snd (ws ! i)) r" by blast
  have "mset ?all = mset (filter (taken rng) ?all) + mset ?rest"
    by (metis mset_filter multiset_partition)
  moreover have "mset all + mset (concat (map fst (a # ws))) = mset ?all + mset (concat (map fst ws))"
    by (simp add: a)
  ultimately have ms: "mset all + mset (concat (map fst (a # ws))) =
      mset (filter (taken rng) ?all) + (mset (concat (map snd res)) + mset rest)"
    by (simp only: add.assoc IH(3))
  let ?w = "(window_of rng 0 ?all)\<lparr>wr_latencies := sort (map latency_of (filter (counted rng) ?all))\<rparr>"
  have run: "measure_windows (a # ws) all = Inr ((?w, filter (taken rng) ?all) # res, rest)"
    using IH(1) ValidLatencyMeasurement_eq [OF he, of rng 0] by (simp add: a)
  have "\<forall>i < length (a # ws). \<forall>r \<in> set (snd (((?w, filter (taken rng) ?all) # res) ! i)).
      taken (snd ((a # ws) ! i)) r"
    using IH(4) by (auto simp: a nth_Cons split: nat.split)
  with run ms IH(2) show ?case
    by (intro exI [of _ "(?w, filter (taken rng) ?all) # res"] exI [of _ rest]) (simp add: ac_simps)
qed simp

section \<open>Maxima per GPU\<close>

lemma max_step_find:
  "map_wf m \<Longrightarrow> map_wf (max_step m x) \<and> map_find (max_step m x) k =
     (if k = fst x then Some (max (map_get 0 m k) (snd x)) else map_find m k)"
  by (cases x) (auto simp: max_step_def Let_def map_get_def split: option.split)

lemma max_fold_find:
  "map_wf m \<Longrightarrow> map_find (foldl max_step m xs) k =
     (if k \<in> fst ` set xs then Some (fold max (map snd (filter (\<lambda>x. fst x = k) xs)) (map_get 0 m k))
      else map_find m k)"
proof (induction xs arbitrary: m)
  case (Cons x xs)
  note st = max_step_find [OF Cons.prems, of x]
  have "map_find (foldl max_step (max_step m x) xs) k =
     (if k \<in> fst ` set xs then Some (fold max (map snd (filter (\<lambda>x. fst x = k) xs)) (map_get 0 (max_step m x) k))
      else map_find (max_step m x) k)"
    using st by (intro Cons.IH) simp
  moreover have "filter (\<lambda>x. fst x = k) xs = []" if "k \<notin> fst ` set xs" using that by (force simp: filter_empty_conv)
  ultimately show ?case using st [of k]
    by (auto simp: map_get_def max.commute)
qed simp

section \<open>Rates are finite\<close>

lemma rnd_pow: "0 < prec F \<Longrightarrow> emin F - int (prec F) + 1 \<le> k \<Longrightarrow> rnd F (2 powi k) = 2 powi k"
  using rnd_exact [of 1 F k] by simp

lemma fin_between_pow:
  assumes "2 powi a \<le> x" and "x \<le> 2 powi b" and "0 < prec F" and "emin F - int (prec F) + 1 \<le> a"
    and "a \<le> b" and "b \<le> emax F"
  obtains y where "fin F x = Fin y" and "2 powi a \<le> y" and "y \<le> 2 powi b"
proof -
  have r: "2 powi a \<le> rnd F x" "rnd F x \<le> 2 powi b"
    using rnd_mono [OF assms(1,3)] rnd_mono [OF assms(2,3)] rnd_pow [OF assms(3,4)] rnd_pow [OF assms(3), of b] assms(4,5)
    by simp_all
  have "fin F x = Fin (rnd F x)"
  proof (rule fin_bounded)
    show "\<bar>rnd F x\<bar> \<le> 2 powi b" using r powi2_pos [of a] by linarith
    show "2 powi b < (2 :: rat) powi (emax F + 1)" unfolding powi2_less_iff using assms(6) by simp
  qed
  with r that show thesis by blast
qed

lemma u64_between_pow:
  assumes "0 < w"
  shows "2 powi 0 \<le> (of_int (uint (w :: u64)) :: rat)" and "(of_int (uint w) :: rat) \<le> 2 powi 64"
proof -
  have "1 \<le> uint w" using assms by (simp add: word_less_def)
  then have "(of_int 1 :: rat) \<le> of_int (uint w)" unfolding of_int_le_iff .
  then show "2 powi 0 \<le> (of_int (uint w) :: rat)" by simp
  have "uint w \<le> 2 ^ 64" using uint_lt2p [of w] by simp
  then have "(of_int (uint w) :: rat) \<le> of_int (2 ^ 64)" unfolding of_int_le_iff .
  then show "(of_int (uint w) :: rat) \<le> 2 powi 64" by simp
qed

lemma nanos_binary32: "ieee_of_int binary32 (int NANOS_PER_SECOND) = Fin 1000000000"
proof -
  have "(of_int 1953125 :: rat) * 2 powi 9 = 1000000000" by simp
  with rnd_exact [of 1953125 binary32 9] have "rnd binary32 1000000000 = 1000000000" by simp
  moreover have "(1000000000 :: rat) < 2 powi (emax binary32 + 1)" by simp
  ultimately show ?thesis
    using fin_bounded [of binary32 1000000000 1000000000] by (simp add: ieee_of_int_def NANOS_PER_SECOND_def)
qed

lemma duration_sec_finite:
  assumes "0 < d"
  obtains s where "duration_sec d = Fin s" and "2 powi - 30 \<le> s" and "s \<le> 2 powi 35"
proof -
  obtain x where x: "fin binary32 (of_int (uint d)) = Fin x" "2 powi 0 \<le> x" "x \<le> 2 powi 64"
    using fin_between_pow [OF u64_between_pow [OF assms], of binary32] by auto
  have "2 powi - 30 \<le> x / 1000000000" "x / 1000000000 \<le> 2 powi 35"
    using x(2,3) by (simp_all add: power_int_minus field_simps)
  then obtain s where "fin binary32 (x / 1000000000) = Fin s" "2 powi - 30 \<le> s" "s \<le> 2 powi 35"
    using fin_between_pow [of "- 30" "x / 1000000000" 35 binary32] by auto
  with that x(1) show thesis
    by (simp add: duration_sec_def nanos_binary32 ieee_of_int_def [of binary32 "uint d"] del: of_int_uint)
qed

lemma per_sec_finite:
  assumes "0 < d" and "0 < n"
  obtains x where "per_sec n (duration_sec d) = Fin x" and "0 < x"
proof -
  obtain s where s: "duration_sec d = Fin s" "2 powi - 30 \<le> s" "s \<le> 2 powi 35"
    using duration_sec_finite [OF assms(1)] by blast
  obtain c where c: "fin binary32 (of_int (uint n)) = Fin c" "2 powi 0 \<le> c" "c \<le> 2 powi 64"
    using fin_between_pow [OF u64_between_pow [OF assms(2)], of binary32] by auto
  have s0: "0 < s" using s(2) powi2_pos [of "- 30"] by linarith
  have "2 powi - 35 \<le> c / s"
  proof -
    have "1 / 2 powi 35 \<le> c / s" using c(2) s(3) s0 by (intro frac_le) simp_all
    then show ?thesis by (simp add: power_int_minus inverse_eq_divide)
  qed
  moreover have "c / s \<le> 2 powi 94"
  proof -
    have "c / s \<le> 2 powi 64 / 2 powi - 30" using c s(2) by (intro frac_le) simp_all
    then show ?thesis by (simp add: power_int_minus)
  qed
  ultimately obtain x where "fin binary32 (c / s) = Fin x" "2 powi - 35 \<le> x"
    using fin_between_pow [of "- 35" "c / s" 94 binary32] by auto
  moreover from this have "0 < x" using powi2_pos [of "- 35"] by linarith
  ultimately show thesis
    using that [of x] s(1) c(1) s0 by (simp add: per_sec_def ieee_of_int_def [of binary32 "uint n"] del: of_int_uint)
qed
section \<open>Properties\<close>

text \<open>
  C15: The measurement of a window is exact: the requests taken out of the pool are, in order,
  those that ended in the window and those whose only response is the final empty one, all
  others stay in order; the latencies are the sorted latencies of the requests that ended in
  the window, and the counts of sequences, of delayed requests and of responses are those of
  these requests.
\<close>

theorem window_measurement_exact:
  assumes "\<forall>r \<in> set all. has_null_last_response r \<or> response_timestamps r \<noteq> []"
  shows "\<exists>w. ValidLatencyMeasurement rng d all =
      Inr (w, filter (\<lambda>r. end_of r = None \<or> counted rng r) all,
           filter (\<lambda>r. \<not> (end_of r = None \<or> counted rng r)) all) \<and>
    sorted (wr_latencies w) \<and>
    mset (wr_latencies w) = {# latency_of r. r \<in># filter_mset (counted rng) (mset all) #} \<and>
    wr_sequence_count w = word_of_nat (length (filter (\<lambda>r. counted rng r \<and> rr_sequence_end r) all)) \<and>
    wr_delayed_count w = d + word_of_nat (length (filter (\<lambda>r. counted rng r \<and> rr_delayed r) all)) \<and>
    wr_response_count w = sum_list (map responses_of (filter (counted rng) all))"
proof -
  have "\<forall>r \<in> set all. has_end r" using assms by (simp add: has_end_def)
  from ValidLatencyMeasurement_eq [OF this, of rng d] show ?thesis
    by (simp add: window_of_def taken_def [abs_def])
qed

definition ex_request :: "int \<Rightarrow> int list \<Rightarrow> bool \<Rightarrow> request_record" where
  "ex_request s ts null = new_request_record\<lparr>start_time := s, response_timestamps := ts,
     has_null_last_response := null\<rparr>"

lemmas ex_request_simps = ex_request_def new_request_record_def end_of_def counted_def latency_of_def
  CHRONO_TO_NANOS_def responses_of_def

theorem window_measurement_exact_witness:
  "\<exists>w. ValidLatencyMeasurement (100, 200) 0
      [ex_request 10 [90] False, ex_request 50 [120, 160, 170] True, ex_request 80 [110] False] =
     Inr (w, [ex_request 50 [120, 160, 170] True, ex_request 80 [110] False], [ex_request 10 [90] False]) \<and>
     wr_response_count w = 3 \<and> sorted (wr_latencies w)"
  using window_measurement_exact [of "[ex_request 10 [90] False, ex_request 50 [120, 160, 170] True,
     ex_request 80 [110] False]" "(100, 200)" 0]
  by (auto simp: ex_request_simps)

text \<open>
  C17: Over any sequence of windows, with requests arriving in between, no request is lost and
  none is measured twice: the requests recorded are, as a multiset, those taken by the windows
  and those still waiting; and a window only takes requests that end in it, or that have no
  response but the final empty one.
\<close>

theorem windows_partition_requests:
  assumes "\<forall>w \<in> set ws. \<forall>r \<in> set (fst w). has_null_last_response r \<or> response_timestamps r \<noteq> []"
  shows "\<exists>res rest. measure_windows ws [] = Inr (res, rest) \<and> length res = length ws \<and>
     mset (concat (map fst ws)) = mset (concat (map snd res)) + mset rest \<and>
     (\<forall>i < length ws. \<forall>r \<in> set (snd (res ! i)). end_of r = None \<or> counted (snd (ws ! i)) r)"
  using measure_windows_partition [of "[]" ws] assms by (simp add: has_end_def taken_def)

theorem windows_partition_requests_witness:
  "\<exists>res rest. measure_windows [([ex_request 10 [90] False], 100, 200), ([ex_request 210 [220] False], 200, 300)] []
     = Inr (res, rest) \<and> length res = 2 \<and>
     {# ex_request 10 [90] False, ex_request 210 [220] False #} = mset (concat (map snd res)) + mset rest"
  using windows_partition_requests
    [of "[([ex_request 10 [90] False], 100, 200), ([ex_request 210 [220] False], 200, 300)]"]
  by (fastforce simp: ex_request_def new_request_record_def add_mset_commute)

text \<open>
  C19: On a non-empty sorted list of latencies below \<open>2^31\<close> nanoseconds, the summary is defined;
  every reported percentile is one of the measured latencies, a greater percentile never has
  a smaller latency, and the average is the integer part of the mean. The index of a
  percentile is computed in binary64; it stays inside the list.
\<close>

theorem latency_summary:
  assumes "ls \<noteq> []" and "sorted ls" and "\<forall>l \<in> set ls. unat l < 2 ^ 31" and "length ls < 2 ^ 32"
    and "extra_percentile cfg \<Longrightarrow> pc_percentile cfg \<le> 100"
  shows "\<exists>s'. SummarizeLatency cfg ls s = Inr s' \<and>
    unat (avg_latency_ns (client_stats s')) = sum_list (map unat ls) div length ls \<and>
    (\<forall>p \<in> set (percentiles_of cfg). \<forall>q \<in> set (percentiles_of cfg). p \<le> q \<longrightarrow>
       (\<exists>v w. map_find (percentile_latency_ns (client_stats s')) p = Some v \<and>
              map_find (percentile_latency_ns (client_stats s')) q = Some w \<and>
              v \<in> set ls \<and> w \<in> set ls \<and> v \<le> w)) \<and>
    stabilizing_latency_ns s' =
      (if extra_percentile cfg then the (map_find (percentile_latency_ns (client_stats s')) (pc_percentile cfg))
       else avg_latency_ns (client_stats s'))"
proof -
  have p100: "\<forall>p \<in> set (percentiles_of cfg). uint p \<le> 100"
    using assms(5) by (auto simp: percentiles_of_facts word_le_def split: if_splits)
  have len: "length ls \<le> 2 ^ 52" using assms(4) by simp
  obtain sd where sd: "GetMeanAndStdDev ls = Inr (mean_latency ls, sd)"
    "unat (mean_latency ls) = sum_list (map unat ls) div length ls"
    using mean_and_std_defined [OF assms(1,3,4)] by blast
  define pm where "pm = foldl (\<lambda>m p. map_emplace p (pct ls p) m) [] (percentiles_of cfg)"
  have find: "map_find pm p = Some (pct ls p)" if "p \<in> set (percentiles_of cfg)" for p
    unfolding pm_def by (rule percentile_lookup [OF that])
  have mem: "pct ls p \<in> set ls" if "p \<in> set (percentiles_of cfg)" for p
    using percentile_value_eq(2) [OF _ assms(1) len] p100 that by blast
  have mono: "pct ls p \<le> pct ls q" if "p \<le> q" "q \<in> set (percentiles_of cfg)" for p q
    using pct_mono [OF that(1) _ assms(1) len assms(2)] p100 that(2) by blast
  have run: "SummarizeLatency cfg ls s = Inr (s\<lparr>client_stats := (client_stats s)\<lparr>
        avg_latency_ns := mean_latency ls, std_us := sd, percentile_latency_ns := pm\<rparr>,
      stabilizing_latency_ns := (if extra_percentile cfg then the (map_find pm (pc_percentile cfg))
        else mean_latency ls)\<rparr>)"
    using assms(1) percentile_map [OF p100 assms(1) len, of "[]"] sd(1)
    by (simp add: SummarizeLatency_def pm_def)
  show ?thesis unfolding run using find mem mono sd(2) by auto
qed

definition ex_config :: profiler_config where
  "ex_config = \<lparr>measurement_window_ms = 5000, measurement_request_count = 50,
     pc_measurement_mode = TIME_WINDOWS, max_trials = 10, extra_percentile = True, pc_percentile = 97,
     latency_threshold_ms = 0, stability_window = 3, stability_threshold = Fin (1 / 8),
     include_lib_stats = True, include_server_stats = False, should_collect_metrics = False,
     should_collect_profile_data = False, async_mode = False, pc_scheduler_type = DYNAMIC,
     pc_model_id = (''m'', ''1''), pc_composing = [], top_level_response_caching = False,
     custom_schedule_manager = False, manager_batch_size = 1\<rparr>"

theorem latency_summary_witness:
  "\<forall>s. \<exists>s'. SummarizeLatency ex_config [1, 5, 9] s = Inr s' \<and> unat (avg_latency_ns (client_stats s')) = 5"
proof
  fix s
  have "sorted [1, 5, 9 :: u64]" "\<forall>l \<in> set [1, 5, 9 :: u64]. unat l < 2 ^ 31" "length [1, 5, 9 :: u64] < 2 ^ 32"
    by simp_all
  from latency_summary [OF _ this, of ex_config s]
  show "\<exists>s'. SummarizeLatency ex_config [1, 5, 9] s = Inr s' \<and> unat (avg_latency_ns (client_stats s')) = 5"
    by (auto simp: ex_config_def)
qed

text \<open>
  The overhead of a window of positive length in which the workers were idle for at most
  the window is a number between 0 and 100 percent, whatever the rounding.
\<close>

theorem overhead_percentage:
  assumes "idle \<le> dur" and "0 < dur"
  shows "\<exists>y. overhead_pct (SummarizeOverhead dur idle s) = Fin y \<and> 0 \<le> y \<and> y \<le> 100"
  by (rule overhead_range [OF assms])

theorem overhead_percentage_witness:
  "\<forall>s. \<exists>y. overhead_pct (SummarizeOverhead 1000 400 s) = Fin y \<and> 0 \<le> y \<and> y \<le> 100"
  using overhead_percentage [of 400 1000] by simp

text \<open>
  C21: The merged report of an experiment has as counts and as duration the sums of those of
  its windows, as latencies all the latencies of its windows, sorted, and as server
  statistics their merge.
\<close>

theorem merged_report:
  assumes "MergePerfStatusReports cfg ps e0 = Inr e"
  shows "request_count (client_stats e) = sum_list (map (\<lambda>p. request_count (client_stats p)) ps) \<and>
    sequence_count (client_stats e) = sum_list (map (\<lambda>p. sequence_count (client_stats p)) ps) \<and>
    delayed_request_count (client_stats e) = sum_list (map (\<lambda>p. delayed_request_count (client_stats p)) ps) \<and>
    response_count (client_stats e) =
      response_count (client_stats e0) + sum_list (map (\<lambda>p. response_count (client_stats p)) ps) \<and>
    duration_ns (client_stats e) = sum_list (map (\<lambda>p. duration_ns (client_stats p)) ps) \<and>
    sorted (latencies (client_stats e)) \<and>
    mset (latencies (client_stats e)) = (\<Sum>p \<leftarrow> ps. mset (latencies (client_stats p))) \<and>
    MergeServerSideStats (map server_stats ps) = Inr (server_stats e)"
proof (cases ps)
  case Nil
  with assms show ?thesis by (simp add: MergePerfStatusReports_def)
next
  case (Cons p qs)
  define e1 where "e1 = reset_merged (e0\<lparr>batch_size := batch_size p, on_sequence_model := on_sequence_model p\<rparr>)"
  define e3 where "e3 = (let e2 = foldl add_report e1 ps; n = ieee_of_int binary64 (int (length ps)) in
     e2\<lparr>overhead_pct := ieee_div binary64 (overhead_pct e2) n,
        send_request_rate := ieee_div binary64 (send_request_rate e2) n\<rparr>)"
  define e4 where "e4 = (if include_lib_stats cfg
     then e3\<lparr>client_stats := average_lib_stats (foldl add_lib_stats (client_stats e3) ps)\<rparr> else e3)"
  from assms obtain ss e6 where ss: "MergeServerSideStats (map server_stats ps) = Inr ss"
    and e6: "SummarizeLatency cfg (latencies (client_stats (merged_rates (e4\<lparr>server_stats := ss\<rparr>))))
      (merged_rates (e4\<lparr>server_stats := ss\<rparr>)) = Inr e6"
    and e: "client_stats e = client_stats e6" "server_stats e = server_stats e6"
    unfolding MergePerfStatusReports_def Cons e4_def e3_def e1_def Let_def
    by (auto simp: bindR_Inr_conv split: if_splits)
  note fr = SummarizeLatency_frame [OF e6]
  have cs: "client_stats e3 = client_stats (foldl add_report e1 ps)" by (simp add: e3_def Let_def)
  have z: "request_count (client_stats e1) = 0" "sequence_count (client_stats e1) = 0"
    "delayed_request_count (client_stats e1) = 0" "duration_ns (client_stats e1) = 0"
    "latencies (client_stats e1) = []" "response_count (client_stats e1) = response_count (client_stats e0)"
    by (simp_all add: e1_def reset_merged_def)
  show ?thesis
    using ss unfolding e fr
    by (simp add: merged_rates_def Let_def e4_def add_libs average_libs cs add_reports z mset_concat comp_def)
qed

definition ex_client :: "u64 list \<Rightarrow> client_side_stats" where
  "ex_client ls = \<lparr>request_count = word_of_nat (length ls), sequence_count = 0, delayed_request_count = 0,
     response_count = word_of_nat (length ls), duration_ns = 1000, avg_latency_ns = 0,
     percentile_latency_ns = [], latencies = ls, std_us = 0, avg_request_time_ns = 0, avg_send_time_ns = 0,
     avg_receive_time_ns = 0, infer_per_sec = Fin 0, responses_per_sec = Fin 0, sequence_per_sec = Fin 0,
     completed_count = 0\<rparr>"

definition ex_report :: "u64 list \<Rightarrow> perf_status" where
  "ex_report ls = \<lparr>ps_concurrency = 1, ps_request_rate = Fin 0, batch_size = 1, server_stats = empty_stats,
     client_stats = ex_client ls, ps_metrics = [], overhead_pct = Fin 0, on_sequence_model = False,
     stabilizing_latency_ns = 0, send_request_rate = Fin 0\<rparr>"

lemma ex_config_flags: "include_lib_stats ex_config" "\<not> should_collect_metrics ex_config"
  by (simp_all add: ex_config_def)

theorem merged_report_witness:
  "\<exists>e. MergePerfStatusReports ex_config [ex_report [4, 7], ex_report [5]] (ex_report []) = Inr e \<and>
     request_count (client_stats e) = 3 \<and> mset (latencies (client_stats e)) = {# 4, 5, 7 #}"
proof -
  have "MergeServerSideStats [empty_stats, empty_stats] = Inr empty_stats"
    by (simp add: MergeServerSideStats.simps empty_stats_def counters_add_def zero_counters_def)
  moreover have "\<exists>s'. SummarizeLatency ex_config [4, 5, 7] s = Inr s'" for s
  proof -
    have "sorted [4, 5, 7 :: u64]" "\<forall>l \<in> set [4, 5, 7 :: u64]. unat l < 2 ^ 31"
      "length [4, 5, 7 :: u64] < 2 ^ 32" by simp_all
    from mean_and_std_defined [OF _ this(2,3)] obtain sd where
      "GetMeanAndStdDev [4, 5, 7] = Inr (mean_latency [4, 5, 7], sd)" by blast
    moreover have "\<forall>p \<in> set (percentiles_of ex_config). uint p \<le> 100"
      by (simp add: percentiles_of_def ex_config_def)
    ultimately show ?thesis
      using percentile_map [of "percentiles_of ex_config" "[4, 5, 7]" "[]"] by (simp add: SummarizeLatency_def)
  qed
  then obtain f where "\<And>s. SummarizeLatency ex_config [4, 5, 7] s = Inr (f s)" by metis
  ultimately obtain e where e: "MergePerfStatusReports ex_config [ex_report [4, 7], ex_report [5]] (ex_report []) = Inr e"
    by (auto simp: MergePerfStatusReports_def ex_report_def ex_client_def Let_def merged_rates_def
        add_report_def add_lib_stats_def average_lib_stats_def reset_merged_def ex_config_flags)
  show ?thesis using merged_report [OF e] e by (auto simp: ex_report_def ex_client_def)
qed

text \<open>
  The merged memory use of a GPU that appears in some collection of metrics is the
  greatest value any collection has for it.
\<close>

theorem merged_memory_maximum:
  assumes "(uuid, v) \<in> set (concat (map gpu_memory_used_bytes_per_gpu ms))"
  shows "\<exists>m. map_find (gpu_memory_used_bytes_per_gpu (MergeMetrics ms no_metrics)) uuid = Some m \<and>
    v \<le> m \<and> (uuid, m) \<in> set (concat (map gpu_memory_used_bytes_per_gpu ms))"
proof -
  let ?xs = "concat (map gpu_memory_used_bytes_per_gpu ms)"
  let ?vs = "map snd (filter (\<lambda>x. fst x = uuid) ?xs)"
  have v: "v \<in> set ?vs" using assms by force
  have "map_find (gpu_memory_used_bytes_per_gpu (MergeMetrics ms no_metrics)) uuid = Some (fold max ?vs 0)"
    using max_fold_find [of "[]" ?xs uuid] assms
    by (force simp: MergeMetrics_def GetMetricMaxPerGPU_def no_metrics_def map_get_def)
  moreover have m: "fold max ?vs 0 = Max (insert 0 (set ?vs))"
    by (metis List.finite_set Max.set_eq_fold list.simps(15))
  moreover have le: "v \<le> Max (insert 0 (set ?vs))" using v by simp
  moreover have "(uuid, Max (insert 0 (set ?vs))) \<in> set ?xs"
  proof -
    define m where "m = Max (insert 0 (set ?vs))"
    have "m \<in> insert 0 (set ?vs)" unfolding m_def by (rule Max_in) auto
    moreover have "v = 0" if "m = 0" using le that unfolding m_def [symmetric] by simp
    ultimately have "m \<in> set ?vs" using v by (metis insertE)
    then show ?thesis unfolding m_def [symmetric] by auto
  qed
  ultimately show ?thesis by (simp only:) blast
qed

theorem merged_memory_maximum_witness:
  "\<exists>m. map_find (gpu_memory_used_bytes_per_gpu (MergeMetrics
       [no_metrics\<lparr>gpu_memory_used_bytes_per_gpu := [(''g'', 5)]\<rparr>,
        no_metrics\<lparr>gpu_memory_used_bytes_per_gpu := [(''g'', 9), (''h'', 3)]\<rparr>] no_metrics)) ''g'' = Some m \<and> 5 \<le> m"
  using merged_memory_maximum [of "''g''" 5 "[no_metrics\<lparr>gpu_memory_used_bytes_per_gpu := [(''g'', 5)]\<rparr>,
        no_metrics\<lparr>gpu_memory_used_bytes_per_gpu := [(''g'', 9), (''h'', 3)]\<rparr>]"]
  by (auto simp: no_metrics_def)

end
