(* ===== verification/Profiler.thy ===== *)
theory Profiler
  imports Client_Stats
begin

text \<open>
  The measurement loop and the search of \<open>InferenceProfiler\<close> (\<open>inference_profiler.h\<close> and
  \<open>inference_profiler.cc\<close>): one measurement window, its summary, the stability test, the trials
  of one experiment, and the linear and binary search over concurrencies or request rates.

  What the profiler asks of the load manager, the server, the metrics manager, the clock and
  MPI during one call is an input of the model: a \<open>measure_env\<close> for one measurement, a
  \<open>trial_env\<close> for one trial. A call that has not returned is None.
\<close>

section \<open>State and environment\<close>

record profiler_state =
  all_request_records :: "request_record list"
  previous_window_end_ns :: u64
  prev_server_side_stats :: model_stats
  prev_client_side_stats :: infer_stat
  ps_collector :: "request_record collector"

record measure_config =
  measurement_window :: u64
  is_count_based :: bool
  clamp_window :: bool

text \<open>
  One measurement: the clock at its start and end, the answers of the server and of the
  manager, the error of the metrics manager if it has one, for a window of a number of
  requests the successive answers of \<open>CheckHealth\<close> and \<open>CountCollectedRequests\<close>, the metrics, the
  records handed over, the idle time and the number of requests sent.
\<close>

record measure_env =
  clock_start :: u64
  server_start :: "cb_error + model_stats"
  client_start :: "cb_error + infer_stat"
  querying_error :: "string option"
  polls :: "(cb_error \<times> u64) list"
  clock_end :: u64
  latest_metrics :: "gpu_metrics list"
  server_end :: "cb_error + model_stats"
  client_end :: "cb_error + infer_stat"
  swapped_records :: "cb_error + request_record list"
  env_idle_ns :: u64
  num_sent_requests :: u64

text \<open>The result of a step that may throw, and otherwise returns an error or a value and the state.\<close>

type_synonym 'a outcome = "exn + (cb_error + 'a) \<times> profiler_state"

fun outcome_of :: "failure + 'a \<Rightarrow> profiler_state \<Rightarrow> 'a outcome" where
  "outcome_of (Inl (Throws x)) st = Inl x"
| "outcome_of (Inl (Fails e)) st = Inr (Inl e, st)"
| "outcome_of (Inr v) st = Inr (Inr v, st)"

fun then_do :: "'a outcome \<Rightarrow> ('a \<Rightarrow> profiler_state \<Rightarrow> 'b outcome) \<Rightarrow> 'b outcome" where
  "then_do (Inl x) f = Inl x"
| "then_do (Inr (Inl e, st)) f = Inr (Inl e, st)"
| "then_do (Inr (Inr v, st)) f = f v st"

section \<open>The summary of a window\<close>

definition CollectData ::
  "profiler_config \<Rightarrow> perf_status \<Rightarrow> u64 \<Rightarrow> u64 \<Rightarrow> request_record list \<Rightarrow> profiler_state \<Rightarrow>
     exn + profiler_state" where
  "CollectData cfg summary window_start_ns window_end_ns records st =
     (let lm = (if custom_schedule_manager cfg then LoadMode 0 (Fin 0)
                else LoadMode (ucast (ps_concurrency summary)) (ps_request_rate summary))
      in bindR (collect_one (lm, window_start_ns, window_end_ns, records) (ps_collector st))
           (\<lambda>c. Inr (st\<lparr>ps_collector := c\<rparr>)))"

definition Summarize ::
  "profiler_config \<Rightarrow> nat \<Rightarrow> model_stats \<Rightarrow> model_stats \<Rightarrow> infer_stat \<Rightarrow> infer_stat \<Rightarrow>
     u64 \<Rightarrow> u64 \<Rightarrow> bool \<Rightarrow> u64 \<Rightarrow> u64 \<Rightarrow> perf_status \<Rightarrow> profiler_state \<Rightarrow> perf_status outcome" where
  "Summarize cfg depth start_status end_status start_stat end_stat window_start_ns window_end_ns
       clamp idle_ns num_sent summary st0 =
     (case ValidLatencyMeasurement (window_start_ns, window_end_ns) 0 (all_request_records st0) of
        Inl x \<Rightarrow> Inl x
      | Inr (w, valid_requests, rest) \<Rightarrow>
          let st1 = st0\<lparr>all_request_records := rest\<rparr>;
              lats = wr_latencies w;
              window_duration_ns = window_end_ns - window_start_ns
          in
          then_do (outcome_of (if clamp then liftE (bindR (ClampWindow valid_requests) (\<lambda>_. Inr ())) else Inr ()) st1)
            (\<lambda>_ st2.
          then_do (if should_collect_profile_data cfg
                   then (case CollectData cfg summary window_start_ns window_end_ns valid_requests st2 of
                           Inl x \<Rightarrow> Inl x | Inr st \<Rightarrow> Inr (Inr (), st))
                   else Inr (Inr (), st2)) (\<lambda>_ st3.
          then_do (outcome_of (SummarizeLatency cfg lats summary) st3) (\<lambda>s1 st4.
            let s2 = SummarizeClientStat cfg start_stat end_stat window_duration_ns
                       (word_of_nat (length lats)) (wr_sequence_count w) (wr_delayed_count w)
                       (wr_response_count w) s1;
                s3 = s2\<lparr>client_stats := (client_stats s2)\<lparr>latencies := lats\<rparr>\<rparr>;
                s4 = SummarizeOverhead window_duration_ns idle_ns s3;
                window_duration_s = ieee_div binary64 (ieee_of_int binary64 (uint window_duration_ns))
                                      (ieee_of_int binary64 (int NANOS_PER_SECOND))
            in then_do (outcome_of (liftE (SummarizeSendRequestRate window_duration_s num_sent s4)) st4)
                 (\<lambda>s5 st5.
                    if include_server_stats cfg then
                      then_do (outcome_of (SummarizeServerStats (top_level_response_caching cfg)
                                 (pc_composing cfg) start_status end_status depth (pc_model_id cfg)
                                 (server_stats s5)) st5)
                        (\<lambda>ss st6. Inr (Inr (s5\<lparr>server_stats := ss\<rparr>), st6))
                    else Inr (Inr s5, st5))))))"

section \<open>One measurement\<close>

text \<open>The loop that waits for a number of requests; None while the answers do not end it.\<close>

fun wait_for_requests :: "u64 \<Rightarrow> (cb_error \<times> u64) list \<Rightarrow> (cb_error + unit) option" where
  "wait_for_requests window [] = None"
| "wait_for_requests window ((health, collected) # ps) =
     (if \<not> IsOk health then Some (Inl health)
      else if collected < window then wait_for_requests window ps
      else Some (Inr ()))"

definition lift_err :: "cb_error + 'a \<Rightarrow> profiler_state \<Rightarrow> 'a outcome" where
  "lift_err r st = Inr (r, st)"

text \<open>The statistics at the start of the window: the previous ones, or for the first window new ones.\<close>

definition measure_start ::
  "profiler_config \<Rightarrow> measure_env \<Rightarrow> profiler_state \<Rightarrow> (model_stats \<times> infer_stat) outcome" where
  "measure_start cfg env st =
     (let first = (previous_window_end_ns st = 0) in
      then_do (lift_err (if first \<and> include_server_stats cfg then server_start env
                         else Inr (prev_server_side_stats st)) st)
        (\<lambda>start_status st1.
           then_do (lift_err (if first then client_start env else Inr (prev_client_side_stats st)) st1)
             (\<lambda>start_stat st2.
                if should_collect_metrics cfg then
                  (case querying_error env of
                     Some what \<Rightarrow> Inr (Inl (generic_error what), st2)
                   | None \<Rightarrow> Inr (Inr (start_status, start_stat), st2))
                else Inr (Inr (start_status, start_stat), st2))))"

definition Measure ::
  "profiler_config \<Rightarrow> nat \<Rightarrow> measure_config \<Rightarrow> measure_env \<Rightarrow> perf_status \<Rightarrow> profiler_state \<Rightarrow>
     perf_status outcome option" where
  "Measure cfg depth mc env status st =
     (let window_start_ns = (if previous_window_end_ns st = 0 then clock_start env else previous_window_end_ns st)
      in case measure_start cfg env st of
           Inl x \<Rightarrow> Some (Inl x)
         | Inr (Inl e, st1) \<Rightarrow> Some (Inr (Inl e, st1))
         | Inr (Inr (start_status, start_stat), st1) \<Rightarrow>
             (case (if is_count_based mc then wait_for_requests (measurement_window mc) (polls env)
                    else Some (Inr ())) of
                None \<Rightarrow> None
              | Some (Inl e) \<Rightarrow> Some (Inr (Inl e, st1))
              | Some (Inr _) \<Rightarrow>
                  let window_end_ns = clock_end env;
                      st2 = st1\<lparr>previous_window_end_ns := window_end_ns\<rparr>;
                      status1 = (if should_collect_metrics cfg
                                 then status\<lparr>ps_metrics := latest_metrics env\<rparr> else status)
                  in Some (
                     then_do (lift_err (if include_server_stats cfg then server_end env else Inr []) st2)
                       (\<lambda>end_status st3.
                     let st4 = (if include_server_stats cfg
                                then st3\<lparr>prev_server_side_stats := end_status\<rparr> else st3) in
                     then_do (lift_err (client_end env) st4) (\<lambda>end_stat st5.
                     let st6 = st5\<lparr>prev_client_side_stats := end_stat\<rparr> in
                     then_do (lift_err (swapped_records env) st6) (\<lambda>records st7.
                     let st8 = st7\<lparr>all_request_records := all_request_records st7 @ records\<rparr> in
                     Summarize cfg depth start_status end_status start_stat end_stat window_start_ns
                       window_end_ns (clamp_window mc) (env_idle_ns env) (num_sent_requests env)
                       status1 st8))))))"

section \<open>Stability\<close>

record load_status =
  ls_infer_per_sec :: "ieee list"
  ls_latencies :: "u64 list"
  avg_ips :: ieee
  avg_latency :: u64

definition empty_load_status :: load_status where
  "empty_load_status = \<lparr>ls_infer_per_sec = [], ls_latencies = [], avg_ips = Fin 0, avg_latency = 0\<rparr>"

text \<open>\<open>std::minmax_element\<close>: the first smallest and the last largest element.\<close>

definition minmax :: "('a \<Rightarrow> 'a \<Rightarrow> bool) \<Rightarrow> 'a list \<Rightarrow> 'a \<times> 'a" where
  "minmax lt xs =
     (foldl (\<lambda>m x. if lt x m then x else m) (hd xs) (tl xs),
      foldl (\<lambda>m x. if lt x m then m else x) (hd xs) (tl xs))"

definition IsInferWindowStable :: "profiler_config \<Rightarrow> nat \<Rightarrow> load_status \<Rightarrow> bool" where
  "IsInferWindowStable cfg idx ls =
     (let (mn, mx) = minmax ieee_lt (take (stability_window cfg) (drop idx (ls_infer_per_sec ls)))
      in ieee_le (ieee_div binary64 mx mn) (ieee_add binary64 (Fin 1) (stability_threshold cfg)))"

definition IsLatencyWindowStable :: "profiler_config \<Rightarrow> nat \<Rightarrow> load_status \<Rightarrow> bool" where
  "IsLatencyWindowStable cfg idx ls =
     (let (mn, mx) = minmax (<) (take (stability_window cfg) (drop idx (ls_latencies ls)));
          max_latency = ieee_of_int binary64 (uint mx);
          min_latency = ieee_of_int binary64 (uint mn)
      in ieee_le (ieee_div binary64 max_latency min_latency)
           (ieee_add binary64 (Fin 1) (stability_threshold cfg)))"

definition CheckWindowForStability :: "profiler_config \<Rightarrow> nat \<Rightarrow> load_status \<Rightarrow> bool \<Rightarrow> bool" where
  "CheckWindowForStability cfg idx ls check_latency =
     (IsInferWindowStable cfg idx ls \<and> (\<not> check_latency \<or> IsLatencyWindowStable cfg idx ls))"

definition DetermineStability :: "profiler_config \<Rightarrow> load_status \<Rightarrow> bool \<Rightarrow> bool" where
  "DetermineStability cfg ls check_latency =
     (if length (ls_infer_per_sec ls) \<ge> stability_window cfg then
        let idx = length (ls_infer_per_sec ls) - stability_window cfg in
        list_all (\<lambda>x. \<not> ieee_eq x (Fin 0)) (drop idx (ls_infer_per_sec ls)) \<and>
        CheckWindowForStability cfg idx ls check_latency
      else False)"

definition CheckWithinThreshold :: "profiler_config \<Rightarrow> nat \<Rightarrow> load_status \<Rightarrow> bool" where
  "CheckWithinThreshold cfg idx ls \<longleftrightarrow>
     ls_latencies ls ! idx < latency_threshold_ms cfg * word_of_nat NANOS_PER_MILLIS"

text \<open>
  MPI: the number of ranks, the own rank, and what the broadcast of each other rank delivers;
  None when the program does not run under MPI.
\<close>

record mpi_env =
  world_size :: nat
  my_rank :: nat
  broadcast :: "nat \<Rightarrow> int"

definition AllMPIRanksAreStable :: "mpi_env \<Rightarrow> bool \<Rightarrow> bool" where
  "AllMPIRanksAreStable mpi current_rank_stability =
     (let s0 = (replicate (world_size mpi) 0)[my_rank mpi := (if current_rank_stability then 1 else 0)];
          s1 = foldl (\<lambda>s rank. if rank = my_rank mpi then s else s[rank := broadcast mpi rank])
                 s0 [0..<world_size mpi]
      in list_all (\<lambda>x. x \<noteq> (0 :: int)) s1)"

definition NO_LIMIT :: u64 where "NO_LIMIT = 0"

definition IsDoneProfiling :: "profiler_config \<Rightarrow> mpi_env option \<Rightarrow> load_status \<Rightarrow> bool \<Rightarrow> bool" where
  "IsDoneProfiling cfg mpi ls is_stable =
     (let n = length (ls_infer_per_sec ls);
          within_threshold =
            (if n \<ge> stability_window cfg
             then list_all (\<lambda>idx. CheckWithinThreshold cfg idx ls) [n - stability_window cfg..<n]
             else True);
          finished = (case mpi of Some m \<Rightarrow> AllMPIRanksAreStable m is_stable | None \<Rightarrow> is_stable)
      in finished \<or> (\<not> within_threshold \<and> latency_threshold_ms cfg \<noteq> NO_LIMIT))"

section \<open>The trials of an experiment\<close>

text \<open>
  One trial: the health of the workers, the new status object (its fields are not
  initialised), the measurement, the answers of the other ranks, and whether the exit signal
  has been received by the end of it.
\<close>

record trial_env =
  health :: cb_error
  new_perf_status :: perf_status
  measurement :: measure_env
  ranks :: "mpi_env option"
  early_exit :: bool

definition measure_config_of :: "profiler_config \<Rightarrow> u64 \<Rightarrow> measure_config" where
  "measure_config_of cfg rc =
     (case pc_measurement_mode cfg of
        TIME_WINDOWS \<Rightarrow> \<lparr>measurement_window = measurement_window_ms cfg, is_count_based = False,
                         clamp_window = (rc \<noteq> 0)\<rparr>
      | COUNT_WINDOWS \<Rightarrow> \<lparr>measurement_window = measurement_request_count cfg, is_count_based = True,
                          clamp_window = (rc \<noteq> 0)\<rparr>)"

text \<open>
  The queue of errors and the queue of status objects have the same length: one list, of the
  error or of the status of each of the last measurements.
\<close>

definition push_window ::
  "profiler_config \<Rightarrow> cb_error + perf_status \<Rightarrow> (cb_error + perf_status) list \<Rightarrow> (cb_error + perf_status) list" where
  "push_window cfg r ws =
     (let ws' = ws @ [r] in if length ws' > stability_window cfg then tl ws' else ws')"

definition add_load :: "profiler_config \<Rightarrow> cb_error + perf_status \<Rightarrow> load_status \<Rightarrow> load_status" where
  "add_load cfg r ls =
     (let (ips, lat) = (case r of Inr p \<Rightarrow> (infer_per_sec (client_stats p), stabilizing_latency_ns p)
                        | Inl e \<Rightarrow> (Fin 0, - 1))
      in \<lparr>ls_infer_per_sec = ls_infer_per_sec ls @ [ips], ls_latencies = ls_latencies ls @ [lat],
          avg_ips = ieee_add binary64 (avg_ips ls)
            (ieee_div binary64 ips (ieee_of_int binary64 (int (stability_window cfg)))),
          avg_latency = avg_latency ls + lat div word_of_nat (stability_window cfg)\<rparr>)"

text \<open>What \<open>ProfileHelper\<close> does after its loop; the value is the merged status and \<open>is_stable\<close>.\<close>

definition finish_profile ::
  "profiler_config \<Rightarrow> bool \<Rightarrow> (cb_error + perf_status) list \<Rightarrow> load_status \<Rightarrow> bool \<Rightarrow>
     perf_status \<Rightarrow> profiler_state \<Rightarrow> (perf_status \<times> bool) outcome" where
  "finish_profile cfg exit ws ls stable0 e0 st =
     (let stable = (stable0 \<or> (async_mode cfg \<and> DetermineStability cfg ls False)) in
      case List.find isl ws of
        Some r \<Rightarrow> Inr (Inl (projl r), st)
      | None \<Rightarrow>
          then_do (outcome_of (if stable then MergePerfStatusReports cfg (map projr ws) e0 else Inr e0) st)
            (\<lambda>e st'. if exit then Inr (Inl (generic_error ''Received exit signal.''), st')
                     else Inr (Inr (e, stable), st')))"

function profile_loop ::
  "profiler_config \<Rightarrow> nat \<Rightarrow> u64 \<Rightarrow> (nat \<Rightarrow> trial_env) \<Rightarrow> perf_status \<Rightarrow> nat \<Rightarrow>
     (cb_error + perf_status) list \<Rightarrow> load_status \<Rightarrow> profiler_state \<Rightarrow>
     (perf_status \<times> bool) outcome option" where
  "profile_loop cfg depth rc envs e0 k ws ls st =
     (let env = envs k;
          status = (new_perf_status env)\<lparr>ps_concurrency := ps_concurrency e0, ps_request_rate := ps_request_rate e0\<rparr>
      in if \<not> IsOk (health env) then Some (Inr (Inl (health env), st))
         else case Measure cfg depth (measure_config_of cfg rc) (measurement env) status st of
                None \<Rightarrow> None
              | Some (Inl x) \<Rightarrow> Some (Inl x)
              | Some (Inr (r, st1)) \<Rightarrow>
                  let ws1 = push_window cfg r ws; ls1 = add_load cfg r ls in
                  if rc \<noteq> 0 then Some (finish_profile cfg (early_exit env) ws1 ls1 True e0 st1)
                  else
                    let stable = DetermineStability cfg ls1 True in
                    if IsDoneProfiling cfg (ranks env) ls1 stable
                    then Some (finish_profile cfg (early_exit env) ws1 ls1 stable e0 st1)
                    else if \<not> early_exit env \<and> Suc k < unat (max_trials cfg)
                    then profile_loop cfg depth rc envs e0 (Suc k) ws1 ls1 st1
                    else Some (finish_profile cfg (early_exit env) ws1 ls1 stable e0 st1))"
  by pat_completeness auto
termination
  by (relation "measure (\<lambda>(cfg, depth, rc, envs, e0, k, ws, ls, st). unat (max_trials cfg) - k)") auto

declare profile_loop.simps [simp del]

definition ProfileHelper ::
  "profiler_config \<Rightarrow> nat \<Rightarrow> u64 \<Rightarrow> cb_error + request_record list \<Rightarrow> (nat \<Rightarrow> trial_env) \<Rightarrow> perf_status \<Rightarrow>
     profiler_state \<Rightarrow> (perf_status \<times> bool) outcome option" where
  "ProfileHelper cfg depth rc swap envs e0 st =
     (let st0 = st\<lparr>all_request_records := [], previous_window_end_ns := 0\<rparr> in
      case swap of
        Inl e \<Rightarrow> Some (Inr (Inl e, st0))
      | Inr _ \<Rightarrow> profile_loop cfg depth rc envs e0 0 [] empty_load_status st0)"

section \<open>One experiment\<close>

text \<open>
  The three overloads of \<open>Profile\<close> for one experiment differ in how they set up the load:
  \<open>setup_results\<close> has the results of the calls on the manager that may fail, in order. \<open>report\<close> is the
  result of printing the report. The value is the list of reports, \<open>meets_threshold\<close> and
  \<open>is_stable\<close>.
\<close>

record experiment_env =
  setup_results :: "cb_error list"
  custom_rate :: ieee
  initial_swap :: "cb_error + request_record list"
  trials :: "nat \<Rightarrow> trial_env"
  report :: cb_error

definition zero_client :: client_side_stats where
  "zero_client = \<lparr>request_count = 0, sequence_count = 0, delayed_request_count = 0, response_count = 0,
     duration_ns = 0, avg_latency_ns = 0, percentile_latency_ns = [], latencies = [], std_us = 0,
     avg_request_time_ns = 0, avg_send_time_ns = 0, avg_receive_time_ns = 0, infer_per_sec = Fin 0,
     responses_per_sec = Fin 0, sequence_per_sec = Fin 0, completed_count = 0\<rparr>"

definition zero_perf_status :: perf_status where
  "zero_perf_status = \<lparr>ps_concurrency = 0, ps_request_rate = Fin 0, batch_size = 0,
     server_stats = empty_stats, client_stats = zero_client, ps_metrics = [], overhead_pct = Fin 0,
     on_sequence_model = False, stabilizing_latency_ns = 0, send_request_rate = Fin 0\<rparr>"

definition profile_experiment ::
  "profiler_config \<Rightarrow> nat \<Rightarrow> u64 \<Rightarrow> experiment_env \<Rightarrow> perf_status \<Rightarrow> perf_status list \<Rightarrow> profiler_state \<Rightarrow>
     (perf_status list \<times> bool \<times> bool) outcome option" where
  "profile_experiment cfg depth rc env perf_status0 perf_statuses st =
     (case List.find (\<lambda>e. \<not> IsOk e) (setup_results env) of
        Some e \<Rightarrow> Some (Inr (Inl e, st))
      | None \<Rightarrow>
          map_option (\<lambda>o1. then_do o1 (\<lambda>(ps, is_stable) st1.
              let stabilizing_latency_ms = stabilizing_latency_ns ps div word_of_nat NANOS_PER_MILLIS in
              if stabilizing_latency_ms \<ge> latency_threshold_ms cfg \<and> latency_threshold_ms cfg \<noteq> NO_LIMIT
              then Inr (Inr (perf_statuses, False, is_stable), st1)
              else if \<not> is_stable then Inr (Inr (perf_statuses, False, is_stable), st1)
              else Inr (Inr (perf_statuses @ [ps], IsOk (report env), is_stable), st1)))
            (ProfileHelper cfg depth rc (initial_swap env) (trials env) perf_status0 st))"

definition Profile_concurrency where
  "Profile_concurrency cfg depth rc env (concurrent_request_count :: u64) perf_statuses st =
     profile_experiment cfg depth rc env
       (zero_perf_status\<lparr>ps_concurrency := ucast concurrent_request_count\<rparr>) perf_statuses st"

definition Profile_request_rate where
  "Profile_request_rate cfg depth rc env (request_rate :: ieee) perf_statuses st =
     profile_experiment cfg depth rc env
       (zero_perf_status\<lparr>ps_request_rate := request_rate\<rparr>) perf_statuses st"

definition Profile_custom where
  "Profile_custom cfg depth rc env perf_statuses st =
     profile_experiment cfg depth rc env
       (zero_perf_status\<lparr>ps_request_rate := custom_rate env\<rparr>) perf_statuses st"

section \<open>The search\<close>

text \<open>
  The template \<open>Profile<T>\<close> is instantiated with \<open>size_t\<close> and with \<open>double\<close>; \<open>search_ops\<close> has the
  operations on \<open>T\<close> it uses. \<open>P v s\<close> is the experiment at the value \<open>v\<close>: its error, or
  \<open>meets_threshold\<close> and \<open>is_stable\<close>; \<open>s\<close> is everything else that changes. Fuel counts the
  iterations of the loops.
\<close>

datatype search_mode = LINEAR | BINARY | NO_SEARCH

record 't search_ops =
  so_add :: "'t \<Rightarrow> 't \<Rightarrow> 't"
  so_sub :: "'t \<Rightarrow> 't \<Rightarrow> 't"
  so_half :: "'t \<Rightarrow> 't"
  so_le :: "'t \<Rightarrow> 't \<Rightarrow> bool"
  so_lt :: "'t \<Rightarrow> 't \<Rightarrow> bool"
  so_eq :: "'t \<Rightarrow> 't \<Rightarrow> bool"
  so_no_limit :: 't

definition size_ops :: "u64 search_ops" where
  "size_ops = \<lparr>so_add = (+), so_sub = (-), so_half = (\<lambda>x. x div 2), so_le = (\<le>), so_lt = (<),
     so_eq = (=), so_no_limit = NO_LIMIT\<rparr>"

definition double_ops :: "ieee search_ops" where
  "double_ops = \<lparr>so_add = ieee_add binary64, so_sub = ieee_sub binary64,
     so_half = (\<lambda>x. ieee_div binary64 x (Fin 2)), so_le = ieee_le, so_lt = ieee_lt, so_eq = ieee_eq,
     so_no_limit = Fin 0\<rparr>"

type_synonym ('t, 's) trial = "'t \<Rightarrow> 's \<Rightarrow> (cb_error + bool \<times> bool) \<times> 's"

fun linear_loop ::
  "'t search_ops \<Rightarrow> ('t, 's) trial \<Rightarrow> 't \<Rightarrow> 't \<Rightarrow> nat \<Rightarrow> 't \<Rightarrow> 's \<Rightarrow> ((cb_error + 't \<times> bool) \<times> 's) option" where
  "linear_loop T P last_value step 0 current_value s = None"
| "linear_loop T P last_value step (Suc fuel) current_value s =
     (case P current_value s of
        (Inl e, s1) \<Rightarrow> Some (Inl e, s1)
      | (Inr (meets_threshold, is_stable), s1) \<Rightarrow>
          let next_value = so_add T current_value step in
          if (so_le T next_value last_value \<or> so_eq T last_value (so_no_limit T)) \<and> meets_threshold
          then linear_loop T P last_value step fuel next_value s1
          else Some (Inr (next_value, is_stable), s1))"

fun binary_loop ::
  "'t search_ops \<Rightarrow> ('t, 's) trial \<Rightarrow> 't \<Rightarrow> nat \<Rightarrow> 't \<Rightarrow> 't \<Rightarrow> 's \<Rightarrow> ((cb_error + 't \<times> 't) \<times> 's) option" where
  "binary_loop T P step 0 this_start this_end s = None"
| "binary_loop T P step (Suc fuel) this_start this_end s =
     (if so_lt T step (so_sub T this_end this_start) then
        let current_value = so_half T (so_add T this_end this_start) in
        (case P current_value s of
           (Inl e, s1) \<Rightarrow> Some (Inl e, s1)
         | (Inr (meets_threshold, is_stable), s1) \<Rightarrow>
             if meets_threshold then binary_loop T P step fuel current_value this_end s1
             else binary_loop T P step fuel this_start current_value s1)
      else Some (Inr (this_start, this_end), s))"

definition Profile_search ::
  "'t search_ops \<Rightarrow> ('t, 's) trial \<Rightarrow> ('s \<Rightarrow> (cb_error + bool \<times> bool) \<times> 's) \<Rightarrow> nat \<Rightarrow> search_mode \<Rightarrow>
     't \<Rightarrow> 't \<Rightarrow> 't \<Rightarrow> 's \<Rightarrow> (cb_error \<times> 's) option" where
  "Profile_search T P P0 fuel search first last_value step s =
     (case search of
        NO_SEARCH \<Rightarrow>
          (case P0 s of (Inl e, s1) \<Rightarrow> Some (e, s1) | (Inr _, s1) \<Rightarrow> Some (Success, s1))
      | LINEAR \<Rightarrow>
          (case linear_loop T P last_value step fuel first s of
             None \<Rightarrow> None
           | Some (Inl e, s1) \<Rightarrow> Some (e, s1)
           | Some (Inr (current_value, is_stable), s1) \<Rightarrow>
               if so_eq T current_value (so_add T first step) \<and> \<not> is_stable
               then Some (CbError ''Failed to obtain stable measurement.'' STABILITY_ERROR, s1)
               else Some (Success, s1))
      | BINARY \<Rightarrow>
          (case P first s of
             (Inl e, s1) \<Rightarrow> Some (e, s1)
           | (Inr (meets1, _), s1) \<Rightarrow>
               if \<not> meets1 then Some (Success, s1)
               else (case P last_value s1 of
                       (Inl e, s2) \<Rightarrow> Some (e, s2)
                     | (Inr (meets2, _), s2) \<Rightarrow>
                         if meets2 then Some (Success, s2)
                         else (case binary_loop T P step fuel first last_value s2 of
                                 None \<Rightarrow> None
                               | Some (Inl e, s3) \<Rightarrow> Some (e, s3)
                               | Some (Inr _, s3) \<Rightarrow> Some (Success, s3)))))"

section \<open>The search over concurrencies\<close>

text \<open>An experiment that does not fail and whose outcome depends on the value only; the state is the trace.\<close>

definition fixed_trial :: "('t \<Rightarrow> bool) \<Rightarrow> ('t \<Rightarrow> bool) \<Rightarrow> ('t, 't list) trial" where
  "fixed_trial meets settled v s = (Inr (meets v, settled v), s @ [v])"

lemma fixed_trial_app: "fixed_trial meets settled v s = (Inr (meets v, settled v), s @ [v])"
  by (simp add: fixed_trial_def)

lemma size_ops_simps [simp]:
  "so_add size_ops = (+)" "so_sub size_ops = (-)" "so_half size_ops x = x div 2" "so_le size_ops = (\<le>)"
  "so_lt size_ops = (<)" "so_eq size_ops = (=)" "so_no_limit size_ops = 0"
  by (simp_all add: size_ops_def NO_LIMIT_def)

lemma unat_add_small: "unat a + unat b < 2 ^ 64 \<Longrightarrow> unat (a + b :: u64) = unat a + unat b"
  by (simp add: unat_word_ariths)

definition up_to_failure :: "('a \<Rightarrow> bool) \<Rightarrow> 'a list \<Rightarrow> 'a list" where
  "up_to_failure ok xs = takeWhile ok xs @ take 1 (dropWhile ok xs)"

lemma up_to_failure_Cons:
  "up_to_failure ok (x # xs) = x # (if ok x then up_to_failure ok xs else [])"
  by (simp add: up_to_failure_def)

lemma linear_loop_trace:
  fixes start end' step :: u64
  assumes "0 < unat step" and "unat start + n * unat step \<le> unat end'"
    and "unat end' < unat start + Suc n * unat step" and "unat end' + unat step < 2 ^ 64" and "end' \<noteq> 0"
    and "n < fuel"
  shows "\<exists>r. linear_loop size_ops (fixed_trial meets settled) end' step fuel start tr =
    Some (Inr r, tr @ up_to_failure meets (map (\<lambda>k. start + word_of_nat k * step) [0..<Suc n]))"
  using assms
proof (induction n arbitrary: start tr fuel)
  case 0
  obtain f where f: "fuel = Suc f" using 0 by (cases fuel) auto
  have "unat start + unat step < 2 ^ 64" using 0 by simp
  then have "unat (start + step) = unat start + unat step" by (rule unat_add_small)
  with 0 have "\<not> start + step \<le> end'" by (simp add: word_le_nat_alt)
  with 0 show ?case by (simp add: f fixed_trial_app up_to_failure_def)
next
  case (Suc n)
  obtain f where f: "fuel = Suc f" using Suc.prems by (cases fuel) auto
  have u: "unat (start + step) = unat start + unat step"
    using Suc.prems by (intro unat_add_small) simp
  with Suc.prems have le: "start + step \<le> end'" by (simp add: word_le_nat_alt)
  have vals: "map (\<lambda>k. start + word_of_nat k * step) [0..<Suc (Suc n)] =
      start # map (\<lambda>k. (start + step) + word_of_nat k * step) [0..<Suc n]"
  proof -
    have "[0..<Suc (Suc n)] = 0 # map Suc [0..<Suc n]" by (simp add: upt_conv_Cons map_Suc_upt del: upt_Suc)
    then show ?thesis by (simp del: upt_Suc add: comp_def algebra_simps)
  qed
  show ?case
  proof (cases "meets start")
    case False
    then show ?thesis by (simp add: f fixed_trial_app vals up_to_failure_Cons del: upt_Suc)
  next
    case True
    have "\<exists>r. linear_loop size_ops (fixed_trial meets settled) end' step f (start + step) (tr @ [start]) =
      Some (Inr r, (tr @ [start]) @ up_to_failure meets (map (\<lambda>k. (start + step) + word_of_nat k * step) [0..<Suc n]))"
      using Suc.prems u by (intro Suc.IH) (simp_all add: f)
    with True le show ?thesis
      by (simp add: f fixed_trial_app [of meets settled start tr] vals up_to_failure_Cons del: upt_Suc)
  qed
qed

lemma binary_loop_bracket:
  fixes a b step :: u64
  assumes "unat a < unat b" and "unat b < 2 ^ 63" and "meets a" and "\<not> meets b" and "0 < step"
    and "unat b - unat a \<le> 2 ^ n" and "n < fuel"
  shows "\<exists>a' b' tr'. binary_loop size_ops (fixed_trial meets settled) step fuel a b tr = Some (Inr (a', b'), tr @ tr') \<and>
    meets a' \<and> \<not> meets b' \<and> a \<le> a' \<and> a' < b' \<and> b' \<le> b \<and> b' - a' \<le> step \<and> length tr' \<le> n \<and>
    (\<forall>v \<in> set tr'. a < v \<and> v < b) \<and> a' \<in> insert a (set tr') \<and> b' \<in> insert b (set tr')"
  using assms
proof (induction n arbitrary: a b tr fuel)
  case 0
  obtain f where f: "fuel = Suc f" using 0 by (cases fuel) auto
  have "unat (b - a) = unat b - unat a" using 0(1) by (simp add: unat_sub word_le_nat_alt)
  moreover have "1 \<le> unat step" using 0(5) by (simp add: word_less_nat_alt)
  ultimately have "b - a \<le> step" using 0(6) by (simp add: word_le_nat_alt)
  then have "\<not> step < b - a" by simp
  with 0 \<open>b - a \<le> step\<close> show ?case
    by (intro exI [of _ a] exI [of _ b] exI [of _ "[]"]) (simp add: f word_less_nat_alt)
next
  case (Suc n)
  obtain f where f: "fuel = Suc f" using Suc.prems by (cases fuel) auto
  have d: "unat (b - a) = unat b - unat a" using Suc.prems(1) by (simp add: unat_sub word_le_nat_alt)
  show ?case
  proof (cases "step < b - a")
    case False
    then have "b - a \<le> step" by simp
    with False Suc.prems show ?thesis
      by (intro exI [of _ a] exI [of _ b] exI [of _ "[]"]) (simp add: f word_less_nat_alt [of a])
  next
    case True
    define c where "c = (b + a) div 2"
    have "unat (b + a) = unat b + unat a" using Suc.prems by (intro unat_add_small) simp
    then have c: "unat c = (unat b + unat a) div 2" by (simp add: c_def unat_div)
    have gap: "1 < unat b - unat a"
    proof -
      have "unat step < unat b - unat a" using True d by (simp add: word_less_nat_alt)
      moreover have "1 \<le> unat step" using Suc.prems(5) by (simp add: word_less_nat_alt)
      ultimately show ?thesis by simp
    qed
    have ac: "unat a < unat c" and cb: "unat c < unat b" using gap c by linarith+
    have h: "unat b - unat c \<le> 2 ^ n" "unat c - unat a \<le> 2 ^ n" using c Suc.prems(6) by simp_all
    have lt: "a < c" "c < b" using ac cb by (simp_all add: word_less_nat_alt)
    let ?a = "if meets c then c else a" and ?b = "if meets c then b else c"
    have "\<exists>a' b' tr'. binary_loop size_ops (fixed_trial meets settled) step f ?a ?b (tr @ [c]) =
        Some (Inr (a', b'), (tr @ [c]) @ tr') \<and> meets a' \<and> \<not> meets b' \<and> ?a \<le> a' \<and> a' < b' \<and> b' \<le> ?b \<and>
        b' - a' \<le> step \<and> length tr' \<le> n \<and> (\<forall>v \<in> set tr'. ?a < v \<and> v < ?b) \<and>
        a' \<in> insert ?a (set tr') \<and> b' \<in> insert ?b (set tr')"
      using Suc.prems ac cb h by (intro Suc.IH) (simp_all add: f split: if_splits)
    then obtain a' b' tr' where r: "binary_loop size_ops (fixed_trial meets settled) step f ?a ?b (tr @ [c]) =
        Some (Inr (a', b'), (tr @ [c]) @ tr')" "meets a'" "\<not> meets b'" "?a \<le> a'" "a' < b'" "b' \<le> ?b"
        "b' - a' \<le> step" "length tr' \<le> n" "\<forall>v \<in> set tr'. ?a < v \<and> v < ?b"
        "a' \<in> insert ?a (set tr')" "b' \<in> insert ?b (set tr')" by blast
    have "binary_loop size_ops (fixed_trial meets settled) step fuel a b tr = Some (Inr (a', b'), tr @ (c # tr'))"
      using r(1) True by (simp add: f fixed_trial_app Let_def c_def split: if_splits)
    moreover have "a \<le> a'" "b' \<le> b" using r(4,6) lt by (auto split: if_splits)
    moreover have "\<forall>v \<in> set (c # tr'). a < v \<and> v < b" using r(9) lt by (auto split: if_splits)
    moreover have "a' \<in> insert a (set (c # tr'))" "b' \<in> insert b (set (c # tr'))"
      using r(10,11) by (auto split: if_splits)
    ultimately show ?thesis using r by (intro exI [of _ a'] exI [of _ b'] exI [of _ "c # tr'"]) simp
  qed
qed

lemma binary_loop_zero_step:
  fixes a b :: u64
  assumes "unat a < unat b" and "unat b < 2 ^ 63" and "meets a" and "\<not> meets b"
  shows "binary_loop size_ops (fixed_trial meets settled) 0 fuel a b tr = None"
  using assms
proof (induction fuel arbitrary: a b tr)
  case (Suc fuel)
  define c where "c = (b + a) div 2"
  have "unat (b + a) = unat b + unat a" using Suc.prems by (intro unat_add_small) simp
  then have c: "unat c = (unat b + unat a) div 2" by (simp add: c_def unat_div)
  have cb: "unat c < unat b" "unat a \<le> unat c" using Suc.prems(1) c by linarith+
  have "unat (b - a) = unat b - unat a" using Suc.prems(1) by (simp add: unat_sub word_le_nat_alt)
  then have "0 < b - a" using Suc.prems(1) by (simp add: word_less_nat_alt)
  moreover have "\<not> meets c \<Longrightarrow> unat a < unat c"
    using cb Suc.prems(3) by (metis le_neq_implies_less unsigned_word_eqI)
  ultimately show ?case
    using Suc.IH [of c b] Suc.IH [of a c] Suc.prems cb
    by (auto simp: fixed_trial_app Let_def simp flip: c_def)
qed simp
section \<open>Smallest and largest measurement\<close>

lemma foldl_min_bounds:
  assumes "\<And>x y. x \<in> S \<Longrightarrow> y \<in> S \<Longrightarrow> lt x y \<longleftrightarrow> f x < (f y :: 'b :: linorder)"
    and "m \<in> S" and "set xs \<subseteq> S"
  defines "r \<equiv> foldl (\<lambda>m x. if lt x m then x else m) m xs"
  shows "r \<in> insert m (set xs) \<and> (\<forall>x \<in> insert m (set xs). f r \<le> f x)"
  using assms(2,3) unfolding r_def
proof (induction xs arbitrary: m)
  case (Cons x xs)
  let ?m = "if lt x m then x else m"
  have "?m \<in> S" using Cons.prems by auto
  moreover have "f ?m \<le> f x" "f ?m \<le> f m" using assms(1) [of x m] Cons.prems by auto
  ultimately show ?case using Cons.IH [of ?m] Cons.prems by (auto split: if_splits)
qed simp

lemma foldl_max_bounds:
  assumes "\<And>x y. x \<in> S \<Longrightarrow> y \<in> S \<Longrightarrow> lt x y \<longleftrightarrow> f x < (f y :: 'b :: linorder)"
    and "m \<in> S" and "set xs \<subseteq> S"
  defines "r \<equiv> foldl (\<lambda>m x. if lt x m then m else x) m xs"
  shows "r \<in> insert m (set xs) \<and> (\<forall>x \<in> insert m (set xs). f x \<le> f r)"
  using assms(2,3) unfolding r_def
proof (induction xs arbitrary: m)
  case (Cons x xs)
  let ?m = "if lt x m then m else x"
  have "?m \<in> S" using Cons.prems by auto
  moreover have "f x \<le> f ?m" "f m \<le> f ?m" using assms(1) [of x m] Cons.prems by auto
  ultimately show ?case using Cons.IH [of ?m] Cons.prems by (auto split: if_splits)
qed simp

lemma minmax_bounds:
  assumes "minmax lt xs = (mn, mx)" and "xs \<noteq> []"
    and "\<And>x y. x \<in> set xs \<Longrightarrow> y \<in> set xs \<Longrightarrow> lt x y \<longleftrightarrow> f x < (f y :: 'b :: linorder)"
  shows "mn \<in> set xs" and "mx \<in> set xs" and "x \<in> set xs \<Longrightarrow> f mn \<le> f x" and "x \<in> set xs \<Longrightarrow> f x \<le> f mx"
proof -
  obtain h t where xs: "xs = h # t" using assms(2) by (cases xs) auto
  have mm: "mn = foldl (\<lambda>m x. if lt x m then x else m) h t" "mx = foldl (\<lambda>m x. if lt x m then m else x) h t"
    using assms(1) by (simp_all add: minmax_def xs)
  have ht: "h \<in> set xs" "set t \<subseteq> set xs" "insert h (set t) = set xs" by (auto simp: xs)
  show "mn \<in> set xs" "mx \<in> set xs" "x \<in> set xs \<Longrightarrow> f mn \<le> f x" "x \<in> set xs \<Longrightarrow> f x \<le> f mx"
    using foldl_min_bounds [where S = "set xs" and f = f, OF assms(3) ht(1,2)]
      foldl_max_bounds [where S = "set xs" and f = f, OF assms(3) ht(1,2)] ht(3) by (auto simp: mm)
qed

text \<open>A ratio of two measurements is at most the ratio of the largest and the smallest.\<close>

lemma ieee_le_trans: "ieee_le x y \<Longrightarrow> ieee_le y z \<Longrightarrow> ieee_le x z"
  by (cases x; cases y; cases z) auto

lemma fin64_mono: "a \<le> b \<Longrightarrow> ieee_le (fin binary64 a) (fin binary64 b)"
proof -
  assume "a \<le> b"
  then have "rnd binary64 a \<le> rnd binary64 b" by (rule rnd_mono) simp
  then show ?thesis by (auto simp: fin_def Let_def)
qed

lemma ratio_le:
  assumes "ieee_le (ieee_div binary64 (Fin mx) (Fin mn)) t" and "0 < mn" and "0 \<le> x" and "x \<le> mx" and "mn \<le> y"
  shows "ieee_le (ieee_div binary64 (Fin x) (Fin y)) t"
proof -
  have "x / y \<le> mx / mn" using assms(2-5) by (intro frac_le) auto
  from ieee_le_trans [OF fin64_mono [OF this]] assms(1,2,5) show ?thesis by simp
qed

section \<open>The trials of an experiment\<close>

text \<open>The last results and the load status agree.\<close>

definition ips_of :: "cb_error + perf_status \<Rightarrow> ieee" where
  "ips_of r = (case r of Inr p \<Rightarrow> infer_per_sec (client_stats p) | Inl e \<Rightarrow> Fin 0)"

definition lat_of :: "cb_error + perf_status \<Rightarrow> u64" where
  "lat_of r = (case r of Inr p \<Rightarrow> stabilizing_latency_ns p | Inl e \<Rightarrow> - 1)"

definition trial_inv :: "profiler_config \<Rightarrow> (cb_error + perf_status) list \<Rightarrow> load_status \<Rightarrow> bool" where
  "trial_inv cfg ws ls \<longleftrightarrow>
     length (ls_latencies ls) = length (ls_infer_per_sec ls) \<and>
     length ws = min (stability_window cfg) (length (ls_infer_per_sec ls)) \<and>
     map ips_of ws = drop (length (ls_infer_per_sec ls) - length ws) (ls_infer_per_sec ls) \<and>
     map lat_of ws = drop (length (ls_infer_per_sec ls) - length ws) (ls_latencies ls)"

lemma trial_inv_empty: "trial_inv cfg [] empty_load_status"
  by (simp add: trial_inv_def empty_load_status_def)

lemma add_load_lists:
  "ls_infer_per_sec (add_load cfg r ls) = ls_infer_per_sec ls @ [ips_of r]"
  "ls_latencies (add_load cfg r ls) = ls_latencies ls @ [lat_of r]"
  by (simp_all add: add_load_def ips_of_def lat_of_def split: sum.split)

lemma trial_inv_step:
  assumes "trial_inv cfg ws ls" and "0 < stability_window cfg"
  shows "trial_inv cfg (push_window cfg r ws) (add_load cfg r ls)"
proof -
  let ?n = "length (ls_infer_per_sec ls)"
  show ?thesis
  proof (cases "length ws < stability_window cfg")
    case True
    with assms have "length ws = ?n" by (simp add: trial_inv_def)
    with True assms(1) show ?thesis by (simp add: trial_inv_def push_window_def add_load_lists)
  next
    case False
    with assms have l: "length ws = stability_window cfg" "stability_window cfg \<le> ?n"
      by (auto simp: trial_inv_def)
    with assms(2) obtain w rest where ws: "ws = w # rest" by (cases ws) auto
    define d where "d = ?n - stability_window cfg"
    have d: "?n - length rest = Suc d" "?n = d + stability_window cfg" using l ws by (auto simp: d_def)
    have "map ips_of rest = drop (Suc d) (ls_infer_per_sec ls)" "map lat_of rest = drop (Suc d) (ls_latencies ls)"
      using assms(1) l ws unfolding trial_inv_def d_def
      by (metis drop_Suc list.sel(3) list.simps(9) tl_drop)+
    moreover have "push_window cfg r ws = rest @ [r]" using l by (simp add: push_window_def ws)
    ultimately show ?thesis
      using assms(1) l d by (simp add: trial_inv_def add_load_lists ws)
  qed
qed

lemma push_window_nonempty: "0 < stability_window cfg \<Longrightarrow> push_window cfg r ws \<noteq> []"
  by (cases ws) (auto simp: push_window_def Let_def)

text \<open>One iteration of the loop whose measurement returns.\<close>

lemma profile_loop_unfold:
  assumes "IsOk (health (envs k))"
    and "Measure cfg depth (measure_config_of cfg rc) (measurement (envs k))
      ((new_perf_status (envs k))\<lparr>ps_concurrency := ps_concurrency e0, ps_request_rate := ps_request_rate e0\<rparr>) st =
      Some (Inr (r, st1))"
  shows "profile_loop cfg depth rc envs e0 k ws ls st =
      (if rc = 0 \<and> \<not> IsDoneProfiling cfg (ranks (envs k)) (add_load cfg r ls) (DetermineStability cfg (add_load cfg r ls) True) \<and>
          \<not> early_exit (envs k) \<and> Suc k < unat (max_trials cfg)
       then profile_loop cfg depth rc envs e0 (Suc k) (push_window cfg r ws) (add_load cfg r ls) st1
       else Some (finish_profile cfg (early_exit (envs k)) (push_window cfg r ws) (add_load cfg r ls)
         (if rc \<noteq> 0 then True else DetermineStability cfg (add_load cfg r ls) True) e0 st1))"
  by (subst profile_loop.simps) (simp add: Let_def assms)

lemma finish_success:
  assumes "finish_profile cfg x ws ls s0 e0 st = Inr (Inr (e, True), st')"
  shows "s0 \<or> (async_mode cfg \<and> DetermineStability cfg ls False)" and "\<exists>ps. ws = map Inr ps \<and> MergePerfStatusReports cfg ps e0 = Inr e"
    and "\<not> x"
proof -
  from assms have n: "List.find isl ws = None"
    by (auto simp: finish_profile_def Let_def split: option.splits)
  then have all: "\<forall>r \<in> set ws. \<not> isl r" by (simp add: find_None_iff)
  let ?s = "s0 \<or> (async_mode cfg \<and> DetermineStability cfg ls False)"
  let ?r = "if ?s then MergePerfStatusReports cfg (map projr ws) e0 else Inr e0"
  have ws: "ws = map Inr (map projr ws)" using all by (simp add: map_idI sum.collapse comp_def)
  from assms n have fin: "then_do (outcome_of ?r st) (\<lambda>e st'. if x then Inr (Inl (generic_error ''Received exit signal.''), st')
      else Inr (Inr (e, ?s), st')) = Inr (Inr (e, True), st')"
    by (simp add: finish_profile_def Let_def)
  then obtain v where v: "?r = Inr v" by (cases ?r rule: outcome_of.cases [of "(r, st)" for r]) auto
  with fin have *: "\<not> x" "e = v" "?s" by (auto split: if_splits)
  then show "?s" "\<not> x" by simp_all
  show "\<exists>ps. ws = map Inr ps \<and> MergePerfStatusReports cfg ps e0 = Inr e"
    using ws v * by (intro exI [of _ "map projr ws"]) simp
qed
lemma stable_window:
  assumes "trial_inv cfg (map Inr ps) ls" and "DetermineStability cfg ls cl" and "0 < stability_window cfg"
  shows "length ps = stability_window cfg" and "\<forall>p \<in> set ps. \<not> ieee_eq (infer_per_sec (client_stats p)) (Fin 0)"
    and "\<exists>mn mx. minmax ieee_lt (map (\<lambda>p. infer_per_sec (client_stats p)) ps) = (mn, mx) \<and>
       ieee_le (ieee_div binary64 mx mn) (ieee_add binary64 (Fin 1) (stability_threshold cfg))"
    and "cl \<Longrightarrow> \<exists>mn mx. minmax (<) (map stabilizing_latency_ns ps) = (mn, mx) \<and>
       ieee_le (ieee_div binary64 (ieee_of_int binary64 (uint mx)) (ieee_of_int binary64 (uint mn)))
         (ieee_add binary64 (Fin 1) (stability_threshold cfg))"
proof -
  let ?n = "length (ls_infer_per_sec ls)"
  have g: "stability_window cfg \<le> ?n" using assms(2) by (auto simp: DetermineStability_def split: if_splits)
  with assms(1) show len: "length ps = stability_window cfg" by (simp add: trial_inv_def)
  have ips: "drop (?n - stability_window cfg) (ls_infer_per_sec ls) = map (\<lambda>p. infer_per_sec (client_stats p)) ps"
    and lats: "drop (?n - stability_window cfg) (ls_latencies ls) = map stabilizing_latency_ns ps"
    using assms(1) len by (simp_all add: trial_inv_def ips_of_def lat_of_def comp_def)
  note D = assms(2) [unfolded DetermineStability_def CheckWindowForStability_def IsInferWindowStable_def
      IsLatencyWindowStable_def Let_def ips lats]
  show "\<forall>p \<in> set ps. \<not> ieee_eq (infer_per_sec (client_stats p)) (Fin 0)"
    using D g by (simp add: list_all_iff)
  show "\<exists>mn mx. minmax ieee_lt (map (\<lambda>p. infer_per_sec (client_stats p)) ps) = (mn, mx) \<and>
       ieee_le (ieee_div binary64 mx mn) (ieee_add binary64 (Fin 1) (stability_threshold cfg))"
    using D g len by (auto split: prod.splits)
  show "\<exists>mn mx. minmax (<) (map stabilizing_latency_ns ps) = (mn, mx) \<and>
       ieee_le (ieee_div binary64 (ieee_of_int binary64 (uint mx)) (ieee_of_int binary64 (uint mn)))
         (ieee_add binary64 (Fin 1) (stability_threshold cfg))" if cl
    using D g len that by (auto split: prod.splits)
qed

lemma u64_ratio_le:
  fixes mx mn x y :: u64
  assumes "ieee_le (ieee_div binary64 (ieee_of_int binary64 (uint mx)) (ieee_of_int binary64 (uint mn))) t"
    and "mn \<le> y" and "x \<le> mx" and "t \<noteq> PInf"
  shows "ieee_le (ieee_div binary64 (ieee_of_int binary64 (uint x)) (ieee_of_int binary64 (uint y))) t"
proof -
  have u: "uint w \<le> 2 ^ 64" for w :: u64 using uint_lt2p [of w] by simp
  note f = ieee_of_u64 [OF _ u]
  let ?r = "\<lambda>w :: u64. rnd binary64 (of_int (uint w))"
  have le: "?r mn \<le> ?r y" "?r x \<le> ?r mx"
    using assms(2,3) by (intro rnd_mono; simp add: word_le_def del: of_int_uint)+
  have "?r mn \<noteq> 0"
  proof
    assume "?r mn = 0"
    with assms(1) have "ieee_le (inf_of_sgn (ieee_sgn (Fin (?r mx)))) t" by (simp add: f del: of_int_uint)
    with assms(4) f(2) [of mx] show False
      by (cases t) (auto simp: inf_of_sgn_def split: if_splits)
  qed
  with f(2) [of mn] have "0 < ?r mn" by simp
  with assms(1) show ?thesis
    unfolding f(1) [OF unsigned_greater_eq] by (rule ratio_le) (use le f(2) in auto)
qed
section \<open>An experiment of three windows\<close>

text \<open>An experiment of three windows with one request each.\<close>

definition ex_menv :: "nat \<Rightarrow> measure_env" where
  "ex_menv k = \<lparr>clock_start = 1000, server_start = Inr [], client_start = Inr \<lparr>completed_request_count = 0,
       cumulative_total_request_time_ns = 0, cumulative_send_time_ns = 0, cumulative_receive_time_ns = 0\<rparr>,
     querying_error = None, polls = [], clock_end = word_of_nat (2000 + 1000 * k), latest_metrics = [],
     server_end = Inr [], client_end = Inr \<lparr>completed_request_count = 1, cumulative_total_request_time_ns = 0,
       cumulative_send_time_ns = 0, cumulative_receive_time_ns = 0\<rparr>,
     swapped_records = Inr [ex_request (int (1100 + 1000 * k)) [int (1200 + 1000 * k)] False],
     env_idle_ns = 500, num_sent_requests = 1\<rparr>"

definition ex_trial :: "nat \<Rightarrow> trial_env" where
  "ex_trial k = \<lparr>health = Success, new_perf_status = zero_perf_status, measurement = ex_menv k,
     ranks = None, early_exit = False\<rparr>"

definition ex_state :: profiler_state where
  "ex_state = \<lparr>all_request_records = [], previous_window_end_ns = 0, prev_server_side_stats = [],
     prev_client_side_stats = \<lparr>completed_request_count = 0, cumulative_total_request_time_ns = 0,
       cumulative_send_time_ns = 0, cumulative_receive_time_ns = 0\<rparr>, ps_collector = []\<rparr>"

definition ex_cfg :: profiler_config where
  "ex_cfg = ex_config\<lparr>extra_percentile := False\<rparr>"

lemma ex_cfg_simps [simp]:
  "stability_window ex_cfg = 3" "stability_threshold ex_cfg = Fin (1 / 8)" "\<not> include_server_stats ex_cfg"
  "\<not> should_collect_metrics ex_cfg" "\<not> should_collect_profile_data ex_cfg" "\<not> async_mode ex_cfg"
  "pc_measurement_mode ex_cfg = TIME_WINDOWS" "max_trials ex_cfg = 10" "latency_threshold_ms ex_cfg = 0"
  "\<not> extra_percentile ex_cfg" "manager_batch_size ex_cfg = 1" "include_lib_stats ex_cfg"
  "pc_scheduler_type ex_cfg = DYNAMIC"
  by (simp_all add: ex_cfg_def ex_config_def)

lemma ex_latency:
  assumes "ls \<noteq> []" and "set ls \<subseteq> {100}" and "length ls < 2 ^ 32"
  obtains s' where "SummarizeLatency ex_cfg ls s = Inr s'" and "stabilizing_latency_ns s' = 100"
    and "server_stats s' = server_stats s"
proof -
  have "\<forall>l \<in> set ls. unat l < 2 ^ 31" using assms(2) by auto
  from mean_and_std_defined [OF assms(1) this assms(3)] obtain sd where
    m: "GetMeanAndStdDev ls = Inr (mean_latency ls, sd)"
    "unat (mean_latency ls) = sum_list (map unat ls) div length ls" by blast
  have "unat (mean_latency ls) = 100"
    using mean_between [of "map unat ls" 100 100] assms(1,2) m(2) by fastforce
  then have mean: "mean_latency ls = 100" by (simp add: word_unat_eq_iff)
  have p100: "\<forall>p \<in> set (percentiles_of ex_cfg). uint p \<le> 100" by (simp add: percentiles_of_facts)
  have "length ls \<le> 2 ^ 52" using assms(3) by simp
  from percentile_map [OF p100 assms(1) this, of "[]"] m(1) that assms(1) show thesis
    by (simp add: SummarizeLatency_def mean)
qed

definition ex_ips :: ieee where
  "ex_ips = per_sec 1 (duration_sec 1000)"

lemma ex_summary:
  assumes "all_request_records st = [r]" and "has_end r" and "counted (lo, hi) r" and "latency_of r = 100"
    and "hi - lo = 1000"
  shows "\<exists>p st1. Summarize ex_cfg 1 a b c d lo hi False 500 1 zero_perf_status st = Inr (Inr p, st1) \<and>
      infer_per_sec (client_stats p) = ex_ips \<and> stabilizing_latency_ns p = 100 \<and>
      all_request_records st1 = [] \<and> previous_window_end_ns st1 = previous_window_end_ns st \<and>
      latencies (client_stats p) = [100] \<and> batch_size p = 1 \<and> \<not> on_sequence_model p \<and>
      composing_models_stat (server_stats p) = []"
proof -
  obtain s where s: "SummarizeLatency ex_cfg [100] zero_perf_status = Inr s" "stabilizing_latency_ns s = 100"
    "server_stats s = empty_stats"
    using ex_latency [of "[100]" zero_perf_status] by (auto simp: zero_perf_status_def)
  have he: "\<forall>r' \<in> set [r]. has_end r'" using assms(2) by simp
  obtain w where w: "ValidLatencyMeasurement (lo, hi) 0 [r] = Inr (w, [r], [])" "wr_latencies w = [100]"
    using ValidLatencyMeasurement_eq [OF he, of "(lo, hi)" 0] assms(3,4) by (simp add: taken_def)
  have "2 powi - 30 \<le> (1 / 1000000 :: rat)" "(1 / 1000000 :: rat) \<le> 2 powi 0"
    by (simp_all add: power_int_minus)
  then obtain q where "fin binary64 (1 / 1000000) = Fin q" "2 powi - 30 \<le> q"
    using fin_between_pow [of "- 30" "1 / 1000000" 0 binary64] by auto
  moreover from this have "0 < q" using powi2_pos [of "- 30"] by linarith
  ultimately have q: "ieee_div binary64 (ieee_of_int binary64 1000) (ieee_of_int binary64 1000000000) = Fin q" "\<not> q \<le> 0"
    using ieee_of_int64_exact [of 1000] ieee_of_int64_exact [of 1000000000] by simp_all
  show ?thesis unfolding Summarize_def assms(1,5)
    by (simp add: w s q SummarizeClientStat_def SummarizeOverhead_def SummarizeSendRequestRate_def Let_def
        NANOS_PER_SECOND_def ex_ips_def empty_stats_def)
qed

lemma ex_measure:
  assumes "all_request_records st = []" and "previous_window_end_ns st = (if k = 0 then 0 else word_of_nat (1000 + 1000 * k))"
    and "k < 3"
  shows "\<exists>p st1. Measure ex_cfg 1 (measure_config_of ex_cfg 0) (ex_menv k) zero_perf_status st = Some (Inr (Inr p, st1)) \<and>
    infer_per_sec (client_stats p) = ex_ips \<and> stabilizing_latency_ns p = 100 \<and>
    all_request_records st1 = [] \<and> previous_window_end_ns st1 = word_of_nat (2000 + 1000 * k) \<and>
    latencies (client_stats p) = [100] \<and> batch_size p = 1 \<and> \<not> on_sequence_model p \<and>
    composing_models_stat (server_stats p) = []"
proof -
  let ?r = "ex_request (int (1100 + 1000 * k)) [int (1200 + 1000 * k)] False"
  let ?lo = "word_of_nat (1000 + 1000 * k) :: u64" and ?hi = "word_of_nat (2000 + 1000 * k) :: u64"
  have k: "k = 0 \<or> k = 1 \<or> k = 2" using assms(3) by linarith
  have he: "has_end ?r" by (simp add: has_end_def ex_request_def new_request_record_def)
  have c: "counted (?lo, ?hi) ?r" "latency_of ?r = 100" "?hi - ?lo = 1000"
    using k by (auto simp: ex_request_simps)
  have start: "(if previous_window_end_ns st = 0 then clock_start (ex_menv k) else previous_window_end_ns st) = ?lo"
    using k assms(2) by (auto simp: ex_menv_def)
  have "\<exists>a b d st2. Measure ex_cfg 1 (measure_config_of ex_cfg 0) (ex_menv k) zero_perf_status st =
      Some (Summarize ex_cfg 1 a [] b d ?lo ?hi False 500 1 zero_perf_status st2) \<and>
      all_request_records st2 = [?r] \<and> previous_window_end_ns st2 = ?hi"
    unfolding Measure_def Let_def start
    by (cases "previous_window_end_ns st = 0"; simp add: measure_start_def measure_config_of_def lift_err_def ex_menv_def assms(1);
        intro exI conjI, rule refl, simp, simp)
  then obtain a b d st2 where M: "Measure ex_cfg 1 (measure_config_of ex_cfg 0) (ex_menv k) zero_perf_status st =
      Some (Summarize ex_cfg 1 a [] b d ?lo ?hi False 500 1 zero_perf_status st2)"
    and st2: "all_request_records st2 = [?r]" "previous_window_end_ns st2 = ?hi" by blast
  from ex_summary [OF st2(1) he c, of a "[]" b d] show ?thesis unfolding M st2(2) by simp
qed

lemma ex_ips_pos: obtains x where "ex_ips = Fin x" and "0 < x"
  unfolding ex_ips_def by (rule per_sec_finite [of 1000 1]) simp_all

lemma ex_stable:
  assumes "ls_infer_per_sec ls = [ex_ips, ex_ips, ex_ips]" and "ls_latencies ls = [100, 100, 100]"
  shows "DetermineStability ex_cfg ls True"
proof -
  obtain x where x: "ex_ips = Fin x" "0 < x" by (rule ex_ips_pos)
  have one: "fin binary64 1 = Fin 1" using ieee_of_int64_exact [of 1] by (simp add: ieee_of_int_def)
  have "2 powi 0 \<le> (1 + 1 / 8 :: rat)" "(1 + 1 / 8 :: rat) \<le> 2 powi 1" by simp_all
  then obtain y where y: "fin binary64 (1 + 1 / 8) = Fin y" "2 powi 0 \<le> y"
    using fin_between_pow [of 0 "1 + 1 / 8" 1 binary64] by auto
  have "ieee_of_int binary64 100 = Fin 100" using ieee_of_int64_exact [of 100] by simp
  then have l: "IsLatencyWindowStable ex_cfg 0 ls"
    using y by (simp add: IsLatencyWindowStable_def assms minmax_def one)
  have i: "IsInferWindowStable ex_cfg 0 ls"
    using y x(2) by (simp add: IsInferWindowStable_def assms minmax_def one x(1))
  from l i x(2) show ?thesis
    by (simp add: DetermineStability_def assms CheckWindowForStability_def x(1))
qed

lemma ex_loop_step:
  assumes "all_request_records st = []" and "previous_window_end_ns st = (if k = 0 then 0 else word_of_nat (1000 + 1000 * k))"
    and "k < 3"
  shows "\<exists>p st1. Measure ex_cfg 1 (measure_config_of ex_cfg 0) (measurement (ex_trial k))
      ((new_perf_status (ex_trial k))\<lparr>ps_concurrency := ps_concurrency zero_perf_status,
         ps_request_rate := ps_request_rate zero_perf_status\<rparr>) st = Some (Inr (Inr p, st1)) \<and>
    infer_per_sec (client_stats p) = ex_ips \<and> stabilizing_latency_ns p = 100 \<and>
    all_request_records st1 = [] \<and> previous_window_end_ns st1 = word_of_nat (2000 + 1000 * k) \<and>
    latencies (client_stats p) = [100] \<and> batch_size p = 1 \<and> \<not> on_sequence_model p \<and>
    composing_models_stat (server_stats p) = []"
proof -
  have "measurement (ex_trial k) = ex_menv k"
    "(new_perf_status (ex_trial k))\<lparr>ps_concurrency := ps_concurrency zero_perf_status,
         ps_request_rate := ps_request_rate zero_perf_status\<rparr> = zero_perf_status"
    by (simp_all add: ex_trial_def)
  with ex_measure [OF assms] show ?thesis by simp
qed

lemma ex_run:
  obtains e st' where "ProfileHelper ex_cfg 1 0 (Inr []) ex_trial zero_perf_status ex_state = Some (Inr (Inr (e, True), st'))"
proof -
  let ?st0 = "ex_state\<lparr>all_request_records := [], previous_window_end_ns := 0\<rparr>"
  obtain p0 st1 where m0: "Measure ex_cfg 1 (measure_config_of ex_cfg 0) (measurement (ex_trial 0))
      ((new_perf_status (ex_trial 0))\<lparr>ps_concurrency := ps_concurrency zero_perf_status,
         ps_request_rate := ps_request_rate zero_perf_status\<rparr>) ?st0 = Some (Inr (Inr p0, st1))"
    "infer_per_sec (client_stats p0) = ex_ips" "stabilizing_latency_ns p0 = 100" "all_request_records st1 = []"
    "previous_window_end_ns st1 = 2000" "latencies (client_stats p0) = [100]" "batch_size p0 = 1"
    "\<not> on_sequence_model p0" "composing_models_stat (server_stats p0) = []"
    using ex_loop_step [of ?st0 0] by auto
  obtain p1 st2 where m1: "Measure ex_cfg 1 (measure_config_of ex_cfg 0) (measurement (ex_trial 1))
      ((new_perf_status (ex_trial 1))\<lparr>ps_concurrency := ps_concurrency zero_perf_status,
         ps_request_rate := ps_request_rate zero_perf_status\<rparr>) st1 = Some (Inr (Inr p1, st2))"
    "infer_per_sec (client_stats p1) = ex_ips" "stabilizing_latency_ns p1 = 100" "all_request_records st2 = []"
    "previous_window_end_ns st2 = 3000" "latencies (client_stats p1) = [100]" "batch_size p1 = 1"
    "\<not> on_sequence_model p1" "composing_models_stat (server_stats p1) = []"
    using ex_loop_step [of st1 1] m0(4,5) by auto
  obtain p2 st3 where m2: "Measure ex_cfg 1 (measure_config_of ex_cfg 0) (measurement (ex_trial 2))
      ((new_perf_status (ex_trial 2))\<lparr>ps_concurrency := ps_concurrency zero_perf_status,
         ps_request_rate := ps_request_rate zero_perf_status\<rparr>) st2 = Some (Inr (Inr p2, st3))"
    "infer_per_sec (client_stats p2) = ex_ips" "stabilizing_latency_ns p2 = 100" "latencies (client_stats p2) = [100]"
    "batch_size p2 = 1" "\<not> on_sequence_model p2" "composing_models_stat (server_stats p2) = []"
    using ex_loop_step [of st2 2] m1(4,5) by auto
  define ls where "ls = add_load ex_cfg (Inr p2) (add_load ex_cfg (Inr p1) (add_load ex_cfg (Inr p0) empty_load_status))"
  have D: "DetermineStability ex_cfg ls True"
    by (rule ex_stable) (simp_all add: ls_def add_load_lists empty_load_status_def ips_of_def lat_of_def m0 m1 m2)
  have N: "\<not> DetermineStability ex_cfg (add_load ex_cfg (Inr p0) empty_load_status) True"
    "\<not> DetermineStability ex_cfg (add_load ex_cfg (Inr p1) (add_load ex_cfg (Inr p0) empty_load_status)) True"
    by (simp_all add: DetermineStability_def add_load_lists empty_load_status_def)
  have go: "\<not> IsDoneProfiling ex_cfg None l False" "IsDoneProfiling ex_cfg None l True" for l
    by (simp_all add: IsDoneProfiling_def NO_LIMIT_def)
  have tr: "IsOk (health (ex_trial k))" "ranks (ex_trial k) = None" "\<not> early_exit (ex_trial k)" for k
    by (simp_all add: ex_trial_def)
  have run: "ProfileHelper ex_cfg 1 0 (Inr []) ex_trial zero_perf_status ex_state =
      Some (finish_profile ex_cfg False [Inr p0, Inr p1, Inr p2] ls True zero_perf_status st3)"
  proof -
    note u = profile_loop_unfold [where envs = ex_trial and rc = 0 and cfg = ex_cfg and depth = 1]
    have s1: "Suc 0 = 1" "Suc 1 = 2" by simp_all
    show ?thesis using N D
      by (simp add: ProfileHelper_def Let_def u [OF tr(1) m0(1)] u [OF tr(1) m1(1)] u [OF tr(1) m2(1)] tr go
          push_window_def ls_def s1 del: One_nat_def)
  qed
  obtain m where mg: "MergeServerSideStats [server_stats p0, server_stats p1, server_stats p2] = Inr m"
    using merge_same_shape [of "[server_stats p1, server_stats p2]" "Suc (size (server_stats p0))" "server_stats p0"]
      m0(9) m1(9) m2(7) by auto
  have "\<exists>s'. SummarizeLatency ex_cfg [100, 100, 100] s = Inr s'" for s
    by (rule ex_latency [of "[100, 100, 100]" s]) auto
  then have "\<exists>e. MergePerfStatusReports ex_cfg [p0, p1, p2] zero_perf_status = Inr e"
    using mg m0(6-9) m1(6-9) m2(4-7) by (intro merged_report_exists) simp_all
  then obtain e where e: "MergePerfStatusReports ex_cfg [p0, p1, p2] zero_perf_status = Inr e" by blast
  then have r: "ProfileHelper ex_cfg 1 0 (Inr []) ex_trial zero_perf_status ex_state = Some (Inr (Inr (e, True), st3))"
    unfolding run by (simp add: finish_profile_def)
  then show thesis by (rule that)
qed

text \<open>
  C7: The linear search over concurrencies runs experiments at exactly \<open>start\<close>,
  \<open>start + step\<close>, and so on up to \<open>end\<close>, stopping after the first that does not meet the
  threshold, and it returns.
\<close>

theorem linear_search_trace:
  fixes start last_value step :: u64
  assumes "0 < step" and "start \<le> last_value" and "last_value \<noteq> 0" and "unat last_value + unat step < 2 ^ 64"
    and "(unat last_value - unat start) div unat step < fuel"
  shows "\<exists>err. Profile_search size_ops (fixed_trial meets settled) P0 fuel LINEAR start last_value step [] =
    Some (err, up_to_failure meets (map (\<lambda>k. start + word_of_nat k * step)
      [0..<Suc ((unat last_value - unat start) div unat step)]))"
proof -
  let ?n = "(unat last_value - unat start) div unat step"
  have s: "0 < unat step" "unat start \<le> unat last_value"
    using assms(1,2) by (simp_all add: word_less_nat_alt word_le_nat_alt)
  have "?n * unat step \<le> unat last_value - unat start" by simp
  with s(2) have "unat start + ?n * unat step \<le> unat last_value" by linarith
  moreover have "unat last_value - unat start < Suc ?n * unat step"
    using dividend_less_times_div [OF s(1), of "unat last_value - unat start"] by (simp add: algebra_simps)
  with s(2) have "unat last_value < unat start + Suc ?n * unat step" by linarith
  ultimately obtain r where "linear_loop size_ops (fixed_trial meets settled) last_value step fuel start [] =
      Some (Inr r, [] @ up_to_failure meets (map (\<lambda>k. start + word_of_nat k * step) [0..<Suc ?n]))"
    using linear_loop_trace [of step start ?n last_value fuel meets settled "[]"] s(1) assms(3-5) by blast
  then show ?thesis by (cases r) (simp add: Profile_search_def del: upt_Suc)
qed

theorem linear_search_trace_witness:
  "\<exists>err. Profile_search size_ops (fixed_trial (\<lambda>v. v < 5) (\<lambda>_. True)) undefined 4 LINEAR 1 8 2 [] = Some (err, [1, 3, 5])"
  using linear_search_trace [of 2 1 8 4 "\<lambda>v. v < 5" "\<lambda>_. True" undefined]
  by (simp add: upt_conv_Cons up_to_failure_def del: upt_Suc)

text \<open>
  C6: When the lowest concurrency meets the threshold and the highest does not, the binary
  search with a positive precision ends, after at most \<open>n\<close> more experiments where the range
  has at most \<open>2^n\<close> values, and two of the concurrencies it measured bracket the limit: the
  lower meets the threshold, the higher does not, and they differ by at most the precision.
\<close>

theorem binary_search_bracket:
  fixes a b step :: u64
  assumes "a < b" and "unat b < 2 ^ 63" and "meets a" and "\<not> meets b" and "0 < step"
    and "unat b - unat a \<le> 2 ^ n" and "n < fuel"
  shows "\<exists>lo hi tr. Profile_search size_ops (fixed_trial meets settled) P0 fuel BINARY a b step [] = Some (Success, tr) \<and>
    lo \<in> set tr \<and> hi \<in> set tr \<and> meets lo \<and> \<not> meets hi \<and> lo < hi \<and> hi - lo \<le> step \<and>
    length tr \<le> n + 2 \<and> (\<forall>v \<in> set tr. a \<le> v \<and> v \<le> b)"
proof -
  obtain a' b' tr where r: "binary_loop size_ops (fixed_trial meets settled) step fuel a b [a, b] = Some (Inr (a', b'), [a, b] @ tr)"
    "meets a'" "\<not> meets b'" "a' < b'" "b' - a' \<le> step" "length tr \<le> n" "\<forall>v \<in> set tr. a < v \<and> v < b"
    "a' \<in> insert a (set tr)" "b' \<in> insert b (set tr)"
    using binary_loop_bracket [of a b meets step n fuel settled "[a, b]"] assms by (auto simp: word_less_nat_alt)
  have "Profile_search size_ops (fixed_trial meets settled) P0 fuel BINARY a b step [] = Some (Success, [a, b] @ tr)"
    using r(1) assms(3,4) by (simp add: Profile_search_def fixed_trial_app [of meets settled a] fixed_trial_app [of meets settled b])
  with r assms(1) show ?thesis
    by (intro exI [of _ a'] exI [of _ b'] exI [of _ "[a, b] @ tr"]) auto
qed

theorem binary_search_bracket_witness:
  "\<exists>lo hi tr. Profile_search size_ops (fixed_trial (\<lambda>v. v \<le> 5) (\<lambda>_. True)) undefined 5 BINARY 1 16 1 [] = Some (Success, tr) \<and>
    lo \<in> set tr \<and> hi \<in> set tr \<and> lo \<le> 5 \<and> \<not> hi \<le> 5 \<and> hi - lo \<le> 1 \<and> length tr \<le> 6"
  using binary_search_bracket [of 1 16 "\<lambda>v. v \<le> 5" 1 4 5 "\<lambda>_. True" undefined] by auto

section \<open>The trials of a run\<close>

text \<open>
  The results of the first \<open>n\<close> measurements of a run that starts in the state \<open>st\<close>, in order,
  and the state after them; the workers are healthy before each of them and none throws.
\<close>

definition measure_at where
  "measure_at cfg depth rc envs e0 k st =
     Measure cfg depth (measure_config_of cfg rc) (measurement (envs k))
       ((new_perf_status (envs k))\<lparr>ps_concurrency := ps_concurrency e0, ps_request_rate := ps_request_rate e0\<rparr>) st"

primrec measurements ::
  "profiler_config \<Rightarrow> nat \<Rightarrow> u64 \<Rightarrow> (nat \<Rightarrow> trial_env) \<Rightarrow> perf_status \<Rightarrow> profiler_state \<Rightarrow> nat \<Rightarrow>
     ((cb_error + perf_status) list \<times> profiler_state) option" where
  "measurements cfg depth rc envs e0 st 0 = Some ([], st)"
| "measurements cfg depth rc envs e0 st (Suc n) =
     (case measurements cfg depth rc envs e0 st n of
        None \<Rightarrow> None
      | Some (rs, st1) \<Rightarrow>
          if \<not> IsOk (health (envs n)) then None
          else (case measure_at cfg depth rc envs e0 n st1 of
                  Some (Inr (r, st2)) \<Rightarrow> Some (rs @ [r], st2)
                | _ \<Rightarrow> None))"

text \<open>The load after some results, the results in the stability window, and the tests that end a run.\<close>

definition loads :: "profiler_config \<Rightarrow> (cb_error + perf_status) list \<Rightarrow> load_status" where
  "loads cfg rs = foldl (\<lambda>ls r. add_load cfg r ls) empty_load_status rs"

definition last_window :: "profiler_config \<Rightarrow> 'a list \<Rightarrow> 'a list" where
  "last_window cfg rs = drop (length rs - stability_window cfg) rs"

definition conclusive ::
  "profiler_config \<Rightarrow> u64 \<Rightarrow> (nat \<Rightarrow> trial_env) \<Rightarrow> (cb_error + perf_status) list \<Rightarrow> bool" where
  "conclusive cfg rc envs rs \<longleftrightarrow>
     rc \<noteq> 0 \<or> early_exit (envs (length rs - 1)) \<or>
     IsDoneProfiling cfg (ranks (envs (length rs - 1))) (loads cfg rs) (DetermineStability cfg (loads cfg rs) True)"

lemma measurements_length: "measurements cfg depth rc envs e0 st n = Some (rs, st1) \<Longrightarrow> length rs = n"
  by (induction n arbitrary: rs st1) (auto split: option.splits prod.splits sum.splits if_splits)

lemma loads_snoc: "loads cfg (rs @ [r]) = add_load cfg r (loads cfg rs)"
  by (simp add: loads_def)

lemma push_last_window: "push_window cfg r (last_window cfg rs) = last_window cfg (rs @ [r])"
proof (cases "length rs < stability_window cfg")
  case False
  then have "length rs - stability_window cfg < length rs \<or> stability_window cfg = 0" by linarith
  with False show ?thesis
    by (auto simp: push_window_def last_window_def Let_def tl_drop Suc_diff_le drop_Suc)
qed (simp add: push_window_def last_window_def)

lemma loads_lists:
  "ls_infer_per_sec (loads cfg rs) = map ips_of rs" "ls_latencies (loads cfg rs) = map lat_of rs"
  by (induction rs rule: rev_induct) (simp_all add: loads_snoc add_load_lists, simp_all add: loads_def empty_load_status_def)

lemma trial_inv_loads: "trial_inv cfg (last_window cfg rs) (loads cfg rs)"
  by (auto simp: trial_inv_def loads_lists last_window_def drop_map)

lemma profile_loop_trace:
  assumes "profile_loop cfg depth rc envs e0 k (last_window cfg rs0) (loads cfg rs0) st = Some r"
    and "measurements cfg depth rc envs e0 st0 k = Some (rs0, st)"
    and "\<forall>m. 0 < m \<and> m \<le> k \<longrightarrow> \<not> conclusive cfg rc envs (take m rs0)"
    and "k < max 1 (unat (max_trials cfg))"
  shows "\<exists>n rs st1. measurements cfg depth rc envs e0 st0 n = Some (rs, st1) \<and>
    (\<forall>m. 0 < m \<and> m < n \<longrightarrow> \<not> conclusive cfg rc envs (take m rs)) \<and>
    ((n < max 1 (unat (max_trials cfg)) \<and> \<not> IsOk (health (envs n)) \<and> r = Inr (Inl (health (envs n)), st1)) \<or>
     (n < max 1 (unat (max_trials cfg)) \<and> (\<exists>x. measure_at cfg depth rc envs e0 n st1 = Some (Inl x) \<and> r = Inl x)) \<or>
     (0 < n \<and> n \<le> max 1 (unat (max_trials cfg)) \<and> (n = max 1 (unat (max_trials cfg)) \<or> conclusive cfg rc envs rs) \<and>
      r = finish_profile cfg (early_exit (envs (n - 1))) (last_window cfg rs) (loads cfg rs)
        (rc \<noteq> 0 \<or> DetermineStability cfg (loads cfg rs) True) e0 st1))"
  using assms
proof (induction "max 1 (unat (max_trials cfg)) - k" arbitrary: k rs0 st rule: less_induct)
  case less
  note len = measurements_length [OF less.prems(2)]
  have nc: "\<forall>m. 0 < m \<and> m < k \<longrightarrow> \<not> conclusive cfg rc envs (take m rs0)" using less.prems(3) by simp
  show ?case
  proof (cases "IsOk (health (envs k))")
    case False
    then have "r = Inr (Inl (health (envs k)), st)"
      using less.prems(1) by (subst (asm) profile_loop.simps) (simp add: Let_def)
    with less.prems(2,4) nc False show ?thesis by blast
  next
    case ok: True
    show ?thesis
    proof (cases "measure_at cfg depth rc envs e0 k st")
      case None
      with less.prems(1) ok show ?thesis
        by (subst (asm) profile_loop.simps) (simp add: Let_def measure_at_def)
    next
      case (Some o1)
      show ?thesis
      proof (cases o1)
        case (Inl x)
        with Some less.prems(1) ok have "r = Inl x"
          by (subst (asm) profile_loop.simps) (simp add: Let_def measure_at_def)
        with less.prems(2,4) nc Some Inl show ?thesis by blast
      next
        case (Inr v)
        obtain r1 st1 where v: "v = (r1, st1)" by (cases v)
        let ?rs = "rs0 @ [r1]"
        have ms: "measurements cfg depth rc envs e0 st0 (Suc k) = Some (?rs, st1)"
          using less.prems(2) Some Inr v ok by simp
        have nc': "\<forall>m. 0 < m \<and> m < Suc k \<longrightarrow> \<not> conclusive cfg rc envs (take m ?rs)"
          using less.prems(3) len by simp
        have eq: "profile_loop cfg depth rc envs e0 k (last_window cfg rs0) (loads cfg rs0) st =
          (if \<not> conclusive cfg rc envs ?rs \<and> Suc k < unat (max_trials cfg)
           then profile_loop cfg depth rc envs e0 (Suc k) (last_window cfg ?rs) (loads cfg ?rs) st1
           else Some (finish_profile cfg (early_exit (envs k)) (last_window cfg ?rs) (loads cfg ?rs)
             (rc \<noteq> 0 \<or> DetermineStability cfg (loads cfg ?rs) True) e0 st1))"
          using profile_loop_unfold [where envs = envs and k = k and r = r1 and ?st1.0 = st1, OF ok] Some Inr v len
          by (simp add: measure_at_def push_last_window loads_snoc conclusive_def)
        show ?thesis
        proof (cases "\<not> conclusive cfg rc envs ?rs \<and> Suc k < unat (max_trials cfg)")
          case True
          have "\<forall>m. 0 < m \<and> m \<le> Suc k \<longrightarrow> \<not> conclusive cfg rc envs (take m ?rs)"
            using nc' True len by (metis le_eq_less_or_eq length_append_singleton less_Suc_eq_le take_all)
          moreover have "profile_loop cfg depth rc envs e0 (Suc k) (last_window cfg ?rs) (loads cfg ?rs) st1 = Some r"
            using less.prems(1) eq True by simp
          moreover have "max 1 (unat (max_trials cfg)) - Suc k < max 1 (unat (max_trials cfg)) - k"
            "Suc k < max 1 (unat (max_trials cfg))" using less.prems(4) True by auto
          ultimately show ?thesis using less.hyps [OF _ _ ms] by blast
        next
          case False
          have le: "Suc k \<le> max 1 (unat (max_trials cfg))" using less.prems(4) by simp
          have "Suc k = max 1 (unat (max_trials cfg)) \<or> conclusive cfg rc envs ?rs" using False le by auto
          moreover have "r = finish_profile cfg (early_exit (envs (Suc k - 1))) (last_window cfg ?rs) (loads cfg ?rs)
             (rc \<noteq> 0 \<or> DetermineStability cfg (loads cfg ?rs) True) e0 st1"
            using less.prems(1) eq False by simp
          ultimately show ?thesis using ms nc' le by blast
        qed
      qed
    qed
  qed
qed

lemma finish_state: "finish_profile cfg x ws ls s0 e0 st = Inr (Inr v, st') \<Longrightarrow> st' = st"
proof -
  assume r: "finish_profile cfg x ws ls s0 e0 st = Inr (Inr v, st')"
  let ?m = "if s0 \<or> (async_mode cfg \<and> DetermineStability cfg ls False)
    then MergePerfStatusReports cfg (map projr ws) e0 else Inr e0"
  show ?thesis
    using r by (cases "(?m, st)" rule: outcome_of.cases)
      (auto simp: finish_profile_def Let_def split: option.splits if_splits)
qed

abbreviation fresh_state :: "profiler_state \<Rightarrow> profiler_state" where
  "fresh_state st \<equiv> st\<lparr>all_request_records := [], previous_window_end_ns := 0\<rparr>"

lemma stable_run:
  assumes "ProfileHelper cfg depth rc swap envs e0 st = Some (Inr (Inr (e, True), st'))"
  obtains n rs ps cl where "measurements cfg depth rc envs e0 (fresh_state st) n = Some (rs, st')" and "0 < n"
    and "rc \<noteq> 0 \<Longrightarrow> n = 1" and "last_window cfg rs = map Inr ps" and "MergePerfStatusReports cfg ps e0 = Inr e"
    and "rc = 0 \<Longrightarrow> DetermineStability cfg (loads cfg rs) cl" and "\<not> async_mode cfg \<Longrightarrow> cl"
proof -
  from assms have run: "profile_loop cfg depth rc envs e0 0 (last_window cfg []) (loads cfg []) (fresh_state st) =
      Some (Inr (Inr (e, True), st'))"
    by (auto simp: ProfileHelper_def Let_def last_window_def loads_def split: sum.splits)
  have "0 < max 1 (unat (max_trials cfg))" by simp
  from profile_loop_trace [OF run _ _ this, of "fresh_state st"] obtain n rs st1 where
    m: "measurements cfg depth rc envs e0 (fresh_state st) n = Some (rs, st1)" and n: "0 < n"
    and nc: "\<forall>m. 0 < m \<and> m < n \<longrightarrow> \<not> conclusive cfg rc envs (take m rs)"
    and fin: "finish_profile cfg (early_exit (envs (n - 1))) (last_window cfg rs) (loads cfg rs)
        (rc \<noteq> 0 \<or> DetermineStability cfg (loads cfg rs) True) e0 st1 = Inr (Inr (e, True), st')"
    by fastforce
  have st: "st' = st1" by (rule finish_state [OF fin])
  from finish_success [OF fin] obtain ps where
    ps: "last_window cfg rs = map Inr ps" "MergePerfStatusReports cfg ps e0 = Inr e"
    and D: "(rc \<noteq> 0 \<or> DetermineStability cfg (loads cfg rs) True) \<or>
      (async_mode cfg \<and> DetermineStability cfg (loads cfg rs) False)" by blast
  have "rc \<noteq> 0 \<Longrightarrow> n = 1" using nc n by (metis Suc_leI conclusive_def le_neq_implies_less less_one One_nat_def)
  moreover obtain cl where "rc = 0 \<longrightarrow> DetermineStability cfg (loads cfg rs) cl" "\<not> async_mode cfg \<longrightarrow> cl"
    using D by metis
  ultimately show thesis using that [of n rs ps cl] m n ps st by simp
qed

lemma threshold_finite:
  assumes "0 \<le> t" and "t \<le> 1000"
  shows "ieee_add binary64 (Fin 1) (Fin t) \<noteq> PInf"
proof -
  have "fin binary64 (1 + t) = Fin (rnd binary64 (1 + t))"
    using assms by (intro fin64_eq [of 0 _ 1001]) simp_all
  then show ?thesis by simp
qed

lemma latency_ratios:
  assumes "minmax (<) (map stabilizing_latency_ns ps) = (mn, mx)"
    and "ieee_le (ieee_div binary64 (ieee_of_int binary64 (uint mx)) (ieee_of_int binary64 (uint mn))) b"
    and "b \<noteq> PInf" and "p \<in> set ps" and "q \<in> set ps"
  shows "ieee_le (ieee_div binary64 (ieee_of_int binary64 (uint (stabilizing_latency_ns p)))
                  (ieee_of_int binary64 (uint (stabilizing_latency_ns q)))) b"
proof -
  have ne: "ps \<noteq> []" using assms(4) by auto
  note mm = minmax_bounds [OF assms(1), where f = "\<lambda>x. x"]
  show ?thesis
    by (rule u64_ratio_le [OF assms(2) _ _ assms(3)]) (use mm(3,4) ne assms(4,5) in auto)
qed

lemma throughput_ratios:
  assumes pos: "\<forall>p \<in> set ps. \<exists>x > 0. infer_per_sec (client_stats p) = Fin x"
    and ab: "minmax ieee_lt (map (\<lambda>p. infer_per_sec (client_stats p)) ps) = (a, b)"
      "ieee_le (ieee_div binary64 b a) c"
    and pq: "p \<in> set ps" "q \<in> set ps"
  shows "ieee_le (ieee_div binary64 (infer_per_sec (client_stats p)) (infer_per_sec (client_stats q))) c"
proof -
  let ?xs = "map (\<lambda>p. infer_per_sec (client_stats p)) ps"
  have ne: "ps \<noteq> []" using pq by auto
  define f where "f = (\<lambda>v. case v of Fin x \<Rightarrow> x | _ \<Rightarrow> 0)"
  have F: "v = Fin (f v) \<and> 0 < f v" if "v \<in> set ?xs" for v using pos that by (force simp: f_def)
  have "ieee_lt x y \<longleftrightarrow> f x < f y" if "x \<in> set ?xs" "y \<in> set ?xs" for x y
    using F [OF that(1)] F [OF that(2)] by (metis ieee_lt.simps(1))
  note mi = minmax_bounds [OF ab(1) _ this]
  have m: "a \<in> set ?xs" "b \<in> set ?xs" using mi(1,2) ne by simp_all
  let ?p = "infer_per_sec (client_stats p)" and ?q = "infer_per_sec (client_stats q)"
  have m2: "f a \<le> f ?q" "f ?p \<le> f b" "0 < f ?p" using mi(3) [of ?q] mi(4) [of ?p] F [of ?p] ne pq by auto
  have "ieee_le (ieee_div binary64 (Fin (f ?p)) (Fin (f ?q))) c"
    by (rule ratio_le [of "f b" "f a"]) (use ab(2) F [OF m(1)] F [OF m(2)] m2 in auto)
  moreover have "?p = Fin (f ?p)" "?q = Fin (f ?q)" using F [of ?p] F [of ?q] pq by auto
  ultimately show ?thesis by metis
qed

text \<open>
  C1: When an experiment is declared stable, its result is the merge of exactly the
  last measurements of the run (\<open>rs\<close> are all its results, in order), as many as the stability window has, none
  of which failed. With a request count the run is one measurement. Without one, the window is
  full, no measurement has throughput 0, any two throughputs of it (positive numbers) have a
  ratio of at most one plus the threshold, and so have any two latencies, unless the mode is
  asynchronous, where the relaxed test does not look at them.
\<close>

theorem stable_result_sound:
  assumes "ProfileHelper cfg depth rc swap envs e0 st = Some (Inr (Inr (e, True), st'))"
    and "0 < stability_window cfg"
    and "stability_threshold cfg = Fin t" and "0 \<le> t" and "t \<le> 1000"
  shows "\<exists>n rs ps.
    measurements cfg depth rc envs e0 (st\<lparr>all_request_records := [], previous_window_end_ns := 0\<rparr>) n = Some (rs, st') \<and>
    0 < n \<and> length rs = n \<and> drop (n - stability_window cfg) rs = map Inr ps \<and>
    MergePerfStatusReports cfg ps e0 = Inr e \<and> (rc \<noteq> 0 \<longrightarrow> n = 1) \<and>
    (rc = 0 \<longrightarrow>
      length ps = stability_window cfg \<and>
      (\<forall>p \<in> set ps. \<not> ieee_eq (infer_per_sec (client_stats p)) (Fin 0)) \<and>
      ((\<forall>p \<in> set ps. \<exists>x > 0. infer_per_sec (client_stats p) = Fin x) \<longrightarrow>
         (\<forall>p \<in> set ps. \<forall>q \<in> set ps.
            ieee_le (ieee_div binary64 (infer_per_sec (client_stats p)) (infer_per_sec (client_stats q)))
              (ieee_add binary64 (Fin 1) (Fin t)))) \<and>
      (\<not> async_mode cfg \<longrightarrow>
         (\<forall>p \<in> set ps. \<forall>q \<in> set ps.
            ieee_le (ieee_div binary64 (ieee_of_int binary64 (uint (stabilizing_latency_ns p)))
                       (ieee_of_int binary64 (uint (stabilizing_latency_ns q))))
              (ieee_add binary64 (Fin 1) (Fin t)))))"
proof -
  from stable_run [OF assms(1)] obtain n rs ps cl where
    run: "measurements cfg depth rc envs e0 (fresh_state st) n = Some (rs, st')" "0 < n" "rc \<noteq> 0 \<longrightarrow> n = 1"
    and w: "last_window cfg rs = map Inr ps" "MergePerfStatusReports cfg ps e0 = Inr e"
    and D: "rc = 0 \<longrightarrow> DetermineStability cfg (loads cfg rs) cl" and cl: "\<not> async_mode cfg \<longrightarrow> cl"
    by metis
  have len: "length rs = n" by (rule measurements_length [OF run(1)])
  let ?c = "ieee_add binary64 (Fin 1) (Fin t)"
  have stable: "length ps = stability_window cfg \<and>
      (\<forall>p \<in> set ps. \<not> ieee_eq (infer_per_sec (client_stats p)) (Fin 0)) \<and>
      ((\<forall>p \<in> set ps. \<exists>x > 0. infer_per_sec (client_stats p) = Fin x) \<longrightarrow>
         (\<forall>p \<in> set ps. \<forall>q \<in> set ps.
            ieee_le (ieee_div binary64 (infer_per_sec (client_stats p)) (infer_per_sec (client_stats q))) ?c)) \<and>
      (\<not> async_mode cfg \<longrightarrow>
         (\<forall>p \<in> set ps. \<forall>q \<in> set ps.
            ieee_le (ieee_div binary64 (ieee_of_int binary64 (uint (stabilizing_latency_ns p)))
                       (ieee_of_int binary64 (uint (stabilizing_latency_ns q)))) ?c))" if "rc = 0"
  proof -
    have inv: "trial_inv cfg (map Inr ps) (loads cfg rs)" using trial_inv_loads [of cfg rs] by (simp add: w(1))
    note S = stable_window [OF inv D [rule_format, OF that] assms(2), unfolded assms(3)]
    show ?thesis
      using S(1,2) S(3) S(4) cl latency_ratios [OF _ _ threshold_finite [OF assms(4,5)]] throughput_ratios by blast
  qed
  have "drop (n - stability_window cfg) rs = map Inr ps" using w(1) len by (simp add: last_window_def)
  with run w(2) len stable show ?thesis by blast
qed

theorem stable_result_sound_witness:
  "\<exists>e st' n rs ps. ProfileHelper ex_cfg 1 0 (Inr []) ex_trial zero_perf_status ex_state = Some (Inr (Inr (e, True), st')) \<and>
     measurements ex_cfg 1 0 ex_trial zero_perf_status (fresh_state ex_state) n = Some (rs, st') \<and>
     drop (n - 3) rs = map Inr ps \<and> length ps = 3 \<and> MergePerfStatusReports ex_cfg ps zero_perf_status = Inr e"
proof -
  obtain e st' where r: "ProfileHelper ex_cfg 1 0 (Inr []) ex_trial zero_perf_status ex_state = Some (Inr (Inr (e, True), st'))"
    by (rule ex_run)
  show ?thesis using stable_result_sound [OF r, of "1 / 8"] r by auto
qed

lemma profile_loop_returns:
  assumes "pc_measurement_mode cfg = TIME_WINDOWS"
  shows "\<exists>r. profile_loop cfg depth rc envs e0 k ws ls st = Some r"
proof -
  have M: "Measure cfg depth (measure_config_of cfg rc) env status st \<noteq> None" for env status st
    unfolding Measure_def Let_def using assms
    by (cases "measure_start cfg env st") (auto simp: measure_config_of_def split: sum.split)
  have "profile_loop cfg depth rc envs e0 k ws ls st \<noteq> None" for k ws ls st
  proof (induction "unat (max_trials cfg) - k" arbitrary: k ws ls st rule: less_induct)
    case less
    let ?m = "Measure cfg depth (measure_config_of cfg rc) (measurement (envs k))
      ((new_perf_status (envs k))\<lparr>ps_concurrency := ps_concurrency e0, ps_request_rate := ps_request_rate e0\<rparr>) st"
    obtain o1 where o1: "?m = Some o1" using M by blast
    show ?case
    proof (cases o1)
      case (Inl x)
      with o1 show ?thesis by (subst profile_loop.simps) (simp add: Let_def)
    next
      case (Inr v)
      obtain r st1 where v: "v = (r, st1)" by (cases v)
      show ?thesis
      proof (cases "IsOk (health (envs k))")
        case True
        show ?thesis
          unfolding profile_loop_unfold [where envs = envs and k = k, OF True o1 [unfolded Inr v]]
          using less [of "Suc k" "push_window cfg r ws" "add_load cfg r ls" st1] by (auto split: if_split)
      qed (subst profile_loop.simps, simp add: Let_def)
    qed
  qed
  then show ?thesis by simp
qed

text \<open>
  C37: With windows of a given duration every experiment ends, and its trials are known
  exactly: the run is \<open>n\<close> measurements, none before the last of which is conclusive (a request
  count, the exit signal, a stable window or one over the limit), and it ends after the
  measurement \<open>n\<close> only if that is conclusive or \<open>n\<close> is \<open>max(1, max_trials)\<close>; earlier only when
  the workers are not healthy or the measurement throws. The result is then that of the
  results measured, whatever the server, the manager and the clock answer.
\<close>

theorem experiment_ends:
  assumes "pc_measurement_mode cfg = TIME_WINDOWS"
  shows "\<exists>r n rs st1. ProfileHelper cfg depth rc (Inr recs) envs e0 st = Some r \<and>
    measurements cfg depth rc envs e0 (st\<lparr>all_request_records := [], previous_window_end_ns := 0\<rparr>) n = Some (rs, st1) \<and>
    (\<forall>m. 0 < m \<and> m < n \<longrightarrow> \<not> conclusive cfg rc envs (take m rs)) \<and>
    ((n < max 1 (unat (max_trials cfg)) \<and> \<not> IsOk (health (envs n)) \<and> r = Inr (Inl (health (envs n)), st1)) \<or>
     (n < max 1 (unat (max_trials cfg)) \<and> (\<exists>x. measure_at cfg depth rc envs e0 n st1 = Some (Inl x) \<and> r = Inl x)) \<or>
     (0 < n \<and> n \<le> max 1 (unat (max_trials cfg)) \<and> (n = max 1 (unat (max_trials cfg)) \<or> conclusive cfg rc envs rs) \<and>
      r = finish_profile cfg (early_exit (envs (n - 1))) (drop (n - stability_window cfg) rs) (loads cfg rs)
        (rc \<noteq> 0 \<or> DetermineStability cfg (loads cfg rs) True) e0 st1))"
proof -
  obtain r where r: "profile_loop cfg depth rc envs e0 0 [] empty_load_status (fresh_state st) = Some r"
    using profile_loop_returns [OF assms] by blast
  then have "profile_loop cfg depth rc envs e0 0 (last_window cfg []) (loads cfg []) (fresh_state st) = Some r"
    by (simp add: last_window_def loads_def)
  note run = this
  have "0 < max 1 (unat (max_trials cfg))" by simp
  from profile_loop_trace [OF run _ _ this, of "fresh_state st"] obtain n rs st1 where
    "measurements cfg depth rc envs e0 (fresh_state st) n = Some (rs, st1)"
    "\<forall>m. 0 < m \<and> m < n \<longrightarrow> \<not> conclusive cfg rc envs (take m rs)"
    "(n < max 1 (unat (max_trials cfg)) \<and> \<not> IsOk (health (envs n)) \<and> r = Inr (Inl (health (envs n)), st1)) \<or>
     (n < max 1 (unat (max_trials cfg)) \<and> (\<exists>x. measure_at cfg depth rc envs e0 n st1 = Some (Inl x) \<and> r = Inl x)) \<or>
     (0 < n \<and> n \<le> max 1 (unat (max_trials cfg)) \<and> (n = max 1 (unat (max_trials cfg)) \<or> conclusive cfg rc envs rs) \<and>
      r = finish_profile cfg (early_exit (envs (n - 1))) (last_window cfg rs) (loads cfg rs)
        (rc \<noteq> 0 \<or> DetermineStability cfg (loads cfg rs) True) e0 st1)"
    by fastforce
  moreover from this(1) have "last_window cfg rs = drop (n - stability_window cfg) rs"
    by (simp add: last_window_def measurements_length)
  moreover have "ProfileHelper cfg depth rc (Inr recs) envs e0 st = Some r" using r by (simp add: ProfileHelper_def)
  ultimately show ?thesis by metis
qed

theorem experiment_ends_witness:
  "\<exists>r n rs st1. ProfileHelper ex_config 1 0 (Inr []) ex_trial zero_perf_status ex_state = Some r \<and>
     measurements ex_config 1 0 ex_trial zero_perf_status (fresh_state ex_state) n = Some (rs, st1) \<and>
     n \<le> max 1 (unat (max_trials ex_config))"
  using experiment_ends [of ex_config 1 0 "[]" ex_trial zero_perf_status ex_state]
  by (force simp: ex_config_def)

text \<open>
  C24: An experiment that is declared stable has measured at least once, and its report is the
  merge of the last measurements of its own run, those of the stability window. This report,
  and nothing else, is added to the reports, unless its latency is not below the
  latency limit; the threshold is met exactly when the report was added and could be printed. An
  experiment that is not stable adds nothing and does not meet the threshold.
\<close>

theorem experiment_verdict:
  assumes "profile_experiment cfg depth rc env ps0 pss st = Some (Inr (Inr (pss', meets, is_stable), st'))"
  shows "(\<not> is_stable \<longrightarrow> pss' = pss \<and> \<not> meets) \<and>
    (is_stable \<longrightarrow> (\<exists>n rs ps p.
       measurements cfg depth rc (trials env) ps0 (st\<lparr>all_request_records := [], previous_window_end_ns := 0\<rparr>) n = Some (rs, st') \<and>
       0 < n \<and> length rs = n \<and> drop (n - stability_window cfg) rs = map Inr ps \<and>
       MergePerfStatusReports cfg ps ps0 = Inr p \<and>
       (if latency_threshold_ms cfg \<noteq> 0 \<and> latency_threshold_ms cfg \<le> stabilizing_latency_ns p div 1000000
        then pss' = pss \<and> \<not> meets
        else pss' = pss @ [p] \<and> meets = IsOk (report env))))"
proof -
  from assms obtain h where h: "ProfileHelper cfg depth rc (initial_swap env) (trials env) ps0 st = Some h"
    and t: "then_do h (\<lambda>(ps, is_stable) st1.
              let ms = stabilizing_latency_ns ps div word_of_nat NANOS_PER_MILLIS in
              if ms \<ge> latency_threshold_ms cfg \<and> latency_threshold_ms cfg \<noteq> NO_LIMIT
              then Inr (Inr (pss, False, is_stable), st1)
              else if \<not> is_stable then Inr (Inr (pss, False, is_stable), st1)
              else Inr (Inr (pss @ [ps], IsOk (report env), is_stable), st1)) =
      Inr (Inr (pss', meets, is_stable), st')"
    by (auto simp: profile_experiment_def split: option.splits)
  obtain p b st1 where hp: "h = Inr (Inr (p, b), st1)"
    using t by (cases h rule: then_do.cases [of "(h, undefined)" for h]) auto
  have res: "b = is_stable" "st1 = st'"
    "if latency_threshold_ms cfg \<noteq> 0 \<and> latency_threshold_ms cfg \<le> stabilizing_latency_ns p div 1000000
     then pss' = pss \<and> \<not> meets else if \<not> is_stable then pss' = pss \<and> \<not> meets
     else pss' = pss @ [p] \<and> meets = IsOk (report env)"
    using t hp by (auto simp: Let_def NO_LIMIT_def NANOS_PER_MILLIS_def split: if_splits)
  have "\<exists>n rs ps. measurements cfg depth rc (trials env) ps0 (fresh_state st) n = Some (rs, st') \<and> 0 < n \<and>
      length rs = n \<and> drop (n - stability_window cfg) rs = map Inr ps \<and> MergePerfStatusReports cfg ps ps0 = Inr p"
    if is_stable
  proof -
    have "ProfileHelper cfg depth rc (initial_swap env) (trials env) ps0 st = Some (Inr (Inr (p, True), st'))"
      using h hp res(1,2) that by simp
    from stable_run [OF this] obtain n rs ps where
      run: "measurements cfg depth rc (trials env) ps0 (fresh_state st) n = Some (rs, st')" "0 < n"
        "last_window cfg rs = map Inr ps" "MergePerfStatusReports cfg ps ps0 = Inr p" by metis
    moreover have "length rs = n" by (rule measurements_length [OF run(1)])
    ultimately show ?thesis by (auto simp: last_window_def)
  qed
  with res(3) show ?thesis by (auto split: if_splits)
qed

theorem experiment_verdict_witness:
  "\<exists>p st' n rs ps. profile_experiment ex_cfg 1 0 \<lparr>setup_results = [], custom_rate = Fin 0, initial_swap = Inr [],
       trials = ex_trial, report = Success\<rparr> zero_perf_status [] ex_state = Some (Inr (Inr ([p], True, True), st')) \<and>
     measurements ex_cfg 1 0 ex_trial zero_perf_status (fresh_state ex_state) n = Some (rs, st') \<and>
     drop (n - 3) rs = map Inr ps \<and> MergePerfStatusReports ex_cfg ps zero_perf_status = Inr p"
proof -
  let ?env = "\<lparr>setup_results = [], custom_rate = Fin 0, initial_swap = Inr [], trials = ex_trial, report = Success\<rparr>"
  obtain e st' where "ProfileHelper ex_cfg 1 0 (Inr []) ex_trial zero_perf_status ex_state = Some (Inr (Inr (e, True), st'))"
    by (rule ex_run)
  then have r: "profile_experiment ex_cfg 1 0 ?env zero_perf_status [] ex_state = Some (Inr (Inr ([e], True, True), st'))"
    by (simp add: profile_experiment_def Let_def NO_LIMIT_def)
  from experiment_verdict [OF r] show ?thesis using r by (auto split: if_splits)
qed

end
