(* ===== verification/Load_Manager.thy ===== *)
theory Load_Manager
  imports Client_Stats Sequence_Manager Rate_Schedule
begin

text \<open>
  \<open>LoadManager\<close> of \<open>load_manager.cc\<close>, the base of all the managers that keep worker
  threads busy, with the structures it shares with the workers: \<open>ThreadConfig\<close>
  (\<open>thread_config.h\<close>) and \<open>ThreadStat\<close> (\<open>thread_stat.h\<close>). A derived manager is an
  extension of the record, so that the operations of the base apply to every one of them.

  The structures are shared between the manager and one worker each; the \<open>i\<close>-th entries
  of \<open>threads_stat\<close>, \<open>threads_config\<close> and \<open>workers\<close> belong together. What a worker thread
  changes in them between two operations of the manager is not part of an operation: the
  operations are stated for any contents of the lists.
\<close>

section \<open>What a manager shares with a worker\<close>

record thread_config =
  thread_id :: nat
  concurrency :: nat
  num_sequences :: u32
  num_requests :: nat
  seq_stat_index_offset :: nat
  is_paused :: bool

definition ThreadConfig :: "nat \<Rightarrow> thread_config" where
  "ThreadConfig tid = \<lparr>thread_id = tid, concurrency = 0, num_sequences = 1, num_requests = 0,
     seq_stat_index_offset = 0, is_paused = False\<rparr>"

record thread_stat =
  status :: cb_error
  cb_status :: cb_error
  contexts_stat :: "infer_stat list"
  ts_idle_timer :: idle_timer
  request_records :: "request_record list"
  num_sent_requests :: u64

definition ThreadStat :: thread_stat where
  "ThreadStat = \<lparr>status = Success, cb_status = Success, contexts_stat = [],
     ts_idle_timer = new_timer, request_records = [], num_sent_requests = 0\<rparr>"

text \<open>
  What the managers know of a worker: its number and, for the workers that implement
  \<open>IScheduler\<close>, the schedule they were given and the offset into the data set.
\<close>

record worker =
  worker_id :: nat
  worker_schedule :: "rate_schedule option"
  dataset_offset :: nat

section \<open>The base manager\<close>

text \<open>
  \<open>threads\<close> lists the workers that have a running thread. \<open>early_exit\<close> is the global flag
  of \<open>perf_analyzer.cc\<close>.
\<close>

record 'g load_manager =
  max_threads :: nat
  on_sequence_model :: bool
  workers :: "worker list"
  threads :: "nat list"
  threads_stat :: "thread_stat list"
  threads_config :: "thread_config list"
  sequence_manager :: "'g sequence_manager option"
  early_exit :: bool

fun health_of :: "thread_stat list \<Rightarrow> cb_error" where
  "health_of [] = Success"
| "health_of (t # ts) =
     (if \<not> IsOk (status t) then
        generic_error (''Failed to maintain requested inference load.'' @
          '' Worker thread(s) failed to generate concurrent requests.'')
      else if \<not> IsOk (cb_status t) then
        generic_error ''Failed to retrieve results from inference request.''
      else health_of ts)"

definition CheckHealth :: "('g, 'z) load_manager_scheme \<Rightarrow> cb_error" where
  "CheckHealth m = health_of (threads_stat m)"

text \<open>
  \<open>SwapRequestRecords\<close> locks the threads one after the other: what it does under the lock of
  thread \<open>i\<close>, and the loop.
\<close>

definition swap_thread ::
  "request_record list \<times> ('g, 'z) load_manager_scheme \<Rightarrow> nat \<Rightarrow>
     request_record list \<times> ('g, 'z) load_manager_scheme" where
  "swap_thread = (\<lambda>(total_request_records, m) i.
     let t = threads_stat m ! i
     in (total_request_records @ request_records t,
         m\<lparr>threads_stat := (threads_stat m)[i := t\<lparr>request_records := []\<rparr>]\<rparr>))"

definition SwapRequestRecords ::
  "('g, 'z) load_manager_scheme \<Rightarrow> request_record list \<times> ('g, 'z) load_manager_scheme" where
  "SwapRequestRecords m = foldl swap_thread ([], m) [0..<length (threads_stat m)]"

definition CountCollectedRequests :: "('g, 'z) load_manager_scheme \<Rightarrow> u64" where
  "CountCollectedRequests m =
     foldl (\<lambda>n t. n + word_of_nat (length (request_records t))) 0 (threads_stat m)"

definition add_infer_stat :: "infer_stat \<Rightarrow> infer_stat \<Rightarrow> infer_stat" where
  "add_infer_stat a c = a\<lparr>
     completed_request_count := completed_request_count a + completed_request_count c,
     cumulative_total_request_time_ns :=
       cumulative_total_request_time_ns a + cumulative_total_request_time_ns c,
     cumulative_send_time_ns := cumulative_send_time_ns a + cumulative_send_time_ns c,
     cumulative_receive_time_ns := cumulative_receive_time_ns a + cumulative_receive_time_ns c\<rparr>"

definition GetAccumulatedClientStat ::
  "('g, 'z) load_manager_scheme \<Rightarrow> infer_stat \<Rightarrow> infer_stat" where
  "GetAccumulatedClientStat m out =
     foldl (\<lambda>acc t. foldl add_infer_stat acc (contexts_stat t))
       (out\<lparr>completed_request_count := 0, cumulative_receive_time_ns := 0,
            cumulative_send_time_ns := 0, cumulative_total_request_time_ns := 0\<rparr>)
       (threads_stat m)"

text \<open>Each timer is read at its own time, and twice: \<open>clk i\<close> are the readings for thread \<open>i\<close>.\<close>

fun idle_times :: "(nat \<Rightarrow> nanos \<times> nanos) \<Rightarrow> nat \<Rightarrow> thread_stat list \<Rightarrow>
    exn + u64 list \<times> thread_stat list" where
  "idle_times clk i [] = Inr ([], [])"
| "idle_times clk i (t # ts) =
     bindR (Rate_Schedule.GetIdleTime (fst (clk i)) (snd (clk i)) (ts_idle_timer t)) (\<lambda>(v, tm).
     bindR (idle_times clk (Suc i) ts) (\<lambda>(vs, ts').
       Inr (v # vs, t\<lparr>ts_idle_timer := tm\<rparr> # ts')))"

definition idle_total :: "u64 \<times> nat \<Rightarrow> u64 \<Rightarrow> u64 \<times> nat" where
  "idle_total acc v = (if v \<noteq> 0 then (fst acc + v, Suc (snd acc)) else acc)"

definition GetIdleTime_manager :: "(nat \<Rightarrow> nanos \<times> nanos) \<Rightarrow> ('g, 'z) load_manager_scheme \<Rightarrow>
    exn + u64 \<times> ('g, 'z) load_manager_scheme" where
  "GetIdleTime_manager clk m =
     bindR (idle_times clk 0 (threads_stat m)) (\<lambda>(vs, ts).
       let (tot, n) = foldl idle_total (0, 0) vs
       in Inr (if n \<noteq> 0 then tot div word_of_nat n else tot, m\<lparr>threads_stat := ts\<rparr>))"

fun reset_timers :: "(nat \<Rightarrow> nanos \<times> nanos) \<Rightarrow> nat \<Rightarrow> thread_stat list \<Rightarrow>
    exn + thread_stat list" where
  "reset_timers clk i [] = Inr []"
| "reset_timers clk i (t # ts) =
     bindR (ResetTimer (fst (clk i)) (snd (clk i)) (ts_idle_timer t)) (\<lambda>tm.
     bindR (reset_timers clk (Suc i) ts) (\<lambda>ts'. Inr (t\<lparr>ts_idle_timer := tm\<rparr> # ts')))"

definition ResetIdleTime :: "(nat \<Rightarrow> nanos \<times> nanos) \<Rightarrow> ('g, 'z) load_manager_scheme \<Rightarrow>
    exn + ('g, 'z) load_manager_scheme" where
  "ResetIdleTime clk m =
     bindR (reset_timers clk 0 (threads_stat m)) (\<lambda>ts. Inr (m\<lparr>threads_stat := ts\<rparr>))"

definition GetAndResetNumSentRequests ::
  "('g, 'z) load_manager_scheme \<Rightarrow> u64 \<times> ('g, 'z) load_manager_scheme" where
  "GetAndResetNumSentRequests m =
     (foldl (\<lambda>n t. n + num_sent_requests t) 0 (threads_stat m),
      m\<lparr>threads_stat := map (\<lambda>t. t\<lparr>num_sent_requests := 0\<rparr>) (threads_stat m)\<rparr>)"

text \<open>\<open>StopWorkerThreads\<close> returns what it prints: the thread's number and its error.\<close>

fun thread_errors :: "nat \<Rightarrow> thread_stat list \<Rightarrow> nat list \<Rightarrow> exn + (nat \<times> cb_error) list" where
  "thread_errors cnt stats [] = Inr []"
| "thread_errors cnt stats (_ # ths) =
     bindR (vec_index stats cnt) (\<lambda>t.
     bindR (thread_errors (Suc cnt) stats ths) (\<lambda>rest.
       Inr ((if \<not> IsOk (status t) then [(cnt, status t)] else []) @
            (if \<not> IsOk (cb_status t) then [(cnt, cb_status t)] else []) @ rest)))"

definition StopWorkerThreads :: "('g, 'z) load_manager_scheme \<Rightarrow>
    exn + (nat \<times> cb_error) list \<times> ('g, 'z) load_manager_scheme" where
  "StopWorkerThreads m =
     bindR (thread_errors 0 (threads_stat m) (threads m)) (\<lambda>errs.
       Inr (errs, m\<lparr>early_exit := True, threads := []\<rparr>))"

definition WaitForWarmupAndCleanup :: "('g, 'z) load_manager_scheme \<Rightarrow> ('g, 'z) load_manager_scheme" where
  "WaitForWarmupAndCleanup m =
     m\<lparr>threads := [], threads_config := [], threads_stat := [], workers := []\<rparr>"

section \<open>Lemmas\<close>

text \<open>The lists a manager keeps per worker have the same length.\<close>

definition manager_wf :: "('g, 'z) load_manager_scheme \<Rightarrow> bool" where
  "manager_wf m \<longleftrightarrow> length (threads_config m) = length (threads_stat m) \<and>
     length (workers m) = length (threads_stat m) \<and> length (threads m) \<le> length (threads_stat m)"

lemma foldl_append_concat: "foldl (\<lambda>acc t. acc @ f t) acc ts = acc @ concat (map f ts)"
  by (induction ts arbitrary: acc) auto

lemma foldl_add_u64: "foldl (\<lambda>n t. n + f t) (a :: u64) ts = a + sum_list (map f ts)"
  by (induction ts arbitrary: a) (auto simp: add.assoc)

lemma sum_list_word_of_nat: "sum_list (map (\<lambda>t. word_of_nat (f t)) ts) = (word_of_nat (sum_list (map f ts)) :: u64)"
  by (induction ts) auto

lemma swap_loop:
  assumes "k \<le> length (threads_stat m)"
  shows "fst (foldl swap_thread ([], m) [0..<k]) = concat (map request_records (take k (threads_stat m))) \<and>
    threads_stat (snd (foldl swap_thread ([], m) [0..<k])) =
      map (\<lambda>t. t\<lparr>request_records := []\<rparr>) (take k (threads_stat m)) @ drop k (threads_stat m)"
  using assms
proof (induction k)
  case (Suc k)
  then show ?case
    by (auto simp: swap_thread_def Let_def split_beta nth_append take_Suc_conv_app_nth list_update_append
        simp flip: Cons_nth_drop_Suc)
qed simp

lemma SwapRequestRecords_eq:
  "fst (SwapRequestRecords m) = concat (map request_records (threads_stat m))"
  "threads_stat (snd (SwapRequestRecords m)) =
     map (\<lambda>t. t\<lparr>request_records := []\<rparr>) (threads_stat m)"
  using swap_loop [of "length (threads_stat m)" m] by (simp_all add: SwapRequestRecords_def)

lemma CountCollectedRequests_eq:
  "CountCollectedRequests m = word_of_nat (length (fst (SwapRequestRecords m)))"
  by (simp add: CountCollectedRequests_def foldl_add_u64 sum_list_word_of_nat
      SwapRequestRecords_eq length_concat comp_def)

lemma health_of_ok: "IsOk (health_of ts) \<longleftrightarrow> (\<forall>t \<in> set ts. IsOk (status t) \<and> IsOk (cb_status t))"
  by (induction ts) auto

lemma thread_errors_eq:
  assumes "cnt + length ths \<le> length stats"
  shows "thread_errors cnt stats ths = Inr (concat (map (\<lambda>i.
    (if \<not> IsOk (status (stats ! i)) then [(i, status (stats ! i))] else []) @
    (if \<not> IsOk (cb_status (stats ! i)) then [(i, cb_status (stats ! i))] else []))
      [cnt..<cnt + length ths]))"
  using assms by (induction ths arbitrary: cnt) (auto simp: upt_conv_Cons simp del: upt_Suc)

lemma idle_times_total:
  "\<exists>vs ts'. idle_times clk i ts = Inr (vs, ts') \<and> length vs = length ts \<and> length ts' = length ts"
proof (induction ts arbitrary: i)
  case (Cons t ts)
  obtain vs ts' where "idle_times clk (Suc i) ts = Inr (vs, ts')"
    "length vs = length ts" "length ts' = length ts"
    using Cons by blast
  moreover obtain tm where
    "Restart (fst (clk i)) (snd (clk i)) (ts_idle_timer t) = Inr tm"
    using Restart_total by blast
  ultimately show ?case by (simp add: Rate_Schedule.GetIdleTime_def)
qed simp

lemma idle_total_fold:
  "foldl idle_total (a, n) vs = (a + sum_list vs, n + length (filter (\<lambda>v. v \<noteq> 0) vs))"
  by (induction vs arbitrary: a n) (auto simp: idle_total_def add.assoc)

section \<open>Records under interleaving\<close>

text \<open>
  The worker threads append records to their own vectors, each under the lock of its thread,
  while the manager's thread empties the vectors one by one, adds threads between two swaps,
  and hands out what it collected. \<open>made\<close> is everything the workers appended, \<open>got\<close> everything
  handed out, and \<open>swapping\<close> the swap under way: the next thread, what it has collected, and
  the records that were waiting when it began.
\<close>

record 'm collection =
  col_manager :: 'm
  made :: "request_record list"
  got :: "request_record list"
  swapping :: "(nat \<times> request_record list \<times> request_record multiset) option"

definition finish_request :: "nat \<Rightarrow> request_record \<Rightarrow> ('g, 'z) load_manager_scheme \<Rightarrow>
    ('g, 'z) load_manager_scheme" where
  "finish_request i r m = m\<lparr>threads_stat := (threads_stat m)
     [i := (threads_stat m ! i)\<lparr>request_records := request_records (threads_stat m ! i) @ [r]\<rparr>]\<rparr>"

definition pending :: "('g, 'z) load_manager_scheme \<Rightarrow> request_record multiset" where
  "pending m = mset (concat (map request_records (threads_stat m)))"

inductive collect_step ::
  "('g, 'z) load_manager_scheme collection \<Rightarrow> ('g, 'z) load_manager_scheme collection \<Rightarrow> bool" where
  append: "i < length (threads_stat (col_manager s)) \<Longrightarrow>
    collect_step s (s\<lparr>col_manager := finish_request i r (col_manager s), made := made s @ [r]\<rparr>)"
| grow: "swapping s = None \<Longrightarrow> request_records t = [] \<Longrightarrow>
    collect_step s (s\<lparr>col_manager :=
      (col_manager s)\<lparr>threads_stat := threads_stat (col_manager s) @ [t]\<rparr>\<rparr>)"
| start: "swapping s = None \<Longrightarrow>
    collect_step s (s\<lparr>swapping := Some (0, [], pending (col_manager s))\<rparr>)"
| collect: "swapping s = Some (k, tot, due) \<Longrightarrow> k < length (threads_stat (col_manager s)) \<Longrightarrow>
    swap_thread (tot, col_manager s) k = (tot', m') \<Longrightarrow>
    collect_step s (s\<lparr>col_manager := m', swapping := Some (Suc k, tot', due)\<rparr>)"
| hand_out: "swapping s = Some (k, tot, due) \<Longrightarrow> \<not> k < length (threads_stat (col_manager s)) \<Longrightarrow>
    collect_step s (s\<lparr>got := got s @ tot, swapping := None\<rparr>)"

definition new_collection :: "('g, 'z) load_manager_scheme \<Rightarrow> ('g, 'z) load_manager_scheme collection" where
  "new_collection m = \<lparr>col_manager = m, made = [], got = [], swapping = None\<rparr>"

definition swap_holds :: "'m collection \<Rightarrow> request_record list" where
  "swap_holds s = (case swapping s of None \<Rightarrow> [] | Some (k, tot, due) \<Rightarrow> tot)"

text \<open>What is conserved, and what a swap under way still owes of the records due.\<close>

definition collect_inv :: "('g, 'z) load_manager_scheme collection \<Rightarrow> bool" where
  "collect_inv s \<longleftrightarrow>
     mset (made s) = mset (got s) + mset (swap_holds s) + pending (col_manager s) \<and>
     (\<forall>k tot due. swapping s = Some (k, tot, due) \<longrightarrow>
        due \<subseteq># mset tot + mset (concat (map request_records (drop k (threads_stat (col_manager s))))))"

lemma mset_update:
  "i < length xs \<Longrightarrow>
     mset (concat (map f (xs[i := x]))) + mset (f (xs ! i)) = mset (concat (map f xs)) + mset (f x)"
  by (induction xs arbitrary: i) (auto split: nat.splits)

lemma pending_finish:
  assumes "i < length (threads_stat m)"
  shows "pending (finish_request i r m) = add_mset r (pending m)"
  using mset_update [OF assms, of request_records
      "(threads_stat m ! i)\<lparr>request_records := request_records (threads_stat m ! i) @ [r]\<rparr>"]
  by (simp add: pending_def finish_request_def)

lemma drop_finish:
  assumes "i < length (threads_stat m)"
  shows "mset (concat (map request_records (drop k (threads_stat m)))) \<subseteq>#
    mset (concat (map request_records (drop k (threads_stat (finish_request i r m)))))"
proof (cases "i < k")
  case False
  let ?t = "(threads_stat m ! i)\<lparr>request_records := request_records (threads_stat m ! i) @ [r]\<rparr>"
  from False assms have "i - k < length (drop k (threads_stat m))" by simp
  from mset_update [OF this, of request_records ?t] False assms show ?thesis
    by (simp add: finish_request_def drop_update_swap)
qed (simp add: finish_request_def)

lemma pending_swap_thread:
  assumes "k < length (threads_stat m)" and "swap_thread (tot, m) k = (tot', m')"
  shows "mset tot' + pending m' = mset tot + pending m"
    and "mset tot' + mset (concat (map request_records (drop (Suc k) (threads_stat m')))) =
      mset tot + mset (concat (map request_records (drop k (threads_stat m))))"
  using assms mset_update [OF assms(1), of request_records "(threads_stat m ! k)\<lparr>request_records := []\<rparr>"]
  by (auto simp: swap_thread_def Let_def pending_def add.commute simp flip: Cons_nth_drop_Suc)

lemma collect_step_inv: "collect_step s s' \<Longrightarrow> collect_inv s \<Longrightarrow> collect_inv s'"
proof (induction rule: collect_step.induct)
  case (append i s r)
  then show ?case
    by (auto simp: collect_inv_def swap_holds_def pending_finish
        intro: subset_mset.order_trans [OF _ subset_mset.add_left_mono [OF drop_finish]])
next
  case (grow s t)
  then show ?case by (simp add: collect_inv_def swap_holds_def pending_def)
next
  case (start s)
  then show ?case by (simp add: collect_inv_def swap_holds_def pending_def)
next
  case (collect s k tot due tot' m')
  from collect.prems collect.hyps(1) have "mset (made s) = mset (got s) + (mset tot + pending (col_manager s))"
    "due \<subseteq># mset tot + mset (concat (map request_records (drop k (threads_stat (col_manager s)))))"
    by (simp_all add: collect_inv_def swap_holds_def)
  with pending_swap_thread [OF collect.hyps(2,3)] show ?case
    by (simp add: collect_inv_def swap_holds_def add.assoc)
next
  case (hand_out s k tot due)
  then show ?case by (simp add: collect_inv_def swap_holds_def)
qed

lemma collect_steps_inv: "collect_step\<^sup>*\<^sup>* s s' \<Longrightarrow> collect_inv s \<Longrightarrow> collect_inv s'"
  by (induction rule: rtranclp_induct) (auto intro: collect_step_inv)

section \<open>Properties\<close>

definition ex_load_manager :: "thread_stat list \<Rightarrow> unit load_manager" where
  "ex_load_manager ts = \<lparr>max_threads = length ts, on_sequence_model = False,
     workers = map (\<lambda>i. \<lparr>worker_id = i, worker_schedule = None, dataset_offset = 0\<rparr>) [0..<length ts],
     threads = [0..<length ts], threads_stat = ts, threads_config = map ThreadConfig [0..<length ts],
     sequence_manager = None, early_exit = False\<rparr>"

text \<open>
  C20: The workers append records while \<open>SwapRequestRecords\<close> locks and empties one thread after
  the other. In every interleaving, also within a swap, every record a worker finished is
  handed out exactly once, or is held by the swap under way, or still waits in a worker's
  vector; and when a swap has been through the threads, it holds every record that was
  waiting when it began. Without a worker in between, a swap returns the vectors in the order
  of the threads, \<open>CountCollectedRequests\<close> is the length of what it returns, and nothing is
  left afterwards.
\<close>

theorem records_conserved:
  assumes "collect_step\<^sup>*\<^sup>* (new_collection m) s"
    and "\<forall>t \<in> set (threads_stat m). request_records t = []"
  shows "mset (made s) = mset (got s) + mset (swap_holds s) +
      mset (concat (map request_records (threads_stat (col_manager s)))) \<and>
    (\<forall>k tot due. swapping s = Some (k, tot, due) \<longrightarrow>
      length (threads_stat (col_manager s)) \<le> k \<longrightarrow> due \<subseteq># mset tot) \<and>
    fst (SwapRequestRecords (col_manager s)) = concat (map request_records (threads_stat (col_manager s))) \<and>
    CountCollectedRequests (col_manager s) = word_of_nat (length (fst (SwapRequestRecords (col_manager s)))) \<and>
    fst (SwapRequestRecords (snd (SwapRequestRecords (col_manager s)))) = []"
proof -
  have "concat (map request_records (threads_stat m)) = []" using assms(2) by simp
  then have "collect_inv (new_collection m)"
    by (simp add: collect_inv_def swap_holds_def new_collection_def pending_def)
  from collect_steps_inv [OF assms(1) this] have "collect_inv s" .
  then show ?thesis
    by (auto simp: collect_inv_def pending_def SwapRequestRecords_eq CountCollectedRequests_eq)
qed

text \<open>Thread 0 has been emptied when both threads append another record.\<close>

theorem records_conserved_witness:
  "\<exists>s. collect_step\<^sup>*\<^sup>* (new_collection (ex_load_manager [ThreadStat, ThreadStat])) s \<and>
     length (made s) = 2 \<and> length (swap_holds s) = 1 \<and>
     mset (made s) = mset (got s) + mset (swap_holds s) +
       mset (concat (map request_records (threads_stat (col_manager s))))"
proof -
  let ?m0 = "ex_load_manager [ThreadStat, ThreadStat]"
  let ?r = "new_request_record"
  let ?s0 = "new_collection ?m0"
  let ?s1 = "?s0\<lparr>swapping := Some (0, [], pending (col_manager ?s0))\<rparr>"
  define m2 where "m2 = snd (swap_thread ([], ?m0) 0)"
  let ?s2 = "?s1\<lparr>col_manager := m2, swapping := Some (Suc 0, [], pending ?m0)\<rparr>"
  let ?s3 = "?s2\<lparr>col_manager := finish_request 0 ?r (col_manager ?s2), made := made ?s2 @ [?r]\<rparr>"
  let ?s4 = "?s3\<lparr>col_manager := finish_request 1 ?r (col_manager ?s3), made := made ?s3 @ [?r]\<rparr>"
  define m5 where "m5 = snd (swap_thread ([], col_manager ?s4) 1)"
  let ?s5 = "?s4\<lparr>col_manager := m5, swapping := Some (Suc 1, [?r], pending ?m0)\<rparr>"
  note ev = new_collection_def ex_load_manager_def ThreadStat_def finish_request_def swap_thread_def m2_def m5_def Let_def
  have st1: "collect_step ?s0 ?s1" by (rule collect_step.start) (simp add: new_collection_def)
  have st2: "collect_step ?s1 ?s2"
    by (rule collect_step.collect [of _ 0 "[]"]) (simp_all add: ev)
  have st3: "collect_step ?s2 ?s3" by (rule collect_step.append) (simp add: ev)
  have st4: "collect_step ?s3 ?s4" by (rule collect_step.append) (simp add: ev)
  have st5: "collect_step ?s4 ?s5"
    by (rule collect_step.collect [of _ 1 "[]"]) (simp_all add: ev)
  have st: "collect_step\<^sup>*\<^sup>* ?s0 ?s5"
    using st1 st2 st3 st4 st5 by (blast intro: converse_rtranclp_into_rtranclp)
  have empty: "\<forall>t \<in> set (threads_stat ?m0). request_records t = []"
    by (simp add: ex_load_manager_def ThreadStat_def)
  have "mset (made ?s5) = mset (got ?s5) + mset (swap_holds ?s5) +
      mset (concat (map request_records (threads_stat (col_manager ?s5))))"
    by (rule records_conserved [OF st empty, THEN conjunct1])
  moreover have "length (made ?s5) = 2 \<and> length (swap_holds ?s5) = 1"
    by (simp add: new_collection_def swap_holds_def)
  ultimately show ?thesis using st by blast
qed

text \<open>
  With one statistics entry per running thread, stopping the workers never reads
  outside the vectors, reports exactly the threads whose status or callback status is an
  error, in the order of the threads, and leaves no thread; a healthy manager has nothing to
  report, and a manager whose threads are all running and that reports nothing is healthy.
\<close>

theorem health_is_reported:
  assumes "length (threads m) = length (threads_stat m)"
  shows "\<exists>errs m'. StopWorkerThreads m = Inr (errs, m') \<and> threads m' = [] \<and> early_exit m' \<and>
    sorted (map fst errs) \<and>
    (\<forall>i e. (i, e) \<in> set errs \<longleftrightarrow> i < length (threads_stat m) \<and> \<not> IsOk e \<and>
       (e = status (threads_stat m ! i) \<or> e = cb_status (threads_stat m ! i))) \<and>
    (IsOk (CheckHealth m) \<longleftrightarrow> errs = [])"
proof -
  let ?f = "\<lambda>i. (if \<not> IsOk (status (threads_stat m ! i)) then [(i, status (threads_stat m ! i))] else []) @
    (if \<not> IsOk (cb_status (threads_stat m ! i)) then [(i, cb_status (threads_stat m ! i))] else [])"
  let ?errs = "concat (map ?f [0..<length (threads_stat m)])"
  have "thread_errors 0 (threads_stat m) (threads m) = Inr ?errs"
    using thread_errors_eq [of 0 "threads m" "threads_stat m"] assms by simp
  moreover have "sorted (map fst (concat (map ?f [a..<b])))" if "a \<le> b" for a b
    using that by (induction b rule: dec_induct) (auto simp: sorted_append)
  moreover have "IsOk (CheckHealth m) \<longleftrightarrow> ?errs = []"
    by (auto simp: CheckHealth_def health_of_ok all_set_conv_all_nth)
  moreover have "\<forall>i e. (i, e) \<in> set ?errs \<longleftrightarrow> i < length (threads_stat m) \<and> \<not> IsOk e \<and>
       (e = status (threads_stat m ! i) \<or> e = cb_status (threads_stat m ! i))"
    by (auto split: if_splits)
  ultimately show ?thesis by (auto simp: StopWorkerThreads_def)
qed

theorem health_is_reported_witness:
  "let m = ex_load_manager [ThreadStat, ThreadStat\<lparr>cb_status := generic_error ''lost''\<rparr>]
   in \<not> IsOk (CheckHealth m) \<and>
      (\<exists>errs m'. StopWorkerThreads m = Inr (errs, m') \<and> (1, generic_error ''lost'') \<in> set errs)"
  using health_is_reported [of "ex_load_manager [ThreadStat, ThreadStat\<lparr>cb_status := generic_error ''lost''\<rparr>]"]
  by (auto simp: ex_load_manager_def ThreadStat_def CheckHealth_def)

end
