(* ===== verification/Concurrency_Manager.thy ===== *)
theory Concurrency_Manager
  imports Load_Manager
begin

text \<open>
  \<open>ConcurrencyManager\<close> (\<open>concurrency_manager.cc\<close>), which spreads a number of concurrent
  requests over its worker threads, and \<open>PeriodicConcurrencyManager\<close>
  (\<open>periodic_concurrency_manager.cc\<close>), which adds workers step by step as the running ones
  reach their request period.
\<close>

section \<open>The concurrency manager\<close>

record 'g concurrency_manager = "'g load_manager" +
  active_threads :: nat
  cm_execute :: bool
  max_concurrency :: nat

definition cm_InitManagerFinalize ::
  "('g, 'z) concurrency_manager_scheme \<Rightarrow> exn + ('g, 'z) concurrency_manager_scheme" where
  "cm_InitManagerFinalize m =
     (if on_sequence_model m then
        (case sequence_manager m of
           None \<Rightarrow> Inl (UndefinedBehaviour ''null sequence manager'')
         | Some sm \<Rightarrow>
             Inr (m\<lparr>sequence_manager := Some (InitSequenceStatuses (max_concurrency m) sm)\<rparr>))
      else Inr m)"

text \<open>
  The loop over the configurations ends when every worker has set \<open>is_paused_\<close>; the model
  takes the state in which it ends.
\<close>

definition PauseSequenceWorkers ::
  "('g, 'z) concurrency_manager_scheme \<Rightarrow> ('g, 'z) concurrency_manager_scheme" where
  "PauseSequenceWorkers m =
     (if on_sequence_model m then
        m\<lparr>cm_execute := False,
          threads_config := map (\<lambda>c. c\<lparr>is_paused := True\<rparr>) (threads_config m)\<rparr>
      else m)"

definition ResumeSequenceWorkers ::
  "('g, 'z) concurrency_manager_scheme \<Rightarrow> ('g, 'z) concurrency_manager_scheme" where
  "ResumeSequenceWorkers m = (if on_sequence_model m then m\<lparr>cm_execute := True\<rparr> else m)"

definition cm_new_worker :: "('g, 'z) load_manager_scheme \<Rightarrow> ('g, 'z) load_manager_scheme" where
  "cm_new_worker m =
     m\<lparr>threads_stat := threads_stat m @ [ThreadStat],
       threads_config := threads_config m @ [ThreadConfig (length (threads_config m))],
       workers := workers m @
         [\<lparr>worker_id = length (workers m), worker_schedule = None, dataset_offset = 0\<rparr>],
       threads := threads m @ [length (workers m)]\<rparr>"

function launch_threads :: "nat \<Rightarrow> ('g, 'z) load_manager_scheme \<Rightarrow> ('g, 'z) load_manager_scheme" where
  "launch_threads c m =
     (if c > length (threads m) \<and> length (threads m) < max_threads m
      then launch_threads c (cm_new_worker m) else m)"
  by auto
termination
  by (relation "measure (\<lambda>(c, m). max_threads m - length (threads m))")
    (auto simp: cm_new_worker_def)

declare launch_threads.simps [simp del]

text \<open>One turn of the loop that reconfigures thread \<open>i\<close>, with the running offset.\<close>

definition reconfig_step :: "nat \<Rightarrow> nat \<Rightarrow> nat \<Rightarrow>
    ('g, 'z) concurrency_manager_scheme \<times> nat \<Rightarrow> nat \<Rightarrow>
    exn + ('g, 'z) concurrency_manager_scheme \<times> nat" where
  "reconfig_step concurrent_requests req_count n = (\<lambda>(m, offset) i.
     let avg_concurrency = concurrent_requests div n;
         threads_add_one = concurrent_requests mod n;
         avg_req_count = req_count div n;
         req_count_add_one = req_count mod n;
         c = avg_concurrency + (if i < threads_add_one then 1 else 0);
         r = avg_req_count + (if i < req_count_add_one then 1 else 0)
     in bindR (vec_index (threads_config m) i) (\<lambda>cfg.
          Inr (m\<lparr>threads_config := (threads_config m)
                   [i := cfg\<lparr>concurrency := c, seq_stat_index_offset := offset,
                            num_requests := r\<rparr>],
                 active_threads := active_threads m + (if c \<noteq> 0 then 1 else 0)\<rparr>,
               offset + c)))"

definition ReconfigThreads :: "nat \<Rightarrow> nat \<Rightarrow> ('g, 'z) concurrency_manager_scheme \<Rightarrow>
    exn + ('g, 'z) concurrency_manager_scheme" where
  "ReconfigThreads concurrent_requests req_count m =
     (let m1 = launch_threads concurrent_requests m
      in if threads m1 = [] then Inl DivideByZero
         else bindR (foldR (reconfig_step concurrent_requests req_count (length (threads m1)))
                       (m1\<lparr>active_threads := 0\<rparr>, 0) [0..<length (threads_stat m1)])
                (\<lambda>(m2, _). Inr m2))"

definition ChangeConcurrencyLevel :: "nat \<Rightarrow> nat \<Rightarrow> ('g, 'z) concurrency_manager_scheme \<Rightarrow>
    exn + ('g, 'z) concurrency_manager_scheme" where
  "ChangeConcurrencyLevel concurrent_requests req_count m =
     bindR (ReconfigThreads concurrent_requests req_count (PauseSequenceWorkers m))
       (\<lambda>m'. Inr (ResumeSequenceWorkers m'))"

definition cm_PerformWarmup :: "nat \<Rightarrow> nat \<Rightarrow> ('g, 'z) concurrency_manager_scheme \<Rightarrow>
    exn + ('g, 'z) concurrency_manager_scheme" where
  "cm_PerformWarmup concurrent_requests warmup_requests m =
     (if warmup_requests = 0 then Inr m
      else let c = (if concurrent_requests > warmup_requests
                    then warmup_requests else concurrent_requests)
           in bindR (ChangeConcurrencyLevel c warmup_requests m)
                (\<lambda>m'. Inr (WaitForWarmupAndCleanup m')))"

section \<open>The periodic concurrency manager\<close>

record range =
  range_start :: u64
  range_end :: u64
  range_step :: u64

record 'g periodic_manager = "'g concurrency_manager" +
  concurrency_range :: range
  request_period :: u64
  steps_completed :: u64
  num_incomplete_periods :: u64
  num_completed_requests :: u64
  all_requests_completed :: bool

definition AddConcurrentRequest :: "nat \<Rightarrow> ('g, 'z) concurrency_manager_scheme \<Rightarrow>
    ('g, 'z) concurrency_manager_scheme" where
  "AddConcurrentRequest offset m =
     (let m1 = cm_new_worker m;
          k = length (threads_config m1) - 1
      in m1\<lparr>threads_config := (threads_config m1)
              [k := (threads_config m1 ! k)\<lparr>concurrency := 1, seq_stat_index_offset := offset\<rparr>],
            active_threads := Suc (active_threads m1)\<rparr>)"

definition AddConcurrentRequests :: "u64 \<Rightarrow> ('g, 'z) periodic_manager_scheme \<Rightarrow>
    ('g, 'z) periodic_manager_scheme" where
  "AddConcurrentRequests n m =
     (foldl (\<lambda>m i. AddConcurrentRequest i m) m [0..<unat n])\<lparr>num_incomplete_periods := n\<rparr>"

definition PeriodCompletedCallback ::
  "('g, 'z) periodic_manager_scheme \<Rightarrow> ('g, 'z) periodic_manager_scheme" where
  "PeriodCompletedCallback m =
     (let m1 = m\<lparr>num_incomplete_periods := num_incomplete_periods m - 1\<rparr>
      in if num_incomplete_periods m1 = 0 then
           let m2 = m1\<lparr>steps_completed := steps_completed m1 + 1\<rparr>;
               num_requests_sent = steps_completed m2 * range_step (concurrency_range m2)
           in if num_requests_sent < range_end (concurrency_range m2)
              then AddConcurrentRequests (range_step (concurrency_range m2)) m2 else m2
         else m1)"

text \<open>Setting the promise a second time would throw \<open>std::future_error\<close>.\<close>

definition RequestCompletedCallback ::
  "('g, 'z) periodic_manager_scheme \<Rightarrow> exn + ('g, 'z) periodic_manager_scheme" where
  "RequestCompletedCallback m =
     (let m1 = m\<lparr>num_completed_requests := num_completed_requests m + 1\<rparr>
      in if num_completed_requests m1 = range_end (concurrency_range m1) then
           if all_requests_completed m1 then Inl (RuntimeError ''Promise already satisfied'')
           else Inr (m1\<lparr>all_requests_completed := True\<rparr>)
         else Inr m1)"

definition GetRequestRecords :: "('g, 'z) load_manager_scheme \<Rightarrow> request_record list" where
  "GetRequestRecords m = foldl (\<lambda>acc t. acc @ request_records t) [] (threads_stat m)"

section \<open>Reconfiguration\<close>

lemma manager_wf_new_worker: "manager_wf m \<Longrightarrow> manager_wf (cm_new_worker m)"
  by (simp add: manager_wf_def cm_new_worker_def)

lemma launch_threads_spec:
  assumes "length (threads m) = length (threads_stat m)" and "manager_wf m"
  shows "let m' = launch_threads c m in manager_wf m' \<and>
    length (threads m') = length (threads_stat m') \<and>
    length (threads m') = max (length (threads m)) (min c (max_threads m)) \<and>
    load_manager.more m' = load_manager.more m \<and> on_sequence_model m' = on_sequence_model m \<and>
    max_threads m' = max_threads m \<and>
    take (length (threads m)) (threads_stat m') = threads_stat m"
  using assms
proof (induction c m rule: launch_threads.induct)
  case (1 c m)
  show ?case
  proof (cases "c > length (threads m) \<and> length (threads m) < max_threads m")
    case True
    let ?n = "cm_new_worker m"
    have wf: "length (threads ?n) = length (threads_stat ?n)" "manager_wf ?n"
      using 1 by (simp_all add: manager_wf_new_worker) (simp add: cm_new_worker_def)
    have n: "length (threads ?n) = Suc (length (threads m))" "max_threads ?n = max_threads m"
      "load_manager.more ?n = load_manager.more m" "on_sequence_model ?n = on_sequence_model m"
      "threads_stat ?n = threads_stat m @ [ThreadStat]"
      by (simp_all add: cm_new_worker_def)
    have "take (length (threads m)) (threads_stat m') = threads_stat m"
      if "take (length (threads ?n)) (threads_stat m') = threads_stat ?n" for m' :: "('a, 'b) load_manager_scheme"
    proof -
      have "take (length (threads m)) (take (length (threads ?n)) (threads_stat m')) = threads_stat m"
        using that n 1(2) by simp
      then show ?thesis using n by (simp add: min_def)
    qed
    with 1(1) [OF True wf] True n show ?thesis
      by (auto simp: launch_threads.simps [of c m] Let_def max_def min_def split: if_splits)
  next
    case False
    with 1 show ?thesis
      by (auto simp: launch_threads.simps [of c m] Let_def)
  qed
qed

definition offset_of :: "nat \<Rightarrow> nat \<Rightarrow> nat \<Rightarrow> nat" where
  "offset_of c n i = (\<Sum>j = 0..<i. share c n j)"

definition reconfigured :: "nat \<Rightarrow> nat \<Rightarrow> nat \<Rightarrow> nat \<Rightarrow> thread_config \<Rightarrow> thread_config" where
  "reconfigured c r n i cfg =
     cfg\<lparr>concurrency := share c n i, seq_stat_index_offset := offset_of c n i,
         num_requests := share r n i\<rparr>"

lemma reconfig_loop:
  assumes "n \<le> length (threads_config m)"
  shows "foldR (reconfig_step c r k) (m\<lparr>active_threads := 0\<rparr>, 0) [0..<n] =
    Inr (m\<lparr>threads_config :=
             map (\<lambda>i. reconfigured c r k i (threads_config m ! i)) [0..<n] @ drop n (threads_config m),
           active_threads := card {i. i < n \<and> 0 < share c k i}\<rparr>, offset_of c k n)"
  using assms
proof (induction n)
  case 0
  then show ?case by (simp add: offset_of_def)
next
  case (Suc n)
  have n: "n < length (threads_config m)" using Suc.prems by simp
  let ?l = "map (\<lambda>i. reconfigured c r k i (threads_config m ! i)) [0..<n] @ drop n (threads_config m)"
  have nth: "?l ! n = threads_config m ! n" using n by (simp add: nth_append)
  have upd: "?l[n := x] = map (\<lambda>i. reconfigured c r k i (threads_config m ! i)) [0..<n] @ [x] @ drop (Suc n) (threads_config m)"
    for x using n by (simp add: list_update_append Cons_nth_drop_Suc [symmetric])
  have card: "card {i. i < Suc n \<and> 0 < share c k i} =
    card {i. i < n \<and> 0 < share c k i} + (if share c k n \<noteq> 0 then 1 else 0)"
  proof -
    have "{i. i < Suc n \<and> 0 < share c k i} =
      (if share c k n \<noteq> 0 then insert n {i. i < n \<and> 0 < share c k i} else {i. i < n \<and> 0 < share c k i})"
      by (auto simp: less_Suc_eq)
    then show ?thesis by simp
  qed
  have "foldR (reconfig_step c r k) (m\<lparr>active_threads := 0\<rparr>, 0) [0..<Suc n] =
    reconfig_step c r k (m\<lparr>threads_config := ?l,
      active_threads := card {i. i < n \<and> 0 < share c k i}\<rparr>, offset_of c k n) n"
    using Suc.IH n by (simp add: foldR_append)
  also have "\<dots> = Inr (m\<lparr>threads_config := ?l[n := reconfigured c r k n (?l ! n)],
      active_threads := card {i. i < n \<and> 0 < share c k i} + (if share c k n \<noteq> 0 then 1 else 0)\<rparr>,
      offset_of c k n + share c k n)"
    using n by (simp add: reconfig_step_def reconfigured_def share_def Let_def)
  finally show ?case
    unfolding upd nth card by (simp add: offset_of_def)
qed

lemma share_active: "0 < n \<Longrightarrow> card {i. i < n \<and> 0 < share c n i} = min c n"
proof -
  assume "0 < n"
  then have "{i. i < n \<and> 0 < share c n i} = {..<min c n}"
    by (auto simp: share_pos_iff)
  then show ?thesis by simp
qed

lemma pause_wf:
  "manager_wf (PauseSequenceWorkers m) = manager_wf m"
  "threads (PauseSequenceWorkers m) = threads m"
  "threads_stat (PauseSequenceWorkers m) = threads_stat m"
  "max_threads (PauseSequenceWorkers m) = max_threads m"
  "on_sequence_model (PauseSequenceWorkers m) = on_sequence_model m"
  by (simp_all add: PauseSequenceWorkers_def manager_wf_def)

lemma ReconfigThreads_eq:
  assumes "manager_wf m" and "length (threads m) = length (threads_stat m)"
    and "0 < c" and "0 < max_threads m"
  defines "n \<equiv> max (length (threads m)) (min c (max_threads m))"
  obtains m1 where "ReconfigThreads c r m = Inr (m1\<lparr>threads_config :=
        map (\<lambda>i. reconfigured c r n i (threads_config m1 ! i)) [0..<n],
      active_threads := min c n\<rparr>)"
    and "length (threads m1) = n" and "length (threads_stat m1) = n" and "length (threads_config m1) = n"
    and "length (workers m1) = n" and "0 < n" and "on_sequence_model m1 = on_sequence_model m"
proof -
  let ?m1 = "launch_threads c m"
  note spec = launch_threads_spec [OF assms(2,1), of c, unfolded Let_def]
  have len: "length (threads ?m1) = n" "length (threads_stat ?m1) = n" "length (threads_config ?m1) = n"
    "length (workers ?m1) = n" "on_sequence_model ?m1 = on_sequence_model m"
    using spec by (simp_all add: n_def manager_wf_def)
  have n: "0 < n" using assms(3,4) by (simp add: n_def)
  have "ReconfigThreads c r m = Inr (?m1\<lparr>threads_config :=
        map (\<lambda>i. reconfigured c r n i (threads_config ?m1 ! i)) [0..<n],
      active_threads := min c n\<rparr>)"
    using reconfig_loop [of n ?m1 c r n] len n by (auto simp: ReconfigThreads_def Let_def share_active)
  with len n show thesis using that by blast
qed

section \<open>Properties\<close>

text \<open>
  C11: Whatever level was set before, setting a concurrency level \<open>c > 0\<close> launches at most
  \<open>max_threads\<close> threads and spreads the level so that the threads' shares add up to exactly
  \<open>c\<close> and differ by at most one, the requests likewise; every sequence slot below \<open>c\<close>
  belongs to exactly one thread; and \<open>active_threads\<close> counts the threads with work to do.
\<close>

theorem concurrency_is_spread:
  assumes "manager_wf m" and "length (threads m) = length (threads_stat m)"
    and "0 < c" and "0 < max_threads m"
  shows "\<exists>m'. ChangeConcurrencyLevel c r m = Inr m' \<and> manager_wf m' \<and>
    length (threads m') = max (length (threads m)) (min c (max_threads m)) \<and>
    length (threads m') = length (threads_stat m') \<and>
    sum_list (map concurrency (threads_config m')) = c \<and>
    sum_list (map num_requests (threads_config m')) = r \<and>
    (\<forall>x \<in> set (threads_config m'). \<forall>y \<in> set (threads_config m').
       concurrency x \<le> Suc (concurrency y) \<and> num_requests x \<le> Suc (num_requests y)) \<and>
    (\<forall>s < c. \<exists>!i. i < length (threads_config m') \<and>
       seq_stat_index_offset (threads_config m' ! i) \<le> s \<and>
       s < seq_stat_index_offset (threads_config m' ! i) + concurrency (threads_config m' ! i)) \<and>
    active_threads m' = length (filter (\<lambda>x. 0 < concurrency x) (threads_config m')) \<and>
    (on_sequence_model m' \<longrightarrow> cm_execute m')"
proof -
  define n where "n = max (length (threads m)) (min c (max_threads m))"
  have wf: "manager_wf (PauseSequenceWorkers m)"
    "length (threads (PauseSequenceWorkers m)) = length (threads_stat (PauseSequenceWorkers m))"
    "0 < max_threads (PauseSequenceWorkers m)"
    using assms by (simp_all add: pause_wf)
  obtain m1 where m1: "ReconfigThreads c r (PauseSequenceWorkers m) = Inr (m1\<lparr>threads_config :=
        map (\<lambda>i. reconfigured c r n i (threads_config m1 ! i)) [0..<n],
      active_threads := min c n\<rparr>)"
    "length (threads m1) = n" "length (threads_stat m1) = n" "length (workers m1) = n" "0 < n"
    by (rule ReconfigThreads_eq [OF wf(1,2) assms(3) wf(3), where r = r, unfolded pause_wf, folded n_def])
  define m' where "m' = ResumeSequenceWorkers (m1\<lparr>threads_config :=
        map (\<lambda>i. reconfigured c r n i (threads_config m1 ! i)) [0..<n], active_threads := min c n\<rparr>)"
  have cfg: "threads_config m' = map (\<lambda>i. reconfigured c r n i (threads_config m1 ! i)) [0..<n]"
    and rest: "threads m' = threads m1" "threads_stat m' = threads_stat m1" "workers m' = workers m1"
    "active_threads m' = min c n" "on_sequence_model m' \<longrightarrow> cm_execute m'"
    by (simp_all add: m'_def ResumeSequenceWorkers_def)
  have conc: "map concurrency (threads_config m') = map (share c n) [0..<n]"
    and reqs: "map num_requests (threads_config m') = map (share r n) [0..<n]"
    by (simp_all add: cfg reconfigured_def)
  have slot: "\<exists>!i. i < n \<and> offset_of c n i \<le> s \<and> s < offset_of c n i + share c n i" if "s < c" for s
    using prefix_sum_slot [of s "share c n" n] that \<open>0 < n\<close> by (simp add: offset_of_def share_simps)
  have "length (filter (\<lambda>x. 0 < concurrency x) (threads_config m')) =
    card {i. i < n \<and> 0 < share c n i}"
    by (simp add: cfg reconfigured_def length_filter_conv_card cong: conj_cong)
  then have act: "active_threads m' = length (filter (\<lambda>x. 0 < concurrency x) (threads_config m'))"
    using rest share_active [OF \<open>0 < n\<close>] by simp
  have "ChangeConcurrencyLevel c r m = Inr m'"
    by (simp add: ChangeConcurrencyLevel_def m1 m'_def)
  moreover have "manager_wf m'" using m1 by (simp add: manager_wf_def rest cfg)
  moreover have "sum_list (map concurrency (threads_config m')) = c"
    "sum_list (map num_requests (threads_config m')) = r"
    unfolding conc reqs using \<open>0 < n\<close> by (simp_all only: sum_list_map_upt share_sum)
  moreover have "\<forall>x \<in> set (threads_config m'). \<forall>y \<in> set (threads_config m').
       concurrency x \<le> Suc (concurrency y) \<and> num_requests x \<le> Suc (num_requests y)"
    by (auto simp: cfg reconfigured_def share_le_Suc)
  moreover have "\<forall>s < c. \<exists>!i. i < length (threads_config m') \<and>
       seq_stat_index_offset (threads_config m' ! i) \<le> s \<and>
       s < seq_stat_index_offset (threads_config m' ! i) + concurrency (threads_config m' ! i)"
    using slot by (simp add: cfg reconfigured_def cong: conj_cong)
  ultimately show ?thesis using act rest m1 by (auto simp: n_def)
qed

definition ex_concurrency_manager :: "nat \<Rightarrow> unit concurrency_manager" where
  "ex_concurrency_manager n = \<lparr>max_threads = n, on_sequence_model = False, workers = [],
     threads = [], threads_stat = [], threads_config = [], sequence_manager = None, early_exit = False,
     active_threads = 0, cm_execute = True, max_concurrency = 8\<rparr>"

lemma ex_concurrency_manager_simps [simp]:
  "manager_wf (ex_concurrency_manager n)" "threads (ex_concurrency_manager n) = []"
  "threads_stat (ex_concurrency_manager n) = []" "max_threads (ex_concurrency_manager n) = n"
  by (simp_all add: ex_concurrency_manager_def manager_wf_def)

theorem concurrency_is_spread_witness:
  "\<exists>m'. ChangeConcurrencyLevel 5 7 (ex_concurrency_manager 2) = Inr m' \<and>
     length (threads m') = 2 \<and> sum_list (map concurrency (threads_config m')) = 5 \<and>
     sum_list (map num_requests (threads_config m')) = 7"
  using concurrency_is_spread [of "ex_concurrency_manager 2" 5 7] by auto

text \<open>
  A warm-up of \<open>w > 0\<close> requests on a fresh manager lowers the level to \<open>w\<close> when it is
  above, so that every thread it launches has at least one request to send and none runs
  without a limit, the requests of all the threads adding up to \<open>w\<close>; it leaves the manager
  without threads, ready for the measurement.
\<close>

theorem warmup_is_bounded:
  assumes "threads m = []" and "threads_stat m = []" and "manager_wf m"
    and "0 < c" and "0 < w" and "0 < max_threads m"
  shows "\<exists>m1. ChangeConcurrencyLevel (min c w) w m = Inr m1 \<and>
    (\<forall>x \<in> set (threads_config m1). 0 < concurrency x \<and> 0 < num_requests x) \<and>
    sum_list (map num_requests (threads_config m1)) = w \<and>
    cm_PerformWarmup c w m = Inr (WaitForWarmupAndCleanup m1) \<and>
    threads (WaitForWarmupAndCleanup m1) = [] \<and> manager_wf (WaitForWarmupAndCleanup m1)"
proof -
  define n where "n = min (min c w) (max_threads m)"
  have wf: "manager_wf (PauseSequenceWorkers m)"
    "length (threads (PauseSequenceWorkers m)) = length (threads_stat (PauseSequenceWorkers m))"
    "0 < max_threads (PauseSequenceWorkers m)" "0 < min c w"
    using assms by (simp_all add: pause_wf)
  have n: "max (length (threads (PauseSequenceWorkers m))) (min (min c w) (max_threads (PauseSequenceWorkers m))) = n"
    by (simp add: n_def pause_wf assms(1))
  obtain m1 where m1: "ReconfigThreads (min c w) w (PauseSequenceWorkers m) = Inr (m1\<lparr>threads_config :=
        map (\<lambda>i. reconfigured (min c w) w n i (threads_config m1 ! i)) [0..<n],
      active_threads := min (min c w) n\<rparr>)" and n0: "0 < n"
    using ReconfigThreads_eq [OF wf(1,2,4,3), where r = w, unfolded n] by metis
  let ?m1 = "ResumeSequenceWorkers (m1\<lparr>threads_config :=
        map (\<lambda>i. reconfigured (min c w) w n i (threads_config m1 ! i)) [0..<n],
      active_threads := min (min c w) n\<rparr>)"
  have cfg: "threads_config ?m1 = map (\<lambda>i. reconfigured (min c w) w n i (threads_config m1 ! i)) [0..<n]"
    by (simp add: ResumeSequenceWorkers_def)
  have ch: "ChangeConcurrencyLevel (min c w) w m = Inr ?m1"
    by (simp add: ChangeConcurrencyLevel_def m1)
  have pos: "0 < share (min c w) n i \<and> 0 < share w n i" if "i < n" for i
    using that n0 by (simp add: share_pos_iff n_def)
  have "map num_requests (threads_config ?m1) = map (share w n) [0..<n]"
    unfolding cfg by (simp add: reconfigured_def)
  then have "sum_list (map num_requests (threads_config ?m1)) = w"
    using n0 by (simp only: sum_list_map_upt share_sum)
  moreover have "cm_PerformWarmup c w m = Inr (WaitForWarmupAndCleanup ?m1)"
  proof -
    have "(if c > w then w else c) = min c w" by simp
    then show ?thesis using \<open>0 < w\<close> by (simp only: cm_PerformWarmup_def Let_def ch) simp
  qed
  moreover have "\<forall>x \<in> set (threads_config ?m1). 0 < concurrency x \<and> 0 < num_requests x"
    unfolding cfg using pos by (simp add: reconfigured_def)
  ultimately show ?thesis
    using ch by (auto simp: WaitForWarmupAndCleanup_def manager_wf_def)
qed

theorem warmup_is_bounded_witness:
  "\<exists>m1. ChangeConcurrencyLevel (min 4 2) 2 (ex_concurrency_manager 4) = Inr m1 \<and>
    sum_list (map num_requests (threads_config m1)) = 2 \<and>
    cm_PerformWarmup 4 2 (ex_concurrency_manager 4) = Inr (WaitForWarmupAndCleanup m1)"
  using warmup_is_bounded [of "ex_concurrency_manager 4" 4 2] by auto

section \<open>The periodic launches\<close>

lemma AddConcurrentRequest_simps [simp]:
  "length (threads (AddConcurrentRequest i m)) = Suc (length (threads m))"
  "concurrency_range (AddConcurrentRequest i m) = concurrency_range (m :: ('g, 'z) periodic_manager_scheme)"
  "steps_completed (AddConcurrentRequest i m) = steps_completed m"
  "num_incomplete_periods (AddConcurrentRequest i m) = num_incomplete_periods m"
  "all_requests_completed (AddConcurrentRequest i m) = all_requests_completed m"
  "num_completed_requests (AddConcurrentRequest i m) = num_completed_requests m"
  by (simp_all add: AddConcurrentRequest_def cm_new_worker_def Let_def)

lemma AddConcurrentRequests_simps [simp]:
  fixes m :: "('g, 'z) periodic_manager_scheme"
  shows "length (threads (AddConcurrentRequests n m)) = length (threads m) + unat n"
    "concurrency_range (AddConcurrentRequests n m) = concurrency_range m"
    "steps_completed (AddConcurrentRequests n m) = steps_completed m"
    "num_incomplete_periods (AddConcurrentRequests n m) = n"
    "num_completed_requests (AddConcurrentRequests n m) = num_completed_requests m"
    "all_requests_completed (AddConcurrentRequests n m) = all_requests_completed m"
proof -
  have "length (threads (foldl (\<lambda>m i. AddConcurrentRequest i m) m xs)) = length (threads m) + length xs \<and>
    concurrency_range (foldl (\<lambda>m i. AddConcurrentRequest i m) m xs) = concurrency_range m \<and>
    steps_completed (foldl (\<lambda>m i. AddConcurrentRequest i m) m xs) = steps_completed m \<and>
    num_completed_requests (foldl (\<lambda>m i. AddConcurrentRequest i m) m xs) = num_completed_requests m \<and>
    all_requests_completed (foldl (\<lambda>m i. AddConcurrentRequest i m) m xs) = all_requests_completed m" for xs
    by (induction xs arbitrary: m) simp_all
  then show "length (threads (AddConcurrentRequests n m)) = length (threads m) + unat n"
    "concurrency_range (AddConcurrentRequests n m) = concurrency_range m"
    "steps_completed (AddConcurrentRequests n m) = steps_completed m"
    "num_incomplete_periods (AddConcurrentRequests n m) = n"
    "num_completed_requests (AddConcurrentRequests n m) = num_completed_requests m"
    "all_requests_completed (AddConcurrentRequests n m) = all_requests_completed m"
    by (simp_all add: AddConcurrentRequests_def)
qed

text \<open>The number of times a step of workers is added, and of workers launched in all.\<close>

definition additions :: "range \<Rightarrow> nat" where
  "additions r = (unat (range_end r) - 1) div unat (range_step r)"

definition launched :: "range \<Rightarrow> nat" where
  "launched r = unat (range_start r) + unat (range_step r) * additions r"

text \<open>After \<open>j\<close> periods, \<open>s\<close> steps are complete and \<open>inc\<close> periods of the current one are not.\<close>

definition periodic_inv :: "range \<Rightarrow> nat \<Rightarrow> ('g, 'z) periodic_manager_scheme \<Rightarrow> bool" where
  "periodic_inv r j m \<longleftrightarrow> concurrency_range m = r \<and>
     (let s = unat (steps_completed m); inc = unat (num_incomplete_periods m)
      in if j < launched r then
           s \<le> additions r \<and> 0 < inc \<and> j + inc = unat (range_start r) + unat (range_step r) * s \<and>
           length (threads m) = j + inc
         else s = Suc (additions r) \<and> inc = 0 \<and> length (threads m) = launched r)"

lemma unat_mult_small: "unat a * unat b < 2 ^ 64 \<Longrightarrow> unat (a * b :: u64) = unat a * unat b"
  using unat_mult_lem [of a b] by simp

lemma period_advances:
  fixes m :: "('g, 'z) periodic_manager_scheme"
  assumes inv: "periodic_inv r j m" and j: "j < launched r"
    and pos: "0 < range_step r" "0 < range_end r"
    and small: "unat (range_end r) + unat (range_step r) < 2 ^ 64"
  shows "periodic_inv r (Suc j) (PeriodCompletedCallback m)"
proof -
  let ?s = "unat (steps_completed m)" and ?inc = "unat (num_incomplete_periods m)"
  let ?st = "unat (range_step r)" and ?en = "unat (range_end r)"
  have st: "0 < ?st" and en: "0 < ?en" using pos by (simp_all add: unat_gt_0)
  have I: "concurrency_range m = r" "?s \<le> additions r" "0 < ?inc"
    "j + ?inc = unat (range_start r) + ?st * ?s" "length (threads m) = j + ?inc"
    using inv j by (simp_all add: periodic_inv_def Let_def)
  have inc1: "unat (num_incomplete_periods m - 1) = ?inc - 1"
    using I(3) by (simp add: unat_minus_one unat_gt_0)
  show ?thesis
  proof (cases "num_incomplete_periods m - 1 = 0")
    case False
    then have "?inc - 1 \<noteq> 0" using inc1 by (metis unat_eq_zero)
    moreover have "Suc j < launched r"
    proof -
      have "?st * ?s \<le> ?st * additions r" using I(2) by simp
      then have "j + ?inc \<le> launched r" using I(4) by (simp add: launched_def)
      with \<open>?inc - 1 \<noteq> 0\<close> show ?thesis by simp
    qed
    ultimately show ?thesis
      using False I inc1 by (simp add: periodic_inv_def PeriodCompletedCallback_def Let_def) arith
  next
    case True
    then have inc: "?inc = 1" using inc1 I(3) by (metis Suc_pred' One_nat_def unat_0)
    have sst: "?s * ?st < ?en"
    proof -
      have "?s * ?st \<le> additions r * ?st" using I(2) by simp
      also have "\<dots> \<le> ?en - 1" by (simp add: additions_def)
      finally show ?thesis using en by simp
    qed
    have s1: "unat (steps_completed m + 1) = Suc ?s"
    proof -
      have "?s \<le> ?s * ?st" using st by simp
      then have "Suc ?s < 2 ^ 64" using sst small st by linarith
      then show ?thesis using unat_add_lem [of "steps_completed m" 1] by simp
    qed
    have "Suc ?s * ?st < 2 ^ 64" using sst small by simp
    then have prod: "unat ((steps_completed m + 1) * range_step r) = Suc ?s * ?st"
      using unat_mult_small [of "steps_completed m + 1" "range_step r"] by (simp only: s1)
    have more: "(steps_completed m + 1) * range_step r < range_end r \<longleftrightarrow> Suc ?s \<le> additions r"
    proof -
      have "Suc ?s \<le> additions r \<longleftrightarrow> Suc ?s * ?st \<le> ?en - 1"
        unfolding additions_def using st by (rule less_eq_div_iff_mult_less_eq)
      then show ?thesis using en by (simp add: word_less_nat_alt prod less_eq_Suc_le [symmetric]) arith
    qed
    show ?thesis
    proof (cases "Suc ?s \<le> additions r")
      case add: True
      have "?st * Suc ?s \<le> ?st * additions r" using add by (rule mult_le_mono2)
      then have "Suc j < launched r" using I(4) inc st add by (simp add: launched_def)
      with add more True I inc s1 st show ?thesis
        by (simp add: periodic_inv_def PeriodCompletedCallback_def Let_def)
    next
      case last: False
      then have "?s = additions r" using I(2) by simp
      then have "Suc j = launched r" using I(4) inc by (simp add: launched_def)
      with last more True I inc s1 \<open>?s = additions r\<close> show ?thesis
        by (simp add: periodic_inv_def PeriodCompletedCallback_def Let_def)
    qed
  qed
qed

lemma launched_eq:
  assumes "0 < range_start r" and "0 < range_step r" and "range_start r \<le> range_end r"
    and "unat (range_step r) dvd unat (range_end r) - unat (range_start r)"
  shows "launched r = unat (range_end r) +
    unat (range_step r) * ((unat (range_start r) - 1) div unat (range_step r))"
proof -
  let ?a = "unat (range_start r)" and ?b = "unat (range_end r)" and ?d = "unat (range_step r)"
  have pos: "0 < ?a" "0 < ?d" "?a \<le> ?b"
    using assms by (simp_all add: unat_gt_0 word_le_nat_alt)
  obtain k where k: "?b - ?a = ?d * k" using assms(4) by (elim dvdE)
  then have "?b - 1 = (?a - 1) + k * ?d" using pos by (simp add: mult.commute)
  then have "additions r = k + (?a - 1) div ?d"
    using pos(2) by (simp add: additions_def)
  with k pos show ?thesis by (simp add: launched_def add_mult_distrib2)
qed

text \<open>
  A periodic run. The main thread launches the first workers and only then sets the count of
  incomplete periods, without a lock; it then waits for the promise. Every worker that runs
  reports its period once, and the completion of its request after that (see
  \<open>Rate_Worker.periodic_worker_reports\<close>); each of the two callbacks runs under its own mutex,
  so that a callback, with the workers it launches, is one step.
\<close>

datatype main_phase = Launching nat | WaitingForPromise

record 'm periodic_run =
  pr_manager :: 'm
  pr_main :: main_phase
  reported :: nat
  completed :: nat

inductive periodic_step ::
  "('g, 'z) periodic_manager_scheme periodic_run \<Rightarrow> ('g, 'z) periodic_manager_scheme periodic_run \<Rightarrow> bool" where
  launch: "pr_main s = Launching k \<Longrightarrow> k < unat (range_start (concurrency_range (pr_manager s))) \<Longrightarrow>
    periodic_step s (s\<lparr>pr_manager := AddConcurrentRequest k (pr_manager s), pr_main := Launching (Suc k)\<rparr>)"
| set_count: "pr_main s = Launching k \<Longrightarrow> \<not> k < unat (range_start (concurrency_range (pr_manager s))) \<Longrightarrow>
    periodic_step s (s\<lparr>pr_manager := (pr_manager s)\<lparr>num_incomplete_periods :=
      range_start (concurrency_range (pr_manager s))\<rparr>, pr_main := WaitingForPromise\<rparr>)"
| period: "reported s < length (threads (pr_manager s)) \<Longrightarrow>
    periodic_step s (s\<lparr>pr_manager := PeriodCompletedCallback (pr_manager s), reported := Suc (reported s)\<rparr>)"
| complete: "completed s < reported s \<Longrightarrow> RequestCompletedCallback (pr_manager s) = Inr m' \<Longrightarrow>
    periodic_step s (s\<lparr>pr_manager := m', completed := Suc (completed s)\<rparr>)"

text \<open>The steps of a run in which no worker reports its period before the count is set.\<close>

definition orderly_step ::
  "('g, 'z) periodic_manager_scheme periodic_run \<Rightarrow> ('g, 'z) periodic_manager_scheme periodic_run \<Rightarrow> bool" where
  "orderly_step s s' \<longleftrightarrow> periodic_step s s' \<and> (pr_main s' = WaitingForPromise \<or> reported s' = 0)"

definition new_run :: "'m \<Rightarrow> 'm periodic_run" where
  "new_run m = \<lparr>pr_manager = m, pr_main = Launching 0, reported = 0, completed = 0\<rparr>"

text \<open>Without a callback in between, the main thread's steps are \<open>AddConcurrentRequests\<close>.\<close>

lemma launches_are_AddConcurrentRequests:
  fixes m :: "('g, 'z) periodic_manager_scheme"
  shows "periodic_step\<^sup>*\<^sup>* (new_run m) ((new_run m)\<lparr>
    pr_manager := AddConcurrentRequests (range_start (concurrency_range m)) m, pr_main := WaitingForPromise\<rparr>)"
proof -
  let ?l = "\<lambda>k. foldl (\<lambda>m i. AddConcurrentRequest i m) m [0..<k]"
  have r: "concurrency_range (?l k) = concurrency_range m" for k by (induction k) simp_all
  have "k \<le> unat (range_start (concurrency_range m)) \<Longrightarrow>
    periodic_step\<^sup>*\<^sup>* (new_run m) ((new_run m)\<lparr>pr_manager := ?l k, pr_main := Launching k\<rparr>)" for k
  proof (induction k)
    case (Suc k)
    then have "periodic_step ((new_run m)\<lparr>pr_manager := ?l k, pr_main := Launching k\<rparr>)
        ((new_run m)\<lparr>pr_manager := ?l (Suc k), pr_main := Launching (Suc k)\<rparr>)"
      using periodic_step.launch [of "(new_run m)\<lparr>pr_manager := ?l k, pr_main := Launching k\<rparr>" k] by (simp add: r)
    with Suc show ?case by (meson Suc_leD rtranclp.rtrancl_into_rtrancl)
  qed (simp add: new_run_def)
  from this [of "unat (range_start (concurrency_range m))"]
    periodic_step.set_count [of "(new_run m)\<lparr>pr_manager := ?l (unat (range_start (concurrency_range m))),
      pr_main := Launching (unat (range_start (concurrency_range m)))\<rparr>"]
  show ?thesis by (simp add: r AddConcurrentRequests_def rtranclp.rtrancl_into_rtrancl)
qed

lemma PeriodCompletedCallback_simps [simp]:
  fixes m :: "('g, 'z) periodic_manager_scheme"
  shows "num_completed_requests (PeriodCompletedCallback m) = num_completed_requests m"
    "all_requests_completed (PeriodCompletedCallback m) = all_requests_completed m"
    "concurrency_range (PeriodCompletedCallback m) = concurrency_range m"
  by (simp_all add: PeriodCompletedCallback_def Let_def)

text \<open>The state of the promise after \<open>k\<close> completions.\<close>

definition promise_inv :: "nat \<Rightarrow> ('g, 'z) periodic_manager_scheme \<Rightarrow> bool" where
  "promise_inv k m \<longleftrightarrow> num_completed_requests m = word_of_nat k \<and>
     (all_requests_completed m \<longleftrightarrow> unat (range_end (concurrency_range m)) \<le> k)"

lemma promise_step:
  fixes m :: "('g, 'z) periodic_manager_scheme"
  assumes "promise_inv k m" and "Suc k < 2 ^ 64"
  obtains m' where "RequestCompletedCallback m = Inr m'" and "promise_inv (Suc k) m'"
    and "m' = m\<lparr>num_completed_requests := word_of_nat (Suc k), all_requests_completed := all_requests_completed m'\<rparr>"
proof -
  have "unat (word_of_nat (Suc k) :: u64) = Suc k"
    using assms(2) by (simp add: unat_of_nat del: of_nat_Suc)
  then have E: "word_of_nat (Suc k) = range_end (concurrency_range m) \<longleftrightarrow>
      Suc k = unat (range_end (concurrency_range m))"
    by (metis word_unat_eq_iff)
  have w: "num_completed_requests m + 1 = word_of_nat (Suc k)"
    using assms(1) by (simp add: promise_inv_def add.commute)
  let ?m = "m\<lparr>num_completed_requests := word_of_nat (Suc k)\<rparr>"
  have cb: "RequestCompletedCallback m =
    (if Suc k = unat (range_end (concurrency_range m)) then
       if all_requests_completed m then Inl (RuntimeError ''Promise already satisfied'')
       else Inr (?m\<lparr>all_requests_completed := True\<rparr>) else Inr ?m)"
    unfolding RequestCompletedCallback_def w by (simp add: E del: of_nat_Suc)
  show thesis
    using assms(1) unfolding promise_inv_def
    by (intro that [of "?m\<lparr>all_requests_completed := unat (range_end (concurrency_range m)) \<le> Suc k\<rparr>"])
       (auto simp: cb promise_inv_def le_Suc_eq simp del: of_nat_Suc)
qed

definition run_inv :: "range \<Rightarrow> ('g, 'z) periodic_manager_scheme periodic_run \<Rightarrow> bool" where
  "run_inv r s \<longleftrightarrow> concurrency_range (pr_manager s) = r \<and> promise_inv (completed s) (pr_manager s) \<and>
     completed s \<le> reported s \<and> reported s \<le> length (threads (pr_manager s)) \<and>
     (case pr_main s of
        Launching k \<Rightarrow> k \<le> unat (range_start r) \<and> reported s = 0 \<and> length (threads (pr_manager s)) = k \<and>
          steps_completed (pr_manager s) = 0
      | WaitingForPromise \<Rightarrow> periodic_inv r (reported s) (pr_manager s))"

text \<open>The ranges that the command line accepts, with sums that fit 64 bits.\<close>

definition range_ok :: "range \<Rightarrow> bool" where
  "range_ok r \<longleftrightarrow> 0 < range_start r \<and> 0 < range_step r \<and> range_start r \<le> range_end r \<and>
     unat (range_step r) dvd unat (range_end r) - unat (range_start r) \<and>
     unat (range_end r) + unat (range_step r) < 2 ^ 64 \<and> unat (range_end r) + unat (range_start r) < 2 ^ 64"

lemma range_ok_pos: "range_ok r \<Longrightarrow> 0 < range_end r"
  unfolding range_ok_def by (metis less_le_trans)

lemma launched_bounds:
  assumes "range_ok r"
  shows "launched r < 2 ^ 64" and "unat (range_end r) \<le> launched r" and "0 < unat (range_start r)"
    and "launched r = unat (range_end r) \<longleftrightarrow> range_start r \<le> range_step r"
proof -
  have eq: "launched r = unat (range_end r) +
      unat (range_step r) * ((unat (range_start r) - 1) div unat (range_step r))"
    using assms by (intro launched_eq) (simp_all add: range_ok_def)
  have pos: "0 < unat (range_step r)" "0 < unat (range_start r)" using assms by (auto simp: range_ok_def unat_gt_0 word_gt_0)
  have "unat (range_step r) * ((unat (range_start r) - 1) div unat (range_step r)) \<le> unat (range_start r)"
    by (metis diff_le_self le_trans times_div_less_eq_dividend)
  then show "launched r < 2 ^ 64" using eq assms by (simp add: range_ok_def)
  show "unat (range_end r) \<le> launched r" "0 < unat (range_start r)" using eq pos by simp_all
  show "launched r = unat (range_end r) \<longleftrightarrow> range_start r \<le> range_step r"
    using eq pos by (auto simp: word_le_nat_alt div_eq_0_iff)
qed

lemma reported_bound:
  "periodic_inv r j m \<Longrightarrow> j < length (threads m) \<Longrightarrow> j < launched r"
  by (auto simp: periodic_inv_def Let_def split: if_splits)

lemma periodic_inv_promise:
  "periodic_inv r j (m\<lparr>num_completed_requests := n, all_requests_completed := a\<rparr>) = periodic_inv r j m"
  by (simp add: periodic_inv_def)

lemma periodic_inv_done:
  "periodic_inv r j m \<Longrightarrow> j = length (threads m) \<Longrightarrow> length (threads m) = launched r"
  by (auto simp: periodic_inv_def Let_def split: if_splits)

lemma periodic_inv_le:
  "periodic_inv r j m \<Longrightarrow> j \<le> length (threads m) \<Longrightarrow> j \<le> launched r"
  using periodic_inv_done [of r j m] reported_bound [of r j m] by (cases "j = length (threads m)") auto

lemma run_inv_step:
  assumes "orderly_step s s'" and inv: "run_inv r s" and r: "range_ok r"
  shows "run_inv r s'"
proof -
  from assms(1) have st: "periodic_step s s'" and ord: "pr_main s' = WaitingForPromise \<or> reported s' = 0"
    by (simp_all add: orderly_step_def)
  have pos: "0 < range_step r" "0 < range_end r" "unat (range_end r) + unat (range_step r) < 2 ^ 64"
    "0 < unat (range_start r)"
    using r range_ok_pos [OF r] by (auto simp: range_ok_def unat_gt_0 word_gt_0)
  from st ord inv show ?thesis
  proof cases
    case (set_count k)
    have "0 < launched r" using pos(4) by (simp add: launched_def)
    with set_count inv pos(4) show ?thesis
      by (auto simp: run_inv_def promise_inv_def periodic_inv_def Let_def)
  next
    case period
    with ord have main: "pr_main s = WaitingForPromise" by simp
    with inv have p: "periodic_inv r (reported s) (pr_manager s)" by (simp add: run_inv_def)
    have p': "periodic_inv r (Suc (reported s)) (PeriodCompletedCallback (pr_manager s))"
      using period_advances [OF p reported_bound [OF p period(2)] pos(1-3)] .
    then have "Suc (reported s) \<le> length (threads (PeriodCompletedCallback (pr_manager s)))"
      using reported_bound [OF p period(2)] by (auto simp: periodic_inv_def Let_def split: if_splits)
    with period main p' inv show ?thesis by (simp add: run_inv_def promise_inv_def)
  next
    case (complete m')
    have main: "pr_main s = WaitingForPromise" using complete inv by (auto simp: run_inv_def split: main_phase.splits)
    with inv have p: "periodic_inv r (reported s) (pr_manager s)" "promise_inv (completed s) (pr_manager s)"
      "reported s \<le> launched r"
      using periodic_inv_le by (auto simp: run_inv_def)
    have "Suc (completed s) < 2 ^ 64" using complete p(3) launched_bounds(1) [OF r] by simp
    from promise_step [OF p(2) this] complete obtain a where
      m': "promise_inv (Suc (completed s)) m'"
      "m' = (pr_manager s)\<lparr>num_completed_requests := word_of_nat (Suc (completed s)), all_requests_completed := a\<rparr>"
      by (metis sum.inject(2))
    have "periodic_inv r (reported s) m'" using p(1) unfolding m'(2) by (simp only: periodic_inv_promise)
    with complete main inv m'(1) show ?thesis by (simp add: run_inv_def) (simp add: m'(2))
  qed (auto simp: run_inv_def promise_inv_def)
qed

lemma run_inv_new:
  fixes m :: "('g, 'z) periodic_manager_scheme"
  assumes "threads m = []" and "steps_completed m = 0" and "num_completed_requests m = 0"
    and "\<not> all_requests_completed m" and "range_ok (concurrency_range m)"
  shows "run_inv (concurrency_range m) (new_run m)"
  using assms range_ok_pos [OF assms(5)] by (auto simp: run_inv_def new_run_def promise_inv_def unat_gt_0 word_gt_0)

text \<open>Every step of a run makes progress, of which there is a bound.\<close>

definition progress :: "range \<Rightarrow> 'm periodic_run \<Rightarrow> nat" where
  "progress r s = (case pr_main s of Launching k \<Rightarrow> k | WaitingForPromise \<Rightarrow> Suc (unat (range_start r))) +
     reported s + completed s"

lemma progress_step:
  assumes "periodic_step s s'" and "run_inv r s"
  shows "progress r s' = Suc (progress r s)"
  using assms by cases (auto simp: progress_def run_inv_def)

lemma orderly_run:
  assumes "(orderly_step ^^ n) s0 s" and "run_inv r s0" and "range_ok r"
  shows "run_inv r s \<and> progress r s = progress r s0 + n"
  using assms(1)
proof (induction n arbitrary: s)
  case (Suc n)
  then obtain s1 where s1: "(orderly_step ^^ n) s0 s1" "orderly_step s1 s" by auto
  with Suc.IH have "run_inv r s1" "progress r s1 = progress r s0 + n" by auto
  with run_inv_step [OF s1(2) _ assms(3)] progress_step [of s1 s r] s1(2) show ?case
    by (simp add: orderly_step_def)
qed (use assms(2) in simp)

lemma progress_bound:
  assumes "run_inv r s" and "range_ok r"
  shows "progress r s \<le> Suc (unat (range_start r)) + 2 * launched r"
  using assms periodic_inv_le [of r "reported s" "pr_manager s"]
  by (auto simp: run_inv_def progress_def split: main_phase.splits)

lemma stuck_run_complete:
  assumes inv: "run_inv r s" and r: "range_ok r" and stuck: "\<nexists>s'. orderly_step s s'"
  shows "length (threads (pr_manager s)) = launched r \<and> reported s = launched r \<and> completed s = launched r \<and>
    all_requests_completed (pr_manager s)"
proof -
  have main: "pr_main s = WaitingForPromise"
  proof (cases "pr_main s")
    case (Launching k)
    with inv stuck periodic_step.launch [OF Launching] periodic_step.set_count [OF Launching] show ?thesis
      unfolding orderly_step_def run_inv_def by (cases "k < unat (range_start r)") fastforce+
  qed
  with inv have p: "periodic_inv r (reported s) (pr_manager s)" "reported s \<le> length (threads (pr_manager s))"
    "promise_inv (completed s) (pr_manager s)" "completed s \<le> reported s" "concurrency_range (pr_manager s) = r"
    by (simp_all add: run_inv_def)
  have "\<not> reported s < length (threads (pr_manager s))"
    using stuck main periodic_step.period [of s] by (auto simp: orderly_step_def)
  with p(2) have len: "reported s = length (threads (pr_manager s))" by simp
  from periodic_inv_done [OF p(1) len] len
  have rep: "length (threads (pr_manager s)) = launched r" "reported s = launched r" by simp_all
  have "completed s = reported s"
  proof (rule ccontr)
    assume "completed s \<noteq> reported s"
    then have lt: "completed s < reported s" using p(4) by simp
    with rep launched_bounds(1) [OF r] have "Suc (completed s) < 2 ^ 64" by simp
    from promise_step [OF p(3) this] obtain m' where "RequestCompletedCallback (pr_manager s) = Inr m'" by blast
    with stuck main periodic_step.complete [OF lt] show False by (auto simp: orderly_step_def)
  qed
  with rep p(3,5) launched_bounds(2) [OF r] show ?thesis by (simp add: promise_inv_def)
qed

text \<open>
  C36: A periodic run, with a range that the command line accepts (\<open>0 < start \<le> end\<close>, the step
  divides the difference) and whose sums fit 64 bits, and in which no worker reports its
  period before the main thread has set the count of incomplete periods: however the launches,
  the reports of the workers and the completions of their requests interleave, no callback
  raises, the promise is fulfilled from the completion number \<open>end\<close> on, the number of steps is
  bounded, and a run that cannot go on has launched exactly \<open>launched\<close> workers, all of which
  reported and completed, and has fulfilled the promise. That number is the end of the range
  if and only if the start is at most the step, and larger otherwise. A report that comes
  earlier stalls the run (\<open>early_report_stalls\<close>).
\<close>

theorem periodic_run_finishes:
  fixes m :: "('g, 'z) periodic_manager_scheme"
  defines "r \<equiv> concurrency_range m"
  assumes "threads m = []" and "steps_completed m = 0"
    and "num_completed_requests m = 0" and "\<not> all_requests_completed m" and "range_ok r"
    and "(orderly_step ^^ n) (new_run m) s"
  shows "(completed s < reported s \<longrightarrow> (\<exists>m'. RequestCompletedCallback (pr_manager s) = Inr m')) \<and>
    (all_requests_completed (pr_manager s) \<longleftrightarrow> unat (range_end r) \<le> completed s) \<and>
    n \<le> Suc (unat (range_start r)) + 2 * launched r \<and>
    ((\<nexists>s'. orderly_step s s') \<longrightarrow> length (threads (pr_manager s)) = launched r \<and> reported s = launched r \<and>
      completed s = launched r \<and> all_requests_completed (pr_manager s)) \<and>
    unat (range_end r) \<le> launched r \<and> (launched r = unat (range_end r) \<longleftrightarrow> range_start r \<le> range_step r)"
proof -
  have "run_inv r (new_run m)" using run_inv_new assms(2-6) by (simp add: r_def)
  from orderly_run [OF assms(7) this assms(6)]
  have inv: "run_inv r s" and n: "progress r s = n" by (simp_all add: progress_def new_run_def)
  from inv have p: "promise_inv (completed s) (pr_manager s)" "concurrency_range (pr_manager s) = r"
    and c: "completed s < reported s \<longrightarrow> Suc (completed s) < 2 ^ 64"
    using launched_bounds(1) [OF assms(6)] periodic_inv_le [of r "reported s" "pr_manager s"]
    by (auto simp: run_inv_def split: main_phase.splits)
  have "completed s < reported s \<longrightarrow> (\<exists>m'. RequestCompletedCallback (pr_manager s) = Inr m')"
    using promise_step [OF p(1)] c by blast
  then show ?thesis
    using p stuck_run_complete [OF inv assms(6)] progress_bound [OF inv assms(6)] n launched_bounds(2,4) [OF assms(6)]
    by (simp add: promise_inv_def)
qed

definition ex_periodic_manager :: "range \<Rightarrow> unit periodic_manager" where
  "ex_periodic_manager r = \<lparr>max_threads = 4, on_sequence_model = False, workers = [],
     threads = [], threads_stat = [], threads_config = [], sequence_manager = None, early_exit = False,
     active_threads = 0, cm_execute = True, max_concurrency = 8, concurrency_range = r,
     request_period = 1, steps_completed = 0, num_incomplete_periods = 0,
     num_completed_requests = 0, all_requests_completed = False\<rparr>"

text \<open>There is a run for 2 to 6 workers in steps of 2 that cannot go on: it is complete.\<close>

theorem periodic_run_finishes_witness:
  "\<exists>n s. (orderly_step ^^ n) (new_run (ex_periodic_manager \<lparr>range_start = 2, range_end = 6, range_step = 2\<rparr>)) s \<and>
     length (threads (pr_manager s)) = 6 \<and> completed s = 6 \<and> all_requests_completed (pr_manager s)"
proof -
  let ?r = "\<lparr>range_start = 2, range_end = 6, range_step = 2\<rparr>"
  let ?m = "ex_periodic_manager ?r"
  have m: "concurrency_range ?m = ?r" "threads ?m = []" "steps_completed ?m = 0"
    "num_completed_requests ?m = 0" "\<not> all_requests_completed ?m"
    by (simp_all add: ex_periodic_manager_def)
  have l: "launched ?r = 6" and ok: "range_ok ?r" by (simp_all add: launched_def additions_def range_ok_def)
  note run = periodic_run_finishes [of ?m, unfolded m(1) l, OF m(2-5) ok]
  have "\<exists>n s. (orderly_step ^^ n) (new_run ?m) s \<and> (\<nexists>s'. orderly_step s s')"
  proof (rule ccontr)
    assume "\<nexists>n s. (orderly_step ^^ n) (new_run ?m) s \<and> (\<nexists>s'. orderly_step s s')"
    then have "\<exists>s. (orderly_step ^^ n) (new_run ?m) s" for n
      by (induction n) (simp, metis relpowp_Suc_I)
    then obtain s where "(orderly_step ^^ 16) (new_run ?m) s" by blast
    from run [OF this] show False by simp
  qed
  then obtain n s where s: "(orderly_step ^^ n) (new_run ?m) s" "\<nexists>s'. orderly_step s s'" by blast
  with run [OF s(1)] show ?thesis by blast
qed

text \<open>
  The states of a run in which \<open>e > 0\<close> workers reported before the count was set: the count
  underflows, setting it forgets the reports, and it never reaches 0 again.
\<close>

definition stall_inv :: "range \<Rightarrow> ('g, 'z) periodic_manager_scheme periodic_run \<Rightarrow> bool" where
  "stall_inv r s \<longleftrightarrow> concurrency_range (pr_manager s) = r \<and> promise_inv (completed s) (pr_manager s) \<and>
     completed s \<le> reported s \<and> reported s \<le> length (threads (pr_manager s)) \<and> 0 < reported s \<and>
     (case pr_main s of
        Launching k \<Rightarrow> k \<le> unat (range_start r) \<and> length (threads (pr_manager s)) = k \<and>
          unat (num_incomplete_periods (pr_manager s)) + reported s = 2 ^ 64
      | WaitingForPromise \<Rightarrow> length (threads (pr_manager s)) = unat (range_start r) \<and>
          unat (range_start r) < unat (num_incomplete_periods (pr_manager s)) + reported s)"

lemma unat_u64: "unat (w :: u64) < 2 ^ 64"
  using unsigned_less [of w, where 'a = nat] by simp

lemma stall_step:
  assumes "periodic_step s s'" and inv: "stall_inv r s"
  shows "stall_inv r s'"
  using assms
proof cases
  case (set_count k)
  with inv show ?thesis by (auto simp: stall_inv_def promise_inv_def)
next
  case period
  let ?i = "num_incomplete_periods (pr_manager s)"
  have small: "unat (range_start r) < 2 ^ 64" using unat_u64 [of "range_start r"] by simp
  have i: "2 \<le> unat ?i" using inv period small by (auto simp: stall_inv_def split: main_phase.splits)
  then have d: "unat (?i - 1) = unat ?i - 1" by (metis unat_minus_one unat_eq_zero not_numeral_le_zero)
  with i have "?i - 1 \<noteq> 0" by (metis unat_0 diff_is_0_eq not_less_eq_eq numeral_2_eq_2 One_nat_def)
  then have "PeriodCompletedCallback (pr_manager s) = (pr_manager s)\<lparr>num_incomplete_periods := ?i - 1\<rparr>"
    by (simp add: PeriodCompletedCallback_def)
  with period inv d i show ?thesis
    by (auto simp: stall_inv_def promise_inv_def split: main_phase.splits)
next
  case (complete m')
  have "Suc (completed s) < 2 ^ 64"
    using complete inv unat_u64 [of "range_start r"] by (auto simp: stall_inv_def split: main_phase.splits)
  moreover have "promise_inv (completed s) (pr_manager s)" using inv by (simp add: stall_inv_def)
  ultimately obtain a where
    m': "promise_inv (Suc (completed s)) m'"
    "m' = (pr_manager s)\<lparr>num_completed_requests := word_of_nat (Suc (completed s)), all_requests_completed := a\<rparr>"
    using promise_step [of "completed s" "pr_manager s"] complete by (metis sum.inject(2))
  with complete inv show ?thesis
    by (simp add: stall_inv_def split: main_phase.splits)
qed (auto simp: stall_inv_def promise_inv_def)

text \<open>
  When a worker reports its period before the main thread has set the count, no worker beyond
  the first ones is ever launched, and with more than those to come the promise is never
  fulfilled: \<open>RunExperiment\<close> waits for ever.
\<close>

lemma early_report_stalls:
  assumes "run_inv r s" and "pr_main s = Launching k" and "0 < k"
    and "num_incomplete_periods (pr_manager s) = 0"
    and "range_start r < range_end r"
  shows "\<exists>s1. periodic_step s s1 \<and> (\<forall>s2. periodic_step\<^sup>*\<^sup>* s1 s2 \<longrightarrow>
    length (threads (pr_manager s2)) \<le> unat (range_start r) \<and> \<not> all_requests_completed (pr_manager s2))"
proof -
  let ?s1 = "s\<lparr>pr_manager := PeriodCompletedCallback (pr_manager s), reported := Suc (reported s)\<rparr>"
  have st: "periodic_step s ?s1"
    using assms(1-3) by (intro periodic_step.period) (simp add: run_inv_def)
  have "PeriodCompletedCallback (pr_manager s) = (pr_manager s)\<lparr>num_incomplete_periods := - 1\<rparr>"
    using assms(4) by (simp add: PeriodCompletedCallback_def)
  moreover have max: "unat (- 1 :: u64) = 2 ^ 64 - 1" by (simp add: unsigned_minus_1_eq_mask mask_eq_exp_minus_1)
  ultimately have inv1: "stall_inv r ?s1"
    using assms(1-3) by (auto simp: run_inv_def stall_inv_def promise_inv_def max)
  have "length (threads (pr_manager s2)) \<le> unat (range_start r) \<and> \<not> all_requests_completed (pr_manager s2)"
    if "periodic_step\<^sup>*\<^sup>* ?s1 s2" for s2
  proof -
    have "stall_inv r s2" using that inv1 by (induction rule: rtranclp_induct) (auto intro: stall_step)
    with assms(5) show ?thesis
      by (auto simp: stall_inv_def promise_inv_def word_less_nat_alt split: main_phase.splits)
  qed
  with st show ?thesis by blast
qed

end
