(* ===== verification/Request_Rate_Manager.thy ===== *)
theory Request_Rate_Manager
  imports Load_Manager
begin

text \<open>
  The managers that follow a timetable: \<open>RequestRateManager\<close> (\<open>request_rate_manager.cc\<close>),
  \<open>CustomLoadManager\<close> (\<open>custom_load_manager.cc\<close>, intervals from a file) and
  \<open>CustomRequestScheduleManager\<close> (\<open>custom_request_schedule_manager.cc\<close>, timestamps from the
  data set). All of them build one \<open>RateSchedule\<close> per worker by dealing a timeline to the
  workers in turn.

  The distribution of \<open>perf_utils.cc\<close> is a function of the state of the random engine.
  The loop that fills the schedules of the request-rate manager need not end (a
  distribution that only draws zeros); it is a partial function into an option, where
  \<open>None\<close> is a loop that does not end.
\<close>

section \<open>The request-rate manager\<close>

datatype distribution = POISSON | CONSTANT | CUSTOM

record 'g request_rate_manager = "'g load_manager" +
  gen_duration :: nanos
  request_distribution :: distribution
  rm_start_time :: nanos
  rm_execute :: bool
  num_of_sequences :: nat

definition rm_InitManagerFinalize ::
  "('g, 'z) request_rate_manager_scheme \<Rightarrow> exn + ('g, 'z) request_rate_manager_scheme" where
  "rm_InitManagerFinalize m =
     (if on_sequence_model m then
        (case sequence_manager m of
           None \<Rightarrow> Inl (UndefinedBehaviour ''null sequence manager'')
         | Some sm \<Rightarrow>
             Inr (m\<lparr>sequence_manager := Some (InitSequenceStatuses (num_of_sequences m) sm)\<rparr>))
      else Inr m)"

definition DetermineNumThreads :: "('g, 'z) request_rate_manager_scheme \<Rightarrow> nat" where
  "DetermineNumThreads m =
     (if on_sequence_model m then min (max_threads m) (num_of_sequences m) else max_threads m)"

definition PauseWorkers :: "('g, 'z) request_rate_manager_scheme \<Rightarrow> ('g, 'z) request_rate_manager_scheme" where
  "PauseWorkers m =
     m\<lparr>rm_execute := False,
       threads_config := map (\<lambda>c. c\<lparr>is_paused := True\<rparr>) (threads_config m)\<rparr>"

definition ResumeWorkers :: "nanos \<Rightarrow> ('g, 'z) request_rate_manager_scheme \<Rightarrow> ('g, 'z) request_rate_manager_scheme" where
  "ResumeWorkers now m = m\<lparr>rm_start_time := now, rm_execute := True\<rparr>"

definition rm_new_worker :: "nat \<Rightarrow> ('g, 'z) load_manager_scheme \<Rightarrow> ('g, 'z) load_manager_scheme" where
  "rm_new_worker offset m =
     m\<lparr>threads_stat := threads_stat m @ [ThreadStat],
       threads_config := threads_config m @ [ThreadConfig (length (workers m))],
       workers := workers m @
         [\<lparr>worker_id = length (workers m), worker_schedule = None, dataset_offset = offset\<rparr>]\<rparr>"

function make_workers :: "nat \<Rightarrow> nat \<Rightarrow> ('g, 'z) load_manager_scheme \<Rightarrow> ('g, 'z) load_manager_scheme" where
  "make_workers n offset m =
     (if length (workers m) < n then make_workers n offset (rm_new_worker offset m) else m)"
  by auto
termination
  by (relation "measure (\<lambda>(n, _, m). n - length (workers m))") (auto simp: rm_new_worker_def)

declare make_workers.simps [simp del]

text \<open>\<open>num_sequences_\<close> is a \<open>uint32_t\<close> that is assigned from a \<open>size_t\<close>.\<close>

definition configure_step :: "nat \<Rightarrow> nat \<Rightarrow> nat \<Rightarrow>
    ('g, 'z) load_manager_scheme \<times> nat \<Rightarrow> nat \<Rightarrow> exn + ('g, 'z) load_manager_scheme \<times> nat" where
  "configure_step num_seqs num_reqs n = (\<lambda>(m, offset) i.
     let avg_num_seqs = num_seqs div n;
         num_seqs_add_one = num_seqs mod n;
         avg_req_count = num_reqs div n;
         req_count_add_one = num_reqs mod n;
         num_of_seq = avg_num_seqs + (if i < num_seqs_add_one then 1 else 0);
         thread_num_reqs = avg_req_count + (if i < req_count_add_one then 1 else 0)
     in bindR (vec_index (threads_config m) i) (\<lambda>cfg.
          Inr (m\<lparr>threads_config := (threads_config m)
                   [i := cfg\<lparr>num_sequences := word_of_nat num_of_seq,
                            seq_stat_index_offset := offset,
                            num_requests := thread_num_reqs\<rparr>],
                 threads := threads m @ [i]\<rparr>,
               offset + num_of_seq)))"

definition ConfigureThreads :: "nat \<Rightarrow> nat \<Rightarrow> ('g, 'z) request_rate_manager_scheme \<Rightarrow>
    exn + ('g, 'z) request_rate_manager_scheme" where
  "ConfigureThreads num_reqs offset m =
     (if threads m = [] then
        let m1 = make_workers (DetermineNumThreads m) offset m
        in if workers m1 = [] then Inl DivideByZero
           else bindR (foldR (configure_step (num_of_sequences m) num_reqs (length (workers m1)))
                         (m1, 0) [0..<length (workers m1)]) (\<lambda>(m2, _). Inr m2)
      else Inr m)"

definition CreateEmptyWorkerSchedules :: "('g, 'z) load_manager_scheme \<Rightarrow> rate_schedule list" where
  "CreateEmptyWorkerSchedules m = replicate (length (workers m)) empty_schedule"

definition CalculateThreadIds :: "('g, 'z) request_rate_manager_scheme \<Rightarrow> exn + nat list" where
  "CalculateThreadIds m =
     (let num_ids = (if on_sequence_model m then num_of_sequences m else max_threads m)
      in if num_ids \<noteq> 0 \<and> DetermineNumThreads m = 0 then Inl DivideByZero
         else Inr (map (\<lambda>i. i mod DetermineNumThreads m) [0..<num_ids]))"

text \<open>\<open>worker_schedules[w]->intervals.emplace_back(t)\<close>\<close>

definition push_timestamp :: "nat \<Rightarrow> nanos \<Rightarrow> rate_schedule list \<Rightarrow> exn + rate_schedule list" where
  "push_timestamp w t scheds =
     bindR (vec_index scheds w) (\<lambda>s. Inr (scheds[w := s\<lparr>intervals := intervals s @ [t]\<rparr>]))"

text \<open>\<open>vector::back\<close> of an empty vector is undefined.\<close>

definition vec_back :: "'a list \<Rightarrow> exn + 'a" where
  "vec_back xs = (if xs = [] then Inl (UndefinedBehaviour ''back of an empty vector'') else Inr (last xs))"

definition SetScheduleDurations :: "rate_schedule list \<Rightarrow> exn + rate_schedule list" where
  "SetScheduleDurations scheds =
     bindR (vec_back scheds) (\<lambda>last_schedule.
     bindR (vec_back (intervals last_schedule)) (\<lambda>d0.
     bindR (foldR (\<lambda>d s. bindR (vec_back (intervals s)) (\<lambda>b. Inr (max b d))) d0 scheds) (\<lambda>d.
       Inr (map (\<lambda>s. s\<lparr>duration := d\<rparr>) scheds))))"

definition GiveSchedulesToWorkers :: "rate_schedule list \<Rightarrow> ('g, 'z) load_manager_scheme \<Rightarrow>
    exn + ('g, 'z) load_manager_scheme" where
  "GiveSchedulesToWorkers scheds m =
     bindR (mapR (\<lambda>i. bindR (vec_index scheds i) (\<lambda>s. Inr ((workers m ! i)\<lparr>worker_schedule := Some s\<rparr>)))
              [0..<length (workers m)])
       (\<lambda>ws. Inr (m\<lparr>workers := ws\<rparr>))"

text \<open>
  The filling loop; \<open>draw\<close> draws the next gap from the engine's state. The sum of the timestamp
  and the gap is signed and may overflow.
\<close>

partial_function (option) fill_schedules ::
  "nanos \<Rightarrow> nat list \<Rightarrow> ('r \<Rightarrow> exn + nanos \<times> 'r) \<Rightarrow> nanos \<Rightarrow> nat \<Rightarrow> 'r \<Rightarrow> rate_schedule list \<Rightarrow>
   (exn + rate_schedule list) option" where
  "fill_schedules max_duration ids draw next_timestamp k g scheds =
     (if ids = [] \<and> \<not> next_timestamp < max_duration then Some (Inl DivideByZero)
      else if next_timestamp < max_duration \<or> k mod length ids \<noteq> 0 then
        case draw g of
          Inl e \<Rightarrow> Some (Inl e)
        | Inr p \<Rightarrow>
            (case nanos_checked (next_timestamp + fst p) of
               Inl e \<Rightarrow> Some (Inl e)
             | Inr t \<Rightarrow>
                 (case vec_index ids k of
                    Inl e \<Rightarrow> Some (Inl e)
                  | Inr w \<Rightarrow>
                      (case push_timestamp w t scheds of
                         Inl e \<Rightarrow> Some (Inl e)
                       | Inr scheds' \<Rightarrow>
                           fill_schedules max_duration ids draw t (Suc k mod length ids) (snd p) scheds')))
      else Some (Inr scheds))"

definition CreateWorkerSchedules :: "nanos \<Rightarrow> ('r \<Rightarrow> exn + nanos \<times> 'r) \<Rightarrow> 'r \<Rightarrow>
    ('g, 'z) request_rate_manager_scheme \<Rightarrow> (exn + rate_schedule list) option" where
  "CreateWorkerSchedules max_duration draw schedule_rng m =
     (case CalculateThreadIds m of
        Inl e \<Rightarrow> Some (Inl e)
      | Inr ids \<Rightarrow>
          map_option (\<lambda>r. bindR r SetScheduleDurations)
            (fill_schedules max_duration ids draw 0 0 schedule_rng (CreateEmptyWorkerSchedules m)))"

text \<open>
  \<open>ScheduleDistribution<CONSTANT>\<close>: the period is \<open>1.0 / request_rate\<close> seconds, computed in
  double precision and truncated to whole nanoseconds. \<open>ScheduleDistribution<POISSON>\<close>
  wraps \<open>std::exponential_distribution\<close>, whose sampling is a parameter \<open>exponential\<close>.
\<close>

definition seconds_to_nanos :: "ieee \<Rightarrow> exn + nanos" where
  "seconds_to_nanos s =
     (case ieee_trunc (ieee_mul binary64 s (ieee_of_int binary64 1000000000)) of
        Some v \<Rightarrow> if - (2 ^ 63) \<le> v \<and> v < 2 ^ 63 then Inr v
                  else Inl (UndefinedBehaviour ''duration_cast'')
      | None \<Rightarrow> Inl (UndefinedBehaviour ''duration_cast''))"

definition ScheduleDistribution_constant :: "ieee \<Rightarrow> exn + ('r \<Rightarrow> exn + nanos \<times> 'r)" where
  "ScheduleDistribution_constant request_rate =
     bindR (seconds_to_nanos (ieee_div binary64 (Fin 1) request_rate)) (\<lambda>period.
       Inr (\<lambda>g. Inr (period, g)))"

definition ScheduleDistribution_poisson :: "(ieee \<Rightarrow> 'r \<Rightarrow> ieee \<times> 'r) \<Rightarrow> ieee \<Rightarrow> 'r \<Rightarrow> exn + nanos \<times> 'r" where
  "ScheduleDistribution_poisson exponential request_rate g =
     (let (x, g') = exponential request_rate g
      in bindR (seconds_to_nanos x) (\<lambda>v. Inr (v, g')))"

definition rm_GenerateSchedule :: "(ieee \<Rightarrow> 'r \<Rightarrow> ieee \<times> 'r) \<Rightarrow> 'r \<Rightarrow> ieee \<Rightarrow>
    ('g, 'z) request_rate_manager_scheme \<Rightarrow> (exn + ('g, 'z) request_rate_manager_scheme) option" where
  "rm_GenerateSchedule exponential schedule_rng request_rate m =
     (case request_distribution m of
        POISSON \<Rightarrow>
          map_option (\<lambda>r. bindR r (\<lambda>scheds. GiveSchedulesToWorkers scheds m))
            (CreateWorkerSchedules (gen_duration m)
              (ScheduleDistribution_poisson exponential request_rate) schedule_rng m)
      | CONSTANT \<Rightarrow>
          (case ScheduleDistribution_constant request_rate of
             Inl e \<Rightarrow> Some (Inl e)
           | Inr draw \<Rightarrow>
               map_option (\<lambda>r. bindR r (\<lambda>scheds. GiveSchedulesToWorkers scheds m))
                 (CreateWorkerSchedules 1 draw schedule_rng m))
      | CUSTOM \<Rightarrow> Some (Inr m))"

definition ChangeRequestRate :: "(ieee \<Rightarrow> 'r \<Rightarrow> ieee \<times> 'r) \<Rightarrow> 'r \<Rightarrow> nanos \<Rightarrow> ieee \<Rightarrow> nat \<Rightarrow>
    ('g, 'z) request_rate_manager_scheme \<Rightarrow> (exn + ('g, 'z) request_rate_manager_scheme) option" where
  "ChangeRequestRate exponential schedule_rng now request_rate num_reqs m =
     (case ConfigureThreads num_reqs 0 (PauseWorkers m) of
        Inl e \<Rightarrow> Some (Inl e)
      | Inr m1 \<Rightarrow>
          map_option (\<lambda>r. bindR r (\<lambda>m2. Inr (ResumeWorkers now m2)))
            (rm_GenerateSchedule exponential schedule_rng request_rate m1))"

definition rm_PerformWarmup :: "(ieee \<Rightarrow> 'r \<Rightarrow> ieee \<times> 'r) \<Rightarrow> 'r \<Rightarrow> nanos \<Rightarrow> ieee \<Rightarrow> nat \<Rightarrow>
    ('g, 'z) request_rate_manager_scheme \<Rightarrow> (exn + ('g, 'z) request_rate_manager_scheme) option" where
  "rm_PerformWarmup exponential schedule_rng now request_rate num_reqs m =
     (if num_reqs = 0 then Some (Inr m)
      else map_option (\<lambda>r. bindR r (\<lambda>m1. Inr (WaitForWarmupAndCleanup m1)))
             (ChangeRequestRate exponential schedule_rng now request_rate num_reqs m))"

section \<open>Custom intervals\<close>

record 'g custom_load_manager = "'g request_rate_manager" +
  request_intervals_file :: string
  custom_intervals :: "nanos list"

text \<open>
  The file is the list of its lines, or nothing when it cannot be opened. \<open>stol\<close> is a
  64-bit conversion; the multiplication by 1000 is signed and may overflow.
\<close>

fun read_intervals :: "string list \<Rightarrow> nanos list \<Rightarrow> exn + nanos list" where
  "read_intervals [] acc = Inr acc"
| "read_intervals (l # ls) acc =
     bindR (stoll l) (\<lambda>v.
       if - (2 ^ 63) \<le> v * 1000 \<and> v * 1000 < 2 ^ 63 then read_intervals ls (acc @ [v * 1000])
       else Inl (UndefinedBehaviour ''signed overflow''))"

definition ReadTimeIntervalsFile :: "(string \<Rightarrow> string list option) \<Rightarrow> string \<Rightarrow> nanos list \<Rightarrow>
    failure + nanos list" where
  "ReadTimeIntervalsFile files path contents =
     (let q = [CHR 0x27] in
      case files path of
        None \<Rightarrow> Inl (Fails (generic_error (''failed to open file '' @ q @ path @ q)))
      | Some lines \<Rightarrow>
          bindR (liftE (read_intervals lines contents)) (\<lambda>contents'.
            if contents' = [] then
              Inl (Fails (generic_error (''file '' @ q @ path @ q @ '' is empty'')))
            else Inr contents'))"

text \<open>
  The loop that deals the intervals until both indices are back at 0; the running sum is signed
  and may overflow.
\<close>

partial_function (option) deal_intervals ::
  "nanos list \<Rightarrow> nat list \<Rightarrow> bool \<Rightarrow> nat \<Rightarrow> nat \<Rightarrow> nanos \<Rightarrow> rate_schedule list \<Rightarrow>
   (exn + rate_schedule list) option" where
  "deal_intervals ivs ids started k i next_timestamp scheds =
     (if \<not> started \<or> k \<noteq> 0 \<or> i \<noteq> 0 then
        case vec_index ivs i of
          Inl e \<Rightarrow> Some (Inl e)
        | Inr iv \<Rightarrow>
            (case nanos_checked (next_timestamp + iv) of
               Inl e \<Rightarrow> Some (Inl e)
             | Inr t \<Rightarrow>
                 (case vec_index ids k of
                    Inl e \<Rightarrow> Some (Inl e)
                  | Inr w \<Rightarrow>
                      (case push_timestamp w t scheds of
                         Inl e \<Rightarrow> Some (Inl e)
                       | Inr scheds' \<Rightarrow>
                           deal_intervals ivs ids True (Suc k mod length ids) (Suc i mod length ivs) t scheds')))
      else Some (Inr scheds))"

definition cl_CreateWorkerSchedules ::
  "('g, 'z) custom_load_manager_scheme \<Rightarrow> (exn + rate_schedule list) option" where
  "cl_CreateWorkerSchedules m =
     (case CalculateThreadIds m of
        Inl e \<Rightarrow> Some (Inl e)
      | Inr ids \<Rightarrow>
          map_option (\<lambda>r. bindR r SetScheduleDurations)
            (deal_intervals (custom_intervals m) ids False 0 0 0 (CreateEmptyWorkerSchedules m)))"

definition cl_GenerateSchedule :: "(string \<Rightarrow> string list option) \<Rightarrow>
    ('g, 'z) custom_load_manager_scheme \<Rightarrow> (failure + ('g, 'z) custom_load_manager_scheme) option" where
  "cl_GenerateSchedule files m =
     (if request_intervals_file m = [] then Some (Inr m)
      else case ReadTimeIntervalsFile files (request_intervals_file m) (custom_intervals m) of
             Inl e \<Rightarrow> Some (Inl e)
           | Inr ivs \<Rightarrow>
               let m1 = m\<lparr>custom_intervals := ivs\<rparr>
               in map_option (\<lambda>r. liftE (bindR r (\<lambda>scheds. GiveSchedulesToWorkers scheds m1)))
                    (cl_CreateWorkerSchedules m1))"

definition GetCustomRequestRate :: "('g, 'z) custom_load_manager_scheme \<Rightarrow> failure + ieee" where
  "GetCustomRequestRate m =
     (if custom_intervals m = [] then
        Inl (Fails (generic_error ''The custom intervals vector is empty''))
      else let total_time_ns = foldl (\<lambda>s iv. s + word_of_int iv) (0 :: u64) (custom_intervals m)
           in if total_time_ns = 0 then Inl (Throws DivideByZero)
              else Inr (ieee_of_int binary64 (uint (word_of_nat (length (custom_intervals m)) *
                          word_of_nat NANOS_PER_SECOND div total_time_ns))))"

definition cl_WaitForWarmupAndCleanup ::
  "('g, 'z) custom_load_manager_scheme \<Rightarrow> ('g, 'z) custom_load_manager_scheme" where
  "cl_WaitForWarmupAndCleanup m = (WaitForWarmupAndCleanup m)\<lparr>custom_intervals := []\<rparr>"

text \<open>A failure of \<open>GenerateSchedule\<close> is returned, but the workers are resumed all the same.\<close>

definition InitCustomIntervals :: "(string \<Rightarrow> string list option) \<Rightarrow> nanos \<Rightarrow> nat \<Rightarrow>
    ('g, 'z) custom_load_manager_scheme \<Rightarrow>
    (exn + cb_error \<times> ('g, 'z) custom_load_manager_scheme) option" where
  "InitCustomIntervals files now num_reqs m =
     (case ConfigureThreads num_reqs 0 (PauseWorkers m) of
        Inl e \<Rightarrow> Some (Inl e)
      | Inr m1 \<Rightarrow>
          map_option (\<lambda>r. case r of
              Inl (Throws e) \<Rightarrow> Inl e
            | Inl (Fails e) \<Rightarrow> Inr (e, ResumeWorkers now m1)
            | Inr m2 \<Rightarrow> Inr (Success, ResumeWorkers now m2))
            (cl_GenerateSchedule files m1))"

definition cl_PerformWarmup :: "(string \<Rightarrow> string list option) \<Rightarrow> nanos \<Rightarrow> nat \<Rightarrow>
    ('g, 'z) custom_load_manager_scheme \<Rightarrow>
    (exn + cb_error \<times> ('g, 'z) custom_load_manager_scheme) option" where
  "cl_PerformWarmup files now num_reqs m =
     (if num_reqs = 0 then Some (Inr (Success, m))
      else map_option (\<lambda>r. bindR r (\<lambda>(err, m1).
               if IsOk err then Inr (Success, cl_WaitForWarmupAndCleanup m1) else Inr (err, m1)))
             (InitCustomIntervals files now num_reqs m))"

section \<open>Fixed schedules\<close>

text \<open>The timestamps are \<open>std::chrono::milliseconds\<close>.\<close>

record 'g fixed_schedule_manager = "'g request_rate_manager" +
  warmup_count :: nat
  warmup_schedule :: "int list"
  benchmark_schedule :: "int list"

definition millis_to_nanos :: "int \<Rightarrow> exn + nanos" where
  "millis_to_nanos ms =
     (if - (2 ^ 63) \<le> ms * 1000000 \<and> ms * 1000000 < 2 ^ 63 then Inr (ms * 1000000)
      else Inl (UndefinedBehaviour ''signed overflow''))"

fun deal_schedule :: "nat list \<Rightarrow> nat \<Rightarrow> int list \<Rightarrow> rate_schedule list \<Rightarrow> exn + rate_schedule list" where
  "deal_schedule ids k [] scheds = Inr scheds"
| "deal_schedule ids k (ms # rest) scheds =
     bindR (millis_to_nanos ms) (\<lambda>t.
     bindR (vec_index ids k) (\<lambda>w.
     bindR (push_timestamp w t scheds) (\<lambda>scheds'.
       deal_schedule ids (Suc k mod length ids) rest scheds')))"

definition fs_CreateWorkerSchedules :: "int list \<Rightarrow> ('g, 'z) request_rate_manager_scheme \<Rightarrow>
    exn + rate_schedule list" where
  "fs_CreateWorkerSchedules schedule m =
     bindR (CalculateThreadIds m) (\<lambda>ids.
     bindR (deal_schedule ids 0 schedule (CreateEmptyWorkerSchedules m)) SetScheduleDurations)"

definition DistributeScheduleToWorkers :: "int list \<Rightarrow> ('g, 'z) request_rate_manager_scheme \<Rightarrow>
    exn + ('g, 'z) request_rate_manager_scheme" where
  "DistributeScheduleToWorkers schedule m =
     bindR (fs_CreateWorkerSchedules schedule m) (\<lambda>scheds. GiveSchedulesToWorkers scheds m)"

definition InitCustomSchedule :: "nanos \<Rightarrow> int list \<Rightarrow> nat \<Rightarrow> ('g, 'z) request_rate_manager_scheme \<Rightarrow>
    exn + ('g, 'z) request_rate_manager_scheme" where
  "InitCustomSchedule now schedule offset m =
     bindR (ConfigureThreads (length schedule) offset (PauseWorkers m)) (\<lambda>m1.
     bindR (DistributeScheduleToWorkers schedule m1) (\<lambda>m2. Inr (ResumeWorkers now m2)))"

definition fs_PerformWarmup :: "nanos \<Rightarrow> ('g, 'z) fixed_schedule_manager_scheme \<Rightarrow>
    exn + ('g, 'z) fixed_schedule_manager_scheme" where
  "fs_PerformWarmup now m =
     (if warmup_schedule m = [] then
        Inl (RuntimeError ''Expected warmup schedule to be non-empty.'')
      else bindR (InitCustomSchedule now (warmup_schedule m) 0
                    (m\<lparr>max_threads := min (max_threads m) (length (warmup_schedule m))\<rparr>)) (\<lambda>m1.
             Inr ((WaitForWarmupAndCleanup m1)\<lparr>max_threads := max_threads m\<rparr>)))"

definition StartBenchmark :: "nanos \<Rightarrow> ('g, 'z) fixed_schedule_manager_scheme \<Rightarrow>
    exn + ('g, 'z) fixed_schedule_manager_scheme" where
  "StartBenchmark now m =
     (if benchmark_schedule m = [] then
        Inl (RuntimeError ''Expected benchmark schedule to be non-empty.'')
      else InitCustomSchedule now (benchmark_schedule m) (length (warmup_schedule m))
             (m\<lparr>max_threads := min (max_threads m) (length (benchmark_schedule m))\<rparr>))"

definition fs_Start :: "nanos \<Rightarrow> nanos \<Rightarrow> ('g, 'z) fixed_schedule_manager_scheme \<Rightarrow>
    exn + ('g, 'z) fixed_schedule_manager_scheme" where
  "fs_Start now1 now2 m =
     bindR (if warmup_schedule m \<noteq> [] then fs_PerformWarmup now1 m else Inr m) (StartBenchmark now2)"

section \<open>Dealing a timeline to the workers\<close>

text \<open>
  The specification all three managers share: entry \<open>k\<close> of the timeline goes to the worker
  \<open>ids ! (k mod length ids)\<close>, in the order of the timeline.
\<close>

definition dealt :: "nat list \<Rightarrow> nanos list \<Rightarrow> nat \<Rightarrow> nanos list" where
  "dealt ids ts w = map ((!) ts) (filter (\<lambda>k. ids ! (k mod length ids) = w) [0..<length ts])"

definition dealt_schedules :: "nat \<Rightarrow> nat list \<Rightarrow> nanos list \<Rightarrow> rate_schedule list" where
  "dealt_schedules W ids ts = map (\<lambda>w. empty_schedule\<lparr>intervals := dealt ids ts w\<rparr>) [0..<W]"

lemma dealt_snoc:
  "dealt ids (ts @ [t]) w = dealt ids ts w @ (if ids ! (length ts mod length ids) = w then [t] else [])"
proof -
  have "map ((!) (ts @ [t])) (filter P [0..<length ts]) = map ((!) ts) (filter P [0..<length ts])" for P
    by (rule map_cong) (auto simp: nth_append)
  then show ?thesis by (simp add: dealt_def)
qed

lemma dealt_schedules_Nil: "dealt_schedules W ids [] = replicate W empty_schedule"
  by (simp add: dealt_schedules_def dealt_def empty_schedule_def map_replicate_const)

lemma push_dealt:
  assumes "ids ! (length ts mod length ids) < W"
  shows "push_timestamp (ids ! (length ts mod length ids)) t (dealt_schedules W ids ts) =
    Inr (dealt_schedules W ids (ts @ [t]))"
proof -
  let ?w = "ids ! (length ts mod length ids)"
  have "(dealt_schedules W ids ts)[?w := (dealt_schedules W ids ts ! ?w)
      \<lparr>intervals := intervals (dealt_schedules W ids ts ! ?w) @ [t]\<rparr>] = dealt_schedules W ids (ts @ [t])"
    using assms by (intro nth_equalityI) (auto simp: dealt_schedules_def dealt_snoc nth_list_update)
  moreover have "?w < length (dealt_schedules W ids ts)" using assms by (simp add: dealt_schedules_def)
  ultimately show ?thesis by (simp add: push_timestamp_def)
qed

text \<open>Every entry of the timeline is dealt to exactly one worker.\<close>

lemma dealt_partition:
  assumes "\<forall>x \<in> set ids. x < W" and "ids \<noteq> []"
  shows "(\<Sum>w = 0..<W. mset (dealt ids ts w)) = mset ts"
proof (induction ts rule: rev_induct)
  case Nil
  then show ?case by (simp add: dealt_def)
next
  case (snoc t ts)
  let ?v = "ids ! (length ts mod length ids)"
  have v: "?v < W" using assms by simp
  have "(\<Sum>w = 0..<W. mset (dealt ids (ts @ [t]) w)) =
    (\<Sum>w = 0..<W. mset (dealt ids ts w)) + (\<Sum>w = 0..<W. if ?v = w then {#t#} else {#})"
    unfolding sum.distrib [symmetric] by (rule sum.cong) (auto simp: dealt_snoc)
  also have "(\<Sum>w = 0..<W. if ?v = w then {#t#} else {#}) = {#t#}"
    using v by simp
  finally show ?case using snoc by simp
qed

lemma sorted_dealt: "sorted ts \<Longrightarrow> sorted (dealt ids ts w)"
  unfolding dealt_def
  by (rule sorted_wrt_map_mono [of "(<)"])
    (auto simp: sorted_wrt_filter sorted_wrt_upt intro!: sorted_nth_mono)

subsection \<open>The duration\<close>

lemma max_lasts:
  assumes "\<forall>s \<in> set ss. intervals s \<noteq> []"
  shows "foldR (\<lambda>d s. bindR (vec_back (intervals s)) (\<lambda>b. Inr (max b d))) d ss =
    Inr (foldl (\<lambda>d s. max (last (intervals s)) d) d ss)"
  using assms by (intro foldR_total) (simp add: vec_back_def)

lemma foldl_max_eq:
  fixes d :: int
  shows "foldl (\<lambda>d s. max (f s) d) d ss = Max (insert d (f ` set ss))"
proof (induction ss arbitrary: d)
  case (Cons s ss)
  have "Max (insert (max (f s) d) (f ` set ss)) = max (max (f s) d) (Max (f ` set ss))" if "ss \<noteq> []"
    using that by (simp add: Max_insert)
  with Cons show ?case by (cases "ss = []") (simp_all add: Max_insert max.assoc max.left_commute)
qed simp

lemma SetScheduleDurations_eq:
  assumes "ss \<noteq> []" and "\<forall>s \<in> set ss. intervals s \<noteq> []"
  shows "SetScheduleDurations ss =
    Inr (map (\<lambda>s. s\<lparr>duration := Max ((\<lambda>s. last (intervals s)) ` set ss)\<rparr>) ss)"
proof -
  have "last (intervals (last ss)) \<in> (\<lambda>s. last (intervals s)) ` set ss" using assms(1) by auto
  then have "insert (last (intervals (last ss))) ((\<lambda>s. last (intervals s)) ` set ss) =
    (\<lambda>s. last (intervals s)) ` set ss" by blast
  then show ?thesis
    using assms by (simp add: SetScheduleDurations_def vec_back_def [of ss] max_lasts foldl_max_eq)
      (simp add: vec_back_def)
qed

text \<open>The workers' schedules once the durations are set, for a sorted timeline.\<close>

definition worker_schedules_of :: "nat \<Rightarrow> nat list \<Rightarrow> nanos list \<Rightarrow> rate_schedule list" where
  "worker_schedules_of W ids ts =
     map (\<lambda>w. empty_schedule\<lparr>intervals := dealt ids ts w, duration := last ts\<rparr>) [0..<W]"

lemma last_in_dealt:
  assumes "ts \<noteq> []"
  shows "last (dealt ids ts (ids ! ((length ts - 1) mod length ids))) = last ts"
proof -
  obtain ts' t where "ts = ts' @ [t]" using assms by (cases ts rule: rev_cases) auto
  then show ?thesis by (simp add: dealt_snoc)
qed

lemma set_dealt: "set (dealt ids ts w) \<subseteq> set ts"
  by (auto simp: dealt_def)

lemma SetScheduleDurations_dealt:
  assumes "0 < W" and "ids \<noteq> []" and "\<forall>x \<in> set ids. x < W" and "sorted ts"
    and "\<forall>w < W. dealt ids ts w \<noteq> []"
  shows "SetScheduleDurations (dealt_schedules W ids ts) = Inr (worker_schedules_of W ids ts)"
proof -
  let ?ss = "dealt_schedules W ids ts"
  have ne: "?ss \<noteq> []" "\<forall>s \<in> set ?ss. intervals s \<noteq> []"
    using assms(1,5) by (auto simp: dealt_schedules_def)
  have ts: "ts \<noteq> []" using assms(1,5) by (auto simp: dealt_def)
  let ?L = "(\<lambda>s. last (intervals s)) ` set ?ss"
  have L: "?L = (\<lambda>w. last (dealt ids ts w)) ` {0..<W}" by (simp add: dealt_schedules_def image_image)
  have "Max ?L = last ts"
  proof (rule Max_eqI)
    show "finite ?L" by simp
    show "last ts \<in> ?L"
      unfolding L using assms(2,3) last_in_dealt [OF ts, of ids]
      by (intro image_eqI [where x = "ids ! ((length ts - 1) mod length ids)"]) auto
    fix y assume "y \<in> ?L"
    then obtain w where "w < W" "y = last (dealt ids ts w)" unfolding L by auto
    then have "y \<in> set ts" using assms(5) set_dealt last_in_set by (metis subsetD)
    then obtain i where "i < length ts" "y = ts ! i" by (auto simp: in_set_conv_nth)
    then show "y \<le> last ts"
      using assms(4) ts sorted_nth_mono [of ts i "length ts - 1"] by (simp add: last_conv_nth)
  qed
  then show ?thesis
    using SetScheduleDurations_eq [OF ne]
    by (simp add: worker_schedules_of_def) (simp add: dealt_schedules_def)
qed

subsection \<open>The thread ids\<close>

definition num_ids :: "('g, 'z) request_rate_manager_scheme \<Rightarrow> nat" where
  "num_ids m = (if on_sequence_model m then num_of_sequences m else max_threads m)"

definition thread_ids :: "('g, 'z) request_rate_manager_scheme \<Rightarrow> nat list" where
  "thread_ids m = map (\<lambda>i. i mod DetermineNumThreads m) [0..<num_ids m]"

lemma thread_ids_facts:
  assumes "0 < DetermineNumThreads m"
  shows "CalculateThreadIds m = Inr (thread_ids m)" "length (thread_ids m) = num_ids m"
    "\<forall>x \<in> set (thread_ids m). x < DetermineNumThreads m" "thread_ids m \<noteq> []"
    "DetermineNumThreads m \<le> num_ids m"
  using assms
  by (auto simp: CalculateThreadIds_def thread_ids_def num_ids_def DetermineNumThreads_def)

lemma dealt_nonempty:
  assumes "w < DetermineNumThreads m" and "DetermineNumThreads m \<le> length ts"
  shows "dealt (thread_ids m) ts w \<noteq> []"
proof -
  have "DetermineNumThreads m \<le> num_ids m" by (simp add: DetermineNumThreads_def num_ids_def)
  with assms have "w \<in> set (filter (\<lambda>k. thread_ids m ! (k mod length (thread_ids m)) = w) [0..<length ts])"
    by (simp add: thread_ids_def)
  then have "filter (\<lambda>k. thread_ids m ! (k mod length (thread_ids m)) = w) [0..<length ts] \<noteq> []"
    by (metis empty_iff empty_set)
  then show ?thesis by (simp only: dealt_def map_is_Nil_conv not_False_eq_True)
qed

subsection \<open>Repeating the timeline\<close>

text \<open>Entry \<open>q\<close> of the timeline repeated for ever, each time shifted by its last entry.\<close>

definition repeated :: "nanos list \<Rightarrow> nat \<Rightarrow> nanos" where
  "repeated ts q = timestamp_at ts (last ts) q"

lemma timestamp_round:
  assumes "iv \<noteq> []"
  shows "map (timestamp_at iv d) [0..<Suc r * length iv] =
    map (timestamp_at iv d) [0..<r * length iv] @ map (\<lambda>x. x + d * int r) iv"
proof -
  have "[0..<Suc r * length iv] = [0..<r * length iv] @ [r * length iv..<r * length iv + length iv]"
    using upt_add_eq_append [of 0 "r * length iv" "length iv"] by (simp add: add.commute)
  moreover have "map (timestamp_at iv d) [r * length iv..<r * length iv + length iv] = map (\<lambda>x. x + d * int r) iv"
    using assms by (intro nth_equalityI) (simp_all add: timestamp_at_def)
  ultimately show ?thesis by simp
qed

lemma timestamp_round_mset:
  "iv \<noteq> [] \<Longrightarrow> mset (map (timestamp_at iv d) [0..<Suc r * length iv]) =
    mset (map (timestamp_at iv d) [0..<r * length iv]) + image_mset (\<lambda>x. x + d * int r) (mset iv)"
  by (subst timestamp_round, assumption) (simp only: mset_append mset_map)

text \<open>
  The timestamps of the first \<open>r\<close> rounds of all the workers are the first \<open>r\<close> repetitions of
  the timeline, each entry once.
\<close>

lemma rounds_cover_timeline:
  assumes "\<forall>x \<in> set ids. x < W" and "ids \<noteq> []" and "ts \<noteq> []"
    and "\<forall>w < W. dealt ids ts w \<noteq> []"
  shows "(\<Sum>w = 0..<W. mset (map (timestamp_at (dealt ids ts w) (last ts)) [0..<r * length (dealt ids ts w)])) =
    mset (map (repeated ts) [0..<r * length ts])"
proof (induction r)
  case (Suc r)
  let ?f = "\<lambda>x. x + last ts * int r"
  have "(\<Sum>w = 0..<W. mset (map (timestamp_at (dealt ids ts w) (last ts)) [0..<Suc r * length (dealt ids ts w)])) =
    (\<Sum>w = 0..<W. mset (map (timestamp_at (dealt ids ts w) (last ts)) [0..<r * length (dealt ids ts w)]) +
       image_mset ?f (mset (dealt ids ts w)))"
    using assms(4) by (intro sum.cong refl timestamp_round_mset) simp
  also have "\<dots> = mset (map (repeated ts) [0..<r * length ts]) +
    image_mset ?f (\<Sum>w = 0..<W. mset (dealt ids ts w))"
  proof -
    have "(\<Sum>w = 0..<W. image_mset ?f (mset (dealt ids ts w))) = image_mset ?f (\<Sum>w = 0..<W. mset (dealt ids ts w))"
      by (induction W) auto
    then show ?thesis by (simp only: sum.distrib Suc)
  qed
  also have "\<dots> = mset (map (repeated ts) [0..<Suc r * length ts])"
    unfolding dealt_partition [OF assms(1,2)] repeated_def [abs_def]
    using timestamp_round_mset [OF assms(3)] by simp
  finally show ?case .
qed simp

text \<open>What a worker's \<open>Next\<close> calls return on its schedule.\<close>

lemma Nexts_worker:
  assumes "iv \<noteq> []"
  shows "\<exists>s'. Nexts k (empty_schedule\<lparr>intervals := iv, duration := d\<rparr>) =
    Inr (map (\<lambda>j. nanos_wrap (timestamp_at iv d j)) [0..<k], s')"
proof -
  have "schedule_ok (empty_schedule\<lparr>intervals := iv, duration := d\<rparr>)"
    "schedule_pos (empty_schedule\<lparr>intervals := iv, duration := d\<rparr>) = 0"
    using assms by (simp_all add: schedule_ok_def schedule_pos_def empty_schedule_def)
  from Nexts_ok [OF this(1), of k] this(2) show ?thesis by auto
qed

text \<open>
  \<open>follows ts scheds\<close>: the schedules \<open>scheds\<close> realise the timeline \<open>ts\<close>:
  a worker's calls of \<open>Next\<close> never fail, and over any number of rounds in which the repeated
  timeline fits 64 bits the timestamps they return are, together, the timeline repeated, every
  entry once.
\<close>

definition follows :: "nanos list \<Rightarrow> rate_schedule list \<Rightarrow> bool" where
  "follows ts scheds \<longleftrightarrow>
     (\<forall>s \<in> set scheds. \<forall>k. \<exists>out s'. Nexts k s = Inr (out, s')) \<and>
     (\<forall>r. (\<forall>q < r * length ts. nanos_ok (repeated ts q)) \<longrightarrow>
       (\<Sum>s\<leftarrow>scheds. mset (fst (projr (Nexts (r * length (intervals s)) s)))) =
       mset (map (repeated ts) [0..<r * length ts]))"

lemma follows_dealt:
  assumes "\<forall>x \<in> set ids. x < W" and "ids \<noteq> []" and "ts \<noteq> []"
    and "\<forall>w < W. dealt ids ts w \<noteq> []"
  shows "follows ts (worker_schedules_of W ids ts)"
proof -
  have N: "fst (projr (Nexts k (empty_schedule\<lparr>intervals := dealt ids ts w, duration := last ts\<rparr>))) =
    map (\<lambda>j. nanos_wrap (timestamp_at (dealt ids ts w) (last ts) j)) [0..<k]" if "w < W" for k w
    using Nexts_worker [of "dealt ids ts w" k "last ts"] assms(4) that by auto
  have "(\<Sum>s\<leftarrow>worker_schedules_of W ids ts. mset (fst (projr (Nexts (r * length (intervals s)) s)))) =
    image_mset nanos_wrap (mset (map (repeated ts) [0..<r * length ts]))" for r
  proof -
    have "(\<Sum>s\<leftarrow>worker_schedules_of W ids ts. mset (fst (projr (Nexts (r * length (intervals s)) s)))) =
      (\<Sum>w = 0..<W. mset (fst (projr (Nexts (r * length (dealt ids ts w))
        (empty_schedule\<lparr>intervals := dealt ids ts w, duration := last ts\<rparr>)))))"
      by (simp add: worker_schedules_of_def comp_def sum_list_map_upt)
    also have "\<dots> = (\<Sum>w = 0..<W. image_mset nanos_wrap
        (mset (map (timestamp_at (dealt ids ts w) (last ts)) [0..<r * length (dealt ids ts w)])))"
      by (rule sum.cong) (simp_all add: N image_mset.compositionality comp_def)
    also have "\<dots> = image_mset nanos_wrap
        (\<Sum>w = 0..<W. mset (map (timestamp_at (dealt ids ts w) (last ts)) [0..<r * length (dealt ids ts w)]))"
      by (induction W) simp_all
    finally show ?thesis by (simp only: rounds_cover_timeline [OF assms])
  qed
  moreover have "image_mset nanos_wrap (mset (map (repeated ts) [0..<n])) = mset (map (repeated ts) [0..<n])"
    if "\<forall>q < n. nanos_ok (repeated ts q)" for n
  proof -
    have "map nanos_wrap (map (repeated ts) [0..<n]) = map (repeated ts) [0..<n]"
      using that by (simp add: nanos_wrap_ok)
    then show ?thesis by (metis mset_map)
  qed
  moreover have "\<exists>out s'. Nexts k s = Inr (out, s')" if s: "s \<in> set (worker_schedules_of W ids ts)" for s k
  proof -
    obtain w where "w < W" "s = empty_schedule\<lparr>intervals := dealt ids ts w, duration := last ts\<rparr>"
      using s by (auto simp: worker_schedules_of_def)
    with Nexts_worker [of "dealt ids ts w" k "last ts"] assms(4) show ?thesis by blast
  qed
  ultimately show ?thesis unfolding follows_def by simp
qed

section \<open>The filling loops\<close>

text \<open>The engine and the time after \<open>j\<close> draws.\<close>

primrec rng_after :: "('r \<Rightarrow> exn + nanos \<times> 'r) \<Rightarrow> 'r \<Rightarrow> nat \<Rightarrow> 'r" where
  "rng_after draw g 0 = g"
| "rng_after draw g (Suc j) = snd (projr (draw (rng_after draw g j)))"

primrec time_after :: "('r \<Rightarrow> exn + nanos \<times> 'r) \<Rightarrow> 'r \<Rightarrow> nat \<Rightarrow> nanos" where
  "time_after draw g 0 = 0"
| "time_after draw g (Suc j) = time_after draw g j + fst (projr (draw (rng_after draw g j)))"

definition drawn :: "('r \<Rightarrow> exn + nanos \<times> 'r) \<Rightarrow> 'r \<Rightarrow> nat \<Rightarrow> nanos list" where
  "drawn draw g n = map (\<lambda>i. time_after draw g (Suc i)) [0..<n]"

lemma drawn_simps [simp]:
  "length (drawn draw g n) = n" "drawn draw g 0 = []"
  "drawn draw g (Suc n) = drawn draw g n @ [time_after draw g (Suc n)]"
  by (simp_all add: drawn_def)

lemma fill_reaches:
  assumes ids: "ids \<noteq> []" "\<forall>x \<in> set ids. x < W" and total: "\<And>g. \<exists>p. draw g = Inr p"
    and go: "\<forall>i < L. time_after draw g i < D \<or> i mod length ids \<noteq> 0"
    and stop: "\<not> time_after draw g L < D" "L mod length ids = 0"
    and fits: "\<forall>i \<le> L. nanos_ok (time_after draw g i)"
    and "j \<le> L"
  shows "fill_schedules D ids draw (time_after draw g j) (j mod length ids) (rng_after draw g j)
      (dealt_schedules W ids (drawn draw g j)) = Some (Inr (dealt_schedules W ids (drawn draw g L)))"
  using \<open>j \<le> L\<close>
proof (induction rule: inc_induct)
  case base
  then show ?case using stop ids by (simp add: fill_schedules.simps)
next
  case (step j)
  obtain p where p: "draw (rng_after draw g j) = Inr p" using total by blast
  have lt: "j mod length ids < length ids" using ids by simp
  then have w: "ids ! (j mod length ids) < W" using ids by simp
  have push: "push_timestamp (ids ! (j mod length ids)) (time_after draw g j + fst p)
      (dealt_schedules W ids (drawn draw g j)) = Inr (dealt_schedules W ids (drawn draw g (Suc j)))"
    using push_dealt [of ids "drawn draw g j" W "time_after draw g j + fst p"] w p by simp
  have "nanos_ok (time_after draw g (Suc j))" using fits step(2) by (simp del: time_after.simps)
  then have "nanos_checked (time_after draw g j + fst p) = Inr (time_after draw g j + fst p)"
    using p by (simp add: nanos_checked_ok)
  moreover have "time_after draw g j < D \<or> j mod length ids mod length ids \<noteq> 0" using go step(2) by simp
  ultimately show ?case
    using step(3) p lt push ids
    by (subst fill_schedules.simps) (simp add: mod_Suc_eq)
qed

definition positive_draws :: "('r \<Rightarrow> exn + nanos \<times> 'r) \<Rightarrow> bool" where
  "positive_draws draw \<longleftrightarrow> (\<forall>g. \<exists>p. draw g = Inr p \<and> 1 \<le> fst p)"

lemma positive_draw: "positive_draws draw \<Longrightarrow> \<exists>p. draw g = Inr p \<and> 1 \<le> fst p"
  by (simp add: positive_draws_def)

text \<open>With positive gaps the loop ends, at the first multiple of the ids past the duration.\<close>

lemma time_after_ge:
  assumes "positive_draws draw"
  shows "int j \<le> time_after draw g j"
proof (induction j)
  case (Suc j)
  obtain p where "draw (rng_after draw g j) = Inr p" "1 \<le> fst p" using positive_draw [OF assms] by blast
  with Suc show ?case by simp
qed simp

lemma time_after_mono:
  assumes "positive_draws draw" and "i \<le> j"
  shows "time_after draw g i \<le> time_after draw g j"
  using assms(2)
proof (induction j rule: dec_induct)
  case (step j)
  obtain p where "draw (rng_after draw g j) = Inr p" "1 \<le> fst p" using positive_draw [OF assms(1)] by blast
  with step show ?case by simp
qed simp

lemma drawn_sorted:
  assumes "positive_draws draw"
  shows "sorted (drawn draw g n)"
proof -
  have "time_after draw g (Suc i) \<le> time_after draw g (Suc j)" if "i \<le> j" for i j
    by (rule time_after_mono) (use assms that in auto)
  then show ?thesis by (simp add: sorted_iff_nth_mono drawn_def del: time_after.simps)
qed

text \<open>Where the loop ends: at the first full turn past the duration.\<close>

definition fill_length :: "nanos \<Rightarrow> nat list \<Rightarrow> ('r \<Rightarrow> exn + nanos \<times> 'r) \<Rightarrow> 'r \<Rightarrow> nat" where
  "fill_length D ids draw g = (LEAST L. D \<le> time_after draw g L \<and> length ids dvd L)"

lemma fill_length_facts:
  fixes g :: 'r
  assumes ids: "ids \<noteq> []" and D: "0 < D" and pos: "positive_draws draw"
  defines "L \<equiv> fill_length D ids draw g"
  shows "D \<le> time_after draw g L" and "length ids dvd L" and "length ids \<le> L"
    and "i < L \<Longrightarrow> time_after draw g i < D \<or> i mod length ids \<noteq> 0"
proof -
  let ?P = "\<lambda>L. D \<le> time_after draw g L \<and> length ids dvd L"
  have "D \<le> int (nat D * length ids)" using ids D by (cases ids) (auto simp: distrib_left)
  also have "\<dots> \<le> time_after draw g (nat D * length ids)" by (rule time_after_ge [OF pos])
  finally have ex: "\<exists>L. ?P L" by auto
  show P: "D \<le> time_after draw g L" "length ids dvd L"
    using LeastI_ex [OF ex] by (simp_all add: L_def fill_length_def)
  have "L \<noteq> 0" using P(1) D by (auto intro: ccontr)
  with P(2) show "length ids \<le> L" by (simp add: dvd_imp_le)
  show "i < L \<Longrightarrow> time_after draw g i < D \<or> i mod length ids \<noteq> 0"
    using not_less_Least [of i ?P] by (auto simp: L_def fill_length_def not_le dvd_eq_mod_eq_0)
qed

lemma fill_ends:
  assumes ids: "ids \<noteq> []" "\<forall>x \<in> set ids. x < W" and D: "0 < D" and pos: "positive_draws draw"
    and fits: "time_after draw g (fill_length D ids draw g) < 2 ^ 63"
  shows "fill_schedules D ids draw 0 0 g (dealt_schedules W ids []) =
      Some (Inr (dealt_schedules W ids (drawn draw g (fill_length D ids draw g))))"
proof -
  let ?L = "fill_length D ids draw g"
  note L = fill_length_facts [OF ids(1) D pos, where g = g]
  have total: "\<exists>p. draw g = Inr p" for g using positive_draw [OF pos] by blast
  have "nanos_ok (time_after draw g i)" if "i \<le> ?L" for i
    using time_after_mono [OF pos that, of g] time_after_ge [OF pos, of i g] fits by (simp add: nanos_ok_def)
  then have "fill_schedules D ids draw (time_after draw g 0) (0 mod length ids) (rng_after draw g 0)
      (dealt_schedules W ids (drawn draw g 0)) = Some (Inr (dealt_schedules W ids (drawn draw g ?L)))"
    by (intro fill_reaches [OF ids total]) (use L in \<open>auto simp: not_less dvd_eq_mod_eq_0\<close>)
  then show ?thesis by simp
qed

subsection \<open>Custom intervals\<close>

text \<open>The time after \<open>j\<close> intervals of the file, taken in turn.\<close>

primrec cycle_time :: "nanos list \<Rightarrow> nat \<Rightarrow> nanos" where
  "cycle_time ivs 0 = 0"
| "cycle_time ivs (Suc j) = cycle_time ivs j + ivs ! (j mod length ivs)"

definition cycled :: "nanos list \<Rightarrow> nat \<Rightarrow> nanos list" where
  "cycled ivs n = map (\<lambda>i. cycle_time ivs (Suc i)) [0..<n]"

lemma cycled_simps [simp]:
  "length (cycled ivs n) = n" "cycled ivs 0 = []"
  "cycled ivs (Suc n) = cycled ivs n @ [cycle_time ivs (Suc n)]"
  by (simp_all add: cycled_def)

lemma cycle_time_mono:
  assumes "\<forall>x \<in> set ivs. 0 \<le> x" and "ivs \<noteq> []" and "i \<le> j"
  shows "cycle_time ivs i \<le> cycle_time ivs j"
  using assms(3) by (induction j rule: dec_induct) (use assms in \<open>auto intro: add_increasing2\<close>)

lemma cycled_sorted:
  assumes "\<forall>x \<in> set ivs. 0 \<le> x" and "ivs \<noteq> []"
  shows "sorted (cycled ivs n)"
  unfolding sorted_iff_nth_mono using cycle_time_mono [OF assms, of "Suc _" "Suc _"]
  by (simp add: cycled_def del: cycle_time.simps)

lemma deal_reaches:
  assumes ids: "ids \<noteq> []" "\<forall>x \<in> set ids. x < W" and ivs: "ivs \<noteq> []"
    and "1 \<le> j" "j \<le> lcm (length ids) (length ivs)"
    and fits: "\<forall>i \<le> lcm (length ids) (length ivs). nanos_ok (cycle_time ivs i)"
  shows "deal_intervals ivs ids True (j mod length ids) (j mod length ivs) (cycle_time ivs j)
      (dealt_schedules W ids (cycled ivs j)) =
    Some (Inr (dealt_schedules W ids (cycled ivs (lcm (length ids) (length ivs)))))"
  using assms(5,4)
proof (induction rule: inc_induct)
  case base
  then show ?case by (simp add: deal_intervals.simps)
next
  case (step j)
  have "\<not> (j mod length ids = 0 \<and> j mod length ivs = 0)"
  proof
    assume "j mod length ids = 0 \<and> j mod length ivs = 0"
    then have "lcm (length ids) (length ivs) \<le> j"
      using step by (intro dvd_imp_le) (simp_all add: dvd_eq_mod_eq_0 [symmetric])
    with step show False by simp
  qed
  moreover have lt: "j mod length ids < length ids" "j mod length ivs < length ivs" using ids ivs by simp_all
  moreover from this have w: "ids ! (j mod length ids) < W" using ids by simp
  moreover have "nanos_ok (cycle_time ivs (Suc j))" using fits step(2) by (simp del: cycle_time.simps)
  then have "nanos_checked (cycle_time ivs j + ivs ! (j mod length ivs)) = Inr (cycle_time ivs j + ivs ! (j mod length ivs))"
    by (simp add: nanos_checked_ok)
  ultimately show ?case
    using step push_dealt [of ids "cycled ivs j" W "cycle_time ivs j + ivs ! (j mod length ivs)"]
    by (subst deal_intervals.simps) (auto simp: mod_Suc_eq)
qed

lemma deal_ends:
  assumes ids: "ids \<noteq> []" "\<forall>x \<in> set ids. x < W" and ivs: "ivs \<noteq> []" "\<forall>x \<in> set ivs. 0 \<le> x"
    and fits: "cycle_time ivs (lcm (length ids) (length ivs)) < 2 ^ 63"
  shows "deal_intervals ivs ids False 0 0 0 (dealt_schedules W ids []) =
    Some (Inr (dealt_schedules W ids (cycled ivs (lcm (length ids) (length ivs)))))"
proof -
  let ?n = "lcm (length ids) (length ivs)"
  have one: "1 \<le> ?n" using ids ivs by (simp add: Suc_le_eq lcm_pos_nat)
  have fits': "nanos_ok (cycle_time ivs i)" if "i \<le> ?n" for i
    using cycle_time_mono [OF ivs(2,1) that] cycle_time_mono [OF ivs(2,1), of 0 i] fits by (simp add: nanos_ok_def)
  have "nanos_checked (ivs ! 0) = Inr (ivs ! 0)"
    using fits' [OF one] by (simp add: nanos_checked_ok)
  with deal_reaches [OF ids ivs(1) le_refl one] fits' show ?thesis
    using ids ivs push_dealt [of ids "[]" W "ivs ! 0"]
    by (subst deal_intervals.simps) (auto simp: mod_Suc_eq)
qed

subsection \<open>Fixed schedules\<close>

lemma deal_schedule_eq:
  assumes ids: "ids \<noteq> []" "\<forall>x \<in> set ids. x < W"
    and "\<forall>ms \<in> set sched. - (2 ^ 63) \<le> ms * 1000000 \<and> ms * 1000000 < (2 ^ 63 :: int)"
  shows "deal_schedule ids (length ts mod length ids) sched (dealt_schedules W ids ts) =
    Inr (dealt_schedules W ids (ts @ map (\<lambda>ms. ms * 1000000) sched))"
  using assms(3)
proof (induction sched arbitrary: ts)
  case (Cons ms sched)
  have lt: "length ts mod length ids < length ids" using ids by simp
  then have "ids ! (length ts mod length ids) < W" using ids by simp
  from push_dealt [OF this, of "ms * 1000000"] Cons.IH [of "ts @ [ms * 1000000]"] Cons.prems lt
  show ?case by (simp add: millis_to_nanos_def mod_Suc_eq)
qed simp

section \<open>The contract of a schedule creator\<close>

text \<open>
  The three \<open>CreateWorkerSchedules\<close> promise the same: they deal a sorted timeline to the
  workers, in the order of the thread ids, such that no worker goes without an entry.
\<close>

locale timetable =
  fixes ok :: "'c \<Rightarrow> bool" and create :: "'c \<Rightarrow> (exn + rate_schedule list) option"
    and num :: "'c \<Rightarrow> nat" and ids :: "'c \<Rightarrow> nat list" and timeline :: "'c \<Rightarrow> nanos list"
  assumes create_deals: "ok c \<Longrightarrow>
      create c = Some (SetScheduleDurations (dealt_schedules (num c) (ids c) (timeline c)))"
    and ids_ok: "ok c \<Longrightarrow> ids c \<noteq> [] \<and> (\<forall>x \<in> set (ids c). x < num c)"
    and all_served: "ok c \<Longrightarrow> w < num c \<Longrightarrow> dealt (ids c) (timeline c) w \<noteq> []"
    and timeline_sorted: "ok c \<Longrightarrow> sorted (timeline c)"
begin

lemma num_pos: "ok c \<Longrightarrow> 0 < num c"
  using ids_ok [of c] by (metis gr0I hd_in_set less_nat_zero_code)

lemma created: "ok c \<Longrightarrow> create c = Some (Inr (worker_schedules_of (num c) (ids c) (timeline c)))"
  using create_deals SetScheduleDurations_dealt [OF num_pos] ids_ok all_served timeline_sorted by simp

lemma workers_follow: "ok c \<Longrightarrow> follows (timeline c) (worker_schedules_of (num c) (ids c) (timeline c))"
proof -
  assume c: "ok c"
  have "timeline c \<noteq> []" using all_served [OF c num_pos [OF c]] by (auto simp: dealt_def)
  then show ?thesis using follows_dealt ids_ok all_served c by simp
qed

lemma creates_followed:
  "ok c \<Longrightarrow> \<exists>scheds. create c = Some (Inr scheds) \<and> length scheds = num c \<and> follows (timeline c) scheds"
  using created workers_follow by (auto simp: worker_schedules_of_def)

end

text \<open>A manager whose workers have been made.\<close>

definition workers_ready :: "('g, 'z) request_rate_manager_scheme \<Rightarrow> bool" where
  "workers_ready m \<longleftrightarrow> 0 < DetermineNumThreads m \<and> length (workers m) = DetermineNumThreads m"

lemma empty_schedules_dealt: "workers_ready m \<Longrightarrow>
  CreateEmptyWorkerSchedules m = dealt_schedules (DetermineNumThreads m) (thread_ids m) []"
  by (simp add: CreateEmptyWorkerSchedules_def dealt_schedules_Nil workers_ready_def)

lemmas ready_ids = thread_ids_facts [OF workers_ready_def [THEN iffD1, THEN conjunct1]]

interpretation drawn_timetable: timetable
  "\<lambda>(m, D, draw, g). workers_ready m \<and> 0 < D \<and> positive_draws draw \<and>
     time_after draw g (fill_length D (thread_ids m) draw g) < 2 ^ 63"
  "\<lambda>(m, D, draw, g). CreateWorkerSchedules D draw g m"
  "\<lambda>(m, D, draw, g). DetermineNumThreads m" "\<lambda>(m, D, draw, g). thread_ids m"
  "\<lambda>(m, D, draw, g). drawn draw g (fill_length D (thread_ids m) draw g)"
proof (unfold_locales, goal_cases)
  case (1 c)
  then show ?case
    by (auto simp: CreateWorkerSchedules_def ready_ids empty_schedules_dealt fill_ends)
next
  case (2 c)
  then show ?case by (auto simp: ready_ids)
next
  case (3 c w)
  obtain m D draw g where c: "c = (m, D, draw, g)" by (cases c)
  with 3 have "workers_ready m" "num_ids m \<le> fill_length D (thread_ids m) draw g"
    using fill_length_facts(3) [OF ready_ids(4), of m D draw g] by (simp_all add: ready_ids)
  then have "DetermineNumThreads m \<le> fill_length D (thread_ids m) draw g"
    using ready_ids(5) order.trans by blast
  with 3 c show ?case by (simp add: dealt_nonempty)
next
  case (4 c)
  then show ?case by (auto intro!: drawn_sorted)
qed

interpretation custom_timetable: timetable
  "\<lambda>m. workers_ready m \<and> custom_intervals m \<noteq> [] \<and> (\<forall>x \<in> set (custom_intervals m). 0 \<le> x) \<and>
     cycle_time (custom_intervals m) (lcm (num_ids m) (length (custom_intervals m))) < 2 ^ 63"
  cl_CreateWorkerSchedules DetermineNumThreads thread_ids
  "\<lambda>m. cycled (custom_intervals m) (lcm (num_ids m) (length (custom_intervals m)))"
proof (unfold_locales, goal_cases)
  case (1 m)
  then show ?case
    using deal_ends [of "thread_ids m" "DetermineNumThreads m" "custom_intervals m"]
    by (simp add: cl_CreateWorkerSchedules_def ready_ids empty_schedules_dealt)
next
  case (2 m)
  then show ?case by (auto simp: ready_ids)
next
  case (3 m w)
  have "num_ids m \<le> lcm (num_ids m) (length (custom_intervals m))"
    using 3 by (intro dvd_imp_le) (auto intro!: lcm_pos_nat simp: ready_ids(2) [symmetric] dest: ready_ids(4))
  then have "DetermineNumThreads m \<le> lcm (num_ids m) (length (custom_intervals m))"
    using 3 order.trans [OF ready_ids(5)] by blast
  with 3 show ?case by (simp add: dealt_nonempty)
next
  case (4 m)
  then show ?case by (simp add: cycled_sorted)
qed

interpretation fixed_timetable: timetable
  "\<lambda>(m, sched). workers_ready m \<and> sorted sched \<and> DetermineNumThreads m \<le> length sched \<and>
     (\<forall>ms \<in> set sched. - (2 ^ 63) \<le> ms * 1000000 \<and> ms * 1000000 < (2 ^ 63 :: int))"
  "\<lambda>(m, sched). Some (fs_CreateWorkerSchedules sched m)"
  "\<lambda>(m, sched). DetermineNumThreads m" "\<lambda>(m, sched). thread_ids m"
  "\<lambda>(m, sched). map (\<lambda>ms. ms * 1000000) sched"
proof (unfold_locales, goal_cases)
  case (1 c)
  then show ?case
    using deal_schedule_eq [of "thread_ids (fst c)" "DetermineNumThreads (fst c)" "snd c" "[]"]
    by (auto simp: fs_CreateWorkerSchedules_def ready_ids empty_schedules_dealt)
next
  case (2 c)
  then show ?case by (auto simp: ready_ids)
next
  case (3 c w)
  then show ?case by (simp add: dealt_nonempty case_prod_beta)
next
  case (4 c)
  then show ?case by (auto simp: sorted_iff_nth_mono)
qed

section \<open>Configuring the threads\<close>

lemma make_workers_spec:
  assumes "manager_wf m"
  shows "let m' = make_workers n off m in manager_wf m' \<and>
    length (workers m') = max (length (workers m)) n \<and> threads m' = threads m \<and>
    load_manager.more m' = load_manager.more m \<and> on_sequence_model m' = on_sequence_model m \<and>
    max_threads m' = max_threads m"
  using assms
proof (induction n off m rule: make_workers.induct)
  case (1 n off m)
  show ?case
  proof (cases "length (workers m) < n")
    case True
    have wf: "manager_wf (rm_new_worker off m)" using 1(2) by (simp add: manager_wf_def rm_new_worker_def)
    have "length (workers (rm_new_worker off m)) = Suc (length (workers m))"
      "threads (rm_new_worker off m) = threads m"
      "load_manager.more (rm_new_worker off m) = load_manager.more m"
      "on_sequence_model (rm_new_worker off m) = on_sequence_model m"
      "max_threads (rm_new_worker off m) = max_threads m"
      by (simp_all add: rm_new_worker_def)
    with 1(1) [OF True wf] True show ?thesis
      by (simp add: make_workers.simps [of n off m] Let_def)
  next
    case False
    with 1 show ?thesis by (simp add: make_workers.simps [of n off m] Let_def)
  qed
qed

definition configured :: "nat \<Rightarrow> nat \<Rightarrow> nat \<Rightarrow> nat \<Rightarrow> thread_config \<Rightarrow> thread_config" where
  "configured q r n i cfg =
     cfg\<lparr>num_sequences := word_of_nat (share q n i),
         seq_stat_index_offset := (\<Sum>j = 0..<i. share q n j), num_requests := share r n i\<rparr>"

lemma configure_loop:
  assumes "n \<le> length (threads_config m)"
  shows "foldR (configure_step q r k) (m, 0) [0..<n] =
    Inr (m\<lparr>threads_config :=
             map (\<lambda>i. configured q r k i (threads_config m ! i)) [0..<n] @ drop n (threads_config m),
           threads := threads m @ [0..<n]\<rparr>, (\<Sum>j = 0..<n. share q k j))"
  using assms
proof (induction n)
  case (Suc n)
  have n: "n < length (threads_config m)" using Suc.prems by simp
  let ?l = "map (\<lambda>i. configured q r k i (threads_config m ! i)) [0..<n] @ drop n (threads_config m)"
  let ?m = "m\<lparr>threads_config := ?l, threads := threads m @ [0..<n]\<rparr>"
  have nth: "?l ! n = threads_config m ! n" using n by (simp add: nth_append)
  have upd: "?l[n := x] = map (\<lambda>i. configured q r k i (threads_config m ! i)) [0..<n] @ [x] @ drop (Suc n) (threads_config m)"
    for x using n by (simp add: list_update_append Cons_nth_drop_Suc [symmetric])
  have "foldR (configure_step q r k) (m, 0) [0..<Suc n] =
    configure_step q r k (?m, \<Sum>j = 0..<n. share q k j) n"
    using Suc.IH n by (simp add: foldR_append)
  also have "\<dots> = Inr (m\<lparr>threads_config := ?l[n := configured q r k n (?l ! n)],
      threads := threads m @ [0..<Suc n]\<rparr>, (\<Sum>j = 0..<Suc n. share q k j))"
    using n by (simp add: configure_step_def configured_def share_def Let_def)
  finally show ?case unfolding upd nth by simp
qed simp

text \<open>A manager without threads, as it starts and as a warm-up leaves it.\<close>

definition manager_idle :: "('g, 'z) load_manager_scheme \<Rightarrow> bool" where
  "manager_idle m \<longleftrightarrow> threads m = [] \<and> workers m = [] \<and> threads_config m = [] \<and> threads_stat m = []"

lemma idle_pause: "manager_idle (PauseWorkers m) = manager_idle m"
  "DetermineNumThreads (PauseWorkers m) = DetermineNumThreads m"
  "num_of_sequences (PauseWorkers m) = num_of_sequences m"
  "request_distribution (PauseWorkers m) = request_distribution m"
  "threads (PauseWorkers m) = threads m" "workers (PauseWorkers m) = workers m"
  by (simp_all add: manager_idle_def PauseWorkers_def DetermineNumThreads_def)

lemma ConfigureThreads_idle:
  assumes "manager_idle m" and "0 < DetermineNumThreads m"
  defines "n \<equiv> DetermineNumThreads m"
  obtains m' cfg where "ConfigureThreads r off m = Inr m'" and "manager_wf m'"
    and "length (workers m') = n" and "threads m' = [0..<n]" and "length cfg = n"
    and "threads_config m' = map (\<lambda>i. configured (num_of_sequences m) r n i (cfg ! i)) [0..<n]"
    and "load_manager.more m' = load_manager.more m"
    and "on_sequence_model m' = on_sequence_model m" and "max_threads m' = max_threads m"
proof -
  let ?m1 = "make_workers n off m"
  have "manager_wf m" using assms(1) by (simp add: manager_idle_def manager_wf_def)
  from make_workers_spec [OF this, of n off] assms(1)
  have m1: "manager_wf ?m1" "length (workers ?m1) = n" "threads ?m1 = []"
    "load_manager.more ?m1 = load_manager.more m"
    "on_sequence_model ?m1 = on_sequence_model m" "max_threads ?m1 = max_threads m"
    by (simp_all add: Let_def manager_idle_def)
  then have len: "length (threads_config ?m1) = n" by (simp add: manager_wf_def)
  have "workers ?m1 \<noteq> []" using m1(2) assms(2) by (auto simp: n_def)
  then have "ConfigureThreads r off m = Inr (?m1\<lparr>threads_config :=
      map (\<lambda>i. configured (num_of_sequences m) r n i (threads_config ?m1 ! i)) [0..<n], threads := [0..<n]\<rparr>)"
    using configure_loop [of n ?m1 "num_of_sequences m" r n] m1 len assms(1)
    by (simp add: ConfigureThreads_def n_def [symmetric] manager_idle_def Let_def)
  then show thesis
    by (rule that [where cfg = "threads_config ?m1"]) (use m1 len in \<open>simp_all add: manager_wf_def\<close>)
qed

lemma ConfigureThreads_running: "threads m \<noteq> [] \<Longrightarrow> ConfigureThreads r off m = Inr m"
  by (simp add: ConfigureThreads_def)

lemma more_same:
  fixes m m' :: "('g, 'z) request_rate_manager_scheme"
  assumes "load_manager.more m' = load_manager.more m"
  shows "num_of_sequences m' = num_of_sequences m" "request_distribution m' = request_distribution m"
    "gen_duration m' = gen_duration m" "request_rate_manager.more m' = request_rate_manager.more m"
  using assms by (cases m; cases m'; simp)+

text \<open>
  \<open>manager_ready\<close>: the manager has no threads yet, or it has all of them. Both
  \<open>ConfigureThreads\<close> and a warm-up keep it so.
\<close>

definition manager_ready :: "('g, 'z) request_rate_manager_scheme \<Rightarrow> bool" where
  "manager_ready m \<longleftrightarrow> 0 < DetermineNumThreads m \<and>
     (manager_idle m \<or> threads m \<noteq> [] \<and> length (workers m) = DetermineNumThreads m)"

lemma ConfigureThreads_ready:
  assumes "manager_ready m"
  obtains m' where "ConfigureThreads r off m = Inr m'" and "workers_ready m'" and "manager_ready m'"
    and "load_manager.more m' = load_manager.more m"
    and "on_sequence_model m' = on_sequence_model m" and "max_threads m' = max_threads m"
proof (cases "manager_idle m")
  case True
  have pos: "0 < DetermineNumThreads m" using assms by (simp add: manager_ready_def)
  from ConfigureThreads_idle [OF True pos, of r off] obtain m' where
    m': "ConfigureThreads r off m = Inr m'" "length (workers m') = DetermineNumThreads m"
    "threads m' = [0..<DetermineNumThreads m]" "load_manager.more m' = load_manager.more m"
    "on_sequence_model m' = on_sequence_model m" "max_threads m' = max_threads m"
    by metis
  have d: "DetermineNumThreads m' = DetermineNumThreads m"
    using m' more_same [OF m'(4)] by (simp add: DetermineNumThreads_def)
  show thesis
    by (rule that [OF m'(1)]) (use m' d pos in \<open>simp_all add: workers_ready_def manager_ready_def\<close>)
next
  case False
  then have "threads m \<noteq> []" using assms by (simp add: manager_ready_def)
  from that [OF ConfigureThreads_running [OF this]] False assms
  show thesis by (simp add: workers_ready_def manager_ready_def)
qed

lemma GiveSchedules_eq:
  assumes "length scheds = length (workers m)"
  shows "\<exists>m'. GiveSchedulesToWorkers scheds m = Inr m' \<and>
    map worker_schedule (workers m') = map Some scheds \<and> threads m' = threads m \<and>
    threads_config m' = threads_config m \<and> load_manager.more m' = load_manager.more m \<and>
    map dataset_offset (workers m') = map dataset_offset (workers m)"
proof -
  have "mapR (\<lambda>i. bindR (vec_index scheds i) (\<lambda>s. Inr ((workers m ! i)\<lparr>worker_schedule := Some s\<rparr>)))
      [0..<length (workers m)] =
    Inr (map (\<lambda>i. (workers m ! i)\<lparr>worker_schedule := Some (scheds ! i)\<rparr>) [0..<length (workers m)])"
    using assms by (intro mapR_total) simp
  then show ?thesis
    using assms by (auto simp: GiveSchedulesToWorkers_def intro!: nth_equalityI)
qed

section \<open>Properties\<close>

lemma constant_time: "time_after (\<lambda>g. Inr (gap, g)) g j = gap * int j"
  by (induction j) (simp_all add: algebra_simps)

lemma constant_drawn: "drawn (\<lambda>g. Inr (gap, g)) g n = map (\<lambda>i. gap * int (Suc i)) [0..<n]"
  by (simp add: drawn_def constant_time del: time_after.simps)

lemma constant_fill_length:
  assumes "0 < gap" and "ids \<noteq> []"
  shows "fill_length 1 ids (\<lambda>g. Inr (gap, g)) g = length ids"
  unfolding fill_length_def constant_time
proof (rule Least_equality)
  have "0 < gap * int (length ids)" using assms by simp
  then show "1 \<le> gap * int (length ids) \<and> length ids dvd length ids" by simp
next
  fix y assume y: "1 \<le> gap * int y \<and> length ids dvd y"
  then have "0 < y" by (cases y) auto
  with y show "length ids \<le> y" by (auto dest: dvd_imp_le)
qed

lemma repeated_constant:
  assumes "0 < n"
  shows "repeated (map (\<lambda>i. gap * int (Suc i)) [0..<n]) q = gap * int (Suc q)"
proof -
  have "q = n * (q div n) + q mod n" by simp
  then have "int q = int n * int (q div n) + int (q mod n)" by (metis of_nat_add of_nat_mult)
  moreover have "last (map (\<lambda>i. gap * int (Suc i)) [0..<n]) = gap * int n"
    using assms by (simp add: last_map)
  ultimately show ?thesis using assms
    by (simp add: repeated_def timestamp_at_def algebra_simps del: of_nat_mod zmod_int)
qed

lemma zero_gap_never:
  assumes "fill_schedules D ids (\<lambda>g. Inr (0, g)) t k g scheds = Some res" and "ids \<noteq> []"
    and "\<forall>x \<in> set ids. x < length scheds" and "k < length ids" and "t < D" and "nanos_ok t"
  shows False
  using assms
proof (induction D ids "\<lambda>g :: 'a. Inr (0, g) :: exn + nanos \<times> 'a" t k g scheds res
    rule: fill_schedules.raw_induct [rotated 1, consumes 1, case_names fill])
  case (fill f D ids t k g scheds res)
  let ?w = "ids ! k"
  have w: "?w < length scheds" using fill by simp
  have "f D ids (\<lambda>g. Inr (0, g)) t (Suc k mod length ids) g
      (scheds[?w := (scheds ! ?w)\<lparr>intervals := intervals (scheds ! ?w) @ [t]\<rparr>]) = Some res"
    using fill w by (simp add: push_timestamp_def nanos_checked_ok)
  from fill(1) [OF this] show ?case using fill by simp
qed

lemma constant_draw: "seconds_to_nanos (ieee_div binary64 (Fin 1) rate) = Inr gap \<Longrightarrow>
  ScheduleDistribution_constant rate = Inr (\<lambda>g. Inr (gap, g))"
  by (simp add: ScheduleDistribution_constant_def)

lemma same_ids:
  fixes m m' :: "('g, 'z) request_rate_manager_scheme"
  assumes "load_manager.more m' = load_manager.more m" and "on_sequence_model m' = on_sequence_model m"
    and "max_threads m' = max_threads m"
  shows "num_ids m' = num_ids m" "DetermineNumThreads m' = DetermineNumThreads m"
  using assms more_same [OF assms(1)] by (simp_all add: num_ids_def DetermineNumThreads_def)

lemma pause_same:
  "num_ids (PauseWorkers m) = num_ids m" "DetermineNumThreads (PauseWorkers m) = DetermineNumThreads m"
  "request_rate_manager.more (PauseWorkers m) = request_rate_manager.more m"
  by (simp_all add: PauseWorkers_def num_ids_def DetermineNumThreads_def)

lemma intervals_update_same:
  "num_ids (m\<lparr>custom_intervals := ivs\<rparr>) = num_ids m"
  "DetermineNumThreads (m\<lparr>custom_intervals := ivs\<rparr>) = DetermineNumThreads m"
  "workers_ready (m\<lparr>custom_intervals := ivs\<rparr>) = workers_ready m"
  by (simp_all add: num_ids_def DetermineNumThreads_def workers_ready_def)

lemma pause_ready: "manager_ready m \<Longrightarrow> manager_ready (PauseWorkers m)"
  by (auto simp: manager_ready_def idle_pause)

text \<open>
  C16: At a constant rate whose period is \<open>gap > 0\<close> nanoseconds, such that one period for every
  thread id fits 64 bits, setting the rate on a manager with at least one thread ends and
  gives every worker a schedule such that the workers together send a request at every
  multiple of the period and at no other time: over any number \<open>r\<close> of rounds whose last
  timestamp \<open>gap * (r * num_ids m)\<close> is below \<open>2 ^ 63\<close>, the timestamps of all the workers are
  \<open>gap, 2 * gap, 3 * gap, \<dots>\<close>, each exactly once; no worker runs out of timestamps. A rate so low
  that the first round does not fit overflows (\<open>slow_rate_overflows\<close>).
\<close>

theorem constant_rate_is_kept:
  fixes g :: 'r
  assumes "manager_ready m" and "request_distribution m = CONSTANT"
    and "seconds_to_nanos (ieee_div binary64 (Fin 1) rate) = Inr gap" and "0 < gap"
    and "gap * int (num_ids m) < 2 ^ 63"
  shows "\<exists>m' scheds. ChangeRequestRate exponential g now rate n m = Some (Inr m') \<and> rm_execute m' \<and>
    map worker_schedule (workers m') = map Some scheds \<and> length scheds = DetermineNumThreads m \<and>
    (\<forall>s \<in> set scheds. \<forall>k. \<exists>out s'. Nexts k s = Inr (out, s')) \<and>
    (\<forall>r. gap * int (r * num_ids m) < 2 ^ 63 \<longrightarrow>
       (\<Sum>s\<leftarrow>scheds. mset (fst (projr (Nexts (r * length (intervals s)) s)))) =
       mset (map (\<lambda>q. gap * int (Suc q)) [0..<r * num_ids m]))"
proof -
  obtain m1 where m1: "ConfigureThreads n 0 (PauseWorkers m) = Inr m1" "workers_ready m1"
    "load_manager.more m1 = load_manager.more (PauseWorkers m)"
    "on_sequence_model m1 = on_sequence_model (PauseWorkers m)" "max_threads m1 = max_threads (PauseWorkers m)"
    using ConfigureThreads_ready [OF pause_ready [OF assms(1)]] by blast
  note same = same_ids [OF m1(3-5)] more_same [OF m1(3)]
  have ids: "num_ids m1 = num_ids m" "DetermineNumThreads m1 = DetermineNumThreads m"
    using same by (simp_all only: pause_same)
  let ?ts = "map (\<lambda>i. gap * int (Suc i)) [0..<num_ids m]"
  have ne: "thread_ids m1 \<noteq> []" "length (thread_ids m1) = num_ids m" "0 < num_ids m"
    using ready_ids(2,4) [OF m1(2)] ids by (simp_all, metis length_greater_0_conv)
  have "positive_draws (\<lambda>g :: 'r. Inr (gap, g) :: exn + nanos \<times> 'r)"
    using assms(4) by (simp add: positive_draws_def)
  then obtain scheds where s: "CreateWorkerSchedules 1 (\<lambda>g. Inr (gap, g)) g m1 = Some (Inr scheds)"
    "length scheds = DetermineNumThreads m" "follows ?ts scheds"
    using drawn_timetable.creates_followed [of "(m1, 1, \<lambda>g. Inr (gap, g), g)"] m1(2) ids ne
      constant_fill_length [OF assms(4) ne(1), of g] assms(5) by (auto simp: constant_drawn constant_time)
  obtain m2 where m2: "GiveSchedulesToWorkers scheds m1 = Inr m2"
    "map worker_schedule (workers m2) = map Some scheds"
    using GiveSchedules_eq [of scheds m1] s(2) m1(2) ids by (auto simp: workers_ready_def)
  have d: "request_distribution m1 = CONSTANT" using same assms(2) by (simp add: idle_pause)
  have "ChangeRequestRate exponential g now rate n m = Some (Inr (ResumeWorkers now m2))"
    by (simp add: ChangeRequestRate_def m1(1) rm_GenerateSchedule_def d constant_draw [OF assms(3)] s(1) m2(1))
  moreover have "(\<Sum>s\<leftarrow>scheds. mset (fst (projr (Nexts (r * length (intervals s)) s)))) =
       mset (map (\<lambda>q. gap * int (Suc q)) [0..<r * num_ids m])" if r: "gap * int (r * num_ids m) < 2 ^ 63" for r
  proof -
    have "nanos_ok (gap * int (Suc q))" if q: "q < r * num_ids m" for q
    proof -
      have "int (Suc q) \<le> int (r * num_ids m)" using q by linarith
      then have "gap * int (Suc q) \<le> gap * int (r * num_ids m)" using assms(4) by (intro mult_left_mono) auto
      moreover have "0 \<le> gap * int (Suc q)" using assms(4) by simp
      ultimately show ?thesis using r by (simp add: nanos_ok_def)
    qed
    moreover have "repeated ?ts = (\<lambda>q. gap * int (Suc q))"
      using repeated_constant [OF ne(3), of gap] by (simp add: fun_eq_iff)
    ultimately show ?thesis using s(3) unfolding follows_def by (simp del: mset_map of_nat_Suc)
  qed
  moreover have "\<forall>s \<in> set scheds. \<forall>k. \<exists>out s'. Nexts k s = Inr (out, s')"
    using s(3) by (simp add: follows_def)
  moreover have "rm_execute (ResumeWorkers now m2)" "workers (ResumeWorkers now m2) = workers m2"
    by (simp_all add: ResumeWorkers_def)
  ultimately show ?thesis
    using s(2) m2(2) by (intro exI [of _ "ResumeWorkers now m2"] exI [of _ scheds]) (simp only: simp_thms, blast)
qed

text \<open>
  C40: A constant rate above one request per nanosecond has a period of 0, and then setting
  the rate never returns: the loop that fills the schedules makes no progress in time.
\<close>

theorem zero_period_never_returns:
  assumes "manager_ready m" and "request_distribution m = CONSTANT"
    and "seconds_to_nanos (ieee_div binary64 (Fin 1) rate) = Inr 0"
  shows "ChangeRequestRate exponential g now rate n m = None"
proof -
  obtain m1 where m1: "ConfigureThreads n 0 (PauseWorkers m) = Inr m1" "workers_ready m1"
    "load_manager.more m1 = load_manager.more (PauseWorkers m)"
    using ConfigureThreads_ready [OF pause_ready [OF assms(1)]] by blast
  have d: "request_distribution m1 = CONSTANT"
    using more_same [OF m1(3)] assms(2) by (simp add: idle_pause)
  have "fill_schedules 1 (thread_ids m1) (\<lambda>g. Inr (0, g)) 0 0 g (CreateEmptyWorkerSchedules m1) \<noteq> Some res" for res
    using zero_gap_never [of 1 "thread_ids m1" 0 0 g "CreateEmptyWorkerSchedules m1" res] ready_ids [OF m1(2)] m1(2)
    by (auto simp: CreateEmptyWorkerSchedules_def workers_ready_def nanos_ok_def)
  then have "CreateWorkerSchedules 1 (\<lambda>g. Inr (0, g)) g m1 = None"
    using ready_ids(1) [OF m1(2)] by (simp add: CreateWorkerSchedules_def) (metis not_None_eq)
  then show ?thesis
    by (simp add: ChangeRequestRate_def m1(1) rm_GenerateSchedule_def d constant_draw [OF assms(3)])
qed

text \<open>
  A period so long that one for every thread id does not fit 64 bits: the sum of the timestamp and
  the period overflows, whatever the distribution's engine and the schedules are.
\<close>

lemma slow_fill_overflows:
  assumes "ids \<noteq> []" and "\<forall>x \<in> set ids. x < length scheds" and "0 < gap" and "k < length ids"
    and "2 ^ 63 \<le> gap * int (length ids)" and "gap * int k < 2 ^ 63"
  shows "fill_schedules 1 ids (\<lambda>g. Inr (gap, g)) (gap * int k) k g scheds =
    Some (Inl (UndefinedBehaviour ''signed overflow''))"
  using assms
proof (induction "length ids - k" arbitrary: k scheds)
  case (Suc d)
  let ?t = "gap * int k + gap"
  have go: "gap * int k < 1 \<or> k mod length ids \<noteq> 0" using Suc.prems(4) by (cases k) auto
  show ?case
  proof (cases "nanos_ok ?t")
    case False
    with go Suc.prems(1) show ?thesis by (subst fill_schedules.simps) (auto simp: nanos_checked_def)
  next
    case True
    let ?s = "scheds[ids ! k := (scheds ! (ids ! k))\<lparr>intervals := intervals (scheds ! (ids ! k)) @ [?t]\<rparr>]"
    have w: "ids ! k < length scheds" using Suc.prems(2,4) by simp
    have t: "gap * int (Suc k) = ?t" by (simp add: algebra_simps)
    then have "gap * int (Suc k) < 2 ^ 63" using True by (simp add: nanos_ok_def)
    then have sk: "Suc k < length ids"
      using Suc.prems(4,5) by (metis Suc_lessI linorder_not_less)
    with Suc.hyps Suc.prems \<open>gap * int (Suc k) < 2 ^ 63\<close>
    have "fill_schedules 1 ids (\<lambda>g. Inr (gap, g)) (gap * int (Suc k)) (Suc k) g ?s =
        Some (Inl (UndefinedBehaviour ''signed overflow''))"
      by (intro Suc.hyps(1)) simp_all
    with go True w sk Suc.prems(1,4) t show ?thesis
      by (subst fill_schedules.simps) (auto simp: nanos_checked_ok push_timestamp_def)
  qed
qed simp

lemma slow_rate_overflows:
  assumes "manager_ready m" and "request_distribution m = CONSTANT"
    and "seconds_to_nanos (ieee_div binary64 (Fin 1) rate) = Inr gap" and "0 < gap"
    and "2 ^ 63 \<le> gap * int (num_ids m)"
  shows "ChangeRequestRate exponential g now rate n m = Some (Inl (UndefinedBehaviour ''signed overflow''))"
proof -
  obtain m1 where m1: "ConfigureThreads n 0 (PauseWorkers m) = Inr m1" "workers_ready m1"
    "load_manager.more m1 = load_manager.more (PauseWorkers m)"
    "on_sequence_model m1 = on_sequence_model (PauseWorkers m)" "max_threads m1 = max_threads (PauseWorkers m)"
    using ConfigureThreads_ready [OF pause_ready [OF assms(1)]] by blast
  have d: "request_distribution m1 = CONSTANT"
    using more_same [OF m1(3)] assms(2) by (simp add: idle_pause)
  have ids: "num_ids m1 = num_ids m" using same_ids [OF m1(3-5)] by (simp only: pause_same)
  have ov: "fill_schedules 1 (thread_ids m1) (\<lambda>g. Inr (gap, g)) 0 0 g (CreateEmptyWorkerSchedules m1) =
      Some (Inl (UndefinedBehaviour ''signed overflow''))"
    using slow_fill_overflows [of "thread_ids m1" "CreateEmptyWorkerSchedules m1" gap 0 g]
      ready_ids [OF m1(2)] m1(2) ids assms(4,5)
    by (auto simp: CreateEmptyWorkerSchedules_def workers_ready_def)
  show ?thesis
    using ready_ids(1) [OF m1(2)]
    by (simp add: ChangeRequestRate_def m1(1) rm_GenerateSchedule_def d constant_draw [OF assms(3)]
        CreateWorkerSchedules_def ov)
qed

definition ex_rate_manager :: "bool \<Rightarrow> distribution \<Rightarrow> nat \<Rightarrow> nat \<Rightarrow> unit request_rate_manager" where
  "ex_rate_manager seq d n q = \<lparr>max_threads = n, on_sequence_model = seq, workers = [],
     threads = [], threads_stat = [], threads_config = [], sequence_manager = None, early_exit = False,
     gen_duration = 1000, request_distribution = d, rm_start_time = 0, rm_execute = False,
     num_of_sequences = q\<rparr>"

lemma ex_rate_manager_simps [simp]:
  "manager_idle (ex_rate_manager seq d n q)" "request_distribution (ex_rate_manager seq d n q) = d"
  "DetermineNumThreads (ex_rate_manager seq d n q) = (if seq then min n q else n)"
  "num_ids (ex_rate_manager seq d n q) = (if seq then q else n)"
  "num_of_sequences (ex_rate_manager seq d n q) = q"
  by (simp_all add: ex_rate_manager_def manager_idle_def DetermineNumThreads_def num_ids_def)

lemma ex_rate_manager_ready:
  "0 < n \<Longrightarrow> (seq \<Longrightarrow> 0 < q) \<Longrightarrow> manager_ready (ex_rate_manager seq d n q)"
  by (auto simp: manager_ready_def)

lemma ieee_period:
  "seconds_to_nanos (ieee_div binary64 (Fin 1) (Fin (1/2))) = Inr 2000000000"
  "seconds_to_nanos (ieee_div binary64 (Fin 1) (Fin 4294967296)) = Inr 0"
proof -
  have fin: "fin binary64 (of_int i) = Fin (of_int i)" if "\<bar>i\<bar> \<le> 2 ^ 53" for i
    using ieee_of_int64_exact [OF that] by (simp add: ieee_of_int_def)
  note f = fin [of 2, simplified] fin [of 1000000000, simplified] fin [of 2000000000, simplified]
  show "seconds_to_nanos (ieee_div binary64 (Fin 1) (Fin (1/2))) = Inr 2000000000"
    by (simp add: seconds_to_nanos_def ieee_of_int_def f)
  have p: "(2 :: rat) powi - 32 = 1 / 4294967296" by (simp add: power_int_minus field_simps)
  have "rnd binary64 (of_int 1 * 2 powi - 32) = of_int 1 * 2 powi - 32"
    "rnd binary64 (of_int 1000000000 * 2 powi - 32) = of_int 1000000000 * 2 powi - 32"
    by (rule rnd_exact; simp)+
  then have r: "rnd binary64 (1 / 4294967296) = 1 / 4294967296"
    "rnd binary64 (1000000000 / 4294967296) = 1000000000 / 4294967296" by (simp_all add: p)
  have "fin binary64 (1 / 4294967296) = Fin (1 / 4294967296)"
    "fin binary64 (1000000000 / 4294967296) = Fin (1000000000 / 4294967296)"
    using fin64_small [of "1 / 4294967296"] fin64_small [of "1000000000 / 4294967296"] r by simp_all
  then show "seconds_to_nanos (ieee_div binary64 (Fin 1) (Fin 4294967296)) = Inr 0"
    by (simp add: seconds_to_nanos_def ieee_of_int_def f floor_eq_iff)
qed

theorem constant_rate_is_kept_witness:
  "\<exists>m' scheds. ChangeRequestRate (\<lambda>r g. (Fin 1, g)) () 0 (Fin (1/2)) 0 (ex_rate_manager False CONSTANT 3 0) =
      Some (Inr m') \<and> map worker_schedule (workers m') = map Some scheds \<and> length scheds = 3 \<and>
    (\<Sum>s\<leftarrow>scheds. mset (fst (projr (Nexts (1000 * length (intervals s)) s)))) =
       mset (map (\<lambda>q. 2000000000 * int (Suc q)) [0..<3000])"
proof -
  have "manager_ready (ex_rate_manager False CONSTANT 3 0)" by (rule ex_rate_manager_ready) simp_all
  from constant_rate_is_kept [OF this _ ieee_period(1), of "\<lambda>r g. (Fin 1, g)" "()" 0 0]
  obtain m' scheds where "ChangeRequestRate (\<lambda>r g. (Fin 1, g)) () 0 (Fin (1/2)) 0 (ex_rate_manager False CONSTANT 3 0) =
      Some (Inr m')" "map worker_schedule (workers m') = map Some scheds" "length scheds = 3"
    and r: "2000000000 * int (r * 3) < 2 ^ 63 \<longrightarrow>
      (\<Sum>s\<leftarrow>scheds. mset (fst (projr (Nexts (r * length (intervals s)) s)))) =
      mset (map (\<lambda>q. 2000000000 * int (Suc q)) [0..<r * 3])" for r
    by (auto simp del: mset_map of_nat_Suc of_nat_mult)
  with r [of 1000] show ?thesis by (intro exI [of _ m'] exI [of _ scheds]) (simp del: mset_map of_nat_Suc)
qed

theorem zero_period_never_returns_witness:
  "ChangeRequestRate (\<lambda>r g. (Fin 1, g)) () 0 (Fin 4294967296) 0 (ex_rate_manager False CONSTANT 3 0) = None"
  by (rule zero_period_never_returns [OF _ _ ieee_period(2)]) (simp_all add: ex_rate_manager_ready)

definition interval_sum :: "nanos list \<Rightarrow> nat \<Rightarrow> nanos" where
  "interval_sum ivs q = (\<Sum>j = 0..<Suc q. ivs ! (j mod length ivs))"

lemma cycle_time_sum: "cycle_time ivs j = (\<Sum>i = 0..<j. ivs ! (i mod length ivs))"
  by (induction j) auto

lemma cycle_time_add:
  assumes "length ivs dvd L"
  shows "cycle_time ivs (a + L * k) = cycle_time ivs a + cycle_time ivs L * int k"
proof -
  have shift: "cycle_time ivs (a + L) = cycle_time ivs a + cycle_time ivs L" for a
  proof -
    have "(\<Sum>i = L..<L + a. ivs ! (i mod length ivs)) = (\<Sum>i = 0..<a. ivs ! ((i + L) mod length ivs))"
      using sum.shift_bounds_nat_ivl [of "\<lambda>i. ivs ! (i mod length ivs)" 0 L a] by (simp add: add.commute)
    also have "\<dots> = (\<Sum>i = 0..<a. ivs ! (i mod length ivs))"
    proof -
      obtain c where "L = length ivs * c" using assms by (elim dvdE)
      then show ?thesis by simp
    qed
    finally show ?thesis
      unfolding cycle_time_sum using sum.atLeastLessThan_concat [of 0 L "L + a" "\<lambda>i. ivs ! (i mod length ivs)"]
      by (simp add: add.commute)
  qed
  show ?thesis
  proof (induction k)
    case (Suc k)
    have "a + L * Suc k = (a + L * k) + L" by simp
    then show ?case using shift [of "a + L * k"] Suc by (simp add: algebra_simps)
  qed simp
qed

lemma repeated_cycled:
  assumes "length ivs dvd L" and "0 < L"
  shows "repeated (cycled ivs L) q = interval_sum ivs q"
proof -
  have "last (cycled ivs L) = cycle_time ivs L"
    using assms(2) by (cases L) simp_all
  moreover have "cycled ivs L ! (q mod L) = cycle_time ivs (Suc (q mod L))"
    using assms(2) by (simp add: cycled_def del: cycle_time.simps)
  moreover have "Suc (q mod L) + L * (q div L) = Suc q" by simp
  ultimately have "repeated (cycled ivs L) q = cycle_time ivs (Suc q)"
    using cycle_time_add [OF assms(1), of "Suc (q mod L)" "q div L"]
    by (simp add: repeated_def timestamp_at_def del: cycle_time.simps)
  then show ?thesis by (simp only: interval_sum_def cycle_time_sum)
qed

lemma InitCustomIntervals_eq:
  assumes "ConfigureThreads n 0 (PauseWorkers m) = Inr m1" and "workers_ready m1"
    and "request_intervals_file m1 \<noteq> []"
    and "ReadTimeIntervalsFile files (request_intervals_file m1) (custom_intervals m1) = Inr ivs"
    and "cl_CreateWorkerSchedules (m1\<lparr>custom_intervals := ivs\<rparr>) = Some (Inr scheds)"
    and "length scheds = DetermineNumThreads m1"
  shows "\<exists>m'. InitCustomIntervals files now n m = Some (Inr (Success, m')) \<and>
    map worker_schedule (workers m') = map Some scheds"
proof -
  have "length scheds = length (workers (m1\<lparr>custom_intervals := ivs\<rparr>))"
    using assms(2,6) by (simp add: workers_ready_def)
  then obtain m2 where m2: "GiveSchedulesToWorkers scheds (m1\<lparr>custom_intervals := ivs\<rparr>) = Inr m2"
    "map worker_schedule (workers m2) = map Some scheds"
    using GiveSchedules_eq by blast
  then have "InitCustomIntervals files now n m = Some (Inr (Success, ResumeWorkers now m2))"
    using assms(1,3,4,5) by (simp add: InitCustomIntervals_def cl_GenerateSchedule_def)
  with m2(2) show ?thesis by (simp add: ResumeWorkers_def)
qed

text \<open>
  C30: The intervals of a file, none negative, are
  dealt to the workers until the intervals and the thread ids end together: when the running
  sums up to there are below \<open>2 ^ 63\<close> nanoseconds, the loop ends,
  after as many entries as the least common multiple of the two lengths, and from then
  on the workers together send their requests at the running sums of the file's intervals,
  repeated without a gap or an overlap at the end of the file, over any number of rounds in
  which these sums are below \<open>2 ^ 63\<close>.
\<close>

theorem custom_intervals_are_kept:
  assumes "manager_ready m" and "request_intervals_file m \<noteq> []" and "custom_intervals m = []"
    and "ReadTimeIntervalsFile files (request_intervals_file m) [] = Inr ivs"
    and "\<forall>x \<in> set ivs. 0 \<le> x" and "\<forall>q < lcm (num_ids m) (length ivs). interval_sum ivs q < 2 ^ 63"
  shows "\<exists>m' scheds. InitCustomIntervals files now n m = Some (Inr (Success, m')) \<and>
    map worker_schedule (workers m') = map Some scheds \<and> length scheds = DetermineNumThreads m \<and>
    (\<forall>s \<in> set scheds. \<forall>k. \<exists>out s'. Nexts k s = Inr (out, s')) \<and>
    (\<forall>r. (\<forall>q < r * lcm (num_ids m) (length ivs). interval_sum ivs q < 2 ^ 63) \<longrightarrow>
       (\<Sum>s\<leftarrow>scheds. mset (fst (projr (Nexts (r * length (intervals s)) s)))) =
       mset (map (interval_sum ivs) [0..<r * lcm (num_ids m) (length ivs)]))"
proof -
  obtain m1 where m1: "ConfigureThreads n 0 (PauseWorkers m) = Inr m1" "workers_ready m1"
    "load_manager.more m1 = load_manager.more (PauseWorkers m)"
    "on_sequence_model m1 = on_sequence_model (PauseWorkers m)" "max_threads m1 = max_threads (PauseWorkers m)"
    using ConfigureThreads_ready [OF pause_ready [OF assms(1)]] by blast
  have rest: "request_rate_manager.more m1 = request_rate_manager.more m"
    using more_same(4) [OF m1(3)] by (simp only: pause_same)
  then have cl: "request_intervals_file m1 = request_intervals_file m" "custom_intervals m1 = custom_intervals m"
    by (cases m; cases m1; simp)+
  let ?m2 = "m1\<lparr>custom_intervals := ivs\<rparr>"
  have ids: "num_ids ?m2 = num_ids m" "DetermineNumThreads ?m2 = DetermineNumThreads m"
    "DetermineNumThreads m1 = DetermineNumThreads m"
    using same_ids [OF m1(3-5)] by (simp_all only: intervals_update_same pause_same)
  have ivs: "ivs \<noteq> []"
    using assms(4) by (auto simp: ReadTimeIntervalsFile_def Let_def bindR_Inr_conv split: option.splits if_splits)
  have ready: "workers_ready ?m2" using m1(2) by (simp only: intervals_update_same)
  let ?L = "lcm (num_ids m) (length ivs)"
  have L: "0 < ?L"
    using ivs ready_ids(2,4) [OF ready] ids(1) by (intro lcm_pos_nat) (simp_all, metis length_greater_0_conv)
  have "cycle_time ivs ?L = interval_sum ivs (?L - 1)" using L by (simp add: interval_sum_def cycle_time_sum)
  then have "cycle_time ivs ?L < 2 ^ 63" using assms(6) L by simp
  then obtain scheds where s: "cl_CreateWorkerSchedules ?m2 = Some (Inr scheds)"
    "length scheds = DetermineNumThreads m" "follows (cycled ivs ?L) scheds"
    using custom_timetable.creates_followed [of ?m2] ready ivs assms(5) ids by auto
  obtain m' where "InitCustomIntervals files now n m = Some (Inr (Success, m'))"
    "map worker_schedule (workers m') = map Some scheds"
    using InitCustomIntervals_eq [OF m1(1,2) _ _ s(1)] assms(2-4) cl s(2) ids by auto
  moreover have "(\<Sum>s\<leftarrow>scheds. mset (fst (projr (Nexts (r * length (intervals s)) s)))) =
      mset (map (interval_sum ivs) [0..<r * ?L])" if r: "\<forall>q < r * ?L. interval_sum ivs q < 2 ^ 63" for r
  proof -
    have pos: "0 \<le> interval_sum ivs q" for q
      using assms(5) ivs unfolding interval_sum_def by (intro sum_nonneg) simp
    have "nanos_ok (interval_sum ivs q)" if "q < r * ?L" for q
      using r that pos [of q] by (simp add: nanos_ok_def)
    moreover have "repeated (cycled ivs ?L) = interval_sum ivs"
      using repeated_cycled [OF _ L, of ivs] by (simp add: fun_eq_iff)
    ultimately show ?thesis using s(3) unfolding follows_def by (simp del: mset_map)
  qed
  ultimately show ?thesis
    using s(2,3) unfolding follows_def
    by (intro exI [of _ m'] exI [of _ scheds]) (simp only: simp_thms, blast)
qed

definition ex_custom_manager :: "nat \<Rightarrow> unit custom_load_manager" where
  "ex_custom_manager n = \<lparr>max_threads = n, on_sequence_model = False, workers = [],
     threads = [], threads_stat = [], threads_config = [], sequence_manager = None, early_exit = False,
     gen_duration = 1000, request_distribution = CUSTOM, rm_start_time = 0, rm_execute = False,
     num_of_sequences = 0, request_intervals_file = ''f'', custom_intervals = []\<rparr>"

theorem custom_intervals_are_kept_witness:
  "\<exists>m' scheds. InitCustomIntervals (\<lambda>_. Some [''5'', ''7'']) 0 0 (ex_custom_manager 3) = Some (Inr (Success, m')) \<and>
    map worker_schedule (workers m') = map Some scheds \<and> length scheds = 3"
proof -
  have r: "manager_ready (ex_custom_manager 3)" "request_intervals_file (ex_custom_manager 3) \<noteq> []"
    "custom_intervals (ex_custom_manager 3) = []" "DetermineNumThreads (ex_custom_manager 3) = 3"
    by (simp_all add: ex_custom_manager_def manager_ready_def manager_idle_def DetermineNumThreads_def)
  have n: "nat_to_string 5 = ''5''" "nat_to_string 7 = ''7''"
    by code_simp+
  have "stoll ''5'' = Inr 5" "stoll ''7'' = Inr 7"
    using stoll_to_string [of 5] stoll_to_string [of 7] by (simp_all add: to_string_def n)
  then have "ReadTimeIntervalsFile (\<lambda>_. Some [''5'', ''7'']) f [] = Inr [5000, 7000]" for f
    by (simp add: ReadTimeIntervalsFile_def)
  moreover have "list_all (\<lambda>q. interval_sum [5000, 7000] q < 2 ^ 63) [0..<6]" "lcm 3 2 = (6 :: nat)" by code_simp+
  then have "\<forall>q < lcm (num_ids (ex_custom_manager 3)) (length [5000, 7000 :: int]). interval_sum [5000, 7000] q < 2 ^ 63"
    by (simp add: ex_custom_manager_def num_ids_def list_all_iff numeral_2_eq_2 [symmetric])
  ultimately show ?thesis using custom_intervals_are_kept [OF r(1-3), of "\<lambda>_. Some [''5'', ''7'']" "[5000, 7000]" 0 0] r(4) by auto
qed

lemma share_Suc: "0 < n \<Longrightarrow> w < n \<Longrightarrow> share (Suc L) n w = share L n w + (if L mod n = w then 1 else 0)"
proof -
  assume nw: "0 < n" "w < n"
  show ?thesis
  proof (cases "Suc (L mod n) = n")
    case True
    then have "Suc L mod n = 0" "Suc L div n = Suc (L div n)" using nw by (simp_all add: mod_Suc div_Suc)
    moreover have "w < L mod n \<longleftrightarrow> L mod n \<noteq> w" using nw True by linarith
    ultimately show ?thesis by (simp add: share_def)
  next
    case False
    then have "Suc L mod n = Suc (L mod n)" "Suc L div n = L div n" using nw by (simp_all add: mod_Suc div_Suc)
    then show ?thesis by (auto simp: share_def)
  qed
qed

lemma dealt_length:
  assumes "0 < n" and "w < n"
  shows "length (dealt [0..<n] ts w) = share (length ts) n w"
proof (induction ts rule: rev_induct)
  case Nil
  then show ?case by (simp add: dealt_def share_def)
next
  case (snoc t ts)
  then show ?case using assms by (simp add: dealt_snoc share_Suc)
qed

text \<open>
  C38: A fixed schedule whose length is at least the number of threads, on a model without
  sequences: the schedule is dealt to the workers without reading outside a vector, every
  timestamp of it goes to exactly one worker, and each worker is limited to as many requests
  as it was given timestamps, so that every entry is sent once and none is repeated. The
  number of threads is cut to the length of the schedule first, so the requirement always
  holds for a non-empty schedule.
\<close>

theorem fixed_schedule_sent_once:
  assumes "manager_idle m" and "\<not> on_sequence_model m" and "0 < max_threads m"
    and "benchmark_schedule m \<noteq> []"
    and "\<forall>ms \<in> set (benchmark_schedule m). - (2 ^ 63) \<le> ms * 1000000 \<and> ms * 1000000 < (2 ^ 63 :: int)"
  shows "\<exists>m' scheds. StartBenchmark now m = Inr m' \<and> rm_execute m' \<and>
    map worker_schedule (workers m') = map Some scheds \<and>
    length scheds = min (max_threads m) (length (benchmark_schedule m)) \<and>
    (\<Sum>s\<leftarrow>scheds. mset (intervals s)) = mset (map (\<lambda>ms. ms * 1000000) (benchmark_schedule m)) \<and>
    map num_requests (threads_config m') = map (\<lambda>s. length (intervals s)) scheds \<and>
    (\<forall>s \<in> set scheds. \<exists>s'. Nexts (length (intervals s)) s = Inr (intervals s, s'))"
proof -
  define n where "n = min (max_threads m) (length (benchmark_schedule m))"
  let ?m = "m\<lparr>max_threads := n\<rparr>" and ?ts = "map (\<lambda>ms. ms * 1000000) (benchmark_schedule m)"
  have n0: "0 < n" using assms(3,4) by (simp add: n_def)
  have idle: "manager_idle (PauseWorkers ?m)"
    using assms(1) by (simp add: idle_pause) (simp add: manager_idle_def)
  have dn: "DetermineNumThreads (PauseWorkers ?m) = n"
    using assms(2) by (simp only: pause_same) (simp add: DetermineNumThreads_def)
  obtain m1 cfg where m1: "ConfigureThreads (length (benchmark_schedule m)) (length (warmup_schedule m)) (PauseWorkers ?m) = Inr m1"
    "length (workers m1) = n" "threads_config m1 =
      map (\<lambda>i. configured (num_of_sequences (PauseWorkers ?m)) (length (benchmark_schedule m)) n i (cfg ! i)) [0..<n]"
    "load_manager.more m1 = load_manager.more (PauseWorkers ?m)"
    "on_sequence_model m1 = on_sequence_model (PauseWorkers ?m)" "max_threads m1 = max_threads (PauseWorkers ?m)"
    by (rule ConfigureThreads_idle [OF idle, unfolded dn, OF n0]) (rule that)
  have d1: "DetermineNumThreads m1 = n" "num_ids m1 = n"
    using same_ids [OF m1(4-6)] dn assms(2) pause_same(1) [of ?m] by (simp_all add: num_ids_def)
  have ready: "workers_ready m1" using m1(2) d1 n0 by (simp add: workers_ready_def)
  have tid: "thread_ids m1 = [0..<n]"
    unfolding thread_ids_def d1 by (intro nth_equalityI) simp_all
  have le: "n \<le> length ?ts" by (simp add: n_def)
  have ne: "dealt [0..<n] ?ts w \<noteq> []" if "w < n" for w
    using dealt_nonempty [of w m1 ?ts] that le d1 by (simp add: tid)
  have "deal_schedule (thread_ids m1) 0 (benchmark_schedule m) (CreateEmptyWorkerSchedules m1) =
    Inr (dealt_schedules n [0..<n] ?ts)"
    using deal_schedule_eq [of "[0..<n]" n "benchmark_schedule m" "[]"] assms(5) n0
      empty_schedules_dealt [OF ready] d1 by (simp add: tid)
  moreover obtain d where "SetScheduleDurations (dealt_schedules n [0..<n] ?ts) =
      Inr (map (\<lambda>s. s\<lparr>duration := d\<rparr>) (dealt_schedules n [0..<n] ?ts))"
    using SetScheduleDurations_eq [of "dealt_schedules n [0..<n] ?ts"] ne n0
    by (auto simp: dealt_schedules_def)
  ultimately have cr: "fs_CreateWorkerSchedules (benchmark_schedule m) m1 =
      Inr (map (\<lambda>s. s\<lparr>duration := d\<rparr>) (dealt_schedules n [0..<n] ?ts))"
    by (simp add: fs_CreateWorkerSchedules_def ready_ids(1) [OF ready])
  let ?s = "map (\<lambda>s. s\<lparr>duration := d\<rparr>) (dealt_schedules n [0..<n] ?ts)"
  have ls: "length ?s = n" by (simp add: dealt_schedules_def)
  obtain m2 where m2: "GiveSchedulesToWorkers ?s m1 = Inr m2"
    "map worker_schedule (workers m2) = map Some ?s" "threads_config m2 = threads_config m1"
    using GiveSchedules_eq [of ?s m1] m1(2) ls by auto
  have "StartBenchmark now m = Inr (ResumeWorkers now m2)"
    using assms(4) m1(1) m2(1)
    by (simp add: StartBenchmark_def InitCustomSchedule_def DistributeScheduleToWorkers_def cr n_def)
  moreover have "(\<Sum>s\<leftarrow>?s. mset (intervals s)) = mset ?ts"
    using dealt_partition [of "[0..<n]" n ?ts] n0
    by (simp add: dealt_schedules_def comp_def sum_list_map_upt del: mset_map)
  moreover have "map num_requests (threads_config m2) = map (\<lambda>s. length (intervals s)) ?s"
    by (intro nth_equalityI) (simp_all add: m2(3) m1(3) dealt_schedules_def configured_def dealt_length [OF n0])
  moreover have "\<exists>s'. Nexts (length (intervals s)) s = Inr (intervals s, s')" if sin: "s \<in> set ?s" for s
  proof -
    obtain w where w: "w < n" "s = empty_schedule\<lparr>intervals := dealt [0..<n] ?ts w, duration := d\<rparr>"
      using sin by (auto simp: dealt_schedules_def)
    have "\<forall>x \<in> set (dealt [0..<n] ?ts w). nanos_ok x"
      using assms(5) by (auto simp: dealt_def nanos_ok_def)
    then have "map (\<lambda>j. nanos_wrap (timestamp_at (dealt [0..<n] ?ts w) d j)) [0..<length (dealt [0..<n] ?ts w)] =
        dealt [0..<n] ?ts w"
      by (intro nth_equalityI) (simp_all add: timestamp_at_def nanos_wrap_ok)
    with Nexts_worker [of "dealt [0..<n] ?ts w" "length (dealt [0..<n] ?ts w)" d] ne [OF w(1)] w(2)
    show ?thesis by simp
  qed
  ultimately show ?thesis
    using m2 ls by (intro exI [of _ "ResumeWorkers now m2"] exI [of _ ?s])
      (simp add: ResumeWorkers_def n_def del: mset_map map_map)
qed

definition ex_fixed_manager :: "nat \<Rightarrow> int list \<Rightarrow> unit fixed_schedule_manager" where
  "ex_fixed_manager n sched = \<lparr>max_threads = n, on_sequence_model = False, workers = [],
     threads = [], threads_stat = [], threads_config = [], sequence_manager = None, early_exit = False,
     gen_duration = 1000, request_distribution = CUSTOM, rm_start_time = 0, rm_execute = False,
     num_of_sequences = 0, warmup_count = 0, warmup_schedule = [], benchmark_schedule = sched\<rparr>"

theorem fixed_schedule_sent_once_witness:
  "\<exists>m' scheds. StartBenchmark 0 (ex_fixed_manager 2 [30, 10, 20]) = Inr m' \<and>
    map worker_schedule (workers m') = map Some scheds \<and> length scheds = 2 \<and>
    (\<Sum>s\<leftarrow>scheds. mset (intervals s)) = {#30000000, 10000000, 20000000#}"
proof -
  have m: "manager_idle (ex_fixed_manager 2 [30, 10, 20])" "\<not> on_sequence_model (ex_fixed_manager 2 [30, 10, 20])"
    "max_threads (ex_fixed_manager 2 [30, 10, 20]) = 2" "benchmark_schedule (ex_fixed_manager 2 [30, 10, 20]) = [30, 10, 20]"
    by (simp_all add: ex_fixed_manager_def manager_idle_def)
  from fixed_schedule_sent_once [OF m(1,2), of 0] show ?thesis
    by (simp add: m(3,4)) (metis numeral_2_eq_2)
qed

text \<open>
  Configuring the threads of an idle manager for \<open>r\<close> requests divides the requests and
  the sequences over the threads so that they add up and, when the number of sequences
  fits in 32 bits, every sequence slot belongs to exactly one thread. With fewer requests
  than threads, and only then, some thread gets the limit 0, which the worker takes for no
  limit at all.
\<close>

theorem rate_requests_are_divided:
  assumes "manager_idle m" and "0 < DetermineNumThreads m" and "num_of_sequences m < 2 ^ 32"
  shows "\<exists>m'. ConfigureThreads r off m = Inr m' \<and> manager_wf m' \<and>
    threads m' = [0..<DetermineNumThreads m] \<and>
    sum_list (map num_requests (threads_config m')) = r \<and>
    sum_list (map (\<lambda>c. unat (num_sequences c)) (threads_config m')) = num_of_sequences m \<and>
    (\<forall>s < num_of_sequences m. \<exists>!i. i < DetermineNumThreads m \<and>
       seq_stat_index_offset (threads_config m' ! i) \<le> s \<and>
       s < seq_stat_index_offset (threads_config m' ! i) + unat (num_sequences (threads_config m' ! i))) \<and>
    ((\<exists>c \<in> set (threads_config m'). num_requests c = 0) \<longleftrightarrow> r < DetermineNumThreads m)"
proof -
  define n where "n = DetermineNumThreads m"
  have n0: "0 < n" using assms(2) by (simp add: n_def)
  obtain m' cfg where m': "ConfigureThreads r off m = Inr m'" "manager_wf m'" "threads m' = [0..<n]"
    "threads_config m' = map (\<lambda>i. configured (num_of_sequences m) r n i (cfg ! i)) [0..<n]"
    by (rule ConfigureThreads_idle [OF assms(1,2), folded n_def]) (rule that)
  have le: "share (num_of_sequences m) n i \<le> num_of_sequences m" if "i < n" for i
    using member_le_sum [of i "{0..<n}" "share (num_of_sequences m) n"] share_sum [OF n0] that by simp
  have u: "unat (word_of_nat (share (num_of_sequences m) n i) :: u32) = share (num_of_sequences m) n i" if "i < n" for i
    using le [OF that] assms(3) by (simp add: unat_of_nat)
  have reqs: "map num_requests (threads_config m') = map (share r n) [0..<n]"
    and seqs: "map (\<lambda>c. unat (num_sequences c)) (threads_config m') = map (share (num_of_sequences m) n) [0..<n]"
    by (simp_all add: m'(4) configured_def u)
  have "sum_list (map num_requests (threads_config m')) = r"
    "sum_list (map (\<lambda>c. unat (num_sequences c)) (threads_config m')) = num_of_sequences m"
    unfolding reqs seqs using n0 by (simp_all only: sum_list_map_upt share_sum)
  moreover have "\<forall>s < num_of_sequences m. \<exists>!i. i < n \<and>
       seq_stat_index_offset (threads_config m' ! i) \<le> s \<and>
       s < seq_stat_index_offset (threads_config m' ! i) + unat (num_sequences (threads_config m' ! i))"
    using prefix_sum_slot [of _ "share (num_of_sequences m) n" n] share_sum [OF n0]
    by (simp add: m'(4) configured_def u cong: conj_cong)
  moreover have "(\<exists>c \<in> set (threads_config m'). num_requests c = 0) \<longleftrightarrow> r < n"
  proof -
    have "(\<exists>c \<in> set (threads_config m'). num_requests c = 0) \<longleftrightarrow> (\<exists>i < n. share r n i = 0)"
      by (auto simp: m'(4) configured_def)
    also have "\<dots> \<longleftrightarrow> (\<exists>i < n. \<not> i < r)" using share_pos_iff [OF n0] by (metis gr0I less_irrefl)
    also have "\<dots> \<longleftrightarrow> r < n" by (meson not_less order.strict_trans1 less_irrefl)
    finally show ?thesis .
  qed
  ultimately show ?thesis using m' by (auto simp: n_def)
qed

theorem rate_requests_are_divided_witness:
  "\<exists>m'. ConfigureThreads 2 0 (ex_rate_manager True CONSTANT 4 6) = Inr m' \<and>
    sum_list (map num_requests (threads_config m')) = 2 \<and>
    (\<exists>c \<in> set (threads_config m'). num_requests c = 0)"
  using rate_requests_are_divided [of "ex_rate_manager True CONSTANT 4 6" 2 0] by auto

end
