(* ===== verification/Json_Dom.thy ===== *)
theory Json_Dom
  imports PA_Prelude
begin

text \<open>
  The document model of RapidJSON, which the sources read through its accessors. A number
  is kept as an integer when it was written as one and fits in 64 bits, and as the bits of
  a double otherwise. An accessor on a value of another kind is an assertion of the
  library; the model keeps it apart as undefined behaviour. The parser, the writer and the
  base64 decoder are not part of the repository: parsed documents are arguments, and the
  other two are parameters of the definitions that use them.
\<close>

datatype json =
    JNull
  | JBool bool
  | JInt int
  | JDouble u64
  | JString string
  | JArray "json list"
  | JObject "(string \<times> json) list"

fun IsString :: "json \<Rightarrow> bool" where
  "IsString (JString _) = True" | "IsString _ = False"

fun IsBool :: "json \<Rightarrow> bool" where
  "IsBool (JBool _) = True" | "IsBool _ = False"

fun IsArray :: "json \<Rightarrow> bool" where
  "IsArray (JArray _) = True" | "IsArray _ = False"

fun IsObject :: "json \<Rightarrow> bool" where
  "IsObject (JObject _) = True" | "IsObject _ = False"

fun IsDouble :: "json \<Rightarrow> bool" where
  "IsDouble (JDouble _) = True" | "IsDouble _ = False"

definition int_in :: "int \<Rightarrow> int \<Rightarrow> json \<Rightarrow> bool" where
  "int_in lo hi v = (case v of JInt i \<Rightarrow> lo \<le> i \<and> i < hi | _ \<Rightarrow> False)"

definition IsInt :: "json \<Rightarrow> bool" where "IsInt = int_in (- (2 ^ 31)) (2 ^ 31)"
definition IsUint :: "json \<Rightarrow> bool" where "IsUint = int_in 0 (2 ^ 32)"
definition IsInt64 :: "json \<Rightarrow> bool" where "IsInt64 = int_in (- (2 ^ 63)) (2 ^ 63)"
definition IsUint64 :: "json \<Rightarrow> bool" where "IsUint64 = int_in 0 (2 ^ 64)"

fun GetIntValue :: "json \<Rightarrow> int" where
  "GetIntValue (JInt i) = i" | "GetIntValue _ = 0"

definition member :: "json \<Rightarrow> string \<Rightarrow> json option" where
  "member v k = (case v of JObject kvs \<Rightarrow> map_of kvs k | _ \<Rightarrow> None)"

definition json_assert :: "exn" where
  "json_assert = UndefinedBehaviour ''RapidJSON assertion''"

text \<open>\<open>HasMember\<close>, \<open>operator[]\<close> and \<open>MemberBegin\<close> assert that the value is an object.\<close>

definition HasMember :: "json \<Rightarrow> string \<Rightarrow> exn + bool" where
  "HasMember v k = (if IsObject v then Inr (member v k \<noteq> None) else Inl json_assert)"

definition GetMember :: "json \<Rightarrow> string \<Rightarrow> exn + json" where
  "GetMember v k = (case member v k of Some w \<Rightarrow> Inr w | None \<Rightarrow> Inl json_assert)"

definition MemberNames :: "json \<Rightarrow> exn + string list" where
  "MemberNames v = (case v of JObject kvs \<Rightarrow> Inr (map fst kvs) | _ \<Rightarrow> Inl json_assert)"

text \<open>\<open>Size\<close>, \<open>operator[]\<close> with an index and \<open>GetArray\<close> assert that the value is an array.\<close>

definition GetArray :: "json \<Rightarrow> exn + json list" where
  "GetArray v = (case v of JArray vs \<Rightarrow> Inr vs | _ \<Rightarrow> Inl json_assert)"

definition GetString :: "json \<Rightarrow> exn + string" where
  "GetString v = (case v of JString s \<Rightarrow> Inr s | _ \<Rightarrow> Inl json_assert)"

lemma IsArray_conv: "IsArray v \<longleftrightarrow> (\<exists>vs. v = JArray vs)"
  by (cases v) auto

lemma IsObject_conv: "IsObject v \<longleftrightarrow> (\<exists>kvs. v = JObject kvs)"
  by (cases v) auto

lemma IsString_conv: "IsString v \<longleftrightarrow> (\<exists>s. v = JString s)"
  by (cases v) auto

lemma int_in_conv: "int_in lo hi v \<longleftrightarrow> (\<exists>i. v = JInt i \<and> lo \<le> i \<and> i < hi)"
  by (cases v) (auto simp: int_in_def)

end
