(* ===== verification/Perf_Utils.thy ===== *)
theory Perf_Utils
  imports Json_Dom Ieee_Float
begin

text \<open>
  The helpers of \<open>perf_utils.cc\<close>: names of protocols, tensor formats and data types, the size
  of a tensor, and the byte strings that tensors are sent as. Sizes are \<open>int64_t\<close>; a product
  that does not fit is undefined behaviour.
\<close>

section \<open>Names\<close>

definition tolower :: "char \<Rightarrow> char" where
  "tolower c = (let n = (of_char c :: nat) in if 65 \<le> n \<and> n \<le> 90 then char_of (n + 32) else c)"

datatype protocol_type = HTTP | GRPC | UNKNOWN_PROTOCOL

definition ParseProtocol :: "string \<Rightarrow> protocol_type" where
  "ParseProtocol str =
     (let protocol = map tolower str
      in if protocol = ''http'' then HTTP else if protocol = ''grpc'' then GRPC else UNKNOWN_PROTOCOL)"

datatype tensor_format = BINARY_FORMAT | JSON_FORMAT | UNKNOWN_FORMAT

definition ParseTensorFormat :: "string \<Rightarrow> tensor_format" where
  "ParseTensorFormat str =
     (let s = map tolower str
      in if s = ''binary'' then BINARY_FORMAT else if s = ''json'' then JSON_FORMAT else UNKNOWN_FORMAT)"

definition tfs_dtypes :: "(string \<times> string) list" where
  "tfs_dtypes = [(''DT_HALF'', ''FP16''), (''DT_BFLOAT16'', ''BF16''), (''DT_FLOAT'', ''FP32''),
     (''DT_DOUBLE'', ''FP64''), (''DT_INT32'', ''INT32''), (''DT_INT16'', ''INT16''),
     (''DT_UINT16'', ''UINT16''), (''DT_INT8'', ''INT8''), (''DT_UINT8'', ''UINT8''),
     (''DT_STRING'', ''BYTES''), (''DT_INT64'', ''INT64''), (''DT_BOOL'', ''BOOL''),
     (''DT_UINT32'', ''UINT32''), (''DT_UINT64'', ''UINT64'')]"

definition ConvertDTypeFromTFS :: "string \<Rightarrow> cb_error + string" where
  "ConvertDTypeFromTFS tf_dtype =
     (case map_of tfs_dtypes tf_dtype of
        Some dt \<Rightarrow> Inr dt
      | None \<Rightarrow> Inl (generic_error (''unsupported datatype encountered '' @ tf_dtype)))"

definition GetDataTypeSize :: "string \<Rightarrow> nat option" where
  "GetDataTypeSize dt =
     (if dt = ''BOOL'' then Some 1
      else if dt = ''UINT8'' then Some 1 else if dt = ''UINT16'' then Some 2
      else if dt = ''UINT32'' then Some 4 else if dt = ''UINT64'' then Some 8
      else if dt = ''INT8'' then Some 1 else if dt = ''INT16'' then Some 2
      else if dt = ''INT32'' then Some 4 else if dt = ''INT64'' then Some 8
      else if dt = ''FP32'' then Some 4 else if dt = ''FP64'' then Some 8
      else if dt = ''BYTES'' then Some 1 else if dt = ''JSON'' then Some 1
      else None)"

definition TensorToRegionName :: "string \<Rightarrow> string" where
  "TensorToRegionName name = filter (\<lambda>c. \<not> (c = CHR ''/'' \<or> c = CHR 0x5C)) name"

section \<open>Sizes\<close>

definition i64_product :: "int \<Rightarrow> int \<Rightarrow> exn + int" where
  "i64_product a b =
     (if - (2 ^ 63) \<le> a * b \<and> a * b < 2 ^ 63 then Inr (a * b)
      else Inl (UndefinedBehaviour ''signed overflow''))"

definition ElementCount :: "int list \<Rightarrow> exn + int" where
  "ElementCount shape =
     bindR (foldR (\<lambda>(cnt, is_dynamic) dim.
              if dim = - 1 then Inr (cnt, True)
              else bindR (i64_product cnt dim) (\<lambda>c. Inr (c, is_dynamic))) (1, False) shape)
       (\<lambda>(cnt, is_dynamic). Inr (if is_dynamic then - 1 else cnt))"

definition element_size :: "string \<Rightarrow> int option" where
  "element_size datatype =
     (if datatype \<in> {''BOOL'', ''INT8'', ''UINT8''} then Some 1
      else if datatype \<in> {''INT16'', ''UINT16'', ''FP16'', ''BF16''} then Some 2
      else if datatype \<in> {''INT32'', ''UINT32'', ''FP32''} then Some 4
      else if datatype \<in> {''INT64'', ''UINT64'', ''FP64''} then Some 8
      else None)"

definition ByteSize :: "int list \<Rightarrow> string \<Rightarrow> exn + int" where
  "ByteSize shape datatype =
     (case element_size datatype of
        None \<Rightarrow> Inr (- 1)
      | Some one_element_size \<Rightarrow>
          bindR (ElementCount shape) (\<lambda>cnt.
            if cnt < 0 then Inr cnt else i64_product one_element_size cnt))"

fun shape_values :: "bool \<Rightarrow> bool \<Rightarrow> int list \<Rightarrow> string" where
  "shape_values skip_first first [] = []"
| "shape_values skip_first first (v # vs) =
     (if skip_first then shape_values False first vs
      else (if first then '''' else '','') @ to_string v @ shape_values False False vs)"

definition ShapeVecToString :: "int list \<Rightarrow> bool \<Rightarrow> string" where
  "ShapeVecToString shape_vec skip_first = ''['' @ shape_values skip_first True shape_vec @ '']''"

section \<open>Serialization\<close>

text \<open>The length in front of a string is a \<open>uint32_t\<close> assigned from a \<open>size_t\<close>.\<close>

definition serialize_string :: "string \<Rightarrow> bytes" where
  "serialize_string s = le_bytes 4 (unat (word_of_nat (length s) :: u32)) @ str_bytes s"

definition SerializeStringTensor :: "string list \<Rightarrow> bytes \<Rightarrow> bytes" where
  "SerializeStringTensor string_tensor serialized_data =
     serialized_data @ foldl (\<lambda>acc s. acc @ serialize_string s) [] string_tensor"

text \<open>A \<open>std::string\<close> made from a C string ends at the first NUL.\<close>

definition c_str :: "string \<Rightarrow> string" where
  "c_str s = takeWhile (\<lambda>c. c \<noteq> CHR 0x00) s"

text \<open>The conversion from \<open>double\<close> to \<open>float\<close>, on the bits: sign, exponent and fraction.\<close>

definition float_magnitude :: "rat \<Rightarrow> nat" where
  "float_magnitude q =
     (let r = rnd binary32 q
      in if r = 0 then 0
         else if 2 ^ 128 \<le> r then 0x7F800000
         else if r < 1 / 2 ^ 126 then nat \<lfloor>r * 2 ^ 149\<rfloor>
         else nat ((ilog2 r + 127) * 2 ^ 23 + (\<lfloor>r * 2 powi (23 - ilog2 r)\<rfloor> - 2 ^ 23)))"

definition double_to_float :: "u64 \<Rightarrow> nat" where
  "double_to_float w =
     (let sgn = unat w div 2 ^ 63; e = unat w div 2 ^ 52 mod 2 ^ 11; m = unat w mod 2 ^ 52
      in sgn * 2 ^ 31 +
         (if e = 2047 then (if m = 0 then 0x7F800000 else 0x7FC00000 + m div 2 ^ 29 mod 2 ^ 22)
          else if e = 0 then float_magnitude (of_nat m * 2 powi (- 1074))
          else float_magnitude (of_nat (2 ^ 52 + m) * 2 powi (int e - 1075))))"

text \<open>The bytes of an integer of \<open>k\<close> bytes.\<close>

definition int_bytes :: "nat \<Rightarrow> int \<Rightarrow> bytes" where
  "int_bytes k i = le_bytes k (nat (i mod 2 ^ (8 * k)))"

definition need :: "bool \<Rightarrow> string \<Rightarrow> bytes \<Rightarrow> cb_error + bytes" where
  "need ok what bs =
     (if ok then Inr bs else Inl (generic_error (''unable to find '' @ what @ '' data in json'')))"

definition serialize_element :: "string \<Rightarrow> json \<Rightarrow> cb_error + bytes" where
  "serialize_element dt value =
     (if dt = ''BOOL'' then need (IsBool value) ''bool'' [if value = JBool True then 1 else 0]
      else if dt = ''UINT8'' then need (IsUint value) ''uint8_t'' (int_bytes 1 (GetIntValue value))
      else if dt = ''INT8'' then need (IsInt value) ''int8_t'' (int_bytes 1 (GetIntValue value))
      else if dt = ''UINT16'' then need (IsUint value) ''uint16_t'' (int_bytes 2 (GetIntValue value))
      else if dt = ''INT16'' then need (IsInt value) ''int16_t'' (int_bytes 2 (GetIntValue value))
      else if dt = ''FP16'' then
        Inl (generic_error ''Can not use explicit tensor description for fp16 datatype'')
      else if dt = ''BF16'' then
        Inl (generic_error ''Can not use explicit tensor description for bf16 datatype'')
      else if dt = ''UINT32'' then need (IsUint value) ''uint32_t'' (int_bytes 4 (GetIntValue value))
      else if dt = ''INT32'' then need (IsInt value) ''int32_t'' (int_bytes 4 (GetIntValue value))
      else if dt = ''FP32'' then
        need (IsDouble value) ''float''
          (case value of JDouble w \<Rightarrow> le_bytes 4 (double_to_float w) | _ \<Rightarrow> [])
      else if dt = ''UINT64'' then need (IsUint64 value) ''uint64_t'' (int_bytes 8 (GetIntValue value))
      else if dt = ''INT64'' then need (IsInt64 value) ''int64_t'' (int_bytes 8 (GetIntValue value))
      else if dt = ''FP64'' then
        need (IsDouble value) ''fp64'' (case value of JDouble w \<Rightarrow> le_bytes 8 (unat w) | _ \<Rightarrow> [])
      else Inl (generic_error (''Unexpected type '' @ dt)))"

definition string_element :: "json \<Rightarrow> cb_error + bytes" where
  "string_element value =
     (case value of
        JString s \<Rightarrow> Inr (serialize_string (c_str s))
      | _ \<Rightarrow> Inl (generic_error ''unable to find string data in json''))"

definition SerializeExplicitTensor :: "(json \<Rightarrow> string) \<Rightarrow> json \<Rightarrow> string \<Rightarrow> bytes \<Rightarrow> failure + bytes" where
  "SerializeExplicitTensor write_json tensor dt decoded_data =
     bindR (liftE (GetArray tensor)) (\<lambda>values.
       if dt = ''BYTES'' then
         bindR (liftC (mapR string_element values)) (\<lambda>bs. Inr (decoded_data @ concat bs))
       else if dt = ''JSON'' then
         (case values of
            [value] \<Rightarrow> Inr (decoded_data @ str_bytes (write_json value))
          | _ \<Rightarrow> Inl (Fails (generic_error
              ''JSON format does not yet support multiple json objects in the input'')))
       else
         bindR (liftC (mapR (serialize_element dt) values)) (\<lambda>bs. Inr (decoded_data @ concat bs)))"

definition character_set :: string where
  "character_set = ''abcdefghijklmnopqrstuvwxyzABCDEFGHIJKLMNOPQRSTUVWXYZ1234567890 .?!''"

text \<open>\<open>pick\<close> draws a position of the character set from the engine.\<close>

primrec GetRandomString :: "('r \<Rightarrow> nat \<times> 'r) \<Rightarrow> nat \<Rightarrow> 'r \<Rightarrow> string \<times> 'r" where
  "GetRandomString pick 0 g = ([], g)"
| "GetRandomString pick (Suc n) g =
     (let (i, g') = pick g; (s, g'') = GetRandomString pick n g'
      in (character_set ! i # s, g''))"

section \<open>Decoding what was serialized\<close>

text \<open>The reader of a length-prefixed string tensor, as the server sees it.\<close>

function parse_strings :: "bytes \<Rightarrow> string list option" where
  "parse_strings bs =
     (if bs = [] then Some []
      else if length bs < 4 then None
      else let n = le_nat (take 4 bs); rest = drop 4 bs
           in if length rest < n then None
              else map_option (\<lambda>ss. bytes_str (take n rest) # ss) (parse_strings (drop n rest)))"
  by auto
termination
  by (relation "measure length") auto

declare parse_strings.simps [simp del]

lemma foldl_concat_map: "foldl (\<lambda>acc s. acc @ f s) acc xs = acc @ concat (map f xs)"
  by (induction xs arbitrary: acc) auto

lemma SerializeStringTensor_eq:
  "SerializeStringTensor ss bs = bs @ concat (map serialize_string ss)"
  by (simp add: SerializeStringTensor_def foldl_concat_map)

lemma length_serialize_string [simp]: "length (serialize_string s) = 4 + length s"
  by (simp add: serialize_string_def)

lemma parse_serialize_string:
  assumes "length s < 2 ^ 32"
  shows "parse_strings (serialize_string s @ bs) = map_option ((#) s) (parse_strings bs)"
proof -
  have n: "unat (word_of_nat (length s) :: u32) = length s" using assms by (simp add: unat_of_nat)
  have "le_nat (le_bytes 4 (length s)) = length s" using assms by (intro le_nat_le_bytes) simp
  then show ?thesis
    by (subst parse_strings.simps) (simp add: serialize_string_def n Let_def)
qed

lemma parse_strings_concat:
  "\<forall>s \<in> set ss. length s < 2 ^ 32 \<Longrightarrow> parse_strings (concat (map serialize_string ss)) = Some ss"
  by (induction ss) (simp_all add: parse_serialize_string, simp add: parse_strings.simps)

text \<open>The value of a signed or unsigned integer of \<open>k\<close> bytes.\<close>

definition bytes_uint :: "bytes \<Rightarrow> int" where
  "bytes_uint bs = int (le_nat bs)"

definition bytes_sint :: "bytes \<Rightarrow> int" where
  "bytes_sint bs = (let v = int (le_nat bs); k = 8 * length bs
     in if v < 2 ^ (k - 1) then v else v - 2 ^ k)"

lemma length_int_bytes [simp]: "length (int_bytes k i) = k"
  by (simp add: int_bytes_def)

lemma le_nat_int_bytes: "int (le_nat (int_bytes k i)) = i mod 2 ^ (8 * k)"
proof -
  have p: "(256 :: nat) ^ k = 2 ^ (8 * k)" by (simp add: power_mult)
  have "nat (i mod 2 ^ (8 * k)) < 256 ^ k"
    unfolding p by (simp add: nat_less_iff)
  then show ?thesis by (simp add: int_bytes_def le_nat_le_bytes)
qed

lemma bytes_uint_int_bytes: "0 \<le> i \<Longrightarrow> i < 2 ^ (8 * k) \<Longrightarrow> bytes_uint (int_bytes k i) = i"
  by (simp add: bytes_uint_def le_nat_int_bytes)

lemma bytes_sint_int_bytes:
  assumes "0 < k" and "- (2 ^ (8 * k - 1)) \<le> i" and "i < 2 ^ (8 * k - 1)"
  shows "bytes_sint (int_bytes k i) = i"
proof -
  have p: "(2 :: int) ^ (8 * k) = 2 * 2 ^ (8 * k - 1)"
    using assms(1) by (metis Suc_diff_1 mult_pos_pos power_Suc zero_less_numeral)
  have "i mod 2 ^ (8 * k) = (if i < 0 then i + 2 ^ (8 * k) else i)"
  proof (cases "i < 0")
    case True
    have "(i + 2 ^ (8 * k)) mod 2 ^ (8 * k) = i + 2 ^ (8 * k)"
      using assms True p by (intro mod_pos_pos_trivial) auto
    with True show ?thesis by simp
  next
    case False
    then show ?thesis using assms p by simp
  qed
  then show ?thesis using assms p by (auto simp: bytes_sint_def le_nat_int_bytes Let_def)
qed

text \<open>Every element of a fixed-size type takes the size that \<open>ByteSize\<close> counts for it.\<close>

lemma serialize_element_length:
  "serialize_element dt v = Inr bs \<Longrightarrow> element_size dt = Some n \<Longrightarrow> int (length bs) = n"
  by (cases v) (auto simp: serialize_element_def element_size_def need_def split: if_splits)

lemma serialized_length:
  assumes "mapR (serialize_element dt) vs = Inr bss" and "element_size dt = Some n"
  shows "int (length (concat bss)) = n * int (length vs)"
  using assms
  by (induction vs arbitrary: bss)
    (auto simp: bindR_Inr_conv algebra_simps dest!: serialize_element_length [where dt = dt])

lemma element_size_not_text: "element_size dt = Some n \<Longrightarrow> dt \<noteq> ''BYTES'' \<and> dt \<noteq> ''JSON''"
  by (auto simp: element_size_def)

section \<open>Properties\<close>

text \<open>
  A tensor of strings shorter than 4 GiB is read back as the strings it was made from;
  and strings without NUL characters given in a JSON document are serialized to the same
  bytes as those read from a file.
\<close>

theorem string_tensor_roundtrip:
  assumes "\<forall>s \<in> set ss. length s < 2 ^ 32"
  shows "parse_strings (SerializeStringTensor ss []) = Some ss \<and>
    ((\<forall>s \<in> set ss. CHR 0x00 \<notin> set s) \<longrightarrow>
       SerializeExplicitTensor wj (JArray (map JString ss)) ''BYTES'' [] = Inr (SerializeStringTensor ss []))"
proof -
  have "c_str s = s" if "CHR 0x00 \<notin> set s" for s
    using that by (auto simp: c_str_def takeWhile_eq_all_conv)
  then have "mapR string_element (map JString ss) = Inr (map serialize_string ss)"
    if "\<forall>s \<in> set ss. CHR 0x00 \<notin> set s"
    using that by (induction ss) (simp_all add: string_element_def)
  then show ?thesis
    using parse_strings_concat [OF assms]
    by (simp add: SerializeStringTensor_eq SerializeExplicitTensor_def GetArray_def)
qed

theorem string_tensor_roundtrip_witness:
  "parse_strings (SerializeStringTensor [''ab'', '''', ''c''] []) = Some [''ab'', '''', ''c'']"
  using string_tensor_roundtrip [of "[''ab'', '''', ''c'']"] by simp

text \<open>The integer types: their size, and whether they are signed.\<close>

definition int_type :: "string \<Rightarrow> (nat \<times> bool) option" where
  "int_type dt = map_of [(''UINT8'', (1, False)), (''INT8'', (1, True)), (''UINT16'', (2, False)),
     (''INT16'', (2, True)), (''UINT32'', (4, False)), (''INT32'', (4, True)),
     (''UINT64'', (8, False)), (''INT64'', (8, True))] dt"

definition in_type :: "nat \<Rightarrow> bool \<Rightarrow> int \<Rightarrow> bool" where
  "in_type k sg x \<longleftrightarrow> (if sg then - (2 ^ (8 * k - 1)) \<le> x \<and> x < 2 ^ (8 * k - 1)
     else 0 \<le> x \<and> x < 2 ^ (8 * k))"

definition decode_int :: "bool \<Rightarrow> bytes \<Rightarrow> int" where
  "decode_int sg bs = (if sg then bytes_sint bs else bytes_uint bs)"

lemma int_type_cases:
  assumes "int_type dt = Some (k, sg)"
  shows "(dt, k, sg) \<in> set [(''UINT8'', 1, False), (''INT8'', 1, True), (''UINT16'', 2, False),
     (''INT16'', 2, True), (''UINT32'', 4, False), (''INT32'', 4, True), (''UINT64'', 8, False),
     (''INT64'', 8, True)]"
  using map_of_SomeD [OF assms [unfolded int_type_def]] by (simp only: list.set insert_iff empty_iff)

lemma int_type_size:
  assumes "int_type dt = Some (k, sg)"
  shows "element_size dt = Some (int k)" and "0 < k"
  using int_type_cases [OF assms] unfolding list.set insert_iff empty_iff prod.inject
  by (elim disjE conjE FalseE; simp add: element_size_def)+

lemma serialize_int:
  assumes "int_type dt = Some (k, sg)" and "in_type k sg x"
  shows "serialize_element dt (JInt x) = Inr (int_bytes k x)"
    and "decode_int sg (int_bytes k x) = x"
proof -
  show "serialize_element dt (JInt x) = Inr (int_bytes k x)"
    using int_type_cases [OF assms(1)] assms(2) unfolding list.set insert_iff empty_iff prod.inject
    by (elim disjE conjE FalseE;
        simp add: serialize_element_def need_def IsUint_def IsInt_def IsUint64_def IsInt64_def int_in_def in_type_def)
  show "decode_int sg (int_bytes k x) = x"
    using assms(2) int_type_size(2) [OF assms(1)] bytes_uint_int_bytes [of x k] bytes_sint_int_bytes [of k x]
    by (cases sg) (simp_all add: decode_int_def in_type_def)
qed

lemma serialize_ints:
  assumes "int_type dt = Some (k, sg)" and "\<forall>x \<in> set xs. in_type k sg x"
  shows "mapR (serialize_element dt) (map JInt xs) = Inr (map (int_bytes k) xs)"
  using assms(2) serialize_int(1) [OF assms(1)] by (induction xs) simp_all

lemma chunk_of_concat:
  assumes "\<forall>b \<in> set bss. length b = k" and "i < length bss"
  shows "take k (drop (i * k) (concat bss)) = bss ! i"
  using assms by (induction bss arbitrary: i) (auto simp: nth_Cons split: nat.splits)

text \<open>
  C27: The integers of an explicit tensor, each within the range of the tensor's type, are
  encoded so that the bytes from \<open>i * k\<close> on are the \<open>i\<close>-th integer, in a data vector of exactly
  the size that \<open>ByteSize\<close> computes for the shape of that many elements.
\<close>

theorem integer_tensor_roundtrip:
  assumes "int_type dt = Some (k, sg)" and "\<forall>x \<in> set xs. in_type k sg x"
    and "int k * int (length xs) < 2 ^ 63"
  shows "\<exists>bs. SerializeExplicitTensor wj (JArray (map JInt xs)) dt [] = Inr bs \<and>
    ByteSize [int (length xs)] dt = Inr (int (length bs)) \<and>
    (\<forall>i < length xs. decode_int sg (take k (drop (i * k) bs)) = xs ! i)"
proof -
  have es: "element_size dt = Some (int k)" "dt \<noteq> ''BYTES''" "dt \<noteq> ''JSON''" and k: "0 < k"
    using int_type_size [OF assms(1)] element_size_not_text by blast+
  let ?bs = "concat (map (int_bytes k) xs)"
  have ser: "SerializeExplicitTensor wj (JArray (map JInt xs)) dt [] = Inr ?bs"
    using es serialize_ints [OF assms(1,2)] by (simp add: SerializeExplicitTensor_def GetArray_def)
  have len: "int (length ?bs) = int k * int (length xs)"
    using serialized_length [OF serialize_ints [OF assms(1,2)] es(1)] by simp
  have "int (length xs) \<le> int k * int (length xs)" using k by (simp add: mult_le_cancel_right1)
  then have cnt: "ElementCount [int (length xs)] = Inr (int (length xs))"
    using assms(3) by (simp add: ElementCount_def i64_product_def)
  have "0 \<le> int k * int (length xs)" by simp
  then have "ByteSize [int (length xs)] dt = Inr (int (length ?bs))"
    using assms(3) cnt len by (simp add: ByteSize_def es(1) i64_product_def)
  moreover have "decode_int sg (take k (drop (i * k) ?bs)) = xs ! i" if "i < length xs" for i
    using chunk_of_concat [of "map (int_bytes k) xs" k i] serialize_int(2) [OF assms(1)] assms(2) that by simp
  ultimately show ?thesis using ser by blast
qed

theorem integer_tensor_roundtrip_witness:
  "\<exists>bs. SerializeExplicitTensor (\<lambda>_. '''') (JArray [JInt (- 2), JInt 300]) ''INT16'' [] = Inr bs \<and>
    decode_int True (take 2 (drop 0 bs)) = - 2 \<and> decode_int True (take 2 (drop 2 bs)) = 300"
  using integer_tensor_roundtrip [of "''INT16''" 2 True "[- 2, 300]" "\<lambda>_. ''''"]
  by (auto simp: int_type_def in_type_def numeral_2_eq_2 All_less_Suc2)

end
