(* ===== verification/Data_Loader.thy ===== *)
theory Data_Loader
  imports Perf_Utils Std_Map
begin

text \<open>
  \<open>DataLoader\<close> of \<open>data_loader.cc\<close>: the input and validation data of the requests, read from a
  directory, from JSON documents or from a process, or generated. Everything that reads the
  world takes what it reads as an argument: the directory and file contents, the parsed
  documents, the output of a process, the random engine, the base64 decoder of libb64.

  A failing operation of the loader ends the run (\<open>LoadManager::InitManager\<close> throws), so a
  failure does not carry the partly updated loader.
\<close>

section \<open>Data\<close>

record model_tensor =
  mt_name :: string
  mt_datatype :: string
  mt_shape :: "int list"
  is_shape_tensor :: bool
  is_optional :: bool

type_synonym model_tensor_map = "(string, model_tensor) std_map"

text \<open>\<open>data_ptr\<close> is the memory from the pointer on, or None for a null pointer.\<close>

record tensor_data =
  data_ptr :: "bytes option"
  batch1_size :: nat
  is_valid :: bool
  td_name :: string

definition no_tensor :: tensor_data where
  "no_tensor = \<lparr>data_ptr = None, batch1_size = 0, is_valid = False, td_name = ''''\<rparr>"

record data_loader =
  dl_batch_size :: nat
  data_stream_cnt :: nat
  step_num :: "nat list"
  input_data :: "(string, bytes) std_map"
  input_shapes :: "(string, int list) std_map"
  output_data :: "(string, bytes) std_map"
  output_shapes :: "(string, int list) std_map"
  input_buf :: bytes
  multiple_stream_mode :: bool

definition DataLoader :: "nat \<Rightarrow> data_loader" where
  "DataLoader n = \<lparr>dl_batch_size = n, data_stream_cnt = 0, step_num = [], input_data = [],
     input_shapes = [], output_data = [], output_shapes = [], input_buf = [],
     multiple_stream_mode = False\<rparr>"

definition GetDataStreamsCount :: "data_loader \<Rightarrow> nat" where
  "GetDataStreamsCount d = data_stream_cnt d"

definition GetTotalSteps :: "nat \<Rightarrow> data_loader \<Rightarrow> exn + nat" where
  "GetTotalSteps stream_id d =
     (if stream_id < data_stream_cnt d then vec_index (step_num d) stream_id else Inr 0)"

text \<open>The key of a tensor's data in the maps, and the cast of a \<open>size_t\<close> to \<open>int\<close>.\<close>

definition key_name :: "string \<Rightarrow> int \<Rightarrow> int \<Rightarrow> string" where
  "key_name name stream_id step_id = name @ ''_'' @ to_string stream_id @ ''_'' @ to_string step_id"

definition cast_int :: "nat \<Rightarrow> int" where
  "cast_int n = sint (word_of_nat n :: 32 word)"

section \<open>Access\<close>

definition ValidateIndexes :: "int \<Rightarrow> int \<Rightarrow> data_loader \<Rightarrow> failure + unit" where
  "ValidateIndexes stream_id step_id d =
     (if stream_id < 0 \<or> stream_id \<ge> cast_int (data_stream_cnt d) then
        Inl (Fails (generic_error (''stream_id for retrieving the data should be less than '' @
          to_string (int (data_stream_cnt d)) @ '', got '' @ to_string stream_id)))
      else
        bindR (liftE (vec_index (step_num d) (nat stream_id))) (\<lambda>n.
          if step_id < 0 \<or> step_id \<ge> cast_int n then
            Inl (Fails (generic_error (''step_id for retrieving the data should be less than '' @
              to_string (int n) @ '', got '' @ to_string step_id)))
          else Inr ()))"

definition GetInputData :: "model_tensor \<Rightarrow> int \<Rightarrow> int \<Rightarrow> data_loader \<Rightarrow> failure + tensor_data" where
  "GetInputData input stream_id step_id d =
     bindR (if input_data d \<noteq> [] then
              bindR (ValidateIndexes stream_id step_id d) (\<lambda>_.
                case map_find (input_data d) (key_name (mt_name input) stream_id step_id) of
                  Some v \<Rightarrow> Inr (no_tensor\<lparr>is_valid := True, batch1_size := length v, data_ptr := Some v\<rparr>)
                | None \<Rightarrow> Inr no_tensor)
            else Inr no_tensor) (\<lambda>t.
     bindR (if \<not> is_valid t \<and> mt_datatype input \<noteq> ''BYTES'' \<and> input_buf d \<noteq> [] then
              bindR (liftE (ByteSize (mt_shape input) (mt_datatype input))) (\<lambda>byte_size.
                if byte_size < 0 then
                  Inl (Fails (generic_error (''failed to get correct byte size for '' @ [CHR 0x27] @
                    mt_name input @ [CHR 0x27] @ ''.'')))
                else Inr (t\<lparr>batch1_size := nat byte_size, data_ptr := Some (input_buf d), is_valid := True\<rparr>))
            else Inr t) (\<lambda>t'.
       if \<not> is_optional input \<and> \<not> is_valid t' then
         Inl (Fails (generic_error (''unable to find data for input '' @ [CHR 0x27] @ mt_name input @
           [CHR 0x27] @ ''.'')))
       else Inr t'))"

definition GetOutputData :: "string \<Rightarrow> int \<Rightarrow> int \<Rightarrow> data_loader \<Rightarrow> failure + tensor_data" where
  "GetOutputData output_name stream_id step_id d =
     (if output_data d \<noteq> [] then
        bindR (ValidateIndexes stream_id step_id d) (\<lambda>_.
          case map_find (output_data d) (key_name output_name stream_id step_id) of
            Some v \<Rightarrow> Inr \<lparr>data_ptr = Some v, batch1_size = length v, is_valid = True, td_name = output_name\<rparr>
          | None \<Rightarrow> Inr no_tensor)
      else Inr no_tensor)"

definition GetInputShape :: "model_tensor \<Rightarrow> int \<Rightarrow> int \<Rightarrow> data_loader \<Rightarrow> int list" where
  "GetInputShape input stream_id step_id d =
     (case map_find (input_shapes d) (key_name (mt_name input) stream_id step_id) of
        Some shape \<Rightarrow> shape
      | None \<Rightarrow> mt_shape input)"

section \<open>Validation\<close>

definition shape_mismatch :: "int list \<Rightarrow> int list \<Rightarrow> bool" where
  "shape_mismatch shape model_shape \<longleftrightarrow>
     length shape \<noteq> length model_shape \<or>
     list_ex (\<lambda>i. shape ! i \<noteq> model_shape ! i \<and> model_shape ! i \<noteq> - 1) [0..<length shape]"

text \<open>The count of elements is an \<open>int64_t\<close> that is assigned to an \<open>int\<close>.\<close>

definition ValidateTensorShape :: "int list \<Rightarrow> model_tensor \<Rightarrow> failure + unit" where
  "ValidateTensorShape shape t =
     (let q = [CHR 0x22] in
      bindR (liftE (ElementCount shape)) (\<lambda>cnt.
        if sint (word_of_int cnt :: 32 word) < 0 then
          Inl (Fails (generic_error (''The variable-sized tensor '' @ q @ mt_name t @ q @
            '' with model shape '' @ ShapeVecToString (mt_shape t) False @
            '' needs to have its shape fully defined. See the --shape option.'')))
        else if shape_mismatch shape (mt_shape t) then
          Inl (Fails (generic_error (''The supplied shape of '' @ ShapeVecToString shape False @
            '' for input '' @ q @ mt_name t @ q @ '' is incompatible with the model'' @ [CHR 0x27] @
            ''s input shape of '' @ ShapeVecToString (mt_shape t) False)))
        else Inr ()))"

definition ValidateTensorDataSize :: "bytes \<Rightarrow> int \<Rightarrow> model_tensor \<Rightarrow> cb_error + unit" where
  "ValidateTensorDataSize data batch1_byte t =
     (if batch1_byte > 0 \<and> nat batch1_byte \<noteq> length data then
        Inl (generic_error (''mismatch in the data provided for '' @ mt_name t @ ''. Expected: '' @
          to_string batch1_byte @ '' bytes, Got: '' @ to_string (int (length data)) @ '' bytes''))
      else Inr ())"

text \<open>The shapes of outputs are looked up among those of the inputs.\<close>

definition ValidateTensor :: "model_tensor \<Rightarrow> int \<Rightarrow> int \<Rightarrow> data_loader \<Rightarrow> failure + unit" where
  "ValidateTensor t stream_index step_index d =
     (let key = key_name (mt_name t) stream_index step_index;
          found = (case map_find (input_data d) key of
                     Some v \<Rightarrow> Some v | None \<Rightarrow> map_find (output_data d) key)
      in case found of
           None \<Rightarrow> Inl (Fails (generic_error (''Can'' @ [CHR 0x27] @ ''t validate a nonexistent tensor'')))
         | Some data \<Rightarrow>
             let shape = (case map_find (input_shapes d) key of None \<Rightarrow> mt_shape t | Some s \<Rightarrow> s)
             in bindR (liftE (ByteSize shape (mt_datatype t))) (\<lambda>batch1_byte.
                bindR (ValidateTensorShape shape t) (\<lambda>_.
                  liftC (ValidateTensorDataSize data batch1_byte t))))"

definition ValidateParsingMode :: "json \<Rightarrow> data_loader \<Rightarrow> cb_error + data_loader" where
  "ValidateParsingMode steps d =
     (if step_num d = [] then Inr (d\<lparr>multiple_stream_mode := IsArray steps\<rparr>)
      else if IsArray steps \<noteq> multiple_stream_mode d then
        Inl (generic_error (''Inconsistency in input-data provided. Can not have a combination of '' @
          ''objects and arrays inside of the Data array''))
      else Inr d)"

section \<open>Reading from a process\<close>

text \<open>
  \<open>fread\<close> returns fewer bytes than asked for only at the end of the stream. The chunks read
  before an error stay in the map.
\<close>

function read_chunks :: "bytes \<Rightarrow> bytes \<times> cb_error" where
  "read_chunks bs =
     (if length bs < 4 then ([], Success)
      else
        let data_size = le_nat (take 4 bs); rest = drop 4 bs
        in if data_size = 0 then ([], Success)
           else if length rest < data_size then
             ([], generic_error (''Unmatching number of bytes read from the pipe: expected = '' @
                to_string (int data_size) @ '', bytes read = '' @ to_string (int (length rest))))
           else
             let (chunks, err) = read_chunks (drop data_size rest)
             in (take 4 bs @ take data_size rest @ chunks, err))"
  by auto
termination
  by (relation "measure length") auto

declare read_chunks.simps [simp del]

text \<open>The entries of a map that a lookup by key creates and appends to.\<close>

definition map_append :: "string \<Rightarrow> 'a list \<Rightarrow> (string, 'a list) std_map \<Rightarrow> (string, 'a list) std_map" where
  "map_append k xs m = map_assign k (map_get [] m k @ xs) m"

definition ReadDataFromPipe :: "(string \<Rightarrow> bytes option) \<Rightarrow> string \<Rightarrow> string \<Rightarrow> data_loader \<Rightarrow>
    cb_error \<times> data_loader" where
  "ReadDataFromPipe pipes command key d =
     (case pipes command of
        None \<Rightarrow> (generic_error (''Failed to open pipe with the following process: '' @ command), d)
      | Some out \<Rightarrow>
          let (chunks, err) = read_chunks out
          in (err, d\<lparr>input_data := map_append key chunks (input_data d)\<rparr>))"

section \<open>Reading JSON documents\<close>

text \<open>What is read besides the document: the writer, the decoder and the processes.\<close>

record json_env =
  write_json :: "json \<Rightarrow> string"
  b64_decode :: "string \<Rightarrow> bytes"
  pipes :: "string \<Rightarrow> bytes option"

definition tensors_of :: "bool \<Rightarrow> data_loader \<Rightarrow> (string, bytes) std_map" where
  "tensors_of is_input d = (if is_input then input_data d else output_data d)"

definition shapes_of :: "bool \<Rightarrow> data_loader \<Rightarrow> (string, int list) std_map" where
  "shapes_of is_input d = (if is_input then input_shapes d else output_shapes d)"

definition set_tensors :: "bool \<Rightarrow> (string, bytes) std_map \<Rightarrow> data_loader \<Rightarrow> data_loader" where
  "set_tensors is_input m d = (if is_input then d\<lparr>input_data := m\<rparr> else d\<lparr>output_data := m\<rparr>)"

definition set_shapes :: "bool \<Rightarrow> (string, int list) std_map \<Rightarrow> data_loader \<Rightarrow> data_loader" where
  "set_shapes is_input m d = (if is_input then d\<lparr>input_shapes := m\<rparr> else d\<lparr>output_shapes := m\<rparr>)"

definition location :: "int \<Rightarrow> int \<Rightarrow> string" where
  "location stream_index step_index =
     to_string stream_index @ '', step id: '' @ to_string step_index @ '')''"

definition read_shape :: "bool \<Rightarrow> string \<Rightarrow> json \<Rightarrow> data_loader \<Rightarrow> failure + data_loader" where
  "read_shape is_input key shape d =
     bindR (liftE (GetArray shape)) (\<lambda>values.
       if list_all IsInt values then
         Inr (set_shapes is_input (map_append key (map GetIntValue values) (shapes_of is_input d)) d)
       else Inl (Fails (generic_error ''shape values must be integers.'')))"

definition tensor_content :: "bool \<Rightarrow> string \<Rightarrow> int \<Rightarrow> int \<Rightarrow> json \<Rightarrow> data_loader \<Rightarrow>
    failure + json \<times> data_loader" where
  "tensor_content is_input key stream_index step_index tensor d =
     (if \<not> (IsArray tensor \<or> IsObject tensor) then
        Inl (Fails (generic_error ''Input data file is malformed.''))
      else if IsArray tensor then Inr (tensor, d)
      else
        bindR (case member tensor ''shape'' of
                 Some shape \<Rightarrow> read_shape is_input key shape d | None \<Rightarrow> Inr d) (\<lambda>d1.
          if member tensor ''b64'' \<noteq> None then Inr (tensor, d1)
          else
            case member tensor ''content'' of
              Some c \<Rightarrow> Inr (c, d1)
            | None \<Rightarrow> Inl (Fails (generic_error (''missing content field. ( Location stream id: '' @
                location stream_index step_index)))))"

definition decode_content :: "json_env \<Rightarrow> string \<Rightarrow> int \<Rightarrow> int \<Rightarrow> json \<Rightarrow> bytes \<Rightarrow> failure + bytes" where
  "decode_content env dt stream_index step_index content old =
     (if IsArray content then SerializeExplicitTensor (write_json env) content dt old
      else
        case member content ''b64'' of
          Some v \<Rightarrow>
            (case v of
               JString s \<Rightarrow> Inr (b64_decode env (c_str s))
             | _ \<Rightarrow> Inl (Fails (generic_error (''the value of b64 field should be of type string ( '' @
                 ''Location stream id: '' @ location stream_index step_index))))
        | None \<Rightarrow> Inl (Fails (generic_error (''The tensor values are not supported. Expected an array or '' @
            ''b64 string ( Location stream id: '' @ location stream_index step_index))))"

text \<open>
  One turn of the loop over the model's tensors. The second component tells whether the
  loop goes on: the data of a \<open>message_generator\<close> process ends it, and its errors are not
  looked at.
\<close>

definition read_tensor :: "json_env \<Rightarrow> json \<Rightarrow> int \<Rightarrow> int \<Rightarrow> bool \<Rightarrow> string \<times> model_tensor \<Rightarrow>
    data_loader \<Rightarrow> failure + data_loader \<times> bool" where
  "read_tensor env step stream_index step_index is_input io d =
     bindR (liftE (HasMember step (fst io))) (\<lambda>has.
       if has then
         let key = key_name (fst io) stream_index step_index;
             d0 = set_tensors is_input (map_emplace key [] (tensors_of is_input d)) d
         in bindR (liftE (GetMember step (fst io))) (\<lambda>tensor.
              if IsString tensor \<and> fst io = ''message_generator'' then
                bindR (liftE (GetString tensor)) (\<lambda>s.
                  Inr (snd (ReadDataFromPipe (pipes env) (c_str s) key d0), False))
              else
                bindR (tensor_content is_input key stream_index step_index tensor d0) (\<lambda>(content, d1).
                bindR (decode_content env (mt_datatype (snd io)) stream_index step_index content
                         (map_get [] (tensors_of is_input d1) key)) (\<lambda>bs.
                let d2 = set_tensors is_input (map_assign key bs (tensors_of is_input d1)) d1
                in bindR (ValidateTensor (snd io) stream_index step_index d2) (\<lambda>_. Inr (d2, True)))))
       else if \<not> is_optional (snd io) then
         Inl (Fails (generic_error (''missing tensor '' @ fst io @ '' ( Location stream id: '' @
           location stream_index step_index)))
       else Inr (d, True))"

fun read_tensors :: "json_env \<Rightarrow> json \<Rightarrow> int \<Rightarrow> int \<Rightarrow> bool \<Rightarrow> model_tensor_map \<Rightarrow> string list \<Rightarrow>
    data_loader \<Rightarrow> failure + data_loader \<times> string list" where
  "read_tensors env step si ki is_input [] names d = Inr (d, names)"
| "read_tensors env step si ki is_input (io # ios) names d =
     bindR (read_tensor env step si ki is_input io d) (\<lambda>(d', go).
       if go then read_tensors env step si ki is_input ios (fst io # names) d'
       else Inr (d', fst io # names))"

definition ReadTensorData :: "json_env \<Rightarrow> json \<Rightarrow> model_tensor_map \<Rightarrow> int \<Rightarrow> int \<Rightarrow> bool \<Rightarrow>
    data_loader \<Rightarrow> failure + data_loader" where
  "ReadTensorData env step tensors stream_index step_index is_input d =
     bindR (read_tensors env step stream_index step_index is_input tensors [] d) (\<lambda>(d', names).
     bindR (liftE (MemberNames step)) (\<lambda>members.
       case find (\<lambda>n. n \<notin> set (''model'' # names)) members of
         Some n \<Rightarrow> Inl (Fails (generic_error (''The input or output '' @ [CHR 0x27] @ n @ [CHR 0x27] @
           '' is not found in the model configuration'')))
       | None \<Rightarrow> Inr d'))"

definition read_steps :: "json_env \<Rightarrow> json list \<Rightarrow> model_tensor_map \<Rightarrow> nat \<Rightarrow> nat \<Rightarrow> nat \<Rightarrow> bool \<Rightarrow>
    data_loader \<Rightarrow> failure + data_loader" where
  "read_steps env steps tensors stream lo hi is_input d =
     foldR (\<lambda>d k. bindR (liftE (vec_index steps (k - lo))) (\<lambda>step.
              ReadTensorData env step tensors (int stream) (int k) is_input d)) d [lo..<hi]"

definition not_aligned :: cb_error where
  "not_aligned = generic_error (''The '' @ [CHR 0x27] @ ''validation_data'' @ [CHR 0x27] @
     '' field doesn'' @ [CHR 0x27] @ ''t align with '' @ [CHR 0x27] @ ''data'' @ [CHR 0x27] @
     '' field in the json file'')"

text \<open>An array of steps is one more stream.\<close>

definition parse_array :: "json_env \<Rightarrow> model_tensor_map \<Rightarrow> model_tensor_map \<Rightarrow> nat \<Rightarrow> json list \<Rightarrow>
    json option \<Rightarrow> data_loader \<Rightarrow> failure + data_loader" where
  "parse_array env inputs outputs i steps output_steps d =
     (let d1 = d\<lparr>step_num := step_num d @ [length steps]\<rparr>
      in bindR (liftE (vec_index (step_num d1) i)) (\<lambda>n.
         bindR (read_steps env steps inputs i 0 n True d1) (\<lambda>d2.
           case output_steps of
             None \<Rightarrow> Inr d2
           | Some (JArray outs) \<Rightarrow>
               if length outs \<noteq> length steps then Inl (Fails not_aligned)
               else read_steps env outs outputs i 0 n False d2
           | Some _ \<Rightarrow> Inl (Fails not_aligned))))"

text \<open>Without nesting, all the elements are steps of stream 0.\<close>

definition parse_flat :: "json_env \<Rightarrow> model_tensor_map \<Rightarrow> model_tensor_map \<Rightarrow> json list \<Rightarrow>
    json list option \<Rightarrow> data_loader \<Rightarrow> failure + data_loader" where
  "parse_flat env inputs outputs streams out_streams d =
     (let cnt = length streams;
          lo = (if step_num d = [] then 0 else step_num d ! 0);
          d1 = (if step_num d = [] then d\<lparr>step_num := [cnt]\<rparr>
                else d\<lparr>step_num := (step_num d)[0 := step_num d ! 0 + cnt]\<rparr>);
          d2 = d1\<lparr>data_stream_cnt := 1\<rparr>
      in bindR (read_steps env streams inputs 0 lo (step_num d2 ! 0) True d2) (\<lambda>d3.
           case out_streams of
             None \<Rightarrow> Inr d3
           | Some outs \<Rightarrow> read_steps env outs outputs 0 lo (step_num d2 ! 0) False d3))"

fun parse_streams :: "json_env \<Rightarrow> model_tensor_map \<Rightarrow> model_tensor_map \<Rightarrow> json list \<Rightarrow>
    json list option \<Rightarrow> nat \<Rightarrow> nat list \<Rightarrow> data_loader \<Rightarrow> failure + data_loader" where
  "parse_streams env inputs outputs streams out_streams lo [] d = Inr d"
| "parse_streams env inputs outputs streams out_streams lo (i # is) d =
     bindR (liftE (vec_index streams (i - lo))) (\<lambda>steps.
     bindR (case out_streams of
              None \<Rightarrow> Inr None
            | Some outs \<Rightarrow> bindR (liftE (vec_index outs (i - lo))) (\<lambda>w. Inr (Some w))) (\<lambda>output_steps.
     bindR (liftC (ValidateParsingMode steps d)) (\<lambda>d1.
       case steps of
         JArray ss \<Rightarrow>
           bindR (parse_array env inputs outputs i ss output_steps d1) (\<lambda>d2.
             parse_streams env inputs outputs streams out_streams lo is d2)
       | _ \<Rightarrow> parse_flat env inputs outputs streams out_streams d1)))"

definition ParseData :: "json_env \<Rightarrow> json option \<Rightarrow> model_tensor_map \<Rightarrow> model_tensor_map \<Rightarrow>
    data_loader \<Rightarrow> failure + data_loader" where
  "ParseData env doc inputs outputs d =
     (case doc of
        None \<Rightarrow> Inl (Fails (generic_error
          ''failed to parse the specified json file for reading provided data''))
      | Some json \<Rightarrow>
          bindR (liftE (HasMember json ''data'')) (\<lambda>has_data.
            if \<not> has_data then
              Inl (Fails (generic_error (''The json file doesn'' @ [CHR 0x27] @ ''t contain data field'')))
            else
              bindR (liftE (bindR (GetMember json ''data'') GetArray)) (\<lambda>streams.
              bindR (case member json ''validation_data'' of
                       None \<Rightarrow> Inr None
                     | Some v \<Rightarrow> bindR (liftE (GetArray v)) (\<lambda>outs.
                         if length outs \<noteq> length streams then Inl (Fails not_aligned)
                         else Inr (Some outs))) (\<lambda>out_streams.
                let total = data_stream_cnt d + length streams
                in parse_streams env inputs outputs streams out_streams (length (step_num d))
                     [length (step_num d)..<total] (d\<lparr>data_stream_cnt := total\<rparr>)))))"

definition ReadDataFromJSON :: "json_env \<Rightarrow> (string \<Rightarrow> json option option) \<Rightarrow> model_tensor_map \<Rightarrow>
    model_tensor_map \<Rightarrow> string \<Rightarrow> data_loader \<Rightarrow> failure + data_loader" where
  "ReadDataFromJSON env docs inputs outputs json_file d =
     (case docs json_file of
        None \<Rightarrow> Inl (Fails (generic_error ''failed to open file for reading provided data''))
      | Some doc \<Rightarrow> ParseData env doc inputs outputs d)"

definition GetDatasetSize :: "(string \<Rightarrow> json option option) \<Rightarrow> (string \<Rightarrow> nat) \<Rightarrow> string list \<Rightarrow> exn + nat" where
  "GetDatasetSize docs parse_error paths =
     foldR (\<lambda>n path.
       let q = [CHR 0x27] in
       case docs path of
         None \<Rightarrow> Inl (RuntimeError (''Unable to open JSON file path: '' @ q @ path @ q))
       | Some None \<Rightarrow> Inl (RuntimeError (''RapidJSON parse error '' @ to_string (int (parse_error path)) @
           ''. Review JSON file for formatting errors: '' @ q @ path @ q))
       | Some (Some v) \<Rightarrow>
           (case v of
              JObject [(k, JArray vs)] \<Rightarrow>
                if k = ''data'' then Inr (n + length vs)
                else Inl (RuntimeError (''Input data JSON file must contain an object with a single '' @ q @
                  ''data'' @ q @ '' member that is an array. Review JSON file: '' @ q @ path @ q))
            | _ \<Rightarrow> Inl (RuntimeError (''Input data JSON file must contain an object with a single '' @ q @
                ''data'' @ q @ '' member that is an array. Review JSON file: '' @ q @ path @ q)))) 0 paths"

section \<open>Generated data\<close>

primrec random_bytes :: "('r \<Rightarrow> byte \<times> 'r) \<Rightarrow> nat \<Rightarrow> 'r \<Rightarrow> bytes" where
  "random_bytes rand 0 g = []"
| "random_bytes rand (Suc n) g = fst (rand g) # random_bytes rand n (snd (rand g))"

primrec random_strings :: "('r \<Rightarrow> nat \<times> 'r) \<Rightarrow> nat \<Rightarrow> nat \<Rightarrow> 'r \<Rightarrow> string list \<times> 'r" where
  "random_strings pick len 0 g = ([], g)"
| "random_strings pick len (Suc n) g =
     (let (s, g') = GetRandomString pick len g; (ss, g'') = random_strings pick len n g'
      in (s # ss, g''))"

definition dynamic_shape :: "model_tensor \<Rightarrow> cb_error" where
  "dynamic_shape t = generic_error (''input '' @ mt_name t @
     '' contains dynamic shape, provide shapes to send along with the request'')"

text \<open>
  A negative count other than -1 (a negative dimension) is converted to a huge \<open>size_t\<close>, for
  which \<open>resize\<close> throws \<open>std::length_error\<close>.
\<close>

definition generate_input :: "('r \<Rightarrow> nat \<times> 'r) \<Rightarrow> nat \<Rightarrow> string \<Rightarrow>
    data_loader \<times> nat \<times> 'r \<Rightarrow> string \<times> model_tensor \<Rightarrow> failure + data_loader \<times> nat \<times> 'r" where
  "generate_input pick string_length string_data = (\<lambda>(d, max_size, g) (name, t).
     if mt_datatype t \<noteq> ''BYTES'' then
       bindR (liftE (ByteSize (mt_shape t) (mt_datatype t))) (\<lambda>byte_size.
         if byte_size < 0 then Inl (Fails (dynamic_shape t))
         else Inr (d, max max_size (nat byte_size), g))
     else
       bindR (liftE (ElementCount (mt_shape t))) (\<lambda>n.
         if n = - 1 then Inl (Fails (dynamic_shape t))
         else if n < 0 then Inl (Throws (RuntimeError ''vector::_M_default_append''))
         else
           let (strings, g') = (if string_data \<noteq> [] then (replicate (nat n) string_data, g)
                                else random_strings pick string_length (nat n) g);
               key = key_name (mt_name t) 0 0;
               m = map_emplace key [] (input_data d)
           in Inr (d\<lparr>input_data := map_assign key (SerializeStringTensor strings (map_get [] m key)) m\<rparr>,
                   max_size, g')))"

definition GenerateData :: "('r \<Rightarrow> nat \<times> 'r) \<Rightarrow> ('r \<Rightarrow> byte \<times> 'r) \<Rightarrow> 'r \<Rightarrow> model_tensor_map \<Rightarrow> bool \<Rightarrow>
    nat \<Rightarrow> string \<Rightarrow> data_loader \<Rightarrow> failure + data_loader" where
  "GenerateData pick rand g inputs zero_input string_length string_data d =
     (let d0 = d\<lparr>data_stream_cnt := 1, step_num := step_num d @ [1]\<rparr>
      in case find (\<lambda>(name, t). is_shape_tensor t) inputs of
           Some (name, t) \<Rightarrow> Inl (Fails (generic_error (''can not generate data for shape tensor '' @
             [CHR 0x27] @ mt_name t @ [CHR 0x27] @ '', user-provided data is needed.'')))
         | None \<Rightarrow>
             bindR (foldR (generate_input pick string_length string_data) (d0, 0, g) inputs)
               (\<lambda>(d1, max_size, g').
                  Inr (if max_size > 0 then
                         d1\<lparr>input_buf :=
                           (if zero_input then
                              take max_size (input_buf d1) @ replicate (max_size - length (input_buf d1)) 0
                            else random_bytes rand max_size g')\<rparr>
                       else d1)))"

section \<open>Reading a directory\<close>

text \<open>
  \<open>dirs\<close> gives the file names of a directory, \<open>files\<close> the contents of a file. A \<open>getline\<close> loop
  yields the pieces between line feeds, without an empty last one.
\<close>

definition ValidateIOExistsInModel :: "(string \<Rightarrow> string list option) \<Rightarrow> model_tensor_map \<Rightarrow>
    model_tensor_map \<Rightarrow> string \<Rightarrow> cb_error + unit" where
  "ValidateIOExistsInModel dirs inputs outputs dir =
     (case dirs dir of
        None \<Rightarrow> Inl (generic_error (''Error: Directory does not exist or is not a directory: '' @ dir))
      | Some names \<Rightarrow>
          (case find (\<lambda>n. map_find inputs n = None \<and> map_find outputs n = None) names of
             Some n \<Rightarrow> Inl (generic_error (''Provided data file '' @ [CHR 0x27] @ n @ [CHR 0x27] @
               '' does not correspond to a valid model input or output.''))
           | None \<Rightarrow> Inr ()))"

definition ReadFile :: "(string \<Rightarrow> bytes option) \<Rightarrow> string \<Rightarrow> cb_error + bytes" where
  "ReadFile files path =
     (let q = [CHR 0x27] in
      case files path of
        None \<Rightarrow> Inl (generic_error (''failed to open file '' @ q @ path @ q))
      | Some bs \<Rightarrow>
          let file_size = cast_int (length bs)
          in if file_size < 0 then Inl (generic_error (''failed to get size for file '' @ q @ path @ q))
             else if file_size = 0 then Inl (generic_error (''file '' @ q @ path @ q @ '' is empty''))
             else Inr (take (nat file_size) bs))"

fun getlines :: "string \<Rightarrow> string list" where
  "getlines [] = []"
| "getlines (c # cs) =
     (if c = CHR 0x0A then [] # getlines cs
      else case getlines cs of
             [] \<Rightarrow> [[c]]
           | l # ls \<Rightarrow> if cs \<noteq> [] \<and> hd cs = CHR 0x0A then [c] # ls else (c # l) # ls)"

definition ReadTextFile :: "(string \<Rightarrow> bytes option) \<Rightarrow> string \<Rightarrow> cb_error + string list" where
  "ReadTextFile files path =
     (let q = [CHR 0x27] in
      case files path of
        None \<Rightarrow> Inl (generic_error (''failed to open file '' @ q @ path @ q))
      | Some bs \<Rightarrow>
          let contents = getlines (bytes_str bs)
          in if contents = [] then Inl (generic_error (''file '' @ q @ path @ q @ '' is empty''))
             else Inr contents)"

definition read_input_file :: "(string \<Rightarrow> bytes option) \<Rightarrow> string \<Rightarrow> data_loader \<Rightarrow>
    string \<times> model_tensor \<Rightarrow> failure + data_loader" where
  "read_input_file files dir d = (\<lambda>(name, t).
     let path = dir @ ''/'' @ mt_name t; key = key_name (mt_name t) 0 0
     in if mt_datatype t \<noteq> ''BYTES'' then
          bindR (liftC (ReadFile files path)) (\<lambda>bs.
          bindR (liftE (ByteSize (mt_shape t) (mt_datatype t))) (\<lambda>byte_size.
            if byte_size < 0 then Inl (Fails (dynamic_shape t))
            else if length bs \<noteq> nat byte_size then
              Inl (Fails (generic_error (''provided data for input '' @ mt_name t @ '' has byte size '' @
                to_string (int (length bs)) @ '', expect '' @ to_string byte_size)))
            else Inr (d\<lparr>input_data := map_assign key bs (input_data d)\<rparr>)))
        else
          bindR (liftC (ReadTextFile files path)) (\<lambda>strings.
          bindR (liftE (ElementCount (mt_shape t))) (\<lambda>n.
            if n = - 1 then Inl (Fails (dynamic_shape t))
            else if int (length strings) \<noteq> n then
              Inl (Fails (generic_error (''provided data for input '' @ mt_name t @ '' has '' @
                to_string (int (length strings)) @ '' elements, expect '' @ to_string n)))
            else Inr (d\<lparr>input_data := map_append key (SerializeStringTensor strings []) (input_data d)\<rparr>))))"

definition read_output_file :: "(string \<Rightarrow> bytes option) \<Rightarrow> string \<Rightarrow> data_loader \<Rightarrow>
    string \<times> model_tensor \<Rightarrow> data_loader" where
  "read_output_file files dir d = (\<lambda>(name, t).
     let path = dir @ ''/'' @ mt_name t; key = key_name (mt_name t) 0 0
     in if mt_datatype t \<noteq> ''BYTES'' then
          (case ReadFile files path of
             Inr bs \<Rightarrow> d\<lparr>output_data := map_assign key bs (output_data d)\<rparr>
           | Inl _ \<Rightarrow> d\<lparr>output_data := map_erase key (output_data d)\<rparr>)
        else
          (case ReadTextFile files path of
             Inl _ \<Rightarrow> d
           | Inr strings \<Rightarrow>
               d\<lparr>output_data := map_append key (SerializeStringTensor strings []) (output_data d)\<rparr>))"

definition ReadDataFromDir :: "(string \<Rightarrow> bytes option) \<Rightarrow> model_tensor_map \<Rightarrow> model_tensor_map \<Rightarrow>
    string \<Rightarrow> data_loader \<Rightarrow> failure + data_loader" where
  "ReadDataFromDir files inputs outputs dir d =
     bindR (foldR (read_input_file files dir) (d\<lparr>data_stream_cnt := 1, step_num := step_num d @ [1]\<rparr>) inputs)
       (\<lambda>d1. Inr (foldl (read_output_file files dir) d1 outputs))"

section \<open>What the documents provide\<close>

text \<open>The value of a tensor: the array or the base64 string that the document gives for it.\<close>

definition content_of :: "json \<Rightarrow> json" where
  "content_of v =
     (if IsArray v \<or> member v ''b64'' \<noteq> None then v
      else case member v ''content'' of Some c \<Rightarrow> c | None \<Rightarrow> JNull)"

definition given_bytes :: "json_env \<Rightarrow> string \<Rightarrow> json \<Rightarrow> bytes \<Rightarrow> bool" where
  "given_bytes env dt v bs \<longleftrightarrow>
     (if IsArray (content_of v) then SerializeExplicitTensor (write_json env) (content_of v) dt [] = Inr bs
      else case member (content_of v) ''b64'' of
             Some (JString s) \<Rightarrow> bs = b64_decode env (c_str s)
           | _ \<Rightarrow> False)"

text \<open>
  The step at a position of the elements of the \<open>data\<close> arrays, nested (one array per stream)
  or flat (all of them steps of stream 0).
\<close>

definition step_at :: "bool \<Rightarrow> json list \<Rightarrow> nat \<times> nat \<Rightarrow> json option" where
  "step_at nested els = (\<lambda>(s, k).
     if nested then
       (if s < length els then
          (case els ! s of JArray ss \<Rightarrow> if k < length ss then Some (ss ! k) else None | _ \<Rightarrow> None)
        else None)
     else if s = 0 \<and> k < length els then Some (els ! k) else None)"

fun array_length :: "json \<Rightarrow> nat" where
  "array_length (JArray vs) = length vs" | "array_length _ = 0"

section \<open>Keys\<close>

lemma key_name_inj:
  assumes "key_name a i k = key_name b j l"
  shows "a = b \<and> i = j \<and> k = l"
proof -
  have "(a @ ''_'' @ to_string i) @ CHR ''_'' # to_string k = (b @ ''_'' @ to_string j) @ CHR ''_'' # to_string l"
    using assms by (simp add: key_name_def)
  from append_sep_inj [OF this to_string_no_underscore to_string_no_underscore]
  have "a @ CHR ''_'' # to_string i = b @ CHR ''_'' # to_string j" and "to_string k = to_string l" by auto
  with append_sep_inj [OF this(1) to_string_no_underscore to_string_no_underscore] show ?thesis
    by (auto dest: to_string_inj)
qed

lemma key_name_eq [simp]: "key_name a i k = key_name b j l \<longleftrightarrow> a = b \<and> i = j \<and> k = l"
  using key_name_inj by blast

section \<open>Reading one tensor\<close>

text \<open>What reading tensors leaves alone: everything but the data and the shapes.\<close>

definition same_counts :: "data_loader \<Rightarrow> data_loader \<Rightarrow> bool" where
  "same_counts d d' \<longleftrightarrow> step_num d' = step_num d \<and> data_stream_cnt d' = data_stream_cnt d \<and>
     input_buf d' = input_buf d \<and> multiple_stream_mode d' = multiple_stream_mode d"

lemma same_counts_refl [simp]: "same_counts d d"
  by (simp add: same_counts_def)

lemma same_counts_trans [trans]: "same_counts a b \<Longrightarrow> same_counts b c \<Longrightarrow> same_counts a c"
  by (simp add: same_counts_def)

lemma same_counts_set [simp]:
  "same_counts d (set_tensors b m d') \<longleftrightarrow> same_counts d d'"
  "same_counts d (set_shapes b m' d') \<longleftrightarrow> same_counts d d'"
  by (simp_all add: same_counts_def set_tensors_def set_shapes_def)

lemma tensors_of_set [simp]:
  "tensors_of b (set_tensors c m d) = (if b = c then m else tensors_of b d)"
  "tensors_of b (set_shapes c m' d) = tensors_of b d"
  by (simp_all add: tensors_of_def set_tensors_def set_shapes_def)

lemma tensor_content_result:
  assumes "tensor_content b key si ki v d = Inr (c, d')"
  shows "c = content_of v" and "same_counts d d'" and "tensors_of b' d' = tensors_of b' d"
  using assms
  by (auto simp: tensor_content_def content_of_def bindR_Inr_conv read_shape_def
      split: if_splits option.splits)

lemma decode_content_result:
  assumes "decode_content env dt si ki (content_of v) [] = Inr bs"
  shows "given_bytes env dt v bs"
  using assms by (auto simp: decode_content_def given_bytes_def split: if_splits option.splits json.splits)

lemma read_tensor_member:
  assumes "read_tensor env step si ki b io d = Inr (d', go)" and "fst io \<noteq> ''message_generator''"
    and "member step (fst io) = Some v"
  obtains d1 bs where
    "tensor_content b (key_name (fst io) si ki) si ki v
       (set_tensors b (map_emplace (key_name (fst io) si ki) [] (tensors_of b d)) d) = Inr (content_of v, d1)"
    "decode_content env (mt_datatype (snd io)) si ki (content_of v)
       (map_get [] (tensors_of b d1) (key_name (fst io) si ki)) = Inr bs"
    "d' = set_tensors b (map_assign (key_name (fst io) si ki) bs (tensors_of b d1)) d1" and go
proof -
  let ?key = "key_name (fst io) si ki"
  from assms obtain c d1 bs
    where c: "tensor_content b ?key si ki v (set_tensors b (map_emplace ?key [] (tensors_of b d)) d) = Inr (c, d1)"
      and "decode_content env (mt_datatype (snd io)) si ki c (map_get [] (tensors_of b d1) ?key) = Inr bs"
      and "d' = set_tensors b (map_assign ?key bs (tensors_of b d1)) d1" and go
    by (auto simp: read_tensor_def bindR_Inr_conv HasMember_def GetMember_def Let_def split: if_splits)
  moreover have "c = content_of v" by (rule tensor_content_result(1) [OF c])
  ultimately show ?thesis by (intro that) simp_all
qed

lemma read_tensor_absent:
  "read_tensor env step si ki b io d = Inr (d', go) \<Longrightarrow> member step (fst io) = None \<Longrightarrow>
     is_optional (snd io) \<and> d' = d \<and> go"
  by (auto simp: read_tensor_def bindR_Inr_conv HasMember_def split: if_splits)

lemma read_tensor_frame:
  assumes "read_tensor env step si ki b io d = Inr (d', go)" and "fst io \<noteq> ''message_generator''"
  shows "go \<and> same_counts d d' \<and> tensors_of (\<not> b) d' = tensors_of (\<not> b) d"
proof (cases "member step (fst io)")
  case None
  then show ?thesis using read_tensor_absent [OF assms(1)] by simp
next
  case (Some v)
  let ?d0 = "set_tensors b (map_emplace (key_name (fst io) si ki) [] (tensors_of b d)) d"
  obtain d1 bs where c: "tensor_content b (key_name (fst io) si ki) si ki v ?d0 = Inr (content_of v, d1)"
    and d': "d' = set_tensors b (map_assign (key_name (fst io) si ki) bs (tensors_of b d1)) d1" and go
    by (rule read_tensor_member [OF assms Some]) (rule that)
  moreover have "same_counts d ?d0" by simp
  ultimately show ?thesis
    using tensor_content_result(2,3) [OF c] same_counts_trans [of d ?d0 d1] by simp
qed

text \<open>What reading a step leaves in the map for one of the model's tensors.\<close>

definition tensor_served :: "json_env \<Rightarrow> json \<Rightarrow> string \<times> model_tensor \<Rightarrow> bytes option \<Rightarrow> bool" where
  "tensor_served env step io found \<longleftrightarrow>
     (case member step (fst io) of
        None \<Rightarrow> is_optional (snd io) \<and> found = None
      | Some v \<Rightarrow> \<exists>bs. given_bytes env (mt_datatype (snd io)) v bs \<and> found = Some bs)"

lemma read_tensor_data:
  assumes "read_tensor env step si ki b io d = Inr (d', go)" and "fst io \<noteq> ''message_generator''"
    and "map_wf (tensors_of b d)" and "map_find (tensors_of b d) (key_name (fst io) si ki) = None"
  shows "map_wf (tensors_of b d') \<and>
    tensor_served env step io (map_find (tensors_of b d') (key_name (fst io) si ki)) \<and>
    (\<forall>k. k \<noteq> key_name (fst io) si ki \<longrightarrow> map_find (tensors_of b d') k = map_find (tensors_of b d) k)"
proof (cases "member step (fst io)")
  case None
  then show ?thesis using read_tensor_absent [OF assms(1)] assms(3,4) by (simp add: tensor_served_def)
next
  case (Some v)
  let ?key = "key_name (fst io) si ki"
  obtain d1 bs where c: "tensor_content b ?key si ki v
        (set_tensors b (map_emplace ?key [] (tensors_of b d)) d) = Inr (content_of v, d1)"
    and bs: "decode_content env (mt_datatype (snd io)) si ki (content_of v) (map_get [] (tensors_of b d1) ?key) = Inr bs"
    and d': "d' = set_tensors b (map_assign ?key bs (tensors_of b d1)) d1"
    by (rule read_tensor_member [OF assms(1,2) Some]) (rule that)
  have d1: "tensors_of b d1 = map_emplace ?key [] (tensors_of b d)"
    using tensor_content_result(3) [OF c, of b] by simp
  then have "given_bytes env (mt_datatype (snd io)) v bs"
    using bs assms(3,4) decode_content_result by (simp add: map_get_def)
  with Some d' d1 assms(3,4) show ?thesis by (auto simp: tensor_served_def split: option.split)
qed

section \<open>Reading steps and documents\<close>

text \<open>The data of a step is in the map of the inputs, and nothing is there for a tensor it lacks.\<close>

definition entry :: "(string, bytes) std_map \<Rightarrow> nat \<times> nat \<Rightarrow> string \<Rightarrow> bytes option" where
  "entry m p nm = map_find m (key_name nm (int (fst p)) (int (snd p)))"

definition served :: "json_env \<Rightarrow> model_tensor_map \<Rightarrow> json \<Rightarrow> nat \<times> nat \<Rightarrow> (string, bytes) std_map \<Rightarrow> bool" where
  "served env tensors step p m \<longleftrightarrow>
     (\<forall>io \<in> set tensors. tensor_served env step io (entry m p (fst io)))"

definition served_at :: "json_env \<Rightarrow> model_tensor_map \<Rightarrow> json option \<Rightarrow> nat \<times> nat \<Rightarrow>
    (string, bytes) std_map \<Rightarrow> bool" where
  "served_at env tensors step p m \<longleftrightarrow>
     (case step of None \<Rightarrow> \<forall>nm. entry m p nm = None | Some s \<Rightarrow> served env tensors s p m)"

definition loaded :: "json_env \<Rightarrow> model_tensor_map \<Rightarrow> (nat \<times> nat \<Rightarrow> json option) \<Rightarrow>
    (string, bytes) std_map \<Rightarrow> bool" where
  "loaded env tensors pos m \<longleftrightarrow> map_wf m \<and> (\<forall>p. served_at env tensors (pos p) p m)"

lemma served_at_cong: "entry m p = entry m' p \<Longrightarrow> served_at env tensors st p m = served_at env tensors st p m'"
  by (cases st) (simp_all add: served_at_def served_def)

text \<open>Models whose tensor map is keyed by the tensors' names, none of them fed by a process.\<close>

definition plain_tensors :: "model_tensor_map \<Rightarrow> bool" where
  "plain_tensors tensors \<longleftrightarrow> distinct (map fst tensors) \<and> ''message_generator'' \<notin> fst ` set tensors \<and>
     (\<forall>io \<in> set tensors. mt_name (snd io) = fst io)"

lemma read_tensors_result:
  assumes "read_tensors env step (int (fst p)) (int (snd p)) b ios names d = Inr (d', names')"
    and "distinct (map fst ios)" and "''message_generator'' \<notin> fst ` set ios" and "map_wf (tensors_of b d)"
    and "\<forall>nm. nm \<in> fst ` set ios \<longrightarrow> entry (tensors_of b d) p nm = None"
  shows "same_counts d d' \<and> tensors_of (\<not> b) d' = tensors_of (\<not> b) d \<and> map_wf (tensors_of b d') \<and>
    served env ios step p (tensors_of b d') \<and>
    (\<forall>q nm. q \<noteq> p \<or> nm \<notin> fst ` set ios \<longrightarrow> entry (tensors_of b d') q nm = entry (tensors_of b d) q nm)"
  using assms
proof (induction ios arbitrary: names d)
  case (Cons io ios)
  from Cons.prems(1) obtain d1 go
    where rd: "read_tensor env step (int (fst p)) (int (snd p)) b io d = Inr (d1, go)"
      and rest: "(if go then read_tensors env step (int (fst p)) (int (snd p)) b ios (fst io # names) d1
                  else Inr (d1, fst io # names)) = Inr (d', names')"
    by (auto simp: bindR_Inr_conv)
  from Cons.prems have pre: "fst io \<noteq> ''message_generator''" "map_wf (tensors_of b d)"
    "map_find (tensors_of b d) (key_name (fst io) (int (fst p)) (int (snd p))) = None"
    by (auto simp: entry_def)
  note frame = read_tensor_frame [OF rd pre(1)] and data = read_tensor_data [OF rd pre]
  have new: "fst io \<notin> fst ` set ios" using Cons.prems(2) by simp
  have other: "entry (tensors_of b d1) q nm = entry (tensors_of b d) q nm" if "q \<noteq> p \<or> nm \<noteq> fst io" for q nm
    using that data by (auto simp: entry_def prod_eq_iff)
  then have "\<forall>nm. nm \<in> fst ` set ios \<longrightarrow> entry (tensors_of b d1) p nm = None"
    using new Cons.prems(5) by (metis (no_types) image_insert insertCI list.set(2))
  then have IH: "same_counts d1 d' \<and> tensors_of (\<not> b) d' = tensors_of (\<not> b) d1 \<and> map_wf (tensors_of b d') \<and>
    served env ios step p (tensors_of b d') \<and>
    (\<forall>q nm. q \<noteq> p \<or> nm \<notin> fst ` set ios \<longrightarrow> entry (tensors_of b d') q nm = entry (tensors_of b d1) q nm)"
    using rest frame data Cons.prems(2,3) by (intro Cons.IH) auto
  then have "tensor_served env step io (entry (tensors_of b d') p (fst io))"
    using new data by (simp add: entry_def)
  with IH other frame show ?case
    using same_counts_trans [of d d1 d'] by (simp add: served_def)
qed (simp add: served_def)

lemma ReadTensorData_result:
  assumes "ReadTensorData env step tensors (int (fst p)) (int (snd p)) b d = Inr d'"
    and "plain_tensors tensors" and "loaded env tensors pos (tensors_of b d)" and "pos p = None"
  shows "same_counts d d' \<and> tensors_of (\<not> b) d' = tensors_of (\<not> b) d \<and>
    loaded env tensors (pos(p \<mapsto> step)) (tensors_of b d')"
proof -
  obtain names where "read_tensors env step (int (fst p)) (int (snd p)) b tensors [] d = Inr (d', names)"
    using assms(1) by (auto simp: ReadTensorData_def bindR_Inr_conv split: option.splits)
  moreover have "served_at env tensors None p (tensors_of b d)"
    using assms(3,4) unfolding loaded_def by metis
  ultimately have r: "same_counts d d' \<and> tensors_of (\<not> b) d' = tensors_of (\<not> b) d \<and>
      map_wf (tensors_of b d') \<and> served env tensors step p (tensors_of b d') \<and>
      (\<forall>q nm. q \<noteq> p \<or> nm \<notin> fst ` set tensors \<longrightarrow>
         entry (tensors_of b d') q nm = entry (tensors_of b d) q nm)"
    using assms(2,3) by (intro read_tensors_result) (auto simp: plain_tensors_def loaded_def served_at_def)
  have "served_at env tensors ((pos(p \<mapsto> step)) q) q (tensors_of b d')" for q
  proof (cases "q = p")
    case False
    then have "entry (tensors_of b d') q = entry (tensors_of b d) q" using r by (intro ext) blast
    from served_at_cong [OF this] False assms(3) show ?thesis by (simp add: loaded_def del: split_paired_All)
  qed (use r in \<open>simp add: served_at_def\<close>)
  with r show ?thesis by (simp add: loaded_def)
qed

text \<open>The steps of one stream from \<open>lo\<close> on.\<close>

definition put_steps :: "nat \<Rightarrow> nat \<Rightarrow> json list \<Rightarrow> (nat \<times> nat \<Rightarrow> json option) \<Rightarrow> nat \<times> nat \<Rightarrow> json option" where
  "put_steps i lo steps pos = (\<lambda>(s, k).
     if s = i \<and> lo \<le> k \<and> k < lo + length steps then Some (steps ! (k - lo)) else pos (s, k))"

lemma put_steps_Nil [simp]: "put_steps i lo [] pos = pos"
  by (auto simp: put_steps_def fun_eq_iff)

lemma put_steps_snoc: "put_steps i lo (steps @ [x]) pos = (put_steps i lo steps pos)((i, lo + length steps) \<mapsto> x)"
  by (auto simp: put_steps_def fun_eq_iff nth_append)

lemma read_steps_snoc:
  "read_steps env (steps @ [x]) tensors i lo (lo + length (steps @ [x])) b d =
     bindR (read_steps env steps tensors i lo (lo + length steps) b d) (\<lambda>d1.
       ReadTensorData env x tensors (int i) (int (lo + length steps)) b d1)"
proof -
  have "foldR (\<lambda>d k. bindR (liftE (vec_index (steps @ [x]) (k - lo))) (\<lambda>step.
          ReadTensorData env step tensors (int i) (int k) b d)) d [lo..<lo + length steps] =
      foldR (\<lambda>d k. bindR (liftE (vec_index steps (k - lo))) (\<lambda>step.
          ReadTensorData env step tensors (int i) (int k) b d)) d [lo..<lo + length steps]"
    by (rule foldR_cong) (auto simp: vec_index_def nth_append)
  then show ?thesis
    by (simp add: read_steps_def foldR_append vec_index_def)
qed

lemma read_steps_result:
  assumes "read_steps env steps tensors i lo (lo + length steps) b d = Inr d'"
    and "plain_tensors tensors" and "loaded env tensors pos (tensors_of b d)"
    and "\<forall>k. lo \<le> k \<longrightarrow> pos (i, k) = None"
  shows "same_counts d d' \<and> tensors_of (\<not> b) d' = tensors_of (\<not> b) d \<and>
    loaded env tensors (put_steps i lo steps pos) (tensors_of b d')"
  using assms(1)
proof (induction steps arbitrary: d' rule: rev_induct)
  case Nil
  then show ?case using assms(3) by (simp add: read_steps_def)
next
  case (snoc x steps)
  then obtain d1 where d1: "read_steps env steps tensors i lo (lo + length steps) b d = Inr d1"
    and x: "ReadTensorData env x tensors (int i) (int (lo + length steps)) b d1 = Inr d'"
    unfolding read_steps_snoc bindR_Inr_conv by blast
  note IH = snoc.IH [OF d1]
  have "put_steps i lo steps pos (i, lo + length steps) = None" using assms(4) by (simp add: put_steps_def)
  from ReadTensorData_result [of env x tensors "(i, lo + length steps)" b d1 d' "put_steps i lo steps pos", OF _ assms(2) _ this]
    x IH
  show ?case using same_counts_trans [of d d1 d'] unfolding put_steps_snoc by (auto simp del: fun_upd_apply)
qed

text \<open>
  What has been read after the elements \<open>els\<close>: the data of every step, and the number of steps
  of every stream. The number of streams is set ahead by \<open>ParseData\<close>.
\<close>

definition read_so_far :: "json_env \<Rightarrow> model_tensor_map \<Rightarrow> json list \<Rightarrow> data_loader \<Rightarrow> bool" where
  "read_so_far env inputs els d \<longleftrightarrow>
     loaded env inputs (step_at (multiple_stream_mode d) els) (input_data d) \<and> input_buf d = [] \<and>
     (els \<noteq> [] \<longrightarrow> multiple_stream_mode d = list_all IsArray els) \<and>
     step_num d = (if els = [] then [] else if multiple_stream_mode d then map array_length els else [length els])"

lemma step_at_array:
  "step_at True (els @ [JArray ss]) = put_steps (length els) 0 ss (step_at True els)"
  by (auto simp: step_at_def put_steps_def fun_eq_iff nth_append less_Suc_eq split: json.splits)

lemma step_at_flat: "step_at False (els @ steps) = put_steps 0 (length els) steps (step_at False els)"
  by (auto simp: step_at_def put_steps_def fun_eq_iff nth_append)

lemma step_at_outside: "length els \<le> s \<Longrightarrow> step_at True els (s, k) = None"
  by (simp add: step_at_def)

lemma step_at_past: "length els \<le> k \<Longrightarrow> step_at False els (s, k) = None"
  by (simp add: step_at_def)

text \<open>Reading the outputs does not touch the inputs.\<close>

lemma read_tensors_frame:
  assumes "read_tensors env step si ki b ios names d = Inr (d', names')" and "''message_generator'' \<notin> fst ` set ios"
  shows "same_counts d d' \<and> tensors_of (\<not> b) d' = tensors_of (\<not> b) d"
  using assms
proof (induction ios arbitrary: names d)
  case (Cons io ios)
  then obtain d1 go where rd: "read_tensor env step si ki b io d = Inr (d1, go)"
    and rest: "(if go then read_tensors env step si ki b ios (fst io # names) d1
                else Inr (d1, fst io # names)) = Inr (d', names')"
    by (auto simp: bindR_Inr_conv)
  have "go \<and> same_counts d d1 \<and> tensors_of (\<not> b) d1 = tensors_of (\<not> b) d"
    using Cons.prems(2) by (intro read_tensor_frame [OF rd]) auto
  moreover from this have "same_counts d1 d' \<and> tensors_of (\<not> b) d' = tensors_of (\<not> b) d1"
    using rest Cons.IH Cons.prems(2) by auto
  ultimately show ?case using same_counts_trans by auto
qed simp

lemma read_outputs_keep:
  assumes "read_steps env steps outputs i lo hi False d = Inr d'" and "''message_generator'' \<notin> fst ` set outputs"
  shows "same_counts d d' \<and> input_data d' = input_data d"
proof -
  have step: "same_counts d d' \<and> input_data d' = input_data d"
    if "ReadTensorData env step outputs si ki False d = Inr d'" for step si ki d d'
    using that assms(2) read_tensors_frame [of env step si ki False outputs "[]" d d']
    by (auto simp: ReadTensorData_def bindR_Inr_conv tensors_of_def split: option.splits)
  show ?thesis
  proof (rule foldR_inv [where P = "\<lambda>x. same_counts d x \<and> input_data x = input_data d"])
    show "foldR (\<lambda>d k. bindR (liftE (vec_index steps (k - lo))) (\<lambda>step.
        ReadTensorData env step outputs (int i) (int k) False d)) d [lo..<hi] = Inr d'"
      using assms(1) by (simp only: read_steps_def)
    fix s k s'
    assume "same_counts d s \<and> input_data s = input_data d" and "bindR (liftE (vec_index steps (k - lo)))
      (\<lambda>step. ReadTensorData env step outputs (int i) (int k) False s) = Inr s'"
    then show "same_counts d s' \<and> input_data s' = input_data d"
      using step [of _ "int i" "int k" s s'] same_counts_trans [of d s s'] by (auto simp: bindR_Inr_conv)
  qed simp
qed

lemma parse_array_read:
  assumes "parse_array env inputs outputs i ss out d = Inr d'"
    and "plain_tensors inputs" and "''message_generator'' \<notin> fst ` set outputs"
    and "read_so_far env inputs els d" and "multiple_stream_mode d" and "i = length els"
  shows "read_so_far env inputs (els @ [JArray ss]) d' \<and> multiple_stream_mode d' \<and>
    data_stream_cnt d' = data_stream_cnt d"
proof -
  let ?d1 = "d\<lparr>step_num := step_num d @ [length ss]\<rparr>"
  have len: "length (step_num d) = length els" using assms(4,5) by (simp add: read_so_far_def split: if_splits)
  from assms(1) len assms(6) obtain d2 where d2: "read_steps env ss inputs i 0 (length ss) True ?d1 = Inr d2"
    and out: "(case out of None \<Rightarrow> Inr d2
       | Some (JArray outs) \<Rightarrow> if length outs \<noteq> length ss then Inl (Fails not_aligned)
           else read_steps env outs outputs i 0 (length ss) False d2
       | Some _ \<Rightarrow> Inl (Fails not_aligned)) = Inr d'"
    by (auto simp: parse_array_def bindR_Inr_conv Let_def nth_append)
  have "same_counts ?d1 d2 \<and> tensors_of False d2 = tensors_of False ?d1 \<and>
      loaded env inputs (put_steps i 0 ss (step_at True els)) (tensors_of True d2)"
    using read_steps_result [of env ss inputs i 0 True ?d1 d2 "step_at True els"] d2 assms(2,4-6)
    by (simp add: read_so_far_def tensors_of_def step_at_outside)
  moreover have "same_counts d2 d' \<and> input_data d' = input_data d2"
    using out assms(3) read_outputs_keep [of env _ outputs i 0 "length ss" d2 d']
    by (auto split: option.splits json.splits if_splits)
  ultimately show ?thesis
    using assms(4-6) by (auto simp: read_so_far_def same_counts_def tensors_of_def step_at_array)
qed

lemma parse_flat_read:
  assumes "parse_flat env inputs outputs streams out d = Inr d'"
    and "plain_tensors inputs" and "''message_generator'' \<notin> fst ` set outputs"
    and "read_so_far env inputs els d" and "\<not> multiple_stream_mode d" and "streams \<noteq> []"
    and "\<not> IsArray (hd streams)"
  shows "read_so_far env inputs (els @ streams) d' \<and> \<not> multiple_stream_mode d' \<and> data_stream_cnt d' = 1"
proof -
  let ?d2 = "d\<lparr>step_num := [length els + length streams], data_stream_cnt := 1\<rparr>"
  have steps: "step_num d = (if els = [] then [] else [length els])"
    using assms(4,5) by (simp add: read_so_far_def)
  from assms(1) obtain d3
    where d3: "read_steps env streams inputs 0 (length els) (length els + length streams) True ?d2 = Inr d3"
    and out: "(case out of None \<Rightarrow> Inr d3
       | Some outs \<Rightarrow> read_steps env outs outputs 0 (length els) (length els + length streams) False d3) = Inr d'"
    by (cases "els = []") (auto simp: parse_flat_def bindR_Inr_conv Let_def steps cong: option.case_cong)
  have "same_counts ?d2 d3 \<and> tensors_of False d3 = tensors_of False ?d2 \<and>
      loaded env inputs (put_steps 0 (length els) streams (step_at False els)) (tensors_of True d3)"
    using read_steps_result [of env streams inputs 0 "length els" True ?d2 d3 "step_at False els"] d3 assms(2,4-6)
    by (simp add: read_so_far_def tensors_of_def step_at_past)
  moreover have "same_counts d3 d' \<and> input_data d' = input_data d3"
    using out assms(3) read_outputs_keep [of env _ outputs 0 "length els" "length els + length streams" d3 d']
    by (auto split: option.splits)
  ultimately show ?thesis
    using assms(4-7) by (cases streams) (auto simp: read_so_far_def same_counts_def tensors_of_def step_at_flat)
qed

lemma ValidateParsingMode_read:
  assumes "ValidateParsingMode steps d = Inr d1" and "read_so_far env inputs els d"
  shows "read_so_far env inputs els d1 \<and> multiple_stream_mode d1 = IsArray steps \<and>
    step_num d1 = step_num d \<and> data_stream_cnt d1 = data_stream_cnt d \<and>
    (step_num d \<noteq> [] \<longrightarrow> multiple_stream_mode d1 = multiple_stream_mode d)"
proof (cases "els = []")
  case True
  then have "step_at b els = (\<lambda>_. None)" for b by (auto simp: step_at_def fun_eq_iff)
  with True assms show ?thesis by (auto simp: ValidateParsingMode_def read_so_far_def split: if_splits)
next
  case False
  with assms show ?thesis by (auto simp: ValidateParsingMode_def read_so_far_def split: if_splits)
qed

lemma parse_streams_read:
  assumes "parse_streams env inputs outputs streams out lo [lo + length pre..<lo + length streams] d = Inr d'"
    and "streams = pre @ rest"
    and "plain_tensors inputs" and "''message_generator'' \<notin> fst ` set outputs"
    and "read_so_far env inputs (els @ pre) d" and "length (step_num d) = lo + length pre"
    and "pre \<noteq> [] \<longrightarrow> multiple_stream_mode d"
  shows "read_so_far env inputs (els @ streams) d' \<and>
    data_stream_cnt d' = (if rest = [] \<or> multiple_stream_mode d' then data_stream_cnt d else 1) \<and>
    (step_num d \<noteq> [] \<longrightarrow> multiple_stream_mode d' = multiple_stream_mode d)"
  using assms(1,2,5-7)
proof (induction rest arbitrary: pre d)
  case Nil
  then show ?case by simp
next
  case (Cons steps rest)
  let ?i = "lo + length pre"
  define js where "js = [lo + length (pre @ [steps])..<lo + length streams]"
  have upt: "[?i..<lo + length streams] = ?i # js"
    using Cons.prems(2) upt_conv_Cons [of ?i "lo + length streams"] by (simp add: js_def del: upt_Suc)
  have "vec_index streams (?i - lo) = Inr steps" using Cons.prems(2) by (simp add: vec_index_def)
  with Cons.prems(1) [unfolded upt] obtain os d1 where d1: "ValidateParsingMode steps d = Inr d1"
    and go: "(case steps of
         JArray ss \<Rightarrow> bindR (parse_array env inputs outputs ?i ss os d1)
           (parse_streams env inputs outputs streams out lo js)
       | _ \<Rightarrow> parse_flat env inputs outputs streams out d1) = Inr d'"
    by (auto simp: bindR_Inr_conv)
  note v = ValidateParsingMode_read [OF d1 Cons.prems(3)]
  show ?case
  proof (cases "IsArray steps")
    case True
    then obtain ss where ss: "steps = JArray ss" by (auto simp: IsArray_conv)
    with go obtain d2 where d2: "parse_array env inputs outputs ?i ss os d1 = Inr d2"
      and rec: "parse_streams env inputs outputs streams out lo
        [lo + length (pre @ [steps])..<lo + length streams] d2 = Inr d'"
      by (auto simp: bindR_Inr_conv js_def)
    have "?i = length (els @ pre)" using v True Cons.prems(4) by (auto simp: read_so_far_def split: if_splits)
    then have r: "read_so_far env inputs (els @ (pre @ [steps])) d2 \<and> multiple_stream_mode d2 \<and>
        data_stream_cnt d2 = data_stream_cnt d1"
      using parse_array_read [OF d2 assms(3,4), of "els @ pre"] v True ss by simp
    moreover have "length (step_num d2) = lo + length (pre @ [steps])"
      using r \<open>?i = length (els @ pre)\<close> by (auto simp: read_so_far_def)
    ultimately show ?thesis
      using Cons.IH [OF rec] Cons.prems(2) v r True by auto
  next
    case False
    then have pre: "pre = []" using v Cons.prems(4,5) by auto
    have "parse_flat env inputs outputs streams out d1 = Inr d'" using go False by (cases steps) auto
    from parse_flat_read [OF this assms(3,4), of els] v False pre Cons.prems(2) show ?thesis by auto
  qed
qed

text \<open>A document that was read: the elements of its \<open>data\<close> array.\<close>

definition data_elements :: "json \<Rightarrow> json list" where
  "data_elements doc = (case member doc ''data'' of Some (JArray vs) \<Rightarrow> vs | _ \<Rightarrow> [])"

lemma ParseData_read:
  assumes "ParseData env doc inputs outputs d = Inr d'"
    and "plain_tensors inputs" and "''message_generator'' \<notin> fst ` set outputs"
    and "read_so_far env inputs els d" and "data_stream_cnt d = length (step_num d)"
  shows "\<exists>json. doc = Some json \<and> read_so_far env inputs (els @ data_elements json) d' \<and>
    data_stream_cnt d' = length (step_num d')"
proof -
  let ?d = "\<lambda>n. d\<lparr>data_stream_cnt := data_stream_cnt d + n\<rparr>"
  obtain json where json: "doc = Some json" using assms(1) by (cases doc) (simp_all add: ParseData_def)
  then obtain streams where streams: "member json ''data'' = Some (JArray streams)"
    using assms(1)
    by (auto simp: ParseData_def bindR_Inr_conv HasMember_def GetMember_def GetArray_def
        split: option.splits json.splits if_splits)
  then have "IsObject json" by (cases json) (simp_all add: member_def)
  with json streams assms(1,5) obtain out where "parse_streams env inputs outputs streams out (length (step_num d))
      [length (step_num d)..<length (step_num d) + length streams] (?d (length streams)) = Inr d'"
    by (auto simp: ParseData_def bindR_Inr_conv HasMember_def GetMember_def GetArray_def Let_def)
  moreover have "read_so_far env inputs els (?d (length streams))"
    using assms(4) by (simp add: read_so_far_def)
  ultimately have r: "read_so_far env inputs (els @ streams) d' \<and>
      data_stream_cnt d' = (if streams = [] \<or> multiple_stream_mode d' then data_stream_cnt d + length streams else 1) \<and>
      (step_num d \<noteq> [] \<longrightarrow> multiple_stream_mode d' = multiple_stream_mode d)"
    using parse_streams_read [of env inputs outputs streams out "length (step_num d)" "[]" "?d (length streams)" d' streams els]
      assms(2,3) by simp
  have "data_stream_cnt d' = length (step_num d')"
    using r assms(4,5) by (cases "els = []"; cases "streams = []") (auto simp: read_so_far_def split: if_splits)
  with r json streams show ?thesis by (simp add: data_elements_def)
qed

text \<open>The documents are read one after the other into the same loader.\<close>

lemma ReadDataFromJSON_all:
  assumes "foldR (\<lambda>d path. ReadDataFromJSON env docs inputs outputs path d) d files = Inr d'"
    and "plain_tensors inputs" and "''message_generator'' \<notin> fst ` set outputs"
    and "\<forall>path \<in> set files. docs path = Some (Some (contents path))"
    and "read_so_far env inputs els d" and "data_stream_cnt d = length (step_num d)"
  shows "read_so_far env inputs (els @ concat (map (data_elements \<circ> contents) files)) d' \<and>
    data_stream_cnt d' = length (step_num d')"
  using assms(1,4-6)
proof (induction files arbitrary: d els)
  case (Cons path files)
  then obtain d1 where d1: "ParseData env (Some (contents path)) inputs outputs d = Inr d1"
    and rest: "foldR (\<lambda>d path. ReadDataFromJSON env docs inputs outputs path d) d1 files = Inr d'"
    by (auto simp: bindR_Inr_conv ReadDataFromJSON_def)
  show ?case
    using Cons.IH [OF rest, of "els @ data_elements (contents path)"]
      ParseData_read [OF d1 assms(2,3) Cons.prems(3,4)] Cons.prems(2) by simp
qed simp

lemma read_so_far_fresh: "read_so_far env inputs [] (DataLoader n)"
  by (auto simp: read_so_far_def DataLoader_def loaded_def served_at_def step_at_def entry_def)

lemma cast_int_small: "n < 2 ^ 31 \<Longrightarrow> cast_int n = int n"
  by (simp add: cast_int_def sint_word_ariths(1) signed_of_nat signed_take_bit_int_eq_self_iff del: of_nat_power)

lemma total_steps_read:
  assumes "read_so_far env inputs els d" and "step_at (list_all IsArray els) els (i, k) = Some step"
    and "length els < 2 ^ 31" and "\<forall>el \<in> set els. array_length el < 2 ^ 31"
  shows "i < length (step_num d) \<and> k < step_num d ! i \<and> step_num d ! i < 2 ^ 31 \<and> length (step_num d) < 2 ^ 31"
  using assms
  by (auto simp: read_so_far_def step_at_def list_all_iff IsArray_conv split: if_splits json.splits)

section \<open>Properties\<close>

text \<open>
  C4: The data that the JSON documents give is the data that is served. After the documents of
  any number of files have been read, nested or flat, the loader has the streams and steps of
  their \<open>data\<close> arrays, and asking for the tensor of a model input at a stream and step returns
  exactly the bytes that the document gives for it there (the encoded array, or the decoded
  base64 string), and nothing when the step leaves an optional input out. In particular no two
  tensors share a key, whatever underscores and digits their names contain.
\<close>

theorem json_data_is_served:
  assumes "foldR (\<lambda>d path. ReadDataFromJSON env docs inputs outputs path d) (DataLoader n) files = Inr d"
    and "plain_tensors inputs" and "''message_generator'' \<notin> fst ` set outputs"
    and "\<forall>path \<in> set files. docs path = Some (Some (contents path))"
    and "els = concat (map (data_elements \<circ> contents) files)"
    and "length els < 2 ^ 31" and "\<forall>el \<in> set els. array_length el < 2 ^ 31"
    and "step_at (list_all IsArray els) els (i, k) = Some step" and "(nm, t) \<in> set inputs"
  shows "GetDataStreamsCount d = (if list_all IsArray els then length els else 1) \<and>
    GetTotalSteps i d = Inr (if list_all IsArray els then array_length (els ! i) else length els) \<and>
    (case member step nm of
       None \<Rightarrow> GetInputData t (int i) (int k) d = Inr no_tensor
     | Some v \<Rightarrow> \<exists>bs. given_bytes env (mt_datatype t) v bs \<and>
         GetInputData t (int i) (int k) d =
           Inr \<lparr>data_ptr = Some bs, batch1_size = length bs, is_valid = True, td_name = ''''\<rparr>)"
proof -
  have r: "read_so_far env inputs els d" and cnt: "data_stream_cnt d = length (step_num d)"
    using ReadDataFromJSON_all [OF assms(1-4) read_so_far_fresh] assms(5) by (auto simp: DataLoader_def)
  have els: "els \<noteq> []" using assms(8) by (auto simp: step_at_def split: if_splits)
  have in_range: "i < length (step_num d) \<and> k < step_num d ! i \<and> step_num d ! i < 2 ^ 31 \<and>
      length (step_num d) < 2 ^ 31"
    by (rule total_steps_read [OF r assms(8,6,7)])
  then have valid: "ValidateIndexes (int i) (int k) d = Inr ()"
    by (simp add: ValidateIndexes_def cnt cast_int_small)
  have "loaded env inputs (step_at (list_all IsArray els) els) (input_data d)" and buf: "input_buf d = []"
    using r els by (auto simp: read_so_far_def)
  then have "served env inputs step (i, k) (input_data d)"
    using assms(8) unfolding loaded_def served_at_def by (metis option.simps(5))
  then have "tensor_served env step (nm, t) (entry (input_data d) (i, k) nm)"
    using assms(9) by (force simp: served_def)
  moreover have "mt_name t = nm" using assms(2,9) by (force simp: plain_tensors_def)
  ultimately have "case member step nm of
       None \<Rightarrow> GetInputData t (int i) (int k) d = Inr no_tensor
     | Some v \<Rightarrow> \<exists>bs. given_bytes env (mt_datatype t) v bs \<and>
         GetInputData t (int i) (int k) d =
           Inr \<lparr>data_ptr = Some bs, batch1_size = length bs, is_valid = True, td_name = ''''\<rparr>"
    using valid buf
    by (auto simp: tensor_served_def entry_def GetInputData_def no_tensor_def split: option.splits)
  moreover have "GetDataStreamsCount d = (if list_all IsArray els then length els else 1) \<and>
    GetTotalSteps i d = Inr (if list_all IsArray els then array_length (els ! i) else length els)"
    using r els cnt in_range by (auto simp: GetDataStreamsCount_def GetTotalSteps_def read_so_far_def split: if_splits)
  ultimately show ?thesis by blast
qed

text \<open>Two streams for an input whose name ends like a key.\<close>

definition sample_input :: model_tensor where
  "sample_input = \<lparr>mt_name = ''A_1'', mt_datatype = ''UINT8'', mt_shape = [2], is_shape_tensor = False, is_optional = False\<rparr>"

definition sample_document :: json where
  "sample_document = JObject [(''data'', JArray [
     JArray [JObject [(''A_1'', JArray [JInt 1, JInt 2])], JObject [(''A_1'', JArray [JInt 3, JInt 4])]],
     JArray [JObject [(''A_1'', JArray [JInt 5, JInt 6])]]])]"

definition sample_env :: json_env where
  "sample_env = \<lparr>write_json = (\<lambda>_. ''''), b64_decode = (\<lambda>_. []), pipes = (\<lambda>_. None)\<rparr>"

theorem json_data_is_served_witness:
  "\<exists>d. ReadDataFromJSON sample_env (\<lambda>_. Some (Some sample_document)) [(''A_1'', sample_input)] [] ''f'' (DataLoader 1) = Inr d \<and>
     GetDataStreamsCount d = 2 \<and> GetTotalSteps 0 d = Inr 2 \<and>
     (\<exists>bs. given_bytes sample_env ''UINT8'' (JArray [JInt 3, JInt 4]) bs \<and>
       GetInputData sample_input 0 1 d =
         Inr \<lparr>data_ptr = Some bs, batch1_size = length bs, is_valid = True, td_name = ''''\<rparr>)"
proof -
  let ?docs = "\<lambda>_ :: string. Some (Some sample_document)" and ?inputs = "[(''A_1'', sample_input)]"
  let ?read = "ReadDataFromJSON sample_env ?docs ?inputs [] ''f'' (DataLoader 1)"
  have "isl ?read = False" by code_simp
  then obtain d where d: "?read = Inr d" by (cases ?read) auto
  let ?els = "data_elements sample_document"
  have els: "?els = [JArray [JObject [(''A_1'', JArray [JInt 1, JInt 2])], JObject [(''A_1'', JArray [JInt 3, JInt 4])]],
     JArray [JObject [(''A_1'', JArray [JInt 5, JInt 6])]]]"
    by (simp add: data_elements_def sample_document_def member_def)
  have "plain_tensors ?inputs" by (simp add: plain_tensors_def sample_input_def)
  with json_data_is_served [of sample_env ?docs ?inputs "[]" 1 "[''f'']" d "\<lambda>_. sample_document" ?els 0 1
      "JObject [(''A_1'', JArray [JInt 3, JInt 4])]" "''A_1''" sample_input] d els
  show ?thesis by (simp add: step_at_def member_def sample_input_def)
qed

section \<open>Generated data is large enough\<close>

lemma GetRandomString_length: "length (fst (GetRandomString pick n g)) = n"
  by (induction n arbitrary: g) (simp_all add: Let_def split: prod.splits, metis fst_conv)

lemma random_strings_length:
  "random_strings pick len n g = (ss, g') \<Longrightarrow> length ss = n \<and> (\<forall>s \<in> set ss. length s = len)"
proof (induction n arbitrary: g ss g')
  case (Suc n)
  obtain s g1 where s: "GetRandomString pick len g = (s, g1)" by fastforce
  obtain rest g2 where rest: "random_strings pick len n g1 = (rest, g2)" by fastforce
  have "length s = len" using GetRandomString_length [of pick len g] s by simp
  with Suc.IH [OF rest] Suc.prems s rest show ?case by auto
qed simp

text \<open>What is there for an input once it has been generated.\<close>

definition generated :: "nat \<Rightarrow> string \<Rightarrow> data_loader \<Rightarrow> nat \<Rightarrow> string \<times> model_tensor \<Rightarrow> bool" where
  "generated len str d max_size io \<longleftrightarrow>
     (if mt_datatype (snd io) \<noteq> ''BYTES'' then
        \<exists>sz. ByteSize (mt_shape (snd io)) (mt_datatype (snd io)) = Inr (int sz) \<and> sz \<le> max_size \<and>
          entry (input_data d) (0, 0) (fst io) = None
      else \<exists>ss. entry (input_data d) (0, 0) (fst io) = Some (SerializeStringTensor ss []) \<and>
        ElementCount (mt_shape (snd io)) = Inr (int (length ss)) \<and>
        (\<forall>s \<in> set ss. length s = (if str = [] then len else length str)))"

lemma generate_input_result:
  assumes "generate_input pick len str (d, max_size, g) io = Inr (d', max_size', g')"
    and "mt_name (snd io) = fst io" and "map_wf (input_data d)" and "entry (input_data d) (0, 0) (fst io) = None"
  shows "generated len str d' max_size' io \<and> same_counts d d' \<and> max_size \<le> max_size' \<and> map_wf (input_data d') \<and>
    (\<forall>nm. nm \<noteq> fst io \<longrightarrow> entry (input_data d') (0, 0) nm = entry (input_data d) (0, 0) nm)"
proof (cases "mt_datatype (snd io) = ''BYTES''")
  case False
  then obtain sz where "ByteSize (mt_shape (snd io)) (mt_datatype (snd io)) = Inr sz" "0 \<le> sz" "d' = d"
      "max_size' = max max_size (nat sz)"
    using assms(1) by (auto simp: generate_input_def bindR_Inr_conv split: prod.splits if_splits)
  with False assms(3,4) show ?thesis by (auto simp: generated_def intro!: exI [of _ "nat sz"])
next
  case True
  let ?key = "key_name (fst io) 0 0"
  let ?strings = "\<lambda>n. if str \<noteq> [] then (replicate n str, g) else random_strings pick len n g"
  obtain n ss where n: "ElementCount (mt_shape (snd io)) = Inr n" "0 \<le> n" and ss: "?strings (nat n) = (ss, g')"
    and d': "d' = d\<lparr>input_data := map_assign ?key (SerializeStringTensor ss (map_get [] (map_emplace ?key [] (input_data d)) ?key))
                 (map_emplace ?key [] (input_data d))\<rparr>" and "max_size' = max_size"
    using assms(1,2) True
    by (auto simp: generate_input_def bindR_Inr_conv Let_def split: prod.splits if_splits)
  have none: "map_find (input_data d) ?key = None" using assms(4) by (simp add: entry_def)
  then have "map_get [] (map_emplace ?key [] (input_data d)) ?key = []"
    using assms(3) by (simp add: map_get_def)
  moreover have "length ss = nat n \<and> (\<forall>s \<in> set ss. length s = (if str = [] then len else length str))"
    using ss random_strings_length [of pick len "nat n" g ss g'] by (auto split: if_splits)
  ultimately show ?thesis
    using True n d' none assms(3) \<open>max_size' = max_size\<close>
    by (auto simp: generated_def entry_def same_counts_def split: option.split)
qed

lemma generate_inputs_result:
  assumes "foldR (generate_input pick len str) (d, max_size, g) inputs = Inr (d', max_size', g')"
    and "\<forall>io \<in> set inputs. mt_name (snd io) = fst io" and "distinct (map fst inputs)" and "map_wf (input_data d)"
    and "\<forall>io \<in> set inputs. entry (input_data d) (0, 0) (fst io) = None"
  shows "list_all (generated len str d' max_size') inputs \<and> same_counts d d' \<and> max_size \<le> max_size' \<and>
    (\<forall>nm. nm \<notin> fst ` set inputs \<longrightarrow> entry (input_data d') (0, 0) nm = entry (input_data d) (0, 0) nm)"
  using assms
proof (induction inputs arbitrary: d max_size g)
  case (Cons io inputs)
  then obtain d1 max1 g1 where one: "generate_input pick len str (d, max_size, g) io = Inr (d1, max1, g1)"
    and rest: "foldR (generate_input pick len str) (d1, max1, g1) inputs = Inr (d', max_size', g')"
    by (auto simp: bindR_Inr_conv)
  have r: "generated len str d1 max1 io \<and> same_counts d d1 \<and> max_size \<le> max1 \<and> map_wf (input_data d1) \<and>
      (\<forall>nm. nm \<noteq> fst io \<longrightarrow> entry (input_data d1) (0, 0) nm = entry (input_data d) (0, 0) nm)"
    using Cons.prems by (intro generate_input_result [OF one]) auto
  have new: "\<forall>x \<in> set inputs. fst x \<noteq> fst io" using Cons.prems(3) by (metis distinct.simps(2) list.simps(9) image_eqI set_map)
  have IH: "list_all (generated len str d' max_size') inputs \<and> same_counts d1 d' \<and> max1 \<le> max_size' \<and>
      (\<forall>nm. nm \<notin> fst ` set inputs \<longrightarrow> entry (input_data d') (0, 0) nm = entry (input_data d1) (0, 0) nm)"
    using r new Cons.prems by (intro Cons.IH [OF rest]) auto
  moreover have "entry (input_data d') (0, 0) (fst io) = entry (input_data d1) (0, 0) (fst io)"
    using IH Cons.prems(3) by simp
  then have "generated len str d' max_size' io" using r IH by (auto simp: generated_def split: if_splits)
  ultimately show ?case using r same_counts_trans [of d d1 d'] by simp
qed simp

text \<open>
  C25: Whatever is generated suffices for every request: after \<open>GenerateData\<close> the data of each
  input is found, the bytes that the request reads from the returned pointer are there, and a
  tensor of strings consists of exactly as many strings as its shape has elements.
\<close>

theorem generated_data_suffices:
  assumes "GenerateData pick rand g inputs zero_input len str (DataLoader n) = Inr d"
    and "plain_tensors inputs" and "(nm, t) \<in> set inputs" and "ByteSize (mt_shape t) (mt_datatype t) \<noteq> Inr 0"
    and "len < 2 ^ 32" and "length str < 2 ^ 32"
  shows "\<exists>td bs. GetInputData t 0 0 d = Inr td \<and> is_valid td \<and> data_ptr td = Some bs \<and>
    (if mt_datatype t \<noteq> ''BYTES'' then ByteSize (mt_shape t) (mt_datatype t) = Inr (int (batch1_size td)) \<and> batch1_size td \<le> length bs
     else batch1_size td = length bs \<and>
       (\<exists>ss. parse_strings bs = Some ss \<and> ElementCount (mt_shape t) = Inr (int (length ss))))"
proof -
  let ?d0 = "(DataLoader n)\<lparr>data_stream_cnt := 1, step_num := [1]\<rparr>"
  obtain d1 max_size g' where gen: "foldR (generate_input pick len str) (?d0, 0, g) inputs = Inr (d1, max_size, g')"
    and d: "d = (if max_size > 0 then d1\<lparr>input_buf := (if zero_input then
        take max_size (input_buf d1) @ replicate (max_size - length (input_buf d1)) 0
      else random_bytes rand max_size g')\<rparr> else d1)"
    using assms(1) by (auto simp: GenerateData_def DataLoader_def bindR_Inr_conv Let_def split: option.splits)
  have name: "mt_name t = nm" using assms(2,3) by (force simp: plain_tensors_def)
  have r: "list_all (generated len str d1 max_size) inputs \<and> same_counts ?d0 d1 \<and> 0 \<le> max_size \<and>
      (\<forall>nm. nm \<notin> fst ` set inputs \<longrightarrow> entry (input_data d1) (0, 0) nm = entry (input_data ?d0) (0, 0) nm)"
    using assms(2) by (intro generate_inputs_result [OF gen]) (auto simp: plain_tensors_def DataLoader_def entry_def)
  then have it: "generated len str d1 max_size (nm, t)" using assms(3) by (simp add: list_all_iff)
  have data: "input_data d = input_data d1" using d by simp
  have "length (random_bytes rand m h) = m" for m h by (induction m arbitrary: h) simp_all
  then have buf: "length (input_buf d) = max_size"
    using d r by (auto simp: same_counts_def DataLoader_def)
  have "ValidateIndexes 0 0 d = Inr ()"
    using r d by (simp add: same_counts_def DataLoader_def ValidateIndexes_def cast_int_small)
  show ?thesis
  proof (cases "mt_datatype t = ''BYTES''")
    case True
    then obtain ss where ss: "map_find (input_data d) (key_name nm 0 0) = Some (SerializeStringTensor ss [])"
      "ElementCount (mt_shape t) = Inr (int (length ss))" "\<forall>s \<in> set ss. length s = (if str = [] then len else length str)"
      using it data by (auto simp: generated_def entry_def)
    then have "\<forall>s \<in> set ss. length s < 2 ^ 32" using assms(5,6) by simp
    from parse_strings_concat [OF this] True ss(1,2) name \<open>ValidateIndexes 0 0 d = Inr ()\<close>
    show ?thesis by (auto simp: GetInputData_def no_tensor_def SerializeStringTensor_eq)
  next
    case False
    then obtain sz where sz: "ByteSize (mt_shape t) (mt_datatype t) = Inr (int sz)" "sz \<le> max_size" "sz \<noteq> 0"
        "map_find (input_data d) (key_name nm 0 0) = None"
      using it assms(4) data by (auto simp: generated_def entry_def)
    then have "input_buf d \<noteq> []" using buf by auto
    then show ?thesis
      using False sz buf name \<open>ValidateIndexes 0 0 d = Inr ()\<close> by (auto simp: GetInputData_def no_tensor_def)
  qed
qed

theorem generated_data_suffices_witness:
  "\<exists>d. GenerateData (\<lambda>g. (g mod 67, Suc g)) (\<lambda>g. (word_of_nat g, Suc g)) 0 [(''A_1'', sample_input)] False 128 [] (DataLoader 1) = Inr d \<and>
     (\<exists>td bs. GetInputData sample_input 0 0 d = Inr td \<and> data_ptr td = Some bs \<and> batch1_size td \<le> length bs)"
proof -
  let ?gen = "GenerateData (\<lambda>g. (g mod 67, Suc g)) (\<lambda>g. (word_of_nat g, Suc g)) 0 [(''A_1'', sample_input)] False 128 [] (DataLoader 1)"
  have "isl ?gen = False" by code_simp
  then obtain d where d: "?gen = Inr d" by (cases ?gen) auto
  have "ByteSize (mt_shape sample_input) (mt_datatype sample_input) = Inr 2" by code_simp
  with generated_data_suffices [OF d, of "''A_1''" sample_input] d show ?thesis
    by (auto simp: plain_tensors_def sample_input_def)
qed

end
