(* ===== verification/Infer_Input.thy ===== *)
theory Infer_Input
  imports Data_Loader
begin

text \<open>
  The inputs of a request (\<open>cb::InferInput\<close>) of the backends that the repository implements
  itself: TensorFlow Serving, TorchServe, OpenAI and dynamic gRPC. An input only keeps
  pointers to the data of the loader, one per element of the batch; a pointer is modelled as
  the memory from it on, and reading past that memory is undefined behaviour. The positions
  \<open>bufs_idx_\<close> and \<open>buf_pos_\<close> are not initialized by the constructors. The locale
  \<open>input_backend\<close> is what the data manager relies on; the inputs of the Triton client library
  are a parameter there.
\<close>

section \<open>Kinds of backends\<close>

datatype backend_kind = TRITON | TENSORFLOW_SERVING | TORCHSERVE | TRITON_C_API | OPENAI | DYNAMIC_GRPC

fun BackendKindToString :: "backend_kind \<Rightarrow> string" where
  "BackendKindToString TRITON = ''TRITON''"
| "BackendKindToString TENSORFLOW_SERVING = ''TENSORFLOW_SERVING''"
| "BackendKindToString TORCHSERVE = ''TORCHSERVE''"
| "BackendKindToString TRITON_C_API = ''TRITON_C_API''"
| "BackendKindToString OPENAI = ''OPENAI''"
| "BackendKindToString DYNAMIC_GRPC = ''DYNAMIC_GRPC''"

definition unsupported :: "backend_kind \<Rightarrow> string \<Rightarrow> cb_error" where
  "unsupported kind what =
     generic_error (''client backend of kind '' @ BackendKindToString kind @ '' does not support '' @ what)"

section \<open>Inputs\<close>

record infer_input =
  ii_kind :: backend_kind
  ii_name :: string
  ii_datatype :: string
  ii_shape :: "int list"
  ii_byte_size :: u64
  bufs_idx :: "nat option"
  buf_pos :: "nat option"
  bufs :: "bytes option list"
  buf_byte_sizes :: "nat list"
  data_str :: bytes

definition new_input :: "backend_kind \<Rightarrow> string \<Rightarrow> int list \<Rightarrow> string \<Rightarrow> infer_input" where
  "new_input kind name dims datatype =
     \<lparr>ii_kind = kind, ii_name = name, ii_datatype = datatype, ii_shape = dims, ii_byte_size = 0,
      bufs_idx = None, buf_pos = None, bufs = [], buf_byte_sizes = [], data_str = []\<rparr>"

definition append_buffer :: "bytes option \<Rightarrow> nat \<Rightarrow> infer_input \<Rightarrow> infer_input" where
  "append_buffer input n i =
     i\<lparr>ii_byte_size := ii_byte_size i + word_of_nat n, bufs := bufs i @ [input],
       buf_byte_sizes := buf_byte_sizes i @ [n]\<rparr>"

text \<open>Reading \<open>n\<close> bytes from position \<open>pos\<close> of the memory behind a pointer.\<close>

definition mem_read :: "bytes option \<Rightarrow> nat \<Rightarrow> nat \<Rightarrow> exn + bytes" where
  "mem_read p pos n =
     (case p of
        None \<Rightarrow> if n = 0 then Inr [] else Inl (UndefinedBehaviour ''null pointer'')
      | Some m \<Rightarrow> if pos + n \<le> length m then Inr (take n (drop pos m))
                  else Inl (UndefinedBehaviour ''read past the end''))"

definition initialized :: "nat option \<Rightarrow> exn + nat" where
  "initialized v = (case v of Some n \<Rightarrow> Inr n | None \<Rightarrow> Inl (UndefinedBehaviour ''uninitialized''))"

section \<open>TensorFlow Serving and TorchServe\<close>

definition tfs_Create :: "string \<Rightarrow> int list \<Rightarrow> string \<Rightarrow> cb_error + infer_input" where
  "tfs_Create name dims datatype = Inr (new_input TENSORFLOW_SERVING name dims datatype)"

definition tfs_SetShape :: "int list \<Rightarrow> infer_input \<Rightarrow> infer_input" where
  "tfs_SetShape shape i = i\<lparr>ii_shape := shape\<rparr>"

definition tfs_Reset :: "infer_input \<Rightarrow> infer_input" where
  "tfs_Reset i = i\<lparr>bufs := [], buf_byte_sizes := [], bufs_idx := Some 0, ii_byte_size := 0\<rparr>"

definition tfs_AppendRaw :: "infer_input \<Rightarrow> bytes option \<Rightarrow> nat \<Rightarrow> cb_error + infer_input" where
  "tfs_AppendRaw i input n = Inr (append_buffer input n i)"

definition tfs_PrepareForRequest :: "infer_input \<Rightarrow> infer_input" where
  "tfs_PrepareForRequest i = i\<lparr>bufs_idx := Some 0, buf_pos := Some 0\<rparr>"

definition tfs_GetNext :: "infer_input \<Rightarrow> exn + (bytes option \<times> nat \<times> bool) \<times> infer_input" where
  "tfs_GetNext i =
     bindR (initialized (bufs_idx i)) (\<lambda>k.
       if k < length (bufs i) then
         bindR (vec_index (buf_byte_sizes i) k) (\<lambda>n.
           Inr ((bufs i ! k, n, length (bufs i) \<le> Suc k), i\<lparr>bufs_idx := Some (Suc k)\<rparr>))
       else Inr ((None, 0, True), i))"

text \<open>The \<open>byte_size_\<close> of a TorchServe input is not initialized: it starts with any value \<open>g\<close>.\<close>

definition ts_Create :: "u64 \<Rightarrow> string \<Rightarrow> int list \<Rightarrow> string \<Rightarrow> cb_error + infer_input" where
  "ts_Create g name dims datatype = Inr ((new_input TORCHSERVE name dims datatype)\<lparr>ii_byte_size := g\<rparr>)"

definition ts_SetShape :: "int list \<Rightarrow> infer_input \<Rightarrow> infer_input" where
  "ts_SetShape shape i = i\<lparr>ii_shape := shape\<rparr>"

definition ts_Reset :: "infer_input \<Rightarrow> infer_input" where
  "ts_Reset i = i\<lparr>bufs := [], buf_byte_sizes := [], bufs_idx := Some 0, ii_byte_size := 0\<rparr>"

definition ts_AppendRaw :: "infer_input \<Rightarrow> bytes option \<Rightarrow> nat \<Rightarrow> cb_error + infer_input" where
  "ts_AppendRaw i input n = Inr (append_buffer input n i)"

definition ts_PrepareForRequest :: "infer_input \<Rightarrow> infer_input" where
  "ts_PrepareForRequest i = i\<lparr>bufs_idx := Some 0, buf_pos := Some 0\<rparr>"

definition ts_GetNext :: "infer_input \<Rightarrow> exn + (bytes option \<times> nat \<times> bool) \<times> infer_input" where
  "ts_GetNext i =
     bindR (initialized (bufs_idx i)) (\<lambda>k.
       if k < length (bufs i) then
         bindR (vec_index (buf_byte_sizes i) k) (\<lambda>n.
           Inr ((bufs i ! k, n, length (bufs i) \<le> Suc k), i\<lparr>bufs_idx := Some (Suc k)\<rparr>))
       else Inr ((None, 0, True), i))"

text \<open>The loop of the TensorFlow Serving client that collects the whole input.\<close>

function tfs_collect :: "infer_input \<Rightarrow> bytes \<Rightarrow> exn + bytes \<times> infer_input" where
  "tfs_collect i temp_buffer =
     bindR (tfs_GetNext i) (\<lambda>r.
       let buf = fst (fst r); n = fst (snd (fst r)); end_of_input = snd (snd (fst r))
       in bindR (if buf \<noteq> None then bindR (mem_read buf 0 n) (\<lambda>bs. Inr (temp_buffer @ bs))
                 else Inr temp_buffer) (\<lambda>temp'.
            if end_of_input then Inr (temp', snd r) else tfs_collect (snd r) temp'))"
  by pat_completeness auto
termination
  by (relation "measure (\<lambda>(i, _). length (bufs i) - (case bufs_idx i of None \<Rightarrow> 0 | Some k \<Rightarrow> k))")
    (auto simp: tfs_GetNext_def initialized_def bindR_Inr_conv split: option.splits if_splits)

declare tfs_collect.simps [simp del]

text \<open>The loop of the TorchServe client: every buffer holds a path behind its four-byte length.\<close>

function ts_paths :: "infer_input \<Rightarrow> exn + bytes list \<times> infer_input" where
  "ts_paths i =
     bindR (ts_GetNext i) (\<lambda>r.
       let buf = fst (fst r); n = fst (snd (fst r)); end_of_input = snd (snd (fst r))
       in if n < 4 then Inl (RuntimeError ''basic_string::_M_create'')
          else
            bindR (mem_read buf 4 (n - 4)) (\<lambda>path.
              if end_of_input then Inr ([path], snd r)
              else bindR (ts_paths (snd r)) (\<lambda>(paths, i'). Inr (path # paths, i'))))"
  by pat_completeness auto
termination
  by (relation "measure (\<lambda>i. length (bufs i) - (case bufs_idx i of None \<Rightarrow> 0 | Some k \<Rightarrow> k))")
    (auto simp: ts_GetNext_def initialized_def bindR_Inr_conv split: option.splits if_splits)

declare ts_paths.simps [simp del]

section \<open>OpenAI\<close>

definition openai_Create :: "string \<Rightarrow> int list \<Rightarrow> string \<Rightarrow> cb_error + infer_input" where
  "openai_Create name dims datatype = Inr (new_input OPENAI name dims datatype)"

definition openai_SetShape :: "int list \<Rightarrow> infer_input \<Rightarrow> infer_input" where
  "openai_SetShape shape i = i\<lparr>ii_shape := shape\<rparr>"

definition openai_Reset :: "infer_input \<Rightarrow> infer_input" where
  "openai_Reset i = i\<lparr>data_str := [], bufs := [], buf_byte_sizes := [], ii_byte_size := 0\<rparr>"

definition openai_AppendRaw :: "infer_input \<Rightarrow> bytes option \<Rightarrow> nat \<Rightarrow> cb_error + infer_input" where
  "openai_AppendRaw i input n = Inr (append_buffer input n (i\<lparr>data_str := []\<rparr>))"

definition openai_RawData :: "infer_input \<Rightarrow> exn + bytes option \<times> nat" where
  "openai_RawData i =
     bindR (vec_index (bufs i) 0) (\<lambda>buf. bindR (vec_index (buf_byte_sizes i) 0) (\<lambda>n. Inr (buf, n)))"

definition openai_PrepareForRequest :: "infer_input \<Rightarrow> exn + infer_input" where
  "openai_PrepareForRequest i =
     (if data_str i = [] \<and> ii_byte_size i \<noteq> 0 then
        bindR (foldR (\<lambda>s k. bindR (vec_index (buf_byte_sizes i) k) (\<lambda>n.
                 bindR (mem_read (bufs i ! k) 0 n) (\<lambda>bs. Inr (s @ bs)))) [] [0..<length (bufs i)])
          (\<lambda>s. Inr (i\<lparr>data_str := s\<rparr>))
      else Inr i)"

section \<open>Dynamic gRPC\<close>

definition dgrpc_Create :: "string \<Rightarrow> int list \<Rightarrow> string \<Rightarrow> cb_error + infer_input" where
  "dgrpc_Create name dims datatype = Inr (new_input DYNAMIC_GRPC name dims datatype)"

definition dgrpc_AppendRaw :: "infer_input \<Rightarrow> bytes option \<Rightarrow> nat \<Rightarrow> cb_error + infer_input" where
  "dgrpc_AppendRaw i input n =
     (if length (bufs i) > 0 then
        Inl (generic_error ''Dynamic gRPC does not support multi-batch at the moment.'')
      else Inr (append_buffer input n i))"

definition dgrpc_PrepareForRequest :: "infer_input \<Rightarrow> infer_input" where
  "dgrpc_PrepareForRequest i = i\<lparr>bufs_idx := Some 0, buf_pos := Some 0\<rparr>"

definition DEFAULT_STREAM_DATA_SIZE :: nat where
  "DEFAULT_STREAM_DATA_SIZE = 4"

text \<open>The loop over one buffer: the messages, and the position it ends at.\<close>

function read_messages :: "bytes option \<Rightarrow> nat \<Rightarrow> nat \<Rightarrow> exn + bytes list \<times> nat" where
  "read_messages buf sz pos =
     (if pos + DEFAULT_STREAM_DATA_SIZE < sz then
        bindR (mem_read buf pos DEFAULT_STREAM_DATA_SIZE) (\<lambda>h.
        let pos1 = pos + DEFAULT_STREAM_DATA_SIZE; message_size = le_nat h
        in bindR (mem_read buf pos1 message_size) (\<lambda>message.
           bindR (read_messages buf sz (pos1 + message_size)) (\<lambda>(ms, pos2). Inr (message # ms, pos2))))
      else Inr ([], pos))"
  by pat_completeness auto
termination
  by (relation "measure (\<lambda>(_, sz, pos). sz - pos)") (auto simp: DEFAULT_STREAM_DATA_SIZE_def)

declare read_messages.simps [simp del]

definition GetSerializedMessages :: "infer_input \<Rightarrow> exn + bytes list \<times> infer_input" where
  "GetSerializedMessages i =
     bindR (initialized (bufs_idx i)) (\<lambda>k.
     bindR (initialized (buf_pos i)) (\<lambda>pos.
     bindR (vec_index (bufs i) k) (\<lambda>buf.
     bindR (vec_index (buf_byte_sizes i) k) (\<lambda>sz.
     bindR (read_messages buf sz pos) (\<lambda>(ms, pos').
       Inr (ms, i\<lparr>buf_pos := Some pos'\<rparr>))))))"

section \<open>The interface to the data manager\<close>

definition input_chunks :: "infer_input \<Rightarrow> (bytes option \<times> nat) list" where
  "input_chunks i = zip (bufs i) (buf_byte_sizes i)"

definition buffers_wf :: "infer_input \<Rightarrow> bool" where
  "buffers_wf i \<longleftrightarrow> length (bufs i) = length (buf_byte_sizes i)"

definition size_counted :: "infer_input \<Rightarrow> bool" where
  "size_counted i \<longleftrightarrow> ii_byte_size i = word_of_nat (sum_list (buf_byte_sizes i))"

text \<open>
  What every backend's input promises: a new one has its name and no data, and appending adds
  the given piece of memory at the end.
\<close>

locale input_backend =
  fixes create :: "string \<Rightarrow> int list \<Rightarrow> string \<Rightarrow> cb_error + 'i"
    and append_raw :: "'i \<Rightarrow> bytes option \<Rightarrow> nat \<Rightarrow> cb_error + 'i"
    and name_of :: "'i \<Rightarrow> string"
    and chunks :: "'i \<Rightarrow> (bytes option \<times> nat) list"
    and wf :: "'i \<Rightarrow> bool"
  assumes create_new: "create nm dims dt = Inr i \<Longrightarrow> wf i \<and> name_of i = nm \<and> chunks i = []"
    and append_adds: "wf i \<Longrightarrow> append_raw i p n = Inr i' \<Longrightarrow>
      wf i' \<and> name_of i' = name_of i \<and> chunks i' = chunks i @ [(p, n)]"
begin

lemma append_all:
  "foldR (\<lambda>i pn. append_raw i (fst pn) (snd pn)) i ps = Inr i' \<Longrightarrow> wf i \<Longrightarrow>
     wf i' \<and> name_of i' = name_of i \<and> chunks i' = chunks i @ ps"
proof (induction ps arbitrary: i)
  case (Cons p ps)
  then obtain i1 where i1: "append_raw i (fst p) (snd p) = Inr i1"
    and rest: "foldR (\<lambda>i pn. append_raw i (fst pn) (snd pn)) i1 ps = Inr i'"
    by (auto simp: bindR_Inr_conv)
  from append_adds [OF Cons.prems(2) i1] Cons.IH [OF rest] show ?case by simp
qed simp

lemma built_input:
  assumes "create nm dims dt = Inr i" and "foldR (\<lambda>i pn. append_raw i (fst pn) (snd pn)) i ps = Inr i'"
  shows "wf i' \<and> name_of i' = nm \<and> chunks i' = ps"
  using append_all [OF assms(2)] create_new [OF assms(1)] by simp

end

lemma new_input_facts [simp]:
  "buffers_wf (new_input k nm dims dt)" "ii_name (new_input k nm dims dt) = nm" "input_chunks (new_input k nm dims dt) = []"
  by (simp_all add: new_input_def buffers_wf_def input_chunks_def)

lemma size_counted_append: "size_counted i \<Longrightarrow> size_counted (append_buffer p n i)"
  by (simp add: size_counted_def append_buffer_def)

lemma append_buffer_facts:
  assumes "buffers_wf i"
  shows "buffers_wf (append_buffer p n i) \<and> ii_name (append_buffer p n i) = ii_name i \<and>
    input_chunks (append_buffer p n i) = input_chunks i @ [(p, n)]"
  using assms by (simp add: append_buffer_def buffers_wf_def input_chunks_def)

interpretation tfs_input: input_backend tfs_Create tfs_AppendRaw ii_name input_chunks buffers_wf
  by unfold_locales (auto simp: tfs_Create_def tfs_AppendRaw_def dest: append_buffer_facts)

interpretation ts_input: input_backend "ts_Create g" ts_AppendRaw ii_name input_chunks buffers_wf for g
  by unfold_locales
    (auto simp: ts_Create_def ts_AppendRaw_def new_input_def buffers_wf_def append_buffer_def input_chunks_def)

interpretation dgrpc_input: input_backend dgrpc_Create dgrpc_AppendRaw ii_name input_chunks buffers_wf
  by unfold_locales (auto simp: dgrpc_Create_def dgrpc_AppendRaw_def dest: append_buffer_facts split: if_splits)

lemma buffers_wf_data_str: "buffers_wf (i\<lparr>data_str := s\<rparr>) = buffers_wf i"
  by (simp add: buffers_wf_def)

interpretation openai_input: input_backend openai_Create openai_AppendRaw ii_name input_chunks buffers_wf
proof
  show "buffers_wf i' \<and> ii_name i' = ii_name i \<and> input_chunks i' = input_chunks i @ [(p, n)]"
    if "buffers_wf i" and "openai_AppendRaw i p n = Inr i'" for i p n i'
    using that append_buffer_facts [of "i\<lparr>data_str := []\<rparr>" p n]
    by (auto simp: openai_AppendRaw_def buffers_wf_data_str) (simp add: input_chunks_def)
qed (auto simp: openai_Create_def)

section \<open>What is sent\<close>

definition chunk_bytes :: "bytes option \<times> nat \<Rightarrow> bytes" where
  "chunk_bytes c = (case fst c of None \<Rightarrow> [] | Some m \<Rightarrow> take (snd c) m)"

definition readable :: "bytes option \<times> nat \<Rightarrow> bool" where
  "readable c \<longleftrightarrow> (case fst c of None \<Rightarrow> False | Some m \<Rightarrow> snd c \<le> length m)"

lemma readable_conv: "readable (p, n) \<longleftrightarrow> (\<exists>m. p = Some m \<and> n \<le> length m)"
  by (auto simp: readable_def split: option.split)

lemma tfs_collect_from:
  assumes "buffers_wf i" and "list_all readable (input_chunks i)" and "bufs_idx i = Some k" and "k \<le> length (bufs i)"
  shows "\<exists>i'. tfs_collect i acc = Inr (acc @ concat (map chunk_bytes (drop k (input_chunks i))), i') \<and>
    bufs i' = bufs i \<and> buf_byte_sizes i' = buf_byte_sizes i"
  using assms
proof (induction "length (bufs i) - k" arbitrary: i k acc)
  case 0
  then have "tfs_GetNext i = Inr ((None, 0, True), i)" by (simp add: tfs_GetNext_def initialized_def)
  with 0 show ?case by (subst tfs_collect.simps) (simp add: input_chunks_def)
next
  case (Suc x)
  let ?i = "i\<lparr>bufs_idx := Some (Suc k)\<rparr>"
  have k: "k < length (bufs i)" "length (buf_byte_sizes i) = length (bufs i)"
    using Suc.hyps(2) Suc.prems(1) by (simp_all add: buffers_wf_def)
  have "readable (input_chunks i ! k)" using Suc.prems(2) k by (simp add: list_all_length input_chunks_def)
  then obtain m where m: "bufs i ! k = Some m" "buf_byte_sizes i ! k \<le> length m"
    using k by (auto simp: input_chunks_def readable_conv)
  have next_buf: "tfs_GetNext i = Inr ((bufs i ! k, buf_byte_sizes i ! k, length (bufs i) \<le> Suc k), ?i)"
    using k Suc.prems(3) by (simp add: tfs_GetNext_def initialized_def)
  have drop: "drop k (input_chunks i) = (bufs i ! k, buf_byte_sizes i ! k) # drop (Suc k) (input_chunks i)"
    using k by (simp add: input_chunks_def Cons_nth_drop_Suc [symmetric])
  let ?acc = "acc @ take (buf_byte_sizes i ! k) m"
  have "\<exists>i'. tfs_collect ?i ?acc = Inr (?acc @ concat (map chunk_bytes (drop (Suc k) (input_chunks ?i))), i') \<and>
      bufs i' = bufs ?i \<and> buf_byte_sizes i' = buf_byte_sizes ?i"
    using Suc.hyps(2) Suc.prems k by (intro Suc.hyps(1)) (auto simp: buffers_wf_def input_chunks_def)
  then show ?case
    using m next_buf drop k
    by (subst tfs_collect.simps) (auto simp: mem_read_def Let_def chunk_bytes_def input_chunks_def)
qed

lemma tfs_collect_all:
  assumes "buffers_wf i" and "list_all readable (input_chunks i)"
  shows "\<exists>i'. tfs_collect (tfs_PrepareForRequest i) [] = Inr (concat (map chunk_bytes (input_chunks i)), i') \<and>
    bufs i' = bufs i \<and> buf_byte_sizes i' = buf_byte_sizes i"
  using tfs_collect_from [of "tfs_PrepareForRequest i" 0 "[]"] assms
  by (simp add: tfs_PrepareForRequest_def buffers_wf_def input_chunks_def)

lemma openai_fold:
  assumes "length sizes = length ps" and "list_all readable (zip ps sizes)" and "n \<le> length ps"
  shows "foldR (\<lambda>s k. bindR (vec_index sizes k) (\<lambda>n. bindR (mem_read (ps ! k) 0 n) (\<lambda>bs. Inr (s @ bs)))) [] [0..<n] =
    Inr (concat (map chunk_bytes (take n (zip ps sizes))))"
  using assms(3)
proof (induction n)
  case (Suc n)
  have "readable (zip ps sizes ! n)" using assms Suc.prems by (simp add: list_all_length)
  then obtain m where "ps ! n = Some m" "sizes ! n \<le> length m"
    using Suc.prems assms(1) by (auto simp: readable_conv)
  with Suc assms(1) show ?case
    by (simp add: foldR_append take_Suc_conv_app_nth mem_read_def chunk_bytes_def)
qed simp

lemma openai_body:
  assumes "buffers_wf i" and "list_all readable (input_chunks i)" and "sum_list (buf_byte_sizes i) < 2 ^ 64"
    and "data_str i = []" and "size_counted i"
  shows "\<exists>i'. openai_PrepareForRequest i = Inr i' \<and> data_str i' = concat (map chunk_bytes (input_chunks i)) \<and>
    openai_PrepareForRequest i' = Inr i'"
proof (cases "ii_byte_size i = 0")
  case True
  have "unat (word_of_nat (sum_list (buf_byte_sizes i)) :: u64) = 0"
    using True assms(5) by (simp add: size_counted_def)
  then have "sum_list (buf_byte_sizes i) = 0" using assms(3) by (simp add: unat_of_nat)
  then have "chunk_bytes c = []" if "c \<in> set (input_chunks i)" for c
    using that by (cases c) (auto simp: input_chunks_def chunk_bytes_def dest: set_zip_rightD split: option.split)
  then have "concat (map chunk_bytes (input_chunks i)) = []" by (simp add: concat_eq_Nil_conv)
  with True assms(4) show ?thesis by (simp add: openai_PrepareForRequest_def)
next
  case False
  have "length (buf_byte_sizes i) = length (bufs i)" using assms(1) by (simp add: buffers_wf_def)
  from openai_fold [OF this _ order_refl] assms(2,4) False
  have p: "openai_PrepareForRequest i = Inr (i\<lparr>data_str := concat (map chunk_bytes (input_chunks i))\<rparr>)"
    by (simp add: openai_PrepareForRequest_def input_chunks_def)
  let ?i' = "i\<lparr>data_str := concat (map chunk_bytes (input_chunks i))\<rparr>"
  have "openai_PrepareForRequest ?i' = Inr ?i'"
  proof (cases "data_str ?i' = []")
    case True
    then have "?i' = i" using assms(4) by simp
    then show ?thesis using p by simp
  qed (auto simp: openai_PrepareForRequest_def)
  with p show ?thesis by simp
qed

text \<open>A message as the generating process writes it.\<close>

definition frame_message :: "bytes \<Rightarrow> bytes" where
  "frame_message m = le_bytes 4 (length m) @ m"

definition sendable :: "bytes \<Rightarrow> bool" where
  "sendable m \<longleftrightarrow> m \<noteq> [] \<and> length m < 2 ^ 32"

lemma le_nat_frame: "sendable m \<Longrightarrow> le_nat (le_bytes 4 (length m)) = length m"
  by (intro le_nat_le_bytes) (simp add: sendable_def)

lemma read_chunks_frames:
  "list_all sendable ms \<Longrightarrow> read_chunks (concat (map frame_message ms)) = (concat (map frame_message ms), Success)"
proof (induction ms)
  case Nil
  show ?case by (subst read_chunks.simps) simp
next
  case (Cons m ms)
  then have "le_nat (le_bytes 4 (length m)) = length m" "m \<noteq> []" by (simp_all add: le_nat_frame sendable_def)
  with Cons show ?case by (subst read_chunks.simps) (simp add: frame_message_def [of m] Let_def)
qed

lemma read_messages_frames:
  assumes "list_all sendable ms"
  shows "read_messages (Some (pre @ concat (map frame_message ms))) (length pre + length (concat (map frame_message ms))) (length pre) =
    Inr (ms, length pre + length (concat (map frame_message ms)))"
  using assms
proof (induction ms arbitrary: pre)
  case Nil
  show ?case by (subst read_messages.simps) (simp add: DEFAULT_STREAM_DATA_SIZE_def)
next
  case (Cons m ms)
  let ?mem = "pre @ concat (map frame_message (m # ms))" and ?rest = "concat (map frame_message ms)"
  have m: "le_nat (le_bytes 4 (length m)) = length m" "m \<noteq> []"
    using Cons.prems by (simp_all add: le_nat_frame sendable_def)
  have "read_messages (Some ?mem) (length ?mem) (length pre + 4 + length m) = Inr (ms, length ?mem)"
    using Cons.IH [of "pre @ frame_message m"] Cons.prems by (simp add: frame_message_def [of m] add.assoc)
  moreover have "mem_read (Some ?mem) (length pre) 4 = Inr (le_bytes 4 (length m))"
    by (simp add: mem_read_def frame_message_def [of m])
  moreover have "mem_read (Some ?mem) (length pre + 4) (length m) = Inr m"
    by (simp add: mem_read_def frame_message_def [of m])
  moreover have "length pre + 4 < length ?mem" using m(2) by (simp add: frame_message_def [of m])
  ultimately have "read_messages (Some ?mem) (length ?mem) (length pre) = Inr (m # ms, length ?mem)"
    using m(1) by (subst read_messages.simps) (simp only: DEFAULT_STREAM_DATA_SIZE_def if_True bindR.simps Let_def prod.case)
  then show ?case by simp
qed

section \<open>Properties\<close>

text \<open>
  C28: Messages are sent as they were generated. When a process writes length-prefixed messages,
  none of them empty, the loader accepts its whole output, and the dynamic gRPC input that is
  made from it yields exactly those messages, for every request anew.
\<close>

theorem generated_messages_are_sent:
  assumes "list_all sendable ms" and "outputs command = Some (concat (map frame_message ms))"
    and "map_wf (input_data d)" and "map_find (input_data d) key = None"
    and "ReadDataFromPipe outputs command key d = (err, d')" and "ms \<noteq> []"
  shows "err = Success \<and> (\<exists>data. map_find (input_data d') key = Some data \<and>
    (\<exists>i j. dgrpc_Create nm dims dt = Inr i \<and> dgrpc_AppendRaw i (Some data) (length data) = Inr j \<and>
      (\<exists>j1 j2. GetSerializedMessages (dgrpc_PrepareForRequest j) = Inr (ms, j1) \<and>
        GetSerializedMessages (dgrpc_PrepareForRequest j1) = Inr (ms, j2))))"
proof -
  let ?data = "concat (map frame_message ms)"
  have d': "err = Success" "input_data d' = map_append key ?data (input_data d)"
    using assms(2,5) read_chunks_frames [OF assms(1)] by (auto simp: ReadDataFromPipe_def)
  then have find: "map_find (input_data d') key = Some ?data"
    using assms(3,4) by (simp add: map_append_def map_get_def)
  let ?i = "new_input DYNAMIC_GRPC nm dims dt"
  let ?j = "append_buffer (Some ?data) (length ?data) ?i"
  let ?used = "(dgrpc_PrepareForRequest ?j)\<lparr>buf_pos := Some (length ?data)\<rparr>"
  have "dgrpc_Create nm dims dt = Inr ?i" "dgrpc_AppendRaw ?i (Some ?data) (length ?data) = Inr ?j"
    by (simp_all add: dgrpc_Create_def dgrpc_AppendRaw_def new_input_def)
  moreover have "GetSerializedMessages (dgrpc_PrepareForRequest j) = Inr (ms, (dgrpc_PrepareForRequest j)\<lparr>buf_pos := Some (length ?data)\<rparr>)"
    if "bufs j = [Some ?data]" and "buf_byte_sizes j = [length ?data]" for j
    using that read_messages_frames [OF assms(1), of "[]"]
    by (simp add: GetSerializedMessages_def dgrpc_PrepareForRequest_def initialized_def)
  from this [of ?j] this [of ?used]
  have "GetSerializedMessages (dgrpc_PrepareForRequest ?j) = Inr (ms, ?used)"
    and "\<exists>j2. GetSerializedMessages (dgrpc_PrepareForRequest ?used) = Inr (ms, j2)"
    by (auto simp: append_buffer_def new_input_def dgrpc_PrepareForRequest_def)
  ultimately show ?thesis using d'(1) find by blast
qed

theorem generated_messages_are_sent_witness:
  "\<exists>d'. ReadDataFromPipe (\<lambda>_. Some [2, 0, 0, 0, 7, 8, 1, 0, 0, 0, 9]) ''gen'' ''k'' (DataLoader 1) = (Success, d') \<and>
    (\<exists>data. map_find (input_data d') ''k'' = Some data \<and>
      (\<exists>i j j1. dgrpc_Create ''n'' [1] ''BYTES'' = Inr i \<and> dgrpc_AppendRaw i (Some data) (length data) = Inr j \<and>
        GetSerializedMessages (dgrpc_PrepareForRequest j) = Inr ([[7, 8], [9]], j1)))"
proof -
  have pipe: "concat (map frame_message [[7, 8], [9]]) = [2, 0, 0, 0, 7, 8, 1, 0, 0, 0, 9]"
    by code_simp
  obtain err d' where r: "ReadDataFromPipe (\<lambda>_. Some [2, 0, 0, 0, 7, 8, 1, 0, 0, 0, 9]) ''gen'' ''k'' (DataLoader 1) = (err, d')"
    by fastforce
  with generated_messages_are_sent [of "[[7, 8], [9]]" "\<lambda>_. Some [2, 0, 0, 0, 7, 8, 1, 0, 0, 0, 9]" "''gen''" "DataLoader 1" "''k''" err d'
      "''n''" "[1]" "''BYTES''"] pipe
  show ?thesis by (auto simp: sendable_def DataLoader_def)
qed

end
