(* ===== verification/Infer_Data_Manager.thy ===== *)
theory Infer_Data_Manager
  imports Infer_Input Sequence_Manager
begin

text \<open>
  \<open>InferDataManager\<close> (\<open>infer_data_manager_base.cc\<close>, \<open>infer_data_manager.cc\<close>): the inputs of all
  requests, made once for every thread, input, stream and step from the data of the loader, and
  the selection of those a request uses. The operations on an input are a parameter
  (\<open>input_ops\<close>), as they depend on the backend; pointers to inputs are modelled by their
  values, since an input does not change once it has been filled. An operation that fails
  midway leaves its \<open>InferData\<close> partly filled: these operations return their status and the
  data side by side.
\<close>

section \<open>Data\<close>

record request_parameter =
  rp_name :: string
  rp_value :: string
  rp_type :: string

record infer_options =
  io_model_name :: string
  io_model_version :: string
  io_model_signature_name :: string
  io_request_id :: string
  io_sequence :: seq_options
  io_request_parameters :: "(string, request_parameter) std_map"

definition InferOptions :: "string \<Rightarrow> infer_options" where
  "InferOptions model_name = \<lparr>io_model_name = model_name, io_model_version = '''',
     io_model_signature_name = '''', io_request_id = '''',
     io_sequence = \<lparr>sequence_start = False, sequence_id = 0, sequence_end = False\<rparr>,
     io_request_parameters = []\<rparr>"

record 'i infer_data =
  id_inputs :: "'i list"
  valid_inputs :: "'i list"
  id_outputs :: "(string \<times> string) list"
  expected_outputs :: "tensor_data list list"
  id_options :: infer_options

text \<open>The operations of the inputs, and the creation of a requested output.\<close>

record 'i input_ops =
  in_create :: "string \<Rightarrow> int list \<Rightarrow> string \<Rightarrow> cb_error + 'i"
  in_append :: "'i \<Rightarrow> bytes option \<Rightarrow> nat \<Rightarrow> cb_error + 'i"
  in_name :: "'i \<Rightarrow> string"
  in_datatype :: "'i \<Rightarrow> string"
  in_raw :: "'i \<Rightarrow> exn + cb_error + bytes option \<times> nat"
  out_create :: "string \<Rightarrow> string \<Rightarrow> cb_error + unit"

record 'i infer_data_manager =
  dm_batch_size :: nat
  dm_max_batch_size :: nat
  dm_kind :: backend_kind
  dm_model_inputs :: model_tensor_map
  dm_model_outputs :: model_tensor_map
  dm_data_loader :: data_loader
  dm_request_parameters :: "(string, request_parameter) std_map"
  dm_max_threads :: nat
  dm_inputs :: "(nat \<times> string \<times> int \<times> int, 'i) std_map"

section \<open>Data of a batch\<close>

text \<open>
  \<open>(step_id + count) % GetTotalSteps(stream_id)\<close>, computed in \<open>size_t\<close> and stored in an \<open>int\<close>.
\<close>

definition local_step :: "int \<Rightarrow> nat \<Rightarrow> nat \<Rightarrow> exn + int" where
  "local_step step_id cnt total_steps =
     (if total_steps = 0 then Inl DivideByZero
      else Inr (cast_int (unat (word_of_int (step_id + int cnt) :: u64) mod total_steps)))"

text \<open>\<open>std::equal\<close> reads as many elements of the second range as the first one has.\<close>

definition std_equal :: "'a list \<Rightarrow> 'a list \<Rightarrow> exn + bool" where
  "std_equal xs ys =
     (if length xs \<le> length ys then Inr (xs = take (length xs) ys)
      else if take (length ys) xs \<noteq> ys then Inr False
      else Inl (UndefinedBehaviour ''read past the end''))"

definition batch_shape_error :: "string \<Rightarrow> int list \<Rightarrow> int list \<Rightarrow> failure" where
  "batch_shape_error name prev_shape shape = Fails (generic_error
     (''can not batch tensors with different shapes together (input '' @ [CHR 0x27] @ name @ [CHR 0x27] @
      '' expected shape '' @ ShapeVecToString prev_shape False @ '' and received '' @ ShapeVecToString shape False))"

fun batch_data :: "string \<Rightarrow> model_tensor \<Rightarrow> int \<Rightarrow> int \<Rightarrow> nat list \<Rightarrow> int list \<Rightarrow> data_loader \<Rightarrow>
    failure + tensor_data list" where
  "batch_data name t stream_id step_id [] prev_shape d = Inr []"
| "batch_data name t stream_id step_id (cnt # cnts) prev_shape d =
     bindR (liftE (bindR (GetTotalSteps (nat stream_id) d) (local_step step_id cnt))) (\<lambda>k.
     let shape = GetInputShape t stream_id k d in
     bindR (if shape \<noteq> [] \<and> cnt \<noteq> 0 then
              bindR (liftE (std_equal shape prev_shape)) (\<lambda>eq.
                if eq then Inr prev_shape else Inl (batch_shape_error name prev_shape shape))
            else Inr (if shape \<noteq> [] then shape else prev_shape)) (\<lambda>prev'.
     bindR (GetInputData t stream_id k d) (\<lambda>td.
     bindR (batch_data name t stream_id step_id cnts prev' d) (\<lambda>tds. Inr (td # tds)))))"

definition base_GetInputData :: "string \<Rightarrow> model_tensor \<Rightarrow> int \<Rightarrow> int \<Rightarrow> 'i infer_data_manager \<Rightarrow>
    failure + tensor_data list" where
  "base_GetInputData name t stream_id step_id m =
     batch_data name t stream_id step_id
       [0..<(if is_shape_tensor t then 1 else dm_batch_size m)] [] (dm_data_loader m)"

definition ValidateShapeTensor :: "model_tensor \<Rightarrow> int \<Rightarrow> int \<Rightarrow> tensor_data list \<Rightarrow> 'i infer_data_manager \<Rightarrow>
    failure + unit" where
  "ValidateShapeTensor t stream_id step_id input_datas m =
     foldR (\<lambda>_ cnt.
       bindR (liftE (bindR (GetTotalSteps (nat stream_id) (dm_data_loader m)) (local_step step_id cnt))) (\<lambda>k.
       bindR (GetInputData t stream_id k (dm_data_loader m)) (\<lambda>td.
         if input_datas = [] then Inl (Throws (UndefinedBehaviour ''back of an empty vector''))
         else if batch1_size td \<noteq> batch1_size (last input_datas) then
           Inl (Fails (generic_error
             ''The shape tensors should be identical in a batch (mismatch in size)''))
         else
           bindR (liftE (mem_read (data_ptr td) 0 (batch1_size td))) (\<lambda>a.
           bindR (liftE (mem_read (data_ptr (last input_datas)) 0 (batch1_size td))) (\<lambda>b.
             if a \<noteq> b then Inl (Fails (generic_error
               ''The shape tensors should be identical in a batch (mismatch in content)''))
             else Inr ()))))) () [1..<dm_batch_size m]"

section \<open>Making the inputs\<close>

definition batched_shape :: "model_tensor \<Rightarrow> int list \<Rightarrow> 'i infer_data_manager \<Rightarrow> int list" where
  "batched_shape t shape m =
     (if dm_max_batch_size m \<noteq> 0 \<and> \<not> is_shape_tensor t then int (dm_batch_size m) # shape else shape)"

definition CreateAndPopulateInput :: "'i input_ops \<Rightarrow> nat \<Rightarrow> string \<Rightarrow> model_tensor \<Rightarrow> int \<Rightarrow> int \<Rightarrow>
    'i infer_data_manager \<Rightarrow> failure + 'i infer_data_manager" where
  "CreateAndPopulateInput ops thread name t stream_id step_id m =
     bindR (base_GetInputData name t stream_id step_id m) (\<lambda>input_datas.
     bindR (if is_shape_tensor t then ValidateShapeTensor t stream_id step_id input_datas m else Inr ()) (\<lambda>_.
     let shape0 = GetInputShape t stream_id step_id (dm_data_loader m);
         shape = (if shape0 \<noteq> [] then batched_shape t shape0 m else shape0)
     in
     bindR (liftC (in_create ops name shape (mt_datatype t))) (\<lambda>input0.
     bindR (foldR (\<lambda>i td. liftC (in_append ops i (data_ptr td) (batch1_size td))) input0
              (filter is_valid input_datas)) (\<lambda>input.
       let missing_data_cnt = length (filter (\<lambda>td. \<not> is_valid td) input_datas)
       in if missing_data_cnt = 0 then
            Inr (m\<lparr>dm_inputs := map_emplace (thread, name, stream_id, step_id) input (dm_inputs m)\<rparr>)
          else if missing_data_cnt < length input_datas then
            Inl (Fails (generic_error (''For batch sizes larger than 1, the same set of inputs must be '' @
              ''specified for each batch. You cannot use different set of optional inputs for each individual batch.'')))
          else Inr m))))"

text \<open>All combinations of a thread, an input, a stream and a step.\<close>

definition populate_stream :: "'i input_ops \<Rightarrow> nat \<Rightarrow> string \<times> model_tensor \<Rightarrow> 'i infer_data_manager \<Rightarrow> nat \<Rightarrow>
    failure + 'i infer_data_manager" where
  "populate_stream ops thread io m stream_id =
     bindR (liftE (GetTotalSteps stream_id (dm_data_loader m))) (\<lambda>n.
       foldR (\<lambda>m k. CreateAndPopulateInput ops thread (fst io) (snd io) (int stream_id) (int k) m)
         m [0..<nat (cast_int n)])"

definition CreateAndPopulateInputs :: "'i input_ops \<Rightarrow> 'i infer_data_manager \<Rightarrow> failure + 'i infer_data_manager" where
  "CreateAndPopulateInputs ops m =
     foldR (\<lambda>m thread. foldR (\<lambda>m io. foldR (populate_stream ops thread io) m
         [0..<nat (cast_int (GetDataStreamsCount (dm_data_loader m)))])
       m (dm_model_inputs m)) m [0..<dm_max_threads m]"

definition dm_Init :: "'i input_ops \<Rightarrow> 'i infer_data_manager \<Rightarrow> failure + 'i infer_data_manager" where
  "dm_Init ops m = CreateAndPopulateInputs ops m"

definition GetInput :: "nat \<Rightarrow> string \<Rightarrow> int \<Rightarrow> int \<Rightarrow> 'i infer_data_manager \<Rightarrow> 'i option" where
  "GetInput thread name stream_id step_id m = map_find (dm_inputs m) (thread, name, stream_id, step_id)"

section \<open>The data of a context\<close>

fun append_times :: "'i input_ops \<Rightarrow> nat \<Rightarrow> bytes option \<Rightarrow> nat \<Rightarrow> 'i \<Rightarrow> (failure + unit) \<times> 'i" where
  "append_times ops 0 p n i = (Inr (), i)"
| "append_times ops (Suc k) p n i =
     (case in_append ops i p n of
        Inl e \<Rightarrow> (Inl (Fails e), i)
      | Inr i' \<Rightarrow> append_times ops k p n i')"

definition InitInferDataInput :: "'i input_ops \<Rightarrow> string \<Rightarrow> model_tensor \<Rightarrow> 'i infer_data_manager \<Rightarrow>
    'i infer_data \<Rightarrow> (failure + unit) \<times> 'i infer_data" where
  "InitInferDataInput ops name t m x =
     (let shape0 = GetInputShape t 0 0 (dm_data_loader m)
      in if shape0 = [] \<and> dm_kind m = TRITON then
           (Inl (Fails (generic_error ''unable to set shape for the input'')), x)
         else
           let shape = batched_shape t shape0 m
           in case in_create ops name shape (mt_datatype t) of
                Inl e \<Rightarrow> (Inl (Fails e), x)
              | Inr i \<Rightarrow>
                  (case GetInputData t 0 0 (dm_data_loader m) of
                     Inl e \<Rightarrow> (Inl e, x\<lparr>id_inputs := id_inputs x @ [i]\<rparr>)
                   | Inr td \<Rightarrow>
                       let max_count = (if shape = [] then 0
                                        else if dm_max_batch_size m = 0 then 1 else dm_batch_size m);
                           (st, i') = append_times ops max_count (data_ptr td) (batch1_size td) i;
                           x' = x\<lparr>id_inputs := id_inputs x @ [i'],
                                  valid_inputs := valid_inputs x @ (if is_valid td then [i'] else [])\<rparr>
                       in (st, case st of
                                 Inl _ \<Rightarrow> x'
                               | Inr _ \<Rightarrow> x'\<lparr>id_options := (id_options x')
                                   \<lparr>io_request_parameters := dm_request_parameters m\<rparr>\<rparr>)))"

definition InitInferDataOutput :: "'i input_ops \<Rightarrow> string \<Rightarrow> model_tensor \<Rightarrow> 'i infer_data \<Rightarrow>
    (failure + unit) \<times> 'i infer_data" where
  "InitInferDataOutput ops name t x =
     (case out_create ops name (mt_datatype t) of
        Inl e \<Rightarrow> (Inl (Fails e), x)
      | Inr _ \<Rightarrow> (Inr (), x\<lparr>id_outputs := id_outputs x @ [(name, mt_datatype t)]\<rparr>))"

text \<open>A loop whose body returns a status beside the state, and that the first error ends.\<close>

fun each_ok :: "('a \<Rightarrow> 's \<Rightarrow> (failure + unit) \<times> 's) \<Rightarrow> 'a list \<Rightarrow> 's \<Rightarrow> (failure + unit) \<times> 's" where
  "each_ok f [] s = (Inr (), s)"
| "each_ok f (a # as) s =
     (let (st, s') = f a s in case st of Inl e \<Rightarrow> (Inl e, s') | Inr _ \<Rightarrow> each_ok f as s')"

definition InitInferData :: "'i input_ops \<Rightarrow> 'i infer_data_manager \<Rightarrow> 'i infer_data \<Rightarrow>
    (failure + unit) \<times> 'i infer_data" where
  "InitInferData ops m x =
     (let (st, x') = each_ok (\<lambda>(name, t). InitInferDataInput ops name t m) (dm_model_inputs m) x
      in case st of
           Inl e \<Rightarrow> (Inl e, x')
         | Inr _ \<Rightarrow> each_ok (\<lambda>(name, t). InitInferDataOutput ops name t) (dm_model_outputs m) x')"

definition UpdateInputs :: "'i input_ops \<Rightarrow> nat \<Rightarrow> int \<Rightarrow> int \<Rightarrow> 'i infer_data_manager \<Rightarrow> 'i infer_data \<Rightarrow>
    'i infer_data" where
  "UpdateInputs ops thread stream_index step_index m x =
     x\<lparr>valid_inputs := List.map_filter (\<lambda>i. GetInput thread (in_name ops i) stream_index step_index m) (id_inputs x)\<rparr>"

text \<open>The batch of expected outputs: it ends at the first missing one.\<close>

fun batch_outputs :: "string \<Rightarrow> bool \<Rightarrow> int \<Rightarrow> int \<Rightarrow> nat list \<Rightarrow> data_loader \<Rightarrow> failure + tensor_data list" where
  "batch_outputs name shape_tensor stream_index step_index [] d = Inr []"
| "batch_outputs name shape_tensor stream_index step_index (i # is) d =
     bindR (liftE (bindR (GetTotalSteps 0 d) (local_step step_index i))) (\<lambda>k.
     bindR (GetOutputData name stream_index k d) (\<lambda>td.
       if \<not> is_valid td then Inr []
       else if shape_tensor then Inr [td]
       else bindR (batch_outputs name shape_tensor stream_index step_index is d) (\<lambda>tds. Inr (td # tds))))"

definition shape_output :: "string \<Rightarrow> 'i infer_data_manager \<Rightarrow> bool" where
  "shape_output name m =
     (case map_find (dm_model_outputs m) name of Some t \<Rightarrow> is_shape_tensor t | None \<Rightarrow> False)"

definition UpdateValidationOutputs :: "int \<Rightarrow> int \<Rightarrow> 'i infer_data_manager \<Rightarrow> 'i infer_data \<Rightarrow>
    (failure + unit) \<times> 'i infer_data" where
  "UpdateValidationOutputs stream_index step_index m x =
     (case ValidateIndexes stream_index step_index (dm_data_loader m) of
        Inl e \<Rightarrow> (Inl e, x)
      | Inr _ \<Rightarrow>
          each_ok (\<lambda>(name, dt) x.
            case batch_outputs name (shape_output name m) stream_index step_index
                   [0..<dm_batch_size m] (dm_data_loader m) of
              Inl e \<Rightarrow> (Inl e, x)
            | Inr [] \<Rightarrow> (Inr (), x)
            | Inr tds \<Rightarrow> (Inr (), x\<lparr>expected_outputs := expected_outputs x @ [tds]\<rparr>))
            (id_outputs x) (x\<lparr>expected_outputs := []\<rparr>))"

definition UpdateInferData :: "'i input_ops \<Rightarrow> nat \<Rightarrow> int \<Rightarrow> int \<Rightarrow> 'i infer_data_manager \<Rightarrow> 'i infer_data \<Rightarrow>
    (failure + unit) \<times> 'i infer_data" where
  "UpdateInferData ops thread stream_index step_index m x =
     (case ValidateIndexes stream_index step_index (dm_data_loader m) of
        Inl e \<Rightarrow> (Inl e, x)
      | Inr _ \<Rightarrow>
          UpdateValidationOutputs stream_index step_index m
            (UpdateInputs ops thread stream_index step_index m x))"

section \<open>The inputs of the backends\<close>

text \<open>
  The inputs of the backends in the repository. A requested output wraps one of the Triton
  client library (\<open>oc\<close>), except for TorchServe, for which none can be created.
\<close>

definition tfs_ops :: "(string \<Rightarrow> string \<Rightarrow> cb_error + unit) \<Rightarrow> infer_input input_ops" where
  "tfs_ops oc = \<lparr>in_create = tfs_Create, in_append = tfs_AppendRaw, in_name = ii_name,
     in_datatype = ii_datatype, in_raw = (\<lambda>_. Inr (Inl (unsupported TENSORFLOW_SERVING ''RawData() for InferInput''))), out_create = oc\<rparr>"

definition ts_ops :: "u64 \<Rightarrow> infer_input input_ops" where
  "ts_ops g = \<lparr>in_create = ts_Create g, in_append = ts_AppendRaw, in_name = ii_name,
     in_datatype = ii_datatype, in_raw = (\<lambda>_. Inr (Inl (unsupported TORCHSERVE ''RawData() for InferInput''))),
     out_create = (\<lambda>_ _. Inl (generic_error
       ''unsupported client backend provided to create InferRequestedOutput object''))\<rparr>"

definition openai_ops :: "(string \<Rightarrow> string \<Rightarrow> cb_error + unit) \<Rightarrow> infer_input input_ops" where
  "openai_ops oc = \<lparr>in_create = openai_Create, in_append = openai_AppendRaw, in_name = ii_name,
     in_datatype = ii_datatype, in_raw = (\<lambda>i. bindR (openai_RawData i) (\<lambda>r. Inr (Inr r))), out_create = oc\<rparr>"

definition dgrpc_ops :: "(string \<Rightarrow> string \<Rightarrow> cb_error + unit) \<Rightarrow> infer_input input_ops" where
  "dgrpc_ops oc = \<lparr>in_create = dgrpc_Create, in_append = dgrpc_AppendRaw, in_name = ii_name,
     in_datatype = ii_datatype, in_raw = (\<lambda>_. Inr (Inl (unsupported DYNAMIC_GRPC ''RawData() for InferInput''))), out_create = oc\<rparr>"

section \<open>What the inputs hold\<close>

definition td_chunk :: "tensor_data \<Rightarrow> bytes option \<times> nat" where
  "td_chunk td = (data_ptr td, batch1_size td)"

text \<open>What the manager reads and never changes.\<close>

definition same_config :: "'i infer_data_manager \<Rightarrow> 'i infer_data_manager \<Rightarrow> bool" where
  "same_config m m' \<longleftrightarrow> (\<exists>x. m' = m\<lparr>dm_inputs := x\<rparr>)"

lemma same_config_facts:
  assumes "same_config m m'"
  shows "dm_data_loader m' = dm_data_loader m" and "dm_model_inputs m' = dm_model_inputs m"
    and "dm_max_threads m' = dm_max_threads m"
    and "base_GetInputData nm t s k m' = base_GetInputData nm t s k m"
proof -
  obtain x where "m' = m\<lparr>dm_inputs := x\<rparr>" using assms unfolding same_config_def by blast
  then show "dm_data_loader m' = dm_data_loader m" and "dm_model_inputs m' = dm_model_inputs m"
    and "dm_max_threads m' = dm_max_threads m"
    and "base_GetInputData nm t s k m' = base_GetInputData nm t s k m"
    by (simp_all add: base_GetInputData_def)
qed

text \<open>A loop over a list whose steps each establish something that later steps keep.\<close>

lemma foldR_establish:
  assumes "foldR f s xs = Inr s'" and "J s"
    and "\<And>s x s'. x \<in> set xs \<Longrightarrow> J s \<Longrightarrow> f s x = Inr s' \<Longrightarrow> J s' \<and> Q x s' \<and> le s s'"
    and "\<And>x s s'. Q x s \<Longrightarrow> le s s' \<Longrightarrow> Q x s'" and "\<And>s. le s s" and "\<And>a b c. le a b \<Longrightarrow> le b c \<Longrightarrow> le a c"
  shows "J s' \<and> le s s' \<and> (\<forall>x \<in> set xs. Q x s')"
  using assms(1-3)
proof (induction xs arbitrary: s)
  case Nil
  then show ?case using assms(5) by simp
next
  case (Cons x xs)
  from Cons.prems(1) obtain s1 where s1: "f s x = Inr s1" and rest: "foldR f s1 xs = Inr s'"
    by (auto simp: bindR_Inr_conv)
  have x: "J s1 \<and> Q x s1 \<and> le s s1" using Cons.prems(2) s1 by (intro Cons.prems(3)) auto
  then have "J s' \<and> le s1 s' \<and> (\<forall>x \<in> set xs. Q x s')"
    using Cons.prems(3) by (intro Cons.IH [OF rest]) auto
  with x show ?case using assms(4,6) by auto
qed

definition grows :: "'i infer_data_manager \<Rightarrow> 'i infer_data_manager \<Rightarrow> bool" where
  "grows m m' \<longleftrightarrow> (\<forall>thread nm s k. GetInput thread nm s k m \<noteq> None \<longrightarrow> GetInput thread nm s k m' \<noteq> None)"

text \<open>At a position without an input no element of the batch has data.\<close>

definition absent_ok :: "'i infer_data_manager \<Rightarrow> nat \<Rightarrow> string \<times> model_tensor \<Rightarrow> int \<Rightarrow> int \<Rightarrow>
    'i infer_data_manager \<Rightarrow> bool" where
  "absent_ok m0 thread io s k m \<longleftrightarrow> GetInput thread (fst io) s k m = None \<longrightarrow>
     (\<exists>tds. base_GetInputData (fst io) (snd io) s k m0 = Inr tds \<and> list_all (\<lambda>td. \<not> is_valid td) tds)"

lemma absent_ok_grows: "absent_ok m0 thread io s k m \<Longrightarrow> grows m m' \<Longrightarrow> absent_ok m0 thread io s k m'"
  unfolding absent_ok_def grows_def by blast

lemma grows_refl: "grows m m"
  by (simp add: grows_def)

lemma grows_trans: "grows a b \<Longrightarrow> grows b c \<Longrightarrow> grows a c"
  by (simp add: grows_def)

locale backend_ops = input_backend "in_create ops" "in_append ops" "in_name ops" chunks wf
  for ops :: "'i input_ops" and chunks and wf
begin

definition holds_batch :: "'i infer_data_manager \<Rightarrow> string \<times> model_tensor \<Rightarrow> int \<Rightarrow> int \<Rightarrow> 'i \<Rightarrow> bool" where
  "holds_batch m io s k i \<longleftrightarrow> wf i \<and> in_name ops i = fst io \<and>
     (\<exists>tds. base_GetInputData (fst io) (snd io) s k m = Inr tds \<and> list_all is_valid tds \<and>
       chunks i = map td_chunk tds)"

definition inputs_sound :: "'i infer_data_manager \<Rightarrow> 'i infer_data_manager \<Rightarrow> bool" where
  "inputs_sound m0 m \<longleftrightarrow> same_config m0 m \<and> map_wf (dm_inputs m) \<and>
     (\<forall>io \<in> set (dm_model_inputs m0). \<forall>thread s k i.
        GetInput thread (fst io) s k m = Some i \<longrightarrow> holds_batch m0 io s k i)"

lemma append_chunks:
  "foldR (\<lambda>i td. liftC (in_append ops i (data_ptr td) (batch1_size td))) i tds = Inr i' \<Longrightarrow> wf i \<Longrightarrow>
     wf i' \<and> in_name ops i' = in_name ops i \<and> chunks i' = chunks i @ map td_chunk tds"
proof (induction tds arbitrary: i)
  case (Cons td tds)
  then obtain i1 where i1: "in_append ops i (data_ptr td) (batch1_size td) = Inr i1"
    and rest: "foldR (\<lambda>i td. liftC (in_append ops i (data_ptr td) (batch1_size td))) i1 tds = Inr i'"
    by (auto simp: bindR_Inr_conv)
  from append_adds [OF Cons.prems(2) i1] Cons.IH [OF rest] show ?case by (simp add: td_chunk_def)
qed simp

lemma populate_cases:
  assumes "CreateAndPopulateInput ops thread (fst io) (snd io) s k m = Inr m'"
  obtains (made) i where "m' = m\<lparr>dm_inputs := map_emplace (thread, fst io, s, k) i (dm_inputs m)\<rparr>" "holds_batch m io s k i"
  | (missing) tds where "m' = m" "base_GetInputData (fst io) (snd io) s k m = Inr tds" "list_all (\<lambda>td. \<not> is_valid td) tds"
proof -
  let ?shape0 = "GetInputShape (snd io) s k (dm_data_loader m)"
  let ?shape = "if ?shape0 \<noteq> [] then batched_shape (snd io) ?shape0 m else ?shape0"
  from assms obtain tds i0 i where tds: "base_GetInputData (fst io) (snd io) s k m = Inr tds"
    and i0: "in_create ops (fst io) ?shape (mt_datatype (snd io)) = Inr i0"
    and i: "foldR (\<lambda>i td. liftC (in_append ops i (data_ptr td) (batch1_size td))) i0 (filter is_valid tds) = Inr i"
    and res: "(if length (filter (\<lambda>td. \<not> is_valid td) tds) = 0 then
        Inr (m\<lparr>dm_inputs := map_emplace (thread, fst io, s, k) i (dm_inputs m)\<rparr>)
      else if length (filter (\<lambda>td. \<not> is_valid td) tds) < length tds then
        Inl (Fails (generic_error (''For batch sizes larger than 1, the same set of inputs must be '' @
              ''specified for each batch. You cannot use different set of optional inputs for each individual batch.'')))
      else Inr m) = Inr m'"
    unfolding CreateAndPopulateInput_def bindR_Inr_conv Let_def liftC_Inr_conv by blast
  have built: "wf i \<and> in_name ops i = fst io \<and> chunks i = map td_chunk (filter is_valid tds)"
    using append_chunks [OF i] create_new [OF i0] by simp
  show ?thesis
  proof (cases "list_all is_valid tds")
    case True
    then have "filter is_valid tds = tds" "filter (\<lambda>td. \<not> is_valid td) tds = []"
      by (simp_all add: list_all_iff filter_id_conv filter_empty_conv)
    with built True tds res show ?thesis by (intro made [of i]) (auto simp: holds_batch_def)
  next
    case False
    then have "filter (\<lambda>td. \<not> is_valid td) tds \<noteq> []" by (simp add: list_all_iff filter_empty_conv)
    with res have "m' = m" and "\<not> length (filter (\<lambda>td. \<not> is_valid td) tds) < length tds" by (simp_all split: if_splits)
    then have "list_all (\<lambda>td. \<not> is_valid td) tds"
      by (metis (mono_tags, lifting) length_filter_less list_all_iff)
    with \<open>m' = m\<close> tds show ?thesis by (intro missing)
  qed
qed

lemma populate_step:
  assumes "CreateAndPopulateInput ops thread (fst io) (snd io) s k m = Inr m'"
    and "inputs_sound m0 m" and "io \<in> set (dm_model_inputs m0)" and "distinct (map fst (dm_model_inputs m0))"
  shows "inputs_sound m0 m' \<and> absent_ok m0 thread io s k m' \<and> grows m m'"
  using assms(1)
proof (cases rule: populate_cases)
  case (made i)
  have same: "same_config m0 m" and mwf: "map_wf (dm_inputs m)" using assms(2) by (simp_all add: inputs_sound_def)
  have get: "GetInput th nm s' k' m' = (case GetInput th nm s' k' m of None \<Rightarrow>
      if (th, nm, s', k') = (thread, fst io, s, k) then Some i else None | Some j \<Rightarrow> Some j)" for th nm s' k'
    using mwf by (simp add: made(1) GetInput_def)
  have hold: "holds_batch m0 io s k i" using made(2) same_config_facts(4) [OF same] by (simp add: holds_batch_def)
  have "holds_batch m0 jo s' k' j"
    if "jo \<in> set (dm_model_inputs m0)" and "GetInput th (fst jo) s' k' m' = Some j" for jo th s' k' j
  proof (cases "GetInput th (fst jo) s' k' m")
    case None
    with that(2) have "fst jo = fst io" "s' = s" "k' = k" "j = i" by (simp_all add: get split: if_splits)
    moreover from this(1) have "jo = io" using assms(3,4) that(1) by (metis distinct_map inj_onD)
    ultimately show ?thesis using hold by simp
  next
    case (Some j')
    with that assms(2) show ?thesis by (auto simp: get inputs_sound_def)
  qed
  moreover have "same_config m0 m'" using same made(1) by (auto simp: same_config_def)
  ultimately show ?thesis
    using mwf made(1) get by (auto simp: inputs_sound_def absent_ok_def grows_def split: option.splits)
next
  case (missing tds)
  have "same_config m0 m" using assms(2) by (simp add: inputs_sound_def)
  with missing assms(2) show ?thesis by (auto simp: absent_ok_def grows_refl same_config_facts(4))
qed

lemma populate_stream_step:
  assumes "populate_stream ops thread io m s = Inr m'"
    and "inputs_sound m0 m" and "io \<in> set (dm_model_inputs m0)" and "distinct (map fst (dm_model_inputs m0))"
    and "GetTotalSteps s (dm_data_loader m0) = Inr n"
  shows "inputs_sound m0 m' \<and> grows m m' \<and>
    (\<forall>k \<in> set [0..<nat (cast_int n)]. absent_ok m0 thread io (int s) (int k) m')"
proof -
  have "dm_data_loader m = dm_data_loader m0" using assms(2) by (simp add: inputs_sound_def same_config_facts)
  with assms(1,5) have "foldR (\<lambda>m k. CreateAndPopulateInput ops thread (fst io) (snd io) (int s) (int k) m)
      m [0..<nat (cast_int n)] = Inr m'"
    by (simp add: populate_stream_def)
  then show ?thesis
    by (rule foldR_establish [where J = "inputs_sound m0" and Q = "\<lambda>k. absent_ok m0 thread io (int s) (int k)" and le = grows, OF _ assms(2)])
      (erule (1) populate_step [OF _ _ assms(3,4)] absent_ok_grows grows_trans | rule grows_refl)+
qed

lemma populate_input_step:
  assumes "foldR (populate_stream ops thread io) m [0..<nat (cast_int (GetDataStreamsCount (dm_data_loader m)))] = Inr m'"
    and "inputs_sound m0 m" and "io \<in> set (dm_model_inputs m0)" and "distinct (map fst (dm_model_inputs m0))"
    and "\<forall>s < nat (cast_int (GetDataStreamsCount (dm_data_loader m0))). GetTotalSteps s (dm_data_loader m0) = Inr (steps s)"
  shows "inputs_sound m0 m' \<and> grows m m' \<and>
    (\<forall>s \<in> set [0..<nat (cast_int (GetDataStreamsCount (dm_data_loader m0)))].
       \<forall>k \<in> set [0..<nat (cast_int (steps s))]. absent_ok m0 thread io (int s) (int k) m')"
proof -
  have "dm_data_loader m = dm_data_loader m0" using assms(2) by (simp add: inputs_sound_def same_config_facts)
  with assms(1) have "foldR (populate_stream ops thread io) m
      [0..<nat (cast_int (GetDataStreamsCount (dm_data_loader m0)))] = Inr m'" by simp
  then show ?thesis
  proof (rule foldR_establish [where J = "inputs_sound m0" and le = grows and
        Q = "\<lambda>s m. \<forall>k \<in> set [0..<nat (cast_int (steps s))]. absent_ok m0 thread io (int s) (int k) m", OF _ assms(2)])
    fix m s m'
    assume "s \<in> set [0..<nat (cast_int (GetDataStreamsCount (dm_data_loader m0)))]"
      and "inputs_sound m0 m" and "populate_stream ops thread io m s = Inr m'"
    then show "inputs_sound m0 m' \<and> (\<forall>k \<in> set [0..<nat (cast_int (steps s))]. absent_ok m0 thread io (int s) (int k) m') \<and> grows m m'"
      using populate_stream_step [OF _ _ assms(3,4)] assms(5) by simp
  qed (use absent_ok_grows grows_trans in \<open>blast intro: grows_refl\<close>)+
qed

lemma populate_all:
  assumes "CreateAndPopulateInputs ops m0 = Inr m'" and "dm_inputs m0 = []"
    and "distinct (map fst (dm_model_inputs m0))"
    and "\<forall>s < nat (cast_int (GetDataStreamsCount (dm_data_loader m0))). GetTotalSteps s (dm_data_loader m0) = Inr (steps s)"
  shows "inputs_sound m0 m' \<and>
    (\<forall>thread \<in> set [0..<dm_max_threads m0]. \<forall>io \<in> set (dm_model_inputs m0).
      \<forall>s \<in> set [0..<nat (cast_int (GetDataStreamsCount (dm_data_loader m0)))].
        \<forall>k \<in> set [0..<nat (cast_int (steps s))]. absent_ok m0 thread io (int s) (int k) m')"
  (is "_ \<and> (\<forall>thread \<in> _. \<forall>io \<in> _. ?Q thread io m')")
proof -
  have "same_config m0 m0" unfolding same_config_def by (intro exI [of _ "dm_inputs m0"]) simp
  then have start: "inputs_sound m0 m0" using assms(2) by (simp add: inputs_sound_def GetInput_def)
  have keep: "?Q thread io m \<Longrightarrow> grows m n \<Longrightarrow> ?Q thread io n" for thread io m n
    using absent_ok_grows by blast
  have thread: "inputs_sound m0 n \<and> grows m n \<and> (\<forall>io \<in> set (dm_model_inputs m0). ?Q thread io n)"
    if "foldR (\<lambda>m io. foldR (populate_stream ops thread io) m
          [0..<nat (cast_int (GetDataStreamsCount (dm_data_loader m)))]) m (dm_model_inputs m0) = Inr n"
      and "inputs_sound m0 m" for thread m n
    using that(1)
  proof (rule foldR_establish [where J = "inputs_sound m0" and le = grows and Q = "?Q thread", OF _ that(2)])
    fix m io n
    assume "io \<in> set (dm_model_inputs m0)" and "inputs_sound m0 m"
      and "foldR (populate_stream ops thread io) m [0..<nat (cast_int (GetDataStreamsCount (dm_data_loader m)))] = Inr n"
    then show "inputs_sound m0 n \<and> ?Q thread io n \<and> grows m n"
      using populate_input_step [OF _ _ _ assms(3,4)] by blast
  qed (use keep grows_trans in \<open>blast intro: grows_refl\<close>)+
  have "inputs_sound m0 m' \<and> grows m0 m' \<and> (\<forall>thread \<in> set [0..<dm_max_threads m0]. \<forall>io \<in> set (dm_model_inputs m0). ?Q thread io m')"
    using assms(1) unfolding CreateAndPopulateInputs_def
  proof (rule foldR_establish [where J = "inputs_sound m0" and le = grows and
        Q = "\<lambda>thread m. \<forall>io \<in> set (dm_model_inputs m0). ?Q thread io m", OF _ start])
    fix m thread n
    assume sound: "inputs_sound m0 m" and "foldR (\<lambda>m io. foldR (populate_stream ops thread io) m
          [0..<nat (cast_int (GetDataStreamsCount (dm_data_loader m)))]) m (dm_model_inputs m) = Inr n"
    moreover have "dm_model_inputs m = dm_model_inputs m0"
      using sound by (simp add: inputs_sound_def same_config_facts)
    ultimately show "inputs_sound m0 n \<and> (\<forall>io \<in> set (dm_model_inputs m0). ?Q thread io n) \<and> grows m n"
      using thread by simp
  qed (use keep grows_trans in \<open>blast intro: grows_refl\<close>)+
  then show ?thesis by blast
qed

lemma served_input:
  assumes "CreateAndPopulateInputs ops m0 = Inr m'" and "dm_inputs m0 = []"
    and "distinct (map fst (dm_model_inputs m0))"
    and "\<forall>s < nat (cast_int (GetDataStreamsCount (dm_data_loader m0))). GetTotalSteps s (dm_data_loader m0) = Inr (steps s)"
    and "thread < dm_max_threads m0" and "io \<in> set (dm_model_inputs m0)"
    and "s < nat (cast_int (GetDataStreamsCount (dm_data_loader m0)))" and "k < nat (cast_int (steps s))"
  shows "\<exists>tds. base_GetInputData (fst io) (snd io) (int s) (int k) m0 = Inr tds \<and>
    (case GetInput thread (fst io) (int s) (int k) m' of
       None \<Rightarrow> list_all (\<lambda>td. \<not> is_valid td) tds
     | Some i \<Rightarrow> wf i \<and> in_name ops i = fst io \<and> list_all is_valid tds \<and> chunks i = map td_chunk tds)"
proof (cases "GetInput thread (fst io) (int s) (int k) m'")
  case None
  then show ?thesis
    using populate_all [OF assms(1-4)] assms(5-8) by (auto simp: absent_ok_def)
next
  case (Some i)
  then have "holds_batch m0 io (int s) (int k) i"
    using populate_all [OF assms(1-4)] assms(6) by (auto simp: inputs_sound_def)
  with Some show ?thesis by (auto simp: holds_batch_def)
qed

end

interpretation tfs_manager: backend_ops "tfs_ops oc" input_chunks buffers_wf for oc
  by unfold_locales
    (auto simp: tfs_ops_def dest: tfs_input.create_new tfs_input.append_adds)

interpretation ts_manager: backend_ops "ts_ops g" input_chunks buffers_wf for g
  by unfold_locales
    (auto simp: ts_ops_def dest: ts_input.create_new ts_input.append_adds)

interpretation openai_manager: backend_ops "openai_ops oc" input_chunks buffers_wf for oc
  by unfold_locales
    (auto simp: openai_ops_def dest: openai_input.create_new openai_input.append_adds)

interpretation dgrpc_manager: backend_ops "dgrpc_ops oc" input_chunks buffers_wf for oc
  by unfold_locales
    (auto simp: dgrpc_ops_def dest: dgrpc_input.create_new dgrpc_input.append_adds)

lemma backends_of_repository:
  "ops \<in> {tfs_ops oc, ts_ops g, openai_ops oc, dgrpc_ops oc} \<Longrightarrow> backend_ops ops input_chunks buffers_wf"
  using tfs_manager.backend_ops_axioms ts_manager.backend_ops_axioms
    openai_manager.backend_ops_axioms dgrpc_manager.backend_ops_axioms by blast

section \<open>The elements of a batch\<close>

lemma batch_data_result:
  assumes "batch_data name t s k cnts prev d = Inr tds"
  shows "length tds = length cnts \<and> (\<forall>j < length cnts. \<exists>n step.
    GetTotalSteps (nat s) d = Inr n \<and> local_step k (cnts ! j) n = Inr step \<and> GetInputData t s step d = Inr (tds ! j))"
  using assms
proof (induction cnts arbitrary: prev tds)
  case (Cons c cnts)
  let ?prev = "\<lambda>shape. if shape \<noteq> [] \<and> c \<noteq> 0 then
      bindR (liftE (std_equal shape prev)) (\<lambda>eq. if eq then Inr prev else Inl (batch_shape_error name prev shape))
    else Inr (if shape \<noteq> [] then shape else prev)"
  from Cons.prems obtain n step prev' td rest where n: "GetTotalSteps (nat s) d = Inr n" "local_step k c n = Inr step"
    and td: "GetInputData t s step d = Inr td" and rest: "batch_data name t s k cnts prev' d = Inr rest" and "tds = td # rest"
    by (auto simp: bindR_Inr_conv Let_def)
  with Cons.IH [OF rest] show ?case by (auto simp: nth_Cons split: nat.splits)
qed simp

lemma local_step_small:
  assumes "k < n" and "n < 2 ^ 31" and "c < 2 ^ 31"
  shows "local_step (int k) c n = Inr (int ((k + c) mod n))"
proof -
  have "unat (word_of_int (int k + int c) :: u64) = unat (word_of_nat (k + c) :: u64)" by simp
  also have "\<dots> = k + c" using assms by (simp add: unat_of_nat del: of_nat_add)
  finally have "unat (word_of_int (int k + int c) :: u64) = k + c" .
  moreover have "(k + c) mod n < 2 ^ 31" by (rule less_trans [OF mod_less_divisor]) (use assms in auto)
  ultimately show ?thesis using assms(1) by (simp add: local_step_def cast_int_small)
qed

section \<open>Properties\<close>

text \<open>
  C14: The input that a request of any thread uses at a stream and step holds the batch that
  starts at this step: its pieces are, in order, the data that the loader serves for the
  steps \<open>k, k + 1, \<dots>\<close> of the stream, wrapping around at its end, one for every element of the
  batch (a single one for a shape tensor). There is no input exactly when none of them has data.
\<close>

theorem batch_is_served:
  assumes "ops \<in> {tfs_ops oc, ts_ops g, openai_ops oc, dgrpc_ops oc}"
    and "dm_Init ops m = Inr m'" and "dm_inputs m = []" and "distinct (map fst (dm_model_inputs m))"
    and "d = dm_data_loader m" and "data_stream_cnt d = length (step_num d)" and "length (step_num d) < 2 ^ 31"
    and "\<forall>n \<in> set (step_num d). n < 2 ^ 31" and "dm_batch_size m < 2 ^ 31"
    and "thread < dm_max_threads m" and "(nm, t) \<in> set (dm_model_inputs m)"
    and "s < length (step_num d)" and "k < step_num d ! s"
  shows "\<exists>tds. length tds = (if is_shape_tensor t then 1 else dm_batch_size m) \<and>
    (\<forall>j < length tds. GetInputData t (int s) (int ((k + j) mod step_num d ! s)) d = Inr (tds ! j)) \<and>
    (case GetInput thread nm (int s) (int k) m' of
       None \<Rightarrow> \<forall>td \<in> set tds. \<not> is_valid td
     | Some i \<Rightarrow> ii_name i = nm \<and> (\<forall>td \<in> set tds. is_valid td) \<and> input_chunks i = map td_chunk tds)"
proof -
  have init: "CreateAndPopulateInputs ops m = Inr m'" using assms(2) by (simp add: dm_Init_def)
  have steps: "\<forall>s < nat (cast_int (GetDataStreamsCount (dm_data_loader m))).
      GetTotalSteps s (dm_data_loader m) = Inr (step_num d ! s)"
    and s: "s < nat (cast_int (GetDataStreamsCount (dm_data_loader m)))"
    and k: "k < nat (cast_int (step_num d ! s))" and small: "step_num d ! s < 2 ^ 31"
    using assms(5-8,12,13) by (auto simp: GetDataStreamsCount_def GetTotalSteps_def cast_int_small)
  have names: "in_name ops = ii_name"
    using assms(1) by (auto simp: tfs_ops_def ts_ops_def openai_ops_def dgrpc_ops_def)
  obtain tds where tds: "base_GetInputData nm t (int s) (int k) m = Inr tds"
    and input: "case GetInput thread nm (int s) (int k) m' of
       None \<Rightarrow> list_all (\<lambda>td. \<not> is_valid td) tds
     | Some i \<Rightarrow> buffers_wf i \<and> in_name ops i = nm \<and> list_all is_valid tds \<and> input_chunks i = map td_chunk tds"
    using backend_ops.served_input [OF backends_of_repository [OF assms(1)] init assms(3,4) steps assms(10,11) s k]
    by (auto simp only: fst_conv snd_conv)
  let ?n = "if is_shape_tensor t then 1 else dm_batch_size m"
  have b: "batch_data nm t (int s) (int k) [0..<?n] [] d = Inr tds"
    using tds assms(5) by (simp only: base_GetInputData_def)
  from batch_data_result [OF b] have len: "length tds = ?n" by simp
  have "GetInputData t (int s) (int ((k + j) mod step_num d ! s)) d = Inr (tds ! j)" if "j < length tds" for j
  proof -
    have j: "j < ?n" "[0..<?n] ! j = j" "j < 2 ^ 31" using that len assms(9) by (auto split: if_splits)
    with batch_data_result [OF b] obtain n step where "GetTotalSteps s d = Inr n"
      "local_step (int k) j n = Inr step" "GetInputData t (int s) step d = Inr (tds ! j)" by fastforce
    moreover have "n = step_num d ! s" using calculation(1) assms(6,12) by (simp add: GetTotalSteps_def)
    ultimately show ?thesis using local_step_small [OF assms(13) small j(3)] by simp
  qed
  with input names len show ?thesis by (auto simp: list_all_iff split: option.splits)
qed

definition sample_loader :: data_loader where
  "sample_loader =
     (case ReadDataFromJSON sample_env (\<lambda>_. Some (Some sample_document)) [(''A_1'', sample_input)] [] ''f'' (DataLoader 1) of
        Inr d \<Rightarrow> d | Inl _ \<Rightarrow> DataLoader 0)"

definition sample_manager :: "infer_input infer_data_manager" where
  "sample_manager = \<lparr>dm_batch_size = 2, dm_max_batch_size = 8, dm_kind = TENSORFLOW_SERVING,
     dm_model_inputs = [(''A_1'', sample_input)], dm_model_outputs = [], dm_data_loader = sample_loader,
     dm_request_parameters = [], dm_max_threads = 1, dm_inputs = []\<rparr>"

theorem batch_is_served_witness:
  "\<exists>m' i tds. dm_Init (ts_ops 5) sample_manager = Inr m' \<and> GetInput 0 ''A_1'' 0 1 m' = Some i \<and>
     GetInputData sample_input 0 1 sample_loader = Inr (tds ! 0) \<and>
     GetInputData sample_input 0 0 sample_loader = Inr (tds ! 1) \<and>
     input_chunks i = map td_chunk tds \<and> length tds = 2"
proof -
  have "(case dm_Init (ts_ops 5) sample_manager of Inr m' \<Rightarrow> GetInput 0 ''A_1'' 0 1 m' \<noteq> None | Inl _ \<Rightarrow> False) = True"
    by code_simp
  then obtain m' i where m': "dm_Init (ts_ops 5) sample_manager = Inr m'" and i: "GetInput 0 ''A_1'' 0 1 m' = Some i"
    by (auto split: sum.splits)
  have d: "step_num sample_loader = [2, 1]" "data_stream_cnt sample_loader = 2" by code_simp+
  obtain tds where "length tds = 2" and t: "\<forall>j < length tds. GetInputData sample_input 0 (int (Suc j mod 2)) sample_loader = Inr (tds ! j)"
    and "input_chunks i = map td_chunk tds"
    using batch_is_served [of "ts_ops 5" "\<lambda>_ _. Inr ()" 5 sample_manager m' sample_loader 0 "''A_1''" sample_input 0 1] m' i d
    by (auto simp: sample_manager_def sample_input_def)
  moreover have "GetInputData sample_input 0 1 sample_loader = Inr (tds ! 0)" "GetInputData sample_input 0 0 sample_loader = Inr (tds ! 1)"
    using t [THEN spec, of 0] t [THEN spec, of 1] \<open>length tds = 2\<close> by simp_all
  ultimately show ?thesis using m' i by blast
qed

end
