(* ===== verification/Infer_Context.thy ===== *)
theory Infer_Context
  imports Infer_Data_Manager Load_Manager
begin

text \<open>
  \<open>InferContext\<close> (\<open>infer_context.cc\<close>): sending requests, synchronously or not, and the callback
  for the responses. The client backend is not modelled: what it answers to a call, and the
  time points of the clock, are arguments of the operation that makes the call
  (\<open>backend_answer\<close>), and a response is a record of what its accessors return. The context
  shares the statistics of its thread and the sequence manager with others; the operations
  take and return them.
\<close>

section \<open>Data\<close>

text \<open>What the accessors of a response give; \<open>RawData\<close> leaves the buffer alone when it fails.\<close>

record infer_result =
  r_status :: cb_error
  r_id :: "cb_error \<times> string"
  r_raw :: "string \<Rightarrow> bytes option"
  r_null :: "cb_error \<times> bool"
  r_final :: "cb_error \<times> bool"

record backend_answer =
  a_status :: cb_error
  a_result :: "infer_result option"
  a_stat :: "cb_error \<times> infer_stat"
  a_start :: int
  a_end :: int
  a_idle_start :: nanos
  a_idle_stop :: nanos

record 'i infer_context =
  ic_thread_id :: u64
  ic_id :: nat
  ic_async :: bool
  ic_streaming :: bool
  ic_using_json_data :: bool
  ic_batch_size :: int
  ic_request_id :: u64
  async_req_map :: "(string, request_record) std_map"
  total_ongoing_requests :: u32
  data_step_id :: u64
  num_active_threads :: u64
  ic_infer_data :: "'i infer_data"
  num_responses :: u64
  has_received_final_response :: bool

text \<open>The constructor; the status of creating the backend is the first one of the thread.\<close>

definition InferContext :: "u64 \<Rightarrow> nat \<Rightarrow> bool \<Rightarrow> bool \<Rightarrow> bool \<Rightarrow> int \<Rightarrow> string \<Rightarrow> string \<Rightarrow> string \<Rightarrow> cb_error \<Rightarrow>
    thread_stat \<Rightarrow> 'i infer_context \<times> thread_stat" where
  "InferContext tid cid async streaming json batch model version signature created ts =
     (\<lparr>ic_thread_id = tid, ic_id = cid, ic_async = async, ic_streaming = streaming, ic_using_json_data = json,
       ic_batch_size = batch, ic_request_id = 0, async_req_map = [], total_ongoing_requests = 0,
       data_step_id = tid, num_active_threads = 0,
       ic_infer_data = \<lparr>id_inputs = [], valid_inputs = [], id_outputs = [], expected_outputs = [],
         id_options = (InferOptions model)\<lparr>io_model_version := version, io_model_signature_name := signature\<rparr>\<rparr>,
       num_responses = 0, has_received_final_response = False\<rparr>,
      ts\<lparr>status := created,
         contexts_stat := contexts_stat ts @ [\<lparr>completed_request_count = 0, cumulative_total_request_time_ns = 0,
           cumulative_send_time_ns = 0, cumulative_receive_time_ns = 0\<rparr>]\<rparr>)"

text \<open>A status that is stored: a function that throws does not return one.\<close>

fun status_of :: "failure + unit \<Rightarrow> exn + cb_error" where
  "status_of (Inr _) = Inr Success"
| "status_of (Inl (Fails e)) = Inr e"
| "status_of (Inl (Throws x)) = Inl x"

definition ic_Init :: "'i input_ops \<Rightarrow> 'i infer_data_manager \<Rightarrow> cb_error \<Rightarrow> 'i infer_context \<times> thread_stat \<Rightarrow>
    exn + 'i infer_context \<times> thread_stat" where
  "ic_Init ops dm started = (\<lambda>(c, ts).
     let (st, x) = InitInferData ops dm (ic_infer_data c); c' = c\<lparr>ic_infer_data := x\<rparr>
     in bindR (status_of st) (\<lambda>e.
          Inr (c', ts\<lparr>status := if IsOk e \<and> ic_streaming c then started else e\<rparr>)))"

section \<open>Records of inputs and outputs\<close>

definition skip_length :: "string \<Rightarrow> nat \<Rightarrow> nat" where
  "skip_length data_type byte_size = (if data_type = ''BYTES'' \<and> byte_size \<ge> 4 then 4 else 0)"

definition GetInputs :: "'i input_ops \<Rightarrow> 'i infer_data \<Rightarrow> exn + (string, record_data) std_map" where
  "GetInputs ops x =
     foldR (\<lambda>m i.
       bindR (in_raw ops i) (\<lambda>raw.
       let (buf, byte_size) = (case raw of Inl _ \<Rightarrow> (None, 0) | Inr r \<Rightarrow> r);
           off = skip_length (in_datatype ops i) byte_size
       in bindR (mem_read buf off (byte_size - off)) (\<lambda>bs.
            Inr (map_emplace (in_name ops i) (RecordData bs (in_datatype ops i)) m)))) [] (valid_inputs x)"

definition GetOutputs :: "infer_result \<Rightarrow> 'i infer_data \<Rightarrow> (string, record_data) std_map" where
  "GetOutputs r x =
     foldl (\<lambda>m (name, data_type).
       let buf = (case r_raw r name of None \<Rightarrow> [] | Some b \<Rightarrow> b)
       in map_emplace name (RecordData (drop (skip_length data_type (length buf)) buf) data_type) m)
       [] (id_outputs x)"

section \<open>Validation\<close>

fun validate_batch :: "infer_result \<Rightarrow> tensor_data list \<Rightarrow> bytes \<Rightarrow> exn + cb_error + bytes" where
  "validate_batch r [] buf = Inr (Inr buf)"
| "validate_batch r (e # es) buf0 =
     (let buf = (case r_raw r (td_name e) of None \<Rightarrow> buf0 | Some b \<Rightarrow> b)
      in if \<not> is_valid e then Inr (Inl (generic_error (''Expected output can'' @ [CHR 0x27] @ ''t be invalid'')))
         else if length buf < batch1_size e then
           Inr (Inl (generic_error (''Output size doesn'' @ [CHR 0x27] @ ''t match expected size'')))
         else
           bindR (mem_read (data_ptr e) 0 (batch1_size e)) (\<lambda>want.
             if take (batch1_size e) buf \<noteq> want then
               Inr (Inl (generic_error (''Output doesn'' @ [CHR 0x27] @ ''t match expected output'')))
             else validate_batch r es (drop (batch1_size e) buf)))"

fun validate_outputs :: "infer_result \<Rightarrow> tensor_data list list \<Rightarrow> exn + cb_error" where
  "validate_outputs r [] = Inr Success"
| "validate_outputs r (es # ess) =
     bindR (validate_batch r es []) (\<lambda>res.
       case res of
         Inl e \<Rightarrow> Inr e
       | Inr buf \<Rightarrow>
           if buf \<noteq> [] then Inr (generic_error (''Output size doesn'' @ [CHR 0x27] @ ''t match expected size''))
           else validate_outputs r ess)"

definition ValidateOutputs :: "infer_result \<Rightarrow> 'i infer_data \<Rightarrow> exn + cb_error" where
  "ValidateOutputs r x = validate_outputs r (expected_outputs x)"

section \<open>Sending\<close>

unbundle bit_operations_syntax

definition unique_request_id :: "u64 \<Rightarrow> u64 \<Rightarrow> u64" where
  "unique_request_id tid rid = push_bit 48 tid OR drop_bit 16 (push_bit 16 rid)"

text \<open>\<open>thread_stat_->contexts_stat_[id_]\<close> is filled by the backend.\<close>

definition client_stat :: "nat \<Rightarrow> infer_stat \<Rightarrow> thread_stat \<Rightarrow> exn + thread_stat" where
  "client_stat i st ts =
     bindR (vec_index (contexts_stat ts) i) (\<lambda>_. Inr (ts\<lparr>contexts_stat := (contexts_stat ts)[i := st]\<rparr>))"

definition send_async :: "backend_answer \<Rightarrow> u64 \<Rightarrow> bool \<Rightarrow> u64 \<Rightarrow> (string, record_data) std_map \<Rightarrow>
    'i infer_context \<times> thread_stat \<Rightarrow> exn + 'i infer_context \<times> thread_stat" where
  "send_async a rid delayed sid inputs = (\<lambda>(c, ts).
     let key = to_string (uint (unique_request_id (ic_thread_id c) rid));
         x = ic_infer_data c;
         x' = x\<lparr>id_options := (id_options x)\<lparr>io_request_id := key\<rparr>\<rparr>;
         r = (map_get new_request_record (async_req_map c) key)
               \<lparr>request_inputs := [inputs], start_time := a_start a,
                rr_sequence_end := sequence_end (io_sequence (id_options x)),
                rr_delayed := delayed, rr_sequence_id := sid\<rparr>
     in bindR (Start (a_idle_start a) (ts_idle_timer ts)) (\<lambda>t1.
        bindR (Stop (a_idle_stop a) t1) (\<lambda>t2.
          Inr (c\<lparr>ic_infer_data := x', async_req_map := map_assign key r (async_req_map c),
                total_ongoing_requests := total_ongoing_requests c + 1\<rparr>,
               ts\<lparr>ts_idle_timer := t2, status := a_status a\<rparr>))))"

definition send_sync :: "backend_answer \<Rightarrow> bool \<Rightarrow> u64 \<Rightarrow> (string, record_data) std_map \<Rightarrow>
    'i infer_context \<times> thread_stat \<Rightarrow> exn + 'i infer_context \<times> thread_stat" where
  "send_sync a delayed sid inputs = (\<lambda>(c, ts).
     bindR (Start (a_idle_start a) (ts_idle_timer ts)) (\<lambda>t1.
     bindR (Stop (a_idle_stop a) t1) (\<lambda>t2.
     let ts1 = ts\<lparr>ts_idle_timer := t2, status := a_status a\<rparr>
     in bindR (case a_result a of
                 None \<Rightarrow> Inr (a_status a, [])
               | Some r \<Rightarrow>
                   if IsOk (a_status a) then
                     bindR (ValidateOutputs r (ic_infer_data c)) (\<lambda>e. Inr (e, GetOutputs r (ic_infer_data c)))
                   else Inr (a_status a, [])) (\<lambda>(e, outputs).
          if \<not> IsOk e then Inr (c, ts1\<lparr>status := e\<rparr>)
          else
            let rec = \<lparr>start_time = a_start a, response_timestamps = [a_end a], request_inputs = [inputs],
                       response_outputs = [outputs],
                       rr_sequence_end = sequence_end (io_sequence (id_options (ic_infer_data c))),
                       rr_delayed = delayed, rr_sequence_id = sid, has_null_last_response = False\<rparr>;
                ts2 = ts1\<lparr>status := e, request_records := request_records ts1 @ [rec]\<rparr>
            in bindR (client_stat (ic_id c) (snd (a_stat a)) ts2) (\<lambda>ts3.
                 Inr (c, ts3\<lparr>status := fst (a_stat a)\<rparr>))))))"

definition SendRequest :: "'i input_ops \<Rightarrow> backend_answer \<Rightarrow> u64 \<Rightarrow> bool \<Rightarrow> u64 \<Rightarrow>
    'i infer_context \<times> thread_stat \<Rightarrow> exn + 'i infer_context \<times> thread_stat" where
  "SendRequest ops a rid delayed sid = (\<lambda>(c, ts).
     if \<not> IsOk (status ts) then Inr (c, ts)
     else
       let ts1 = ts\<lparr>num_sent_requests := num_sent_requests ts + 1\<rparr>
       in bindR (GetInputs ops (ic_infer_data c)) (\<lambda>inputs.
            if ic_async c then send_async a rid delayed sid inputs (c, ts1)
            else send_sync a delayed sid inputs (c, ts1)))"

text \<open>\<open>(data_step_id_ * batch_size_) % GetTotalSteps(0)\<close> in \<open>size_t\<close>, stored in an \<open>int\<close>.\<close>

definition UpdateJsonData :: "'i input_ops \<Rightarrow> 'i infer_data_manager \<Rightarrow> 'i infer_context \<times> thread_stat \<Rightarrow>
    exn + 'i infer_context \<times> thread_stat" where
  "UpdateJsonData ops dm = (\<lambda>(c, ts).
     bindR (GetTotalSteps 0 (dm_data_loader dm)) (\<lambda>total.
       if total = 0 then Inl DivideByZero
       else
         let step_id = cast_int (unat (data_step_id c * word_of_int (ic_batch_size c)) mod total);
             (st, x) = UpdateInferData ops (unat (ic_thread_id c)) 0 step_id dm (ic_infer_data c)
         in bindR (status_of st) (\<lambda>e.
              Inr (c\<lparr>data_step_id := data_step_id c + num_active_threads c, ic_infer_data := x\<rparr>, ts\<lparr>status := e\<rparr>))))"

definition UpdateSeqJsonData :: "'i input_ops \<Rightarrow> 'i infer_data_manager \<Rightarrow> nat \<Rightarrow> 'g sequence_manager \<Rightarrow>
    'i infer_context \<times> thread_stat \<Rightarrow> exn + 'i infer_context \<times> thread_stat" where
  "UpdateSeqJsonData ops dm seq_index sm = (\<lambda>(c, ts).
     bindR (GetSequenceLength seq_index sm) (\<lambda>len.
     bindR (GetRemainingQueries seq_index sm) (\<lambda>remaining.
     bindR (GetDataStreamID seq_index sm) (\<lambda>stream.
     bindR (GetTotalSteps (unat stream) (dm_data_loader dm)) (\<lambda>total.
       if total = 0 then Inl DivideByZero
       else
         let step_id = cast_int (unat (len - remaining) mod total);
             (st, x) = UpdateInferData ops (unat (ic_thread_id c)) (sint (ucast stream :: u32)) step_id dm
                         (ic_infer_data c)
         in bindR (status_of st) (\<lambda>e. Inr (c\<lparr>ic_infer_data := x\<rparr>, ts\<lparr>status := e\<rparr>)))))))"

definition SendInferRequest :: "'i input_ops \<Rightarrow> 'i infer_data_manager \<Rightarrow> backend_answer \<Rightarrow> bool \<Rightarrow>
    'i infer_context \<times> thread_stat \<Rightarrow> exn + 'i infer_context \<times> thread_stat" where
  "SendInferRequest ops dm a delayed = (\<lambda>(c, ts).
     bindR (if ic_using_json_data c then UpdateJsonData ops dm (c, ts) else Inr (c, ts)) (\<lambda>(c1, ts1).
       SendRequest ops a (ic_request_id c1) delayed 0
         (c1\<lparr>ic_request_id := ic_request_id c1 + 1\<rparr>, ts1)))"

text \<open>
  One request of the sequence in a slot, under the lock of the slot. \<open>total_steps\<close> is what the
  sequence manager asks of the loader when it starts a new sequence.
\<close>

definition send_in_sequence :: "'g uniform \<Rightarrow> (u64 \<Rightarrow> u64) \<Rightarrow> int \<Rightarrow> 'i input_ops \<Rightarrow> 'i infer_data_manager \<Rightarrow>
    backend_answer \<Rightarrow> bool \<Rightarrow> nat \<Rightarrow> 'i infer_context \<times> thread_stat \<times> 'g sequence_manager \<Rightarrow>
    exn + 'i infer_context \<times> thread_stat \<times> 'g sequence_manager" where
  "send_in_sequence u total_steps rv ops dm a delayed i = (\<lambda>(c, ts, sm).
     bindR (SetInferSequenceOptions u total_steps rv i sm) (\<lambda>(opts, sm1).
     let x = ic_infer_data c;
         c1 = c\<lparr>ic_infer_data := x\<lparr>id_options := (id_options x)\<lparr>io_sequence := opts\<rparr>\<rparr>\<rparr>
     in bindR (if ic_using_json_data c then UpdateSeqJsonData ops dm i sm1 (c1, ts) else Inr (c1, ts)) (\<lambda>(c2, ts2).
        bindR (DecrementRemainingQueries i sm1) (\<lambda>sm2.
        bindR (GetSequenceID i sm2) (\<lambda>sid.
        bindR (SendRequest ops a (ic_request_id c2) delayed sid
                 (c2\<lparr>ic_request_id := ic_request_id c2 + 1\<rparr>, ts2)) (\<lambda>(c3, ts3).
          Inr (c3, ts3, sm2)))))))"

definition SendSequenceInferRequest :: "'g uniform \<Rightarrow> (u64 \<Rightarrow> u64) \<Rightarrow> int \<Rightarrow> 'i input_ops \<Rightarrow> 'i infer_data_manager \<Rightarrow>
    backend_answer \<Rightarrow> bool \<Rightarrow> bool \<Rightarrow> bool \<Rightarrow> nat \<Rightarrow> 'i infer_context \<times> thread_stat \<times> 'g sequence_manager \<Rightarrow>
    exn + 'i infer_context \<times> thread_stat \<times> 'g sequence_manager" where
  "SendSequenceInferRequest u total_steps rv ops dm a exits execute delayed i st =
     (if \<not> exits \<and> execute then send_in_sequence u total_steps rv ops dm a delayed i st else Inr st)"

definition CompleteOngoingSequence :: "'g uniform \<Rightarrow> (u64 \<Rightarrow> u64) \<Rightarrow> int \<Rightarrow> 'i input_ops \<Rightarrow> 'i infer_data_manager \<Rightarrow>
    backend_answer \<Rightarrow> nat \<Rightarrow> 'i infer_context \<times> thread_stat \<times> 'g sequence_manager \<Rightarrow>
    exn + 'i infer_context \<times> thread_stat \<times> 'g sequence_manager" where
  "CompleteOngoingSequence u total_steps rv ops dm a i = (\<lambda>(c, ts, sm).
     bindR (GetRemainingQueries i sm) (\<lambda>remaining.
       if remaining \<noteq> 0 then
         bindR (SetRemainingQueries i 1 sm) (\<lambda>sm1.
           send_in_sequence u total_steps rv ops dm a False i (c, ts, sm1))
       else Inr (c, ts, sm)))"

definition ApplyDatasetOffset :: "u64 \<Rightarrow> 'i infer_context \<Rightarrow> 'i infer_context" where
  "ApplyDatasetOffset offset c = c\<lparr>data_step_id := data_step_id c + offset\<rparr>"

section \<open>Responses\<close>

text \<open>
  The part of the callback under the lock. The result tells whether the callback goes on, and
  \<open>is_final_response\<close>: an error of \<open>IsNullResponse\<close> or \<open>IsFinalResponse\<close> leaves the callback at once.
\<close>

definition record_response :: "int \<Rightarrow> cb_error \<times> infer_stat \<Rightarrow> infer_result \<Rightarrow> string \<Rightarrow> request_record \<Rightarrow>
    'i infer_context \<times> thread_stat \<Rightarrow> exn + ('i infer_context \<times> thread_stat) \<times> bool \<times> bool" where
  "record_response now stat r key open_req = (\<lambda>(c, ts).
     if \<not> IsOk (fst (r_null r)) then Inr ((c, ts\<lparr>cb_status := fst (r_null r)\<rparr>), False, True)
     else
       let p1 = open_req\<lparr>response_timestamps := response_timestamps open_req @ [now],
                        response_outputs := response_outputs open_req @ [GetOutputs r (ic_infer_data c)]\<rparr>;
           p2 = (if snd (r_null r) then p1\<lparr>has_null_last_response := True\<rparr> else p1);
           c1 = c\<lparr>async_req_map := map_assign key p2 (async_req_map c), num_responses := num_responses c + 1\<rparr>;
           ts1 = ts\<lparr>cb_status := fst (r_final r)\<rparr>
       in if \<not> IsOk (fst (r_final r)) then Inr ((c1, ts1), False, snd (r_final r))
          else if snd (r_final r) then
            bindR (client_stat (ic_id c) (snd stat) (ts1\<lparr>request_records := request_records ts1 @ [p2]\<rparr>)) (\<lambda>ts2.
            bindR (ValidateOutputs r (ic_infer_data c)) (\<lambda>e.
              Inr ((c1\<lparr>has_received_final_response := True,
                      async_req_map := map_erase key (async_req_map c1)\<rparr>,
                    ts2\<lparr>cb_status := e\<rparr>), True, True)))
          else Inr ((c1, ts1), True, False))"

definition callback_locked :: "int \<Rightarrow> cb_error \<times> infer_stat \<Rightarrow> infer_result \<Rightarrow> 'i infer_context \<times> thread_stat \<Rightarrow>
    exn + ('i infer_context \<times> thread_stat) \<times> bool \<times> bool" where
  "callback_locked now stat r = (\<lambda>(c, ts).
     if \<not> IsOk (cb_status ts) then Inr ((c, ts), True, True)
     else
       let ts1 = ts\<lparr>cb_status := r_status r\<rparr>
       in if \<not> IsOk (r_status r) then Inr ((c, ts1), True, True)
          else
            let ts2 = ts1\<lparr>cb_status := fst (r_id r)\<rparr>; key = snd (r_id r)
            in case map_find (async_req_map c) key of
                 None \<Rightarrow> Inr ((c, ts2), True, True)
               | Some open_req \<Rightarrow> record_response now stat r key open_req (c, ts2))"

text \<open>
  The result tells whether the worker is notified (\<open>worker_callback_\<close>) and whether the request
  is reported as finished (\<open>async_callback_finalize_func_\<close>).
\<close>

definition AsyncCallbackFuncImpl :: "int \<Rightarrow> cb_error \<times> infer_stat \<Rightarrow> infer_result \<Rightarrow> 'i infer_context \<times> thread_stat \<Rightarrow>
    exn + ('i infer_context \<times> thread_stat) \<times> bool \<times> bool" where
  "AsyncCallbackFuncImpl now stat r st =
     bindR (callback_locked now stat r st) (\<lambda>((c, ts), goes_on, is_final).
       if \<not> goes_on then Inr ((c, ts), False, False)
       else if is_final then
         Inr ((c\<lparr>total_ongoing_requests := total_ongoing_requests c - 1, num_responses := 0\<rparr>, ts), True, True)
       else Inr ((c, ts), True, False))"

section \<open>Request identifiers\<close>

definition request_key :: "u64 \<Rightarrow> u64 \<Rightarrow> string" where
  "request_key tid rid = to_string (uint (unique_request_id tid rid))"

lemma unique_request_id_low: "take_bit 48 (unique_request_id tid rid) = take_bit 48 rid"
  unfolding unique_request_id_def by (rule bit_word_eqI) (auto simp: bit_simps)

lemma request_key_inj:
  assumes "request_key tid a = request_key tid b" and "unat a < 2 ^ 48" and "unat b < 2 ^ 48"
  shows "a = b"
proof -
  have "take_bit 48 a = take_bit 48 b"
    using assms(1) by (metis request_key_def to_string_inj unsigned_word_eqI unique_request_id_low)
  moreover have "take_bit 48 w = w" if "unat w < 2 ^ 48" for w :: u64
    using that by (intro unsigned_word_eqI [where 'a = nat]) (simp add: unsigned_take_bit_eq take_bit_nat_eq_self)
  ultimately show ?thesis using assms(2,3) by simp
qed

text \<open>The identifiers of different threads differ as well, while there are at most \<open>2 ^ 16\<close> of them.\<close>

lemma unique_request_id_high: "drop_bit 48 (unique_request_id tid rid) = take_bit 16 tid"
  unfolding unique_request_id_def by (rule bit_word_eqI) (auto simp: bit_simps)

section \<open>Requests in flight\<close>

text \<open>
  What happens to an asynchronous context: requests are sent (while it has identifiers left),
  and responses arrive for requests that are in flight. The callback runs on a thread of the
  client library; its effects are taken as one step, as the lock and the atomic counter make
  the interleavings of its parts with a send commute.
\<close>

inductive async_reachable :: "'i input_ops \<Rightarrow> 'i infer_data_manager \<Rightarrow> 'i infer_context \<times> thread_stat \<Rightarrow>
    'i infer_context \<times> thread_stat \<Rightarrow> bool" for ops dm st0 where
  start: "async_reachable ops dm st0 st0"
| send: "async_reachable ops dm st0 (c, ts) \<Longrightarrow> unat (ic_request_id c) < 2 ^ 48 \<Longrightarrow>
    SendInferRequest ops dm a delayed (c, ts) = Inr st' \<Longrightarrow> async_reachable ops dm st0 st'"
| respond: "async_reachable ops dm st0 (c, ts) \<Longrightarrow> map_find (async_req_map c) (snd (r_id r)) \<noteq> None \<Longrightarrow>
    AsyncCallbackFuncImpl now stat r (c, ts) = Inr (st', w) \<Longrightarrow> async_reachable ops dm st0 st'"

definition in_flight :: "'i infer_context \<Rightarrow> nat" where
  "in_flight c = length (async_req_map c)"

text \<open>The first argument is the number of finished requests whose records were taken away.\<close>

definition async_inv :: "u64 \<Rightarrow> 'i infer_context \<times> thread_stat \<Rightarrow> bool" where
  "async_inv gone st \<longleftrightarrow> (case st of (c, ts) \<Rightarrow> ic_async c \<and> map_wf (async_req_map c) \<and>
     (\<forall>key. map_find (async_req_map c) key \<noteq> None \<longrightarrow>
        (\<exists>rid. unat rid < unat (ic_request_id c) \<and> key = request_key (ic_thread_id c) rid)) \<and>
     unat (ic_request_id c) \<le> 2 ^ 48 \<and> (\<forall>r \<in> set (request_records ts). response_timestamps r \<noteq> []) \<and>
     (IsOk (cb_status ts) \<longrightarrow> total_ongoing_requests c = word_of_nat (in_flight c) \<and>
        num_sent_requests ts = gone + word_of_nat (length (request_records ts) + in_flight c)))"


text \<open>Preparing the data of a request changes neither the requests in flight nor the counts.\<close>

lemma UpdateJsonData_frame:
  assumes "UpdateJsonData ops dm (c, ts) = Inr (c', ts')"
  shows "ic_async c' = ic_async c \<and> async_req_map c' = async_req_map c \<and> ic_request_id c' = ic_request_id c \<and>
    ic_thread_id c' = ic_thread_id c \<and> ic_id c' = ic_id c \<and> total_ongoing_requests c' = total_ongoing_requests c \<and>
    cb_status ts' = cb_status ts \<and> num_sent_requests ts' = num_sent_requests ts \<and> request_records ts' = request_records ts"
  using assms by (auto simp: UpdateJsonData_def bindR_Inr_conv Let_def split: if_splits prod.splits)

lemma SendRequest_async:
  assumes "SendRequest ops a rid delayed sid (c, ts) = Inr (c', ts')" and "ic_async c"
  shows "(c', ts') = (c, ts) \<and> \<not> IsOk (status ts) \<or>
    (ic_async c' \<and> ic_request_id c' = ic_request_id c \<and> ic_thread_id c' = ic_thread_id c \<and> ic_id c' = ic_id c \<and>
     total_ongoing_requests c' = total_ongoing_requests c + 1 \<and> cb_status ts' = cb_status ts \<and>
     num_sent_requests ts' = num_sent_requests ts + 1 \<and> request_records ts' = request_records ts \<and>
     (\<exists>r. async_req_map c' = map_assign (request_key (ic_thread_id c) rid) r (async_req_map c)))"
  using assms
  by (auto simp: SendRequest_def send_async_def request_key_def bindR_Inr_conv Let_def split: if_splits)

text \<open>A request that is sent is a new entry in the map; one that is not leaves an error behind.\<close>

lemma SendInferRequest_async:
  assumes "SendInferRequest ops dm a delayed (c, ts) = Inr (c', ts')" and "ic_async c"
  shows "ic_async c' \<and> ic_request_id c' = ic_request_id c + 1 \<and> ic_thread_id c' = ic_thread_id c \<and> ic_id c' = ic_id c \<and>
    cb_status ts' = cb_status ts \<and> request_records ts' = request_records ts \<and>
    (async_req_map c' = async_req_map c \<and> total_ongoing_requests c' = total_ongoing_requests c \<and>
       num_sent_requests ts' = num_sent_requests ts \<and> \<not> IsOk (status ts') \<or>
     total_ongoing_requests c' = total_ongoing_requests c + 1 \<and> num_sent_requests ts' = num_sent_requests ts + 1 \<and>
       (\<exists>r. async_req_map c' = map_assign (request_key (ic_thread_id c) (ic_request_id c)) r (async_req_map c)))"
proof -
  obtain c1 ts1 where prep: "(if ic_using_json_data c then UpdateJsonData ops dm (c, ts) else Inr (c, ts)) = Inr (c1, ts1)"
    and send: "SendRequest ops a (ic_request_id c1) delayed 0 (c1\<lparr>ic_request_id := ic_request_id c1 + 1\<rparr>, ts1) = Inr (c', ts')"
    using assms(1) by (auto simp: SendInferRequest_def bindR_Inr_conv)
  have "ic_async c1 = ic_async c \<and> async_req_map c1 = async_req_map c \<and> ic_request_id c1 = ic_request_id c \<and>
      ic_thread_id c1 = ic_thread_id c \<and> ic_id c1 = ic_id c \<and> total_ongoing_requests c1 = total_ongoing_requests c \<and>
      cb_status ts1 = cb_status ts \<and> num_sent_requests ts1 = num_sent_requests ts \<and> request_records ts1 = request_records ts"
    using prep UpdateJsonData_frame [of ops dm c ts c1 ts1] by (auto split: if_splits)
  with SendRequest_async [OF send] assms(2) show ?thesis by auto
qed

lemma next_key_fresh:
  assumes "async_inv gone (c, ts)" and "unat (ic_request_id c) < 2 ^ 48"
  shows "map_find (async_req_map c) (request_key (ic_thread_id c) (ic_request_id c)) = None"
proof (rule ccontr)
  assume "\<not> ?thesis"
  then obtain rid where "unat rid < unat (ic_request_id c)"
    "request_key (ic_thread_id c) (ic_request_id c) = request_key (ic_thread_id c) rid"
    using assms(1) by (auto simp: async_inv_def)
  with request_key_inj [of "ic_thread_id c" "ic_request_id c" rid] assms(2) show False by simp
qed

lemma SendInferRequest_inv:
  assumes "SendInferRequest ops dm a delayed (c, ts) = Inr st'" and "async_inv gone (c, ts)" and "unat (ic_request_id c) < 2 ^ 48"
  shows "async_inv gone st'"
proof -
  obtain c' ts' where st': "st' = (c', ts')" by fastforce
  have "ic_async c" using assms(2) by (simp add: async_inv_def)
  note sent = SendInferRequest_async [OF assms(1) [unfolded st'] this]
  have next_id: "unat (ic_request_id c + 1) = Suc (unat (ic_request_id c))"
    using assms(3) by (simp add: unat_word_ariths)
  have "\<exists>rid. unat rid < unat (ic_request_id c') \<and> key = request_key (ic_thread_id c') rid"
    if "map_find (async_req_map c') key \<noteq> None" for key
  proof (cases "map_find (async_req_map c) key = None")
    case True
    with that sent assms(2) have "key = request_key (ic_thread_id c) (ic_request_id c)"
      by (auto simp: async_inv_def split: if_splits)
    with sent next_id show ?thesis by auto
  next
    case False
    with assms(2) obtain rid where "unat rid < unat (ic_request_id c)" "key = request_key (ic_thread_id c) rid"
      by (auto simp: async_inv_def)
    with sent next_id show ?thesis by (metis less_SucI)
  qed
  with sent next_id next_key_fresh [OF assms(2,3)] assms(2,3) st' show ?thesis
    by (simp add: async_inv_def in_flight_def) (auto simp: map_assign_length)
qed

lemma SendInferRequest_flight:
  assumes "SendInferRequest ops dm a delayed (c, ts) = Inr (c', ts')" and "async_inv gone (c, ts)"
    and "unat (ic_request_id c) < 2 ^ 48" and "IsOk (status ts')"
  shows "in_flight c' = Suc (in_flight c)"
proof -
  have "ic_async c" "map_wf (async_req_map c)" using assms(2) by (simp_all add: async_inv_def)
  with SendInferRequest_async [OF assms(1)] next_key_fresh [OF assms(2,3)] assms(4) show ?thesis
    by (auto simp: in_flight_def map_assign_length)
qed

text \<open>
  A response that ends a request takes its entry away; only the callback's own status changes,
  and an error stays.
\<close>

lemma AsyncCallback_flight:
  assumes "AsyncCallbackFuncImpl now stat r (c, ts) = Inr ((c', ts'), notified, finished)" and "map_wf (async_req_map c)"
    and "map_find (async_req_map c) (snd (r_id r)) \<noteq> None"
  shows "status ts' = status ts \<and> ic_id c' = ic_id c \<and> (IsOk (cb_status ts') \<longrightarrow> IsOk (cb_status ts) \<and>
    in_flight c = in_flight c' + (if finished then 1 else 0))"
proof -
  let ?key = "snd (r_id r)"
  obtain p where p: "map_find (async_req_map c) ?key = Some p" using assms(3) by auto
  have len: "length (map_assign ?key q (async_req_map c)) = length (async_req_map c)" for q
    using assms(2) p by (simp add: map_assign_length)
  have erased: "Suc (length (map_erase ?key (map_assign ?key q (async_req_map c)))) = length (async_req_map c)" for q
    using map_erase_length [of "map_assign ?key q (async_req_map c)" ?key] assms(2) p len by simp
  show ?thesis
    using assms(1) p
    by (auto simp: erased len AsyncCallbackFuncImpl_def callback_locked_def record_response_def client_stat_def
        bindR_Inr_conv Let_def in_flight_def split: if_splits)
qed

lemma AsyncCallback_inv:
  assumes "AsyncCallbackFuncImpl now stat r (c, ts) = Inr (st', w)" and "async_inv gone (c, ts)"
    and "map_find (async_req_map c) (snd (r_id r)) \<noteq> None"
  shows "async_inv gone st'"
proof -
  let ?key = "snd (r_id r)"
  obtain p where p: "map_find (async_req_map c) ?key = Some p" using assms(3) by auto
  have wf: "map_wf (async_req_map c)" using assms(2) by (simp add: async_inv_def)
  have len: "length (map_assign ?key q (async_req_map c)) = in_flight c" for q
    using wf p by (simp add: map_assign_length in_flight_def)
  have Suc_erased: "Suc (length (map_erase ?key (map_assign ?key q (async_req_map c)))) = length (async_req_map c)" for q
    using map_erase_length [of "map_assign ?key q (async_req_map c)" ?key] wf p len by (simp add: in_flight_def)
  then have one: "1 \<le> length (async_req_map c)" by (metis Suc_le_mono le0 One_nat_def)
  have erased: "length (map_erase ?key (map_assign ?key q (async_req_map c))) = length (async_req_map c) - 1" for q
    using Suc_erased [of q] by simp
  show ?thesis
  proof (cases "IsOk (cb_status ts)")
    case False
    then show ?thesis using assms by (auto simp: AsyncCallbackFuncImpl_def callback_locked_def async_inv_def)
  next
    case True
    then show ?thesis
      using assms p wf len one
      by (auto simp: erased of_nat_diff AsyncCallbackFuncImpl_def callback_locked_def record_response_def client_stat_def async_inv_def
          bindR_Inr_conv Let_def in_flight_def split: if_splits)
  qed
qed

lemma async_reachable_inv:
  "async_reachable ops dm st0 st \<Longrightarrow> async_inv gone st0 \<Longrightarrow> async_inv gone st"
proof (induction rule: async_reachable.induct)
  case (send c ts a delayed st')
  then show ?case using SendInferRequest_inv by blast
next
  case (respond c ts r now stat st' w)
  then show ?case using AsyncCallback_inv by blast
qed

section \<open>Validation of batches\<close>

text \<open>
  Expected data that is valid and held in full: \<open>d e\<close> is the data of the element \<open>e\<close>, and the
  response has the output, with the bytes \<open>out\<close> of its name.
\<close>

definition checkable :: "infer_result \<Rightarrow> (tensor_data \<Rightarrow> bytes) \<Rightarrow> (string \<Rightarrow> bytes) \<Rightarrow> tensor_data \<Rightarrow> bool" where
  "checkable r d out e \<longleftrightarrow> is_valid e \<and> data_ptr e = Some (d e) \<and> batch1_size e = length (d e) \<and>
     r_raw r (td_name e) = Some (out (td_name e))"

lemma validate_batch_result:
  assumes "\<forall>e \<in> set es. checkable r d out e"
  shows "validate_batch r es buf = Inr (Inr rest) \<longleftrightarrow>
    (\<forall>e \<in> set es. take (length (d e)) (out (td_name e)) = d e) \<and>
    rest = (if es = [] then buf else drop (length (d (last es))) (out (td_name (last es))))"
  using assms
proof (induction es arbitrary: buf)
  case (Cons e es)
  have "take (length (d e)) (out (td_name e)) = d e \<Longrightarrow> length (d e) \<le> length (out (td_name e))"
    by (metis length_take min.absorb_iff2)
  with Cons show ?case
    by (auto simp: checkable_def mem_read_def Let_def)
qed auto

lemma validate_batch_error: "validate_batch r es buf = Inr (Inl e) \<Longrightarrow> e \<noteq> Success"
  by (induction es arbitrary: buf) (auto simp: Let_def bindR_Inr_conv split: if_splits)

lemma validate_outputs_success:
  "validate_outputs r ess = Inr Success \<longleftrightarrow> (\<forall>es \<in> set ess. validate_batch r es [] = Inr (Inr []))"
proof (induction ess)
  case (Cons es ess)
  show ?case
  proof (cases "validate_batch r es []")
    case (Inr res)
    then show ?thesis using Cons validate_batch_error [of r es "[]"] by (cases res) auto
  qed auto
qed simp

section \<open>Properties\<close>

text \<open>
  C9: No asynchronous request is lost or counted twice. Whatever the order in which requests are
  sent and responses (several per request for a decoupled model) arrive, as long as the
  callback has met no error, the counter of ongoing requests is the number of requests in
  flight, every request that was sent is either in flight or has exactly one record, and
  every record has a response time.
\<close>

theorem async_requests_accounted:
  assumes "async_reachable ops dm (c0, ts0) (c, ts)"
    and "ic_async c0" and "async_req_map c0 = []" and "total_ongoing_requests c0 = 0" and "ic_request_id c0 = 0"
    and "request_records ts0 = []" and "num_sent_requests ts0 = 0"
  shows "(\<forall>r \<in> set (request_records ts). response_timestamps r \<noteq> []) \<and>
    (IsOk (cb_status ts) \<longrightarrow> total_ongoing_requests c = word_of_nat (in_flight c) \<and>
       num_sent_requests ts = word_of_nat (length (request_records ts) + in_flight c))"
proof -
  have "async_inv 0 (c0, ts0)" using assms(2-7) by (simp add: async_inv_def in_flight_def)
  from async_reachable_inv [OF assms(1) this] show ?thesis by (simp add: async_inv_def)
qed

definition sample_answer :: backend_answer where
  "sample_answer = \<lparr>a_status = Success, a_result = None, a_stat = (Success, \<lparr>completed_request_count = 1,
     cumulative_total_request_time_ns = 9, cumulative_send_time_ns = 1, cumulative_receive_time_ns = 1\<rparr>),
     a_start = 10, a_end = 0, a_idle_start = 11, a_idle_stop = 12\<rparr>"

definition sample_response :: infer_result where
  "sample_response = \<lparr>r_status = Success, r_id = (Success, request_key 1 0), r_raw = (\<lambda>_. None),
     r_null = (Success, False), r_final = (Success, True)\<rparr>"

definition sample_start :: "infer_input infer_context \<times> thread_stat" where
  "sample_start = InferContext 1 0 True False False 1 ''m'' ''1'' ''s'' Success ThreadStat"

theorem async_requests_accounted_witness:
  "\<exists>c ts. async_reachable (ts_ops 0) sample_manager sample_start (c, ts) \<and> in_flight c = 0 \<and>
     num_sent_requests ts = word_of_nat (length (request_records ts)) \<and> total_ongoing_requests c = 0"
proof -
  let ?send = "SendInferRequest (ts_ops 0) sample_manager sample_answer False"
  have "(case ?send sample_start of Inl _ \<Rightarrow> False | Inr (c1, ts1) \<Rightarrow>
      map_find (async_req_map c1) (snd (r_id sample_response)) \<noteq> None \<and>
      (case AsyncCallbackFuncImpl 20 (a_stat sample_answer) sample_response (c1, ts1) of Inl _ \<Rightarrow> False
       | Inr ((c, ts), w) \<Rightarrow> IsOk (cb_status ts) \<and> in_flight c = 0))"
    by (simp add: sample_start_def InferContext_def sample_answer_def sample_response_def ThreadStat_def SendInferRequest_def
        SendRequest_def send_async_def GetInputs_def InferOptions_def request_key_def timer_defs new_timer_def map_find_def
        AsyncCallbackFuncImpl_def callback_locked_def record_response_def client_stat_def GetOutputs_def
        ValidateOutputs_def in_flight_def map_erase_def map_get_def Let_def)
  then obtain c1 ts1 where s: "?send sample_start = Inr (c1, ts1)"
    and f: "map_find (async_req_map c1) (snd (r_id sample_response)) \<noteq> None"
    and c: "case AsyncCallbackFuncImpl 20 (a_stat sample_answer) sample_response (c1, ts1) of Inl _ \<Rightarrow> False
       | Inr ((c, ts), w) \<Rightarrow> IsOk (cb_status ts) \<and> in_flight c = 0"
    by (cases "?send sample_start") auto
  from c obtain c ts w where r: "AsyncCallbackFuncImpl 20 (a_stat sample_answer) sample_response (c1, ts1) = Inr ((c, ts), w)"
    and ok: "IsOk (cb_status ts)" "in_flight c = 0"
    by (cases "AsyncCallbackFuncImpl 20 (a_stat sample_answer) sample_response (c1, ts1)") auto
  obtain c0 ts0 where st0: "sample_start = (c0, ts0)" by fastforce
  then have c0: "ic_async c0" "async_req_map c0 = []" "total_ongoing_requests c0 = 0" "ic_request_id c0 = 0"
    "request_records ts0 = []" "num_sent_requests ts0 = 0"
    by (auto simp: sample_start_def InferContext_def ThreadStat_def)
  have "async_reachable (ts_ops 0) sample_manager (c0, ts0) (c1, ts1)"
    using s c0(4) by (intro async_reachable.send [OF async_reachable.start]) (simp_all add: st0)
  then have reach: "async_reachable (ts_ops 0) sample_manager (c0, ts0) (c, ts)"
    by (rule async_reachable.respond [OF _ f r])
  from async_requests_accounted [OF reach c0] ok reach show ?thesis by (auto simp: st0)
qed

text \<open>
  C39: What the validation of the outputs accepts, for expected data that is valid and a response
  that has every expected output: the data of each batch element is compared with the
  beginning of the whole output, and the output may have no bytes beyond those of the last
  element. So a response that is the concatenation of two or more non-empty elements, the
  output of a batch, is refused (the whole output is fetched anew for every element, and what
  an element consumed is forgotten).
\<close>

theorem output_validation_exact:
  assumes "\<forall>es \<in> set (expected_outputs x). \<forall>e \<in> set es. checkable r d out e"
  shows "(ValidateOutputs r x = Inr Success \<longleftrightarrow>
      (\<forall>es \<in> set (expected_outputs x).
         (\<forall>e \<in> set es. take (length (d e)) (out (td_name e)) = d e) \<and>
         (es \<noteq> [] \<longrightarrow> out (td_name (last es)) = d (last es)))) \<and>
    (\<forall>es \<in> set (expected_outputs x). length es \<ge> 2 \<longrightarrow> (\<forall>e \<in> set es. d e \<noteq> []) \<longrightarrow>
       out (td_name (last es)) = concat (map d es) \<longrightarrow> ValidateOutputs r x \<noteq> Inr Success)"
proof -
  have "validate_batch r es [] = Inr (Inr []) \<longleftrightarrow>
      (\<forall>e \<in> set es. take (length (d e)) (out (td_name e)) = d e) \<and>
      (es \<noteq> [] \<longrightarrow> out (td_name (last es)) = d (last es))" if "es \<in> set (expected_outputs x)" for es
  proof (cases "es = []")
    case False
    then have "take (length (d (last es))) (out (td_name (last es))) = d (last es) \<Longrightarrow>
      drop (length (d (last es))) (out (td_name (last es))) = [] \<longleftrightarrow> out (td_name (last es)) = d (last es)"
      by (metis append_Nil2 append_take_drop_id drop_all order_refl)
    with False validate_batch_result [of es r d out "[]" "[]"] assms that show ?thesis
      by (metis last_in_set)
  qed simp
  then have iff: "ValidateOutputs r x = Inr Success \<longleftrightarrow>
      (\<forall>es \<in> set (expected_outputs x).
         (\<forall>e \<in> set es. take (length (d e)) (out (td_name e)) = d e) \<and>
         (es \<noteq> [] \<longrightarrow> out (td_name (last es)) = d (last es)))"
    by (auto simp: ValidateOutputs_def validate_outputs_success)
  have "concat (map d es) \<noteq> d (last es)" if len: "length es \<ge> 2" and ne: "\<forall>e \<in> set es. d e \<noteq> []" for es
  proof -
    obtain e f es' where es: "es = e # f # es'"
      using len by (cases es rule: remdups_adj.cases) auto
    have "concat (map d (f # es')) = concat (map d (butlast (f # es') @ [last (f # es')]))"
      by (simp only: append_butlast_last_id list.distinct not_False_eq_True)
    then have "concat (map d es) = d e @ concat (map d (butlast (f # es'))) @ d (last es)"
      unfolding map_append concat_append by (simp add: es)
    with ne es show ?thesis by simp
  qed
  with iff show ?thesis by (metis list.size(3) not_numeral_le_zero)
qed

definition sample_checked :: "bytes list \<Rightarrow> nat infer_data" where
  "sample_checked bs = \<lparr>id_inputs = [], valid_inputs = [], id_outputs = [(''O'', ''UINT8'')],
     expected_outputs = [map (\<lambda>b. \<lparr>data_ptr = Some b, batch1_size = length b, is_valid = True, td_name = ''O''\<rparr>) bs],
     id_options = InferOptions ''m''\<rparr>"

definition sample_output :: "bytes \<Rightarrow> infer_result" where
  "sample_output b = sample_response\<lparr>r_raw := (\<lambda>_. Some b)\<rparr>"

theorem output_validation_exact_witness:
  "ValidateOutputs (sample_output [1, 2]) (sample_checked [[1, 2]]) = Inr Success \<and>
   ValidateOutputs (sample_output [1]) (sample_checked [[1], [1]]) = Inr Success \<and>
   ValidateOutputs (sample_output [1, 2]) (sample_checked [[1], [2]]) \<noteq> Inr Success"
  using output_validation_exact [of "sample_checked [[1, 2]]" "sample_output [1, 2]" "\<lambda>e. the (data_ptr e)" "\<lambda>_. [1, 2]"]
    output_validation_exact [of "sample_checked [[1], [1]]" "sample_output [1]" "\<lambda>e. the (data_ptr e)" "\<lambda>_. [1]"]
    output_validation_exact [of "sample_checked [[1], [2]]" "sample_output [1, 2]" "\<lambda>e. the (data_ptr e)" "\<lambda>_. [1, 2]"]
  by (simp add: sample_checked_def sample_output_def checkable_def)

end
