(* ===== verification/Load_Worker.thy ===== *)
theory Load_Worker
  imports Infer_Context
begin

text \<open>
  The worker threads (\<open>load_worker.cc\<close>, \<open>concurrency_worker.cc\<close>, \<open>periodic_concurrency_worker.cc\<close>,
  \<open>request_rate_worker.cc\<close>): the operations of a worker on its contexts, its tracker of context
  ids and what it shares with the manager, and for each kind of worker its control flow as a
  function of the point where the thread stands. A step is what the thread does between two
  points at which it may wait. In a run the steps of the thread, the callbacks of the client library
  and what the manager does to the statistics and the configuration follow each other in any
  order; the flags \<open>early_exit\<close> and \<open>execute\<close> may have any value at each step.
\<close>

section \<open>State\<close>

text \<open>What a worker is constructed with.\<close>

record 'i worker_params =
  wp_id :: u64
  wp_on_sequence_model :: bool
  wp_async :: bool
  wp_streaming :: bool
  wp_using_json_data :: bool
  wp_batch_size :: int
  wp_model_name :: string
  wp_model_version :: string
  wp_signature_name :: string
  wp_ops :: "'i input_ops"
  wp_data_manager :: "'i infer_data_manager"

record ('i, 'g) worker_state =
  w_ctxs :: "'i infer_context list"
  w_tracker :: "'g ctx_id_tracker"
  w_notified :: bool
  w_stat :: thread_stat
  w_config :: thread_config
  w_seq :: "'g sequence_manager"

section \<open>Operations of every worker\<close>

definition ShouldExit :: "bool \<Rightarrow> ('i, 'g) worker_state \<Rightarrow> bool" where
  "ShouldExit exits w \<longleftrightarrow>
     (let bad_status = (\<not> IsOk (cb_status (w_stat w)) \<or> \<not> IsOk (status (w_stat w)));
          done_with_request_count = (num_requests (w_config w) \<noteq> 0 \<and>
            unat (num_sent_requests (w_stat w)) \<ge> num_requests (w_config w))
      in exits \<or> bad_status \<or> done_with_request_count)"

definition GetNumOngoingRequests :: "('i, 'g) worker_state \<Rightarrow> u32" where
  "GetNumOngoingRequests w = foldl (\<lambda>n c. n + total_ongoing_requests c) 0 (w_ctxs w)"

definition GetSeqStatIndex :: "nat \<Rightarrow> ('i, 'g) worker_state \<Rightarrow> nat" where
  "GetSeqStatIndex ctx_id w =
     unat (word_of_nat (seq_stat_index_offset (w_config w) + ctx_id) :: u32)"

text \<open>An operation on the context with the given index.\<close>

definition on_context :: "nat \<Rightarrow> ('i infer_context \<times> thread_stat \<times> 'g sequence_manager \<Rightarrow>
      exn + 'i infer_context \<times> thread_stat \<times> 'g sequence_manager) \<Rightarrow>
    ('i, 'g) worker_state \<Rightarrow> exn + ('i, 'g) worker_state" where
  "on_context i f w =
     bindR (vec_index (w_ctxs w) i) (\<lambda>c.
     bindR (f (c, w_stat w, w_seq w)) (\<lambda>(c', ts, sm).
       Inr (w\<lparr>w_ctxs := (w_ctxs w)[i := c'], w_stat := ts, w_seq := sm\<rparr>)))"

text \<open>The engine of the sequence manager, and what the loader tells it of a stream.\<close>

record 'g seq_env =
  se_uniform :: "'g uniform"
  se_total_steps :: "u64 \<Rightarrow> u64"
  se_random :: int

definition CompleteOngoingSequences :: "'i worker_params \<Rightarrow> 'g seq_env \<Rightarrow> (nat \<Rightarrow> backend_answer) \<Rightarrow>
    ('i, 'g) worker_state \<Rightarrow> exn + ('i, 'g) worker_state" where
  "CompleteOngoingSequences wp se answers w =
     (if wp_on_sequence_model wp then
        foldR (\<lambda>w ctx_id. on_context ctx_id
          (CompleteOngoingSequence (se_uniform se) (se_total_steps se) (se_random se) (wp_ops wp)
             (wp_data_manager wp) (answers ctx_id) (GetSeqStatIndex ctx_id w)) w)
          w [0..<length (w_ctxs w)]
      else Inr w)"

definition CreateInferContext :: "'i worker_params \<Rightarrow> cb_error \<Rightarrow> ('i, 'g) worker_state \<Rightarrow> 'i infer_context \<times> thread_stat" where
  "CreateInferContext wp created w =
     InferContext (wp_id wp) (length (w_ctxs w)) (wp_async wp) (wp_streaming wp) (wp_using_json_data wp)
       (wp_batch_size wp) (wp_model_name wp) (wp_model_version wp) (wp_signature_name wp) created (w_stat w)"

text \<open>
  \<open>CreateContext\<close>; \<open>finalize\<close> is the virtual \<open>CreateContextFinalize\<close>. The callback that it
  registers is a step of the runs below.
\<close>

definition CreateContext :: "'i worker_params \<Rightarrow> cb_error \<Rightarrow> cb_error \<Rightarrow> ('i infer_context \<Rightarrow> 'i infer_context) \<Rightarrow>
    ('i, 'g) worker_state \<Rightarrow> exn + ('i, 'g) worker_state" where
  "CreateContext wp created started finalize w =
     bindR (ic_Init (wp_ops wp) (wp_data_manager wp) started (CreateInferContext wp created w)) (\<lambda>(c, ts).
       Inr (w\<lparr>w_ctxs := w_ctxs w @ [finalize c], w_stat := ts\<rparr>))"

definition GetCtxId :: "'g uniform \<Rightarrow> ('i, 'g) worker_state \<Rightarrow> exn + nat \<times> ('i, 'g) worker_state" where
  "GetCtxId u w = bindR (Get u (w_tracker w)) (\<lambda>(i, t). Inr (i, w\<lparr>w_tracker := t\<rparr>))"

definition RestoreFreeCtxId :: "'i worker_params \<Rightarrow> nat \<Rightarrow> ('i, 'g) worker_state \<Rightarrow> ('i, 'g) worker_state" where
  "RestoreFreeCtxId wp ctx_id w =
     (if \<not> wp_async wp then w\<lparr>w_tracker := Restore (w_tracker w) ctx_id\<rparr> else w)"

definition AsyncCallbackFinalize :: "nat \<Rightarrow> ('i, 'g) worker_state \<Rightarrow> ('i, 'g) worker_state" where
  "AsyncCallbackFinalize ctx_id w = w\<lparr>w_tracker := Restore (w_tracker w) ctx_id, w_notified := True\<rparr>"

definition worker_SendInferRequest :: "'i worker_params \<Rightarrow> 'g seq_env \<Rightarrow> backend_answer \<Rightarrow> bool \<Rightarrow> bool \<Rightarrow> nat \<Rightarrow> bool \<Rightarrow>
    ('i, 'g) worker_state \<Rightarrow> exn + ('i, 'g) worker_state" where
  "worker_SendInferRequest wp se a exits execute ctx_id delayed w =
     (if ShouldExit exits w then Inr w
      else if wp_on_sequence_model wp then
        on_context ctx_id
          (SendSequenceInferRequest (se_uniform se) (se_total_steps se) (se_random se) (wp_ops wp)
             (wp_data_manager wp) a exits execute delayed (GetSeqStatIndex ctx_id w)) w
      else
        on_context ctx_id (\<lambda>(c, ts, sm).
          bindR (SendInferRequest (wp_ops wp) (wp_data_manager wp) a delayed (c, ts)) (\<lambda>(c', ts').
            Inr (c', ts', sm))) w)"

text \<open>The callback for a response to the context with the given index, in the thread of the library.\<close>

definition worker_callback :: "int \<Rightarrow> cb_error \<times> infer_stat \<Rightarrow> infer_result \<Rightarrow> nat \<Rightarrow> ('i, 'g) worker_state \<Rightarrow>
    exn + ('i, 'g) worker_state" where
  "worker_callback now stat r ctx_id w =
     bindR (vec_index (w_ctxs w) ctx_id) (\<lambda>c.
     bindR (AsyncCallbackFuncImpl now stat r (c, w_stat w)) (\<lambda>((c', ts), notified, finished).
       let w' = w\<lparr>w_ctxs := (w_ctxs w)[ctx_id := c'], w_stat := ts\<rparr>
       in Inr (if finished then AsyncCallbackFinalize (ic_id c) w' else w')))"

definition start_idle :: "nanos \<Rightarrow> ('i, 'g) worker_state \<Rightarrow> exn + ('i, 'g) worker_state" where
  "start_idle now w =
     bindR (Start now (ts_idle_timer (w_stat w))) (\<lambda>t. Inr (w\<lparr>w_stat := (w_stat w)\<lparr>ts_idle_timer := t\<rparr>\<rparr>))"

definition stop_idle :: "nanos \<Rightarrow> ('i, 'g) worker_state \<Rightarrow> exn + ('i, 'g) worker_state" where
  "stop_idle now w =
     bindR (Stop now (ts_idle_timer (w_stat w))) (\<lambda>t. Inr (w\<lparr>w_stat := (w_stat w)\<lparr>ts_idle_timer := t\<rparr>\<rparr>))"

text \<open>What \<open>HandleExitConditions\<close> does before it waits for the ongoing requests.\<close>

definition begin_exit :: "'i worker_params \<Rightarrow> 'g seq_env \<Rightarrow> (nat \<Rightarrow> backend_answer) \<Rightarrow> nanos \<Rightarrow>
    ('i, 'g) worker_state \<Rightarrow> exn + ('i, 'g) worker_state" where
  "begin_exit wp se answers now w = bindR (CompleteOngoingSequences wp se answers w) (start_idle now)"

definition set_paused :: "bool \<Rightarrow> ('i, 'g) worker_state \<Rightarrow> ('i, 'g) worker_state" where
  "set_paused p w = w\<lparr>w_config := (w_config w)\<lparr>is_paused := p\<rparr>\<rparr>"

definition SetNumActiveThreads :: "u64 \<Rightarrow> ('i, 'g) worker_state \<Rightarrow> ('i, 'g) worker_state" where
  "SetNumActiveThreads n w = w\<lparr>w_ctxs := map (\<lambda>c. c\<lparr>num_active_threads := n\<rparr>) (w_ctxs w)\<rparr>"

section \<open>The concurrency worker\<close>

definition cw_CreateCtxIdTracker :: "'g \<Rightarrow> 'i worker_params \<Rightarrow> ('i, 'g) worker_state \<Rightarrow> ('i, 'g) worker_state" where
  "cw_CreateCtxIdTracker g0 wp w = w\<lparr>w_tracker := CreateTracker g0 True (wp_on_sequence_model wp) False\<rparr>"

definition cw_ResetFreeCtxIds :: "('i, 'g) worker_state \<Rightarrow> ('i, 'g) worker_state" where
  "cw_ResetFreeCtxIds w = w\<lparr>w_tracker := Reset (w_tracker w) (concurrency (w_config w))\<rparr>"

text \<open>
  \<open>CreateContextsAsNecessary\<close>: \<open>created\<close> and \<open>started\<close> are the answers of the backend to the creation
  of a context and of its stream.
\<close>

definition CreateContextsAsNecessary :: "'i worker_params \<Rightarrow> (nat \<Rightarrow> cb_error) \<Rightarrow> (nat \<Rightarrow> cb_error) \<Rightarrow> u64 \<Rightarrow>
    ('i, 'g) worker_state \<Rightarrow> exn + ('i, 'g) worker_state" where
  "CreateContextsAsNecessary wp created started active w =
     (let active_ctx_cnt = (if wp_on_sequence_model wp then concurrency (w_config w) else 1)
      in bindR (if active_ctx_cnt > length (w_ctxs w) then
                  bindR (foldR (\<lambda>w i. CreateContext wp (created i) (started i) id w) w
                           [length (w_ctxs w)..<active_ctx_cnt]) (\<lambda>w'. Inr (cw_ResetFreeCtxIds w'))
                else Inr w) (\<lambda>w'. Inr (SetNumActiveThreads active w')))"

text \<open>One turn of the loop of \<open>SendInferRequests\<close>.\<close>

definition send_next :: "'i worker_params \<Rightarrow> 'g seq_env \<Rightarrow> backend_answer \<Rightarrow> bool \<Rightarrow> bool \<Rightarrow> ('i, 'g) worker_state \<Rightarrow>
    exn + ('i, 'g) worker_state" where
  "send_next wp se a exits execute w =
     bindR (GetCtxId (se_uniform se) w) (\<lambda>(ctx_id, w1).
     bindR (worker_SendInferRequest wp se a exits execute ctx_id False w1) (\<lambda>w2.
       Inr (RestoreFreeCtxId wp ctx_id w2)))"

text \<open>
  The points of \<open>RunInference\<close>: the beginning, the two waits of \<open>HandleExecuteOff\<close>, the wait of
  \<open>HandleNoConcurrency\<close>, the creation of contexts, the three exit checks, the loop that sends, the
  wait for a response, the wait for the ongoing requests at the end, and the end.
\<close>

datatype cw_phase =
    CwStart | CwPausing | CwPaused | CwNoConcurrency | CwCreate | CwExit1 | CwSend | CwExit2
  | CwWait | CwWaiting | CwExit3 | CwDraining | CwDone

text \<open>What the thread finds when it takes its next step, and what the others answer it.\<close>

record 'g turn =
  t_exits :: bool
  t_execute :: bool
  t_now :: nanos
  t_active :: u64
  t_seq :: "'g seq_env"
  t_answer :: backend_answer
  t_answers :: "nat \<Rightarrow> backend_answer"
  t_created :: "nat \<Rightarrow> cb_error"
  t_started :: "nat \<Rightarrow> cb_error"

text \<open>\<open>HandleExitConditions\<close> up to its wait: the next point when there is no reason to exit.\<close>

definition exit_check :: "'i worker_params \<Rightarrow> 'g turn \<Rightarrow> 'p \<Rightarrow> 'p \<Rightarrow> ('i, 'g) worker_state \<Rightarrow>
    exn + 'p \<times> ('i, 'g) worker_state" where
  "exit_check wp t draining next w =
     (if ShouldExit (t_exits t) w then
        bindR (begin_exit wp (t_seq t) (t_answers t) (t_now t) w) (\<lambda>w'. Inr (draining, w'))
      else Inr (next, w))"

text \<open>One step of the thread; a wait whose condition does not hold is a step that changes nothing.\<close>

fun cw_turn :: "'i worker_params \<Rightarrow> 'g turn \<Rightarrow> cw_phase \<Rightarrow> ('i, 'g) worker_state \<Rightarrow>
    exn + cw_phase \<times> ('i, 'g) worker_state" where
  "cw_turn wp t CwStart w =
     (if wp_on_sequence_model wp \<and> \<not> t_execute t then
        bindR (CompleteOngoingSequences wp (t_seq t) (t_answers t) w) (\<lambda>w'. Inr (CwPausing, w'))
      else Inr (CwNoConcurrency, set_paused False w))"
| "cw_turn wp t CwPausing w =
     (if GetNumOngoingRequests w \<noteq> 0 then Inr (CwPausing, w)
      else Inr (CwPaused, set_paused True (cw_ResetFreeCtxIds w)))"
| "cw_turn wp t CwPaused w =
     (if t_exits t \<or> t_execute t then
        Inr (CwNoConcurrency, set_paused False (SetNumActiveThreads (t_active t) w))
      else Inr (CwPaused, w))"
| "cw_turn wp t CwNoConcurrency w =
     (if concurrency (w_config w) > 0 then Inr (CwCreate, w)
      else if t_exits t then Inr (CwDone, w)
      else Inr (CwNoConcurrency, w))"
| "cw_turn wp t CwCreate w =
     bindR (CreateContextsAsNecessary wp (t_created t) (t_started t) (t_active t) w) (\<lambda>w'. Inr (CwExit1, w'))"
| "cw_turn wp t CwExit1 w = exit_check wp t CwDraining CwSend w"
| "cw_turn wp t CwSend w =
     (if IsAvailable (w_tracker w) \<and> t_execute t \<and> \<not> ShouldExit (t_exits t) w then
        bindR (send_next wp (t_seq t) (t_answer t) (t_exits t) (t_execute t) w) (\<lambda>w'. Inr (CwSend, w'))
      else Inr (CwExit2, w))"
| "cw_turn wp t CwExit2 w = exit_check wp t CwDraining CwWait w"
| "cw_turn wp t CwWait w =
     (if wp_async wp then bindR (start_idle (t_now t) w) (\<lambda>w'. Inr (CwWaiting, w')) else Inr (CwExit3, w))"
| "cw_turn wp t CwWaiting w =
     (if w_notified w then
        bindR (stop_idle (t_now t) (w\<lparr>w_notified := False\<rparr>)) (\<lambda>w'. Inr (CwExit3, w'))
      else Inr (CwWaiting, w))"
| "cw_turn wp t CwExit3 w = exit_check wp t CwDraining CwStart w"
| "cw_turn wp t CwDraining w =
     (if GetNumOngoingRequests w \<noteq> 0 then Inr (CwDraining, w) else Inr (CwDone, w))"
| "cw_turn wp t CwDone w = Inr (CwDone, w)"

text \<open>
  The runs of a worker: steps of the thread (\<open>step\<close>, with the control flow of the kind of worker as
  an argument), responses to requests in flight, and what the manager does meanwhile: it takes
  the records away, takes the number of requests sent, reads and resets the idle timer, and
  reconfigures the thread. A response is one step, from the lock of the statistics to the end of
  \<open>AsyncCallbackFinalize\<close>: the source releases \<open>mu_\<close> before it takes \<open>cb_mtx_\<close>, and states between the
  two, in which the answered request is neither in flight nor its id free, are not states of
  these runs.
\<close>

inductive worker_run :: "('p \<Rightarrow> ('i, 'g) worker_state \<Rightarrow> 'p \<times> ('i, 'g) worker_state \<Rightarrow> bool) \<Rightarrow>
    'p \<times> ('i, 'g) worker_state \<Rightarrow> 'p \<times> ('i, 'g) worker_state \<Rightarrow> bool"
  for advance :: "'p \<Rightarrow> ('i, 'g) worker_state \<Rightarrow> 'p \<times> ('i, 'g) worker_state \<Rightarrow> bool" and s0 where
  start: "worker_run advance s0 s0"
| thread: "worker_run advance s0 (p, w) \<Longrightarrow> \<forall>c \<in> set (w_ctxs w). unat (ic_request_id c) < 2 ^ 48 \<Longrightarrow>
    advance p w s \<Longrightarrow> worker_run advance s0 s"
| respond: "worker_run advance s0 (p, w) \<Longrightarrow> i < length (w_ctxs w) \<Longrightarrow>
    map_find (async_req_map (w_ctxs w ! i)) (snd (r_id r)) \<noteq> None \<Longrightarrow>
    worker_callback now stat r i w = Inr w' \<Longrightarrow> worker_run advance s0 (p, w')"
| take_records: "worker_run advance s0 (p, w) \<Longrightarrow>
    worker_run advance s0 (p, w\<lparr>w_stat := (w_stat w)\<lparr>request_records := []\<rparr>\<rparr>)"
| take_sent: "worker_run advance s0 (p, w) \<Longrightarrow>
    worker_run advance s0 (p, w\<lparr>w_stat := (w_stat w)\<lparr>num_sent_requests := 0\<rparr>\<rparr>)"
| read_idle: "worker_run advance s0 (p, w) \<Longrightarrow> Rate_Schedule.GetIdleTime n1 n2 (ts_idle_timer (w_stat w)) = Inr (v, tm) \<Longrightarrow>
    worker_run advance s0 (p, w\<lparr>w_stat := (w_stat w)\<lparr>ts_idle_timer := tm\<rparr>\<rparr>)"
| reset_idle: "worker_run advance s0 (p, w) \<Longrightarrow> ResetTimer n1 n2 (ts_idle_timer (w_stat w)) = Inr tm \<Longrightarrow>
    worker_run advance s0 (p, w\<lparr>w_stat := (w_stat w)\<lparr>ts_idle_timer := tm\<rparr>\<rparr>)"
| reconfigure: "worker_run advance s0 (p, w) \<Longrightarrow>
    worker_run advance s0 (p, w\<lparr>w_config := (w_config w)\<lparr>concurrency := n, num_requests := m,
      seq_stat_index_offset := off\<rparr>\<rparr>)"

definition cw_step :: "'i worker_params \<Rightarrow> cw_phase \<Rightarrow> ('i, 'g) worker_state \<Rightarrow> cw_phase \<times> ('i, 'g) worker_state \<Rightarrow> bool" where
  "cw_step wp p w s \<longleftrightarrow> (\<exists>t. cw_turn wp t p w = Inr s)"

section \<open>Invariants of runs\<close>

text \<open>What has to be shown of a condition on the state so that it holds throughout every run.\<close>

locale worker_invariant =
  fixes advance :: "'p \<Rightarrow> ('i, 'g) worker_state \<Rightarrow> 'p \<times> ('i, 'g) worker_state \<Rightarrow> bool"
    and ok :: "'p \<Rightarrow> ('i, 'g) worker_state \<Rightarrow> bool"
  assumes ok_thread: "ok p w \<Longrightarrow> \<forall>c \<in> set (w_ctxs w). unat (ic_request_id c) < 2 ^ 48 \<Longrightarrow>
      advance p w (p', w') \<Longrightarrow> ok p' w'"
    and ok_respond: "ok p w \<Longrightarrow> i < length (w_ctxs w) \<Longrightarrow>
      map_find (async_req_map (w_ctxs w ! i)) (snd (r_id r)) \<noteq> None \<Longrightarrow>
      worker_callback now stat r i w = Inr w' \<Longrightarrow> ok p w'"
    and ok_take_records: "ok p w \<Longrightarrow> ok p (w\<lparr>w_stat := (w_stat w)\<lparr>request_records := []\<rparr>\<rparr>)"
    and ok_take_sent: "ok p w \<Longrightarrow> ok p (w\<lparr>w_stat := (w_stat w)\<lparr>num_sent_requests := 0\<rparr>\<rparr>)"
    and ok_idle: "ok p w \<Longrightarrow> ok p (w\<lparr>w_stat := (w_stat w)\<lparr>ts_idle_timer := tm\<rparr>\<rparr>)"
    and ok_reconfigure: "ok p w \<Longrightarrow> ok p (w\<lparr>w_config := (w_config w)\<lparr>concurrency := n, num_requests := m,
      seq_stat_index_offset := off\<rparr>\<rparr>)"
begin

lemma run_ok:
  assumes "worker_run advance (p0, w0) s" and "ok p0 w0"
  shows "ok (fst s) (snd s)"
  using assms
proof (induction rule: worker_run.induct)
  case (thread p w s)
  then show ?case using ok_thread [of p w "fst s" "snd s"] by simp
next
  case (respond p w i r now stat w')
  then show ?case using ok_respond by simp
next
  case (take_records p w)
  then show ?case using ok_take_records by simp
next
  case (take_sent p w)
  then show ?case using ok_take_sent by simp
next
  case (read_idle p w n1 n2 v tm)
  then show ?case using ok_idle by simp
next
  case (reset_idle p w n1 n2 tm)
  then show ?case using ok_idle by simp
next
  case (reconfigure p w n m off)
  then show ?case using ok_reconfigure by simp
qed simp

end

section \<open>The concurrency of a worker\<close>

text \<open>
  A worker of a model without sequences that has its one context: the free ids and the requests in
  flight are \<open>k\<close> together, as long as nothing failed.
\<close>

definition cw_inv :: "'i worker_params \<Rightarrow> nat \<Rightarrow> cw_phase \<Rightarrow> ('i, 'g) worker_state \<Rightarrow> bool" where
  "cw_inv wp k p w \<longleftrightarrow> \<not> wp_on_sequence_model wp \<and> wp_async wp \<and> p \<noteq> CwPausing \<and> p \<noteq> CwPaused \<and>
     (\<exists>c q gone. w_ctxs w = [c] \<and> ic_id c = 0 \<and> w_tracker w = ConcurrencyCtxIdTracker q \<and>
        set (free_ctx_ids q) \<subseteq> {0} \<and> async_inv gone (c, w_stat w) \<and>
        (IsOk (cb_status (w_stat w)) \<and> IsOk (status (w_stat w)) \<longrightarrow> length (free_ctx_ids q) + in_flight c = k))"

lemma cw_inv_frame:
  assumes "cw_inv wp k p w" and "w_ctxs w' = w_ctxs w" and "w_tracker w' = w_tracker w"
    and "cb_status (w_stat w') = cb_status (w_stat w)" and "status (w_stat w') = status (w_stat w)"
    and "num_sent_requests (w_stat w') = num_sent_requests (w_stat w)"
    and "request_records (w_stat w') = request_records (w_stat w)" and "p' \<noteq> CwPausing" and "p' \<noteq> CwPaused"
  shows "cw_inv wp k p' w'"
  using assms by (simp add: cw_inv_def async_inv_def)

lemma idle_frame:
  "start_idle now w = Inr w' \<Longrightarrow> \<exists>t. w' = w\<lparr>w_stat := (w_stat w)\<lparr>ts_idle_timer := t\<rparr>\<rparr>"
  "stop_idle now w = Inr w' \<Longrightarrow> \<exists>t. w' = w\<lparr>w_stat := (w_stat w)\<lparr>ts_idle_timer := t\<rparr>\<rparr>"
  by (auto simp: start_idle_def stop_idle_def bindR_Inr_conv)

lemma async_inv_active:
  "async_inv gone (c\<lparr>num_active_threads := n\<rparr>, ts) = async_inv gone (c, ts)"
  "in_flight (c\<lparr>num_active_threads := n\<rparr>) = in_flight c"
  by (simp_all add: async_inv_def in_flight_def)

lemma cw_inv_send:
  assumes inv: "cw_inv wp k CwSend w" and ids: "\<forall>c \<in> set (w_ctxs w). unat (ic_request_id c) < 2 ^ 48"
    and stay: "\<not> ShouldExit exits w" and send: "send_next wp se a exits execute w = Inr w'"
  shows "cw_inv wp k CwSend w'"
proof -
  obtain c q gone where w: "w_ctxs w = [c]" "ic_id c = 0" "w_tracker w = ConcurrencyCtxIdTracker q"
      "set (free_ctx_ids q) \<subseteq> {0}" "async_inv gone (c, w_stat w)"
      "IsOk (cb_status (w_stat w)) \<Longrightarrow> IsOk (status (w_stat w)) \<Longrightarrow> length (free_ctx_ids q) + in_flight c = k"
    and wp: "\<not> wp_on_sequence_model wp" "wp_async wp"
    using inv by (auto simp: cw_inv_def)
  obtain ctx_id w1 where g: "GetCtxId (se_uniform se) w = Inr (ctx_id, w1)"
    and s: "worker_SendInferRequest wp se a exits execute ctx_id False w1 = Inr w'"
    using send wp by (auto simp: send_next_def RestoreFreeCtxId_def bindR_Inr_conv)
  from g w(3) obtain q' where got: "bq_Get q = Inr (ctx_id, q')"
    and w1: "w1 = w\<lparr>w_tracker := ConcurrencyCtxIdTracker q'\<rparr>"
    by (auto simp: GetCtxId_def bindR_Inr_conv)
  have "free_ctx_ids q = ctx_id # free_ctx_ids q'" using bq.get_ids got by blast
  with w(4) have q': "free_ctx_ids q = 0 # free_ctx_ids q'" "ctx_id = 0" by auto
  have "\<not> ShouldExit exits w1" using stay by (simp add: ShouldExit_def w1)
  with s wp q' w1 w(1) obtain c' ts'
    where c': "SendInferRequest (wp_ops wp) (wp_data_manager wp) a False (c, w_stat w) = Inr (c', ts')"
      and w': "w' = w1\<lparr>w_ctxs := [c'], w_stat := ts', w_seq := w_seq w\<rparr>"
    by (auto simp: worker_SendInferRequest_def on_context_def bindR_Inr_conv vec_index_def)
  have rid: "unat (ic_request_id c) < 2 ^ 48" using ids w(1) by simp
  have "ic_async c" using w(5) by (simp add: async_inv_def)
  note sent = SendInferRequest_async [OF c' this]
  have "length (free_ctx_ids q') + in_flight c' = k" if "IsOk (cb_status ts')" "IsOk (status ts')"
    using that sent SendInferRequest_flight [OF c' w(5) rid] w(6) stay q'(1) by (simp add: ShouldExit_def)
  with SendInferRequest_inv [OF c' w(5) rid] sent w wp w' w1 q' show ?thesis
    by (auto simp: cw_inv_def)
qed

lemma cw_inv_respond:
  assumes inv: "cw_inv wp k p w" and i: "i < length (w_ctxs w)"
    and key: "map_find (async_req_map (w_ctxs w ! i)) (snd (r_id r)) \<noteq> None"
    and cb: "worker_callback now stat r i w = Inr w'"
  shows "cw_inv wp k p w'"
proof -
  obtain c q gone where w: "w_ctxs w = [c]" "ic_id c = 0" "w_tracker w = ConcurrencyCtxIdTracker q"
      "set (free_ctx_ids q) \<subseteq> {0}" "async_inv gone (c, w_stat w)"
      "IsOk (cb_status (w_stat w)) \<Longrightarrow> IsOk (status (w_stat w)) \<Longrightarrow> length (free_ctx_ids q) + in_flight c = k"
    using inv by (auto simp: cw_inv_def)
  have i0: "i = 0" using i w(1) by simp
  obtain c' ts' notified finished
    where c': "AsyncCallbackFuncImpl now stat r (c, w_stat w) = Inr ((c', ts'), notified, finished)"
      and w': "w' = (let w1 = w\<lparr>w_ctxs := [c'], w_stat := ts'\<rparr> in if finished then AsyncCallbackFinalize 0 w1 else w1)"
    using cb w i0 by (auto simp: worker_callback_def bindR_Inr_conv vec_index_def Let_def)
  have wf: "map_wf (async_req_map c)" using w(5) by (simp add: async_inv_def)
  have key': "map_find (async_req_map c) (snd (r_id r)) \<noteq> None" using key w(1) i0 by simp
  note flight = AsyncCallback_flight [OF c' wf key']
  have inv': "async_inv gone (c', ts')" using AsyncCallback_inv [OF c' w(5) key'] .
  show ?thesis
  proof (cases finished)
    case True
    then have w': "w' = w\<lparr>w_ctxs := [c'], w_stat := ts', w_tracker := ConcurrencyCtxIdTracker (bq_Restore q 0),
        w_notified := True\<rparr>"
      using w' w(3) by (simp add: AsyncCallbackFinalize_def)
    with True flight inv' w inv show ?thesis
      unfolding cw_inv_def by (intro conjI exI [of _ c'] exI [of _ "bq_Restore q 0"] exI [of _ gone])
        (auto simp: bq_Restore_def)
  next
    case False
    with w' have "w' = w\<lparr>w_ctxs := [c'], w_stat := ts'\<rparr>" by simp
    with False flight inv' w inv show ?thesis
      unfolding cw_inv_def by (intro conjI exI [of _ c'] exI [of _ q] exI [of _ gone]) auto
  qed
qed

lemma cw_inv_thread:
  assumes inv: "cw_inv wp k p w" and ids: "\<forall>c \<in> set (w_ctxs w). unat (ic_request_id c) < 2 ^ 48"
    and step: "cw_turn wp t p w = Inr (p', w')"
  shows "cw_inv wp k p' w'"
proof -
  have wp: "\<not> wp_on_sequence_model wp" "wp_async wp" "p \<noteq> CwPausing" "p \<noteq> CwPaused" "length (w_ctxs w) = 1"
    using inv by (auto simp: cw_inv_def)
  have exit: "cw_inv wp k p' w'" if "exit_check wp t CwDraining n w = Inr (p', w')"
      "n \<noteq> CwPausing" "n \<noteq> CwPaused" for n
    using that wp(1) inv
    by (auto simp: exit_check_def begin_exit_def CompleteOngoingSequences_def bindR_Inr_conv
        dest!: idle_frame elim!: cw_inv_frame split: if_splits)
  show ?thesis
  proof (cases p)
    case CwCreate
    then have "w' = SetNumActiveThreads (t_active t) w" "p' = CwExit1"
      using step wp by (auto simp: CreateContextsAsNecessary_def)
    with inv show ?thesis by (auto simp: cw_inv_def SetNumActiveThreads_def async_inv_active)
  next
    case CwSend
    with step inv show ?thesis
      by (auto simp: bindR_Inr_conv split: if_splits elim: cw_inv_frame
          intro: cw_inv_send [OF _ ids])
  qed (use step wp inv exit in \<open>auto simp: bindR_Inr_conv set_paused_def dest!: idle_frame elim!: cw_inv_frame
        split: if_splits\<close>)
qed

interpretation cw: worker_invariant "cw_step wp" "cw_inv wp k" for wp :: "'i worker_params" and k
proof
  fix p p' and w w' :: "('i, 'g) worker_state"
  assume "cw_inv wp k p w" "\<forall>c \<in> set (w_ctxs w). unat (ic_request_id c) < 2 ^ 48" "cw_step wp p w (p', w')"
  then show "cw_inv wp k p' w'" using cw_inv_thread unfolding cw_step_def by blast
next
  fix p and w :: "('i, 'g) worker_state" assume inv: "cw_inv wp k p w"
  then obtain c q gone where c: "w_ctxs w = [c]" "async_inv gone (c, w_stat w)" by (auto simp: cw_inv_def)
  then have "async_inv (gone + word_of_nat (length (request_records (w_stat w)))) (c, (w_stat w)\<lparr>request_records := []\<rparr>)"
    by (simp add: async_inv_def ac_simps)
  with inv c show "cw_inv wp k p (w\<lparr>w_stat := (w_stat w)\<lparr>request_records := []\<rparr>\<rparr>)"
    by (auto simp: cw_inv_def)
next
  fix p and w :: "('i, 'g) worker_state" assume inv: "cw_inv wp k p w"
  then obtain c q gone where c: "w_ctxs w = [c]" "async_inv gone (c, w_stat w)" by (auto simp: cw_inv_def)
  then have "async_inv (- word_of_nat (length (request_records (w_stat w)) + in_flight c)) (c, (w_stat w)\<lparr>num_sent_requests := 0\<rparr>)"
    by (simp add: async_inv_def)
  with inv c show "cw_inv wp k p (w\<lparr>w_stat := (w_stat w)\<lparr>num_sent_requests := 0\<rparr>\<rparr>)"
    by (auto simp: cw_inv_def)
next
  fix p and w :: "('i, 'g) worker_state" and tm assume "cw_inv wp k p w"
  then show "cw_inv wp k p (w\<lparr>w_stat := (w_stat w)\<lparr>ts_idle_timer := tm\<rparr>\<rparr>)"
    by (simp add: cw_inv_def async_inv_def)
qed (rule cw_inv_respond, assumption+, simp add: cw_inv_def)

lemma ic_Init_frame:
  "ic_Init ops dm started (c, ts) = Inr (c', ts') \<Longrightarrow>
    ic_async c' = ic_async c \<and> ic_id c' = ic_id c \<and> async_req_map c' = async_req_map c \<and>
    ic_request_id c' = ic_request_id c \<and> total_ongoing_requests c' = total_ongoing_requests c \<and>
    request_records ts' = request_records ts"
  by (auto simp: ic_Init_def bindR_Inr_conv Let_def split: prod.splits)

lemma cw_inv_created:
  assumes "CreateContextsAsNecessary wp created started active (cw_CreateCtxIdTracker g0 wp w0) = Inr w1"
    and "w_ctxs w0 = []" and "request_records (w_stat w0) = []" and "\<not> wp_on_sequence_model wp" and "wp_async wp"
  shows "cw_inv wp (concurrency (w_config w0)) CwExit1 w1"
proof -
  obtain w2 where w2: "CreateContext wp (created 0) (started 0) id (cw_CreateCtxIdTracker g0 wp w0) = Inr w2"
    and w1: "w1 = SetNumActiveThreads active (cw_ResetFreeCtxIds w2)"
    using assms(1,2,4) by (auto simp: CreateContextsAsNecessary_def cw_CreateCtxIdTracker_def bindR_Inr_conv Let_def)
  from w2 obtain c ts
    where new: "ic_Init (wp_ops wp) (wp_data_manager wp) (started 0) (CreateInferContext wp (created 0) w0) = Inr (c, ts)"
    and w2': "w2 = (cw_CreateCtxIdTracker g0 wp w0)\<lparr>w_ctxs := [c], w_stat := ts\<rparr>"
    using assms(2) by (auto simp: CreateContext_def CreateInferContext_def cw_CreateCtxIdTracker_def bindR_Inr_conv)
  then have c: "ic_async c" "ic_id c = 0" "async_req_map c = []" "ic_request_id c = 0"
      "total_ongoing_requests c = 0" and ts: "request_records ts = []"
    using assms(2,3,5) by (auto simp: CreateInferContext_def InferContext_def dest!: ic_Init_frame)
  have "async_inv (num_sent_requests ts) (c, ts)" using c ts by (simp add: async_inv_def in_flight_def)
  with assms(4,5) c show ?thesis
    by (simp add: cw_inv_def w1 w2' SetNumActiveThreads_def cw_ResetFreeCtxIds_def cw_CreateCtxIdTracker_def
        CreateTracker_def async_inv_active)
      (auto simp: in_flight_def)
qed

lemma cw_run_turn:
  "worker_run (cw_step wp) s0 (p, w) \<Longrightarrow> \<forall>c \<in> set (w_ctxs w). unat (ic_request_id c) < 2 ^ 48 \<Longrightarrow>
    cw_turn wp t p w = Inr s \<Longrightarrow> worker_run (cw_step wp) s0 s"
  by (rule worker_run.thread) (auto simp only: cw_step_def)

section \<open>Properties\<close>

text \<open>
  C5: A worker of a model without sequences that sends asynchronously keeps exactly the concurrency it had
  when it created its context. In every state of every run in which nothing has failed it has
  one context; the requests in flight, which the context counts correctly, and the free ids
  are together that concurrency; so the worker can send another request exactly when fewer than
  that many are in flight. What the manager configures later makes no difference.
\<close>

theorem worker_keeps_concurrency:
  assumes "CreateContextsAsNecessary wp created started active (cw_CreateCtxIdTracker g0 wp w0) = Inr w1"
    and "w_ctxs w0 = []" and "request_records (w_stat w0) = []" and "\<not> wp_on_sequence_model wp" and "wp_async wp"
    and "worker_run (cw_step wp) (CwExit1, w1) (p, w)"
    and "IsOk (cb_status (w_stat w))" and "IsOk (status (w_stat w))"
  shows "\<exists>c. w_ctxs w = [c] \<and> total_ongoing_requests c = word_of_nat (in_flight c) \<and>
    length (queue_of (w_tracker w)) + in_flight c = concurrency (w_config w0) \<and>
    (IsAvailable (w_tracker w) \<longleftrightarrow> in_flight c < concurrency (w_config w0))"
proof -
  from cw.run_ok [OF assms(6) cw_inv_created [OF assms(1-5)]]
  have "cw_inv wp (concurrency (w_config w0)) p w" by simp
  with assms(7,8) obtain c q gone where c: "w_ctxs w = [c]" "w_tracker w = ConcurrencyCtxIdTracker q"
    "async_inv gone (c, w_stat w)" "length (free_ctx_ids q) + in_flight c = concurrency (w_config w0)"
    by (auto simp: cw_inv_def)
  then have "IsAvailable (w_tracker w) \<longleftrightarrow> in_flight c < concurrency (w_config w0)"
    by (cases "free_ctx_ids q") (simp_all add: bq_IsAvailable_def)
  with c assms(7) show ?thesis by (simp add: async_inv_def)
qed

definition sample_params :: "infer_input worker_params" where
  "sample_params = \<lparr>wp_id = 1, wp_on_sequence_model = False, wp_async = True, wp_streaming = False,
     wp_using_json_data = False, wp_batch_size = 1, wp_model_name = ''m'', wp_model_version = ''1'',
     wp_signature_name = ''s'', wp_ops = ts_ops 0, wp_data_manager = sample_manager\<lparr>dm_model_inputs := []\<rparr>\<rparr>"

definition sample_worker :: "(infer_input, unit) worker_state" where
  "sample_worker = \<lparr>w_ctxs = [], w_tracker = ConcurrencyCtxIdTracker \<lparr>free_ctx_ids = []\<rparr>, w_notified = False,
     w_stat = ThreadStat, w_config = (ThreadConfig 1)\<lparr>concurrency := 2\<rparr>,
     w_seq = SequenceManager () 1 3 2 False (Fin 0) True 1\<rparr>"

definition sample_turn :: "unit turn" where
  "sample_turn = \<lparr>t_exits = False, t_execute = True, t_now = 5, t_active = 1,
     t_seq = \<lparr>se_uniform = (\<lambda>a b g. (a, g)), se_total_steps = (\<lambda>_. 1), se_random = 0\<rparr>,
     t_answer = sample_answer, t_answers = (\<lambda>_. sample_answer), t_created = (\<lambda>_. Success), t_started = (\<lambda>_. Success)\<rparr>"

lemmas sample_defs = sample_params_def sample_worker_def sample_turn_def sample_answer_def ThreadConfig_def ThreadStat_def

lemmas creation_defs = cw_CreateCtxIdTracker_def CreateTracker_def CreateContextsAsNecessary_def CreateContext_def
  CreateInferContext_def InferContext_def ic_Init_def InitInferData_def cw_ResetFreeCtxIds_def SetNumActiveThreads_def

lemmas sending_defs = exit_check_def ShouldExit_def send_next_def GetCtxId_def worker_SendInferRequest_def on_context_def
  vec_index_def RestoreFreeCtxId_def bq_Get_def bq_IsAvailable_def SendInferRequest_def SendRequest_def send_async_def
  GetInputs_def timer_defs new_timer_def map_find_def map_get_def InferOptions_def

theorem worker_keeps_concurrency_witness:
  "\<exists>w1 p w c. CreateContextsAsNecessary sample_params (\<lambda>_. Success) (\<lambda>_. Success) 1
       (cw_CreateCtxIdTracker () sample_params sample_worker) = Inr w1 \<and>
     worker_run (cw_step sample_params) (CwExit1, w1) (p, w) \<and> w_ctxs w = [c] \<and> in_flight c = 1 \<and>
     length (queue_of (w_tracker w)) + in_flight c = 2 \<and> total_ongoing_requests c = 1"
proof -
  let ?create = "CreateContextsAsNecessary sample_params (\<lambda>_. Success) (\<lambda>_. Success) 1
    (cw_CreateCtxIdTracker () sample_params sample_worker)"
  have "(case ?create of Inl _ \<Rightarrow> False
      | Inr w1 \<Rightarrow> (\<forall>c \<in> set (w_ctxs w1). ic_request_id c = 0) \<and>
         cw_turn sample_params sample_turn CwExit1 w1 = Inr (CwSend, w1) \<and>
         (case cw_turn sample_params sample_turn CwSend w1 of Inl _ \<Rightarrow> False
         | Inr (p, w) \<Rightarrow> IsOk (cb_status (w_stat w)) \<and> IsOk (status (w_stat w)) \<and> in_flight (hd (w_ctxs w)) = 1))"
    by (simp add: sample_manager_def sample_defs creation_defs sending_defs in_flight_def Let_def)
  then obtain w1 p w where w1: "?create = Inr w1" and ids: "\<forall>c \<in> set (w_ctxs w1). ic_request_id c = 0"
    and t1: "cw_turn sample_params sample_turn CwExit1 w1 = Inr (CwSend, w1)"
    and t2: "cw_turn sample_params sample_turn CwSend w1 = Inr (p, w)"
    and ok: "IsOk (cb_status (w_stat w))" "IsOk (status (w_stat w))" "in_flight (hd (w_ctxs w)) = 1"
    by (auto split: sum.splits)
  from ids have ids: "\<forall>c \<in> set (w_ctxs w1). unat (ic_request_id c) < 2 ^ 48" by simp
  have run: "worker_run (cw_step sample_params) (CwExit1, w1) (p, w)"
    by (rule cw_run_turn [OF cw_run_turn [OF worker_run.start ids t1] ids t2])
  obtain c where "w_ctxs w = [c]" "total_ongoing_requests c = word_of_nat (in_flight c)"
    "length (queue_of (w_tracker w)) + in_flight c = 2"
    using worker_keeps_concurrency [OF w1 _ _ _ _ run] ok(1,2) by (auto simp: sample_defs)
  with w1 run ok(3) show ?thesis
    by (intro exI [of _ w1] exI [of _ p] exI [of _ w] exI [of _ c]) simp
qed

text \<open>A worker that waits for a response with nothing in flight.\<close>

definition missed_pause :: "'i worker_params \<Rightarrow> cw_phase \<Rightarrow> ('i, 'g) worker_state \<Rightarrow> bool" where
  "missed_pause wp p w \<longleftrightarrow> wp_async wp \<and> p = CwWaiting \<and> \<not> w_notified w \<and> \<not> is_paused (w_config w) \<and>
     (\<forall>c \<in> set (w_ctxs w). async_req_map c = [])"

interpretation missed: worker_invariant "cw_step wp" "missed_pause wp" for wp :: "'i worker_params"
proof
  fix p and w w' :: "('i, 'g) worker_state" and i now stat and r :: infer_result
  assume "missed_pause wp p w" "i < length (w_ctxs w)"
    "map_find (async_req_map (w_ctxs w ! i)) (snd (r_id r)) \<noteq> None" "worker_callback now stat r i w = Inr w'"
  then show "missed_pause wp p w'" using nth_mem [of i "w_ctxs w"] by (simp add: missed_pause_def map_find_def)
qed (auto simp: missed_pause_def cw_step_def)

text \<open>
  C32: Pausing the worker of a sequence model can be missed for ever. When the manager turns the execution
  off after the worker has checked it and before the worker sends, and no request is in
  flight, the worker goes on to wait for a response that nobody will send: in every later
  state it still waits there, and is never paused, which is what the manager waits for.
\<close>

theorem pause_can_be_missed:
  assumes "wp_on_sequence_model wp" and "wp_async wp" and "0 < concurrency (w_config w)"
    and "concurrency (w_config w) \<le> length (w_ctxs w)"
    and "\<forall>c \<in> set (w_ctxs w). async_req_map c = [] \<and> unat (ic_request_id c) < 2 ^ 48"
    and "\<not> w_notified w" and "\<not> ShouldExit False w" and "start_idle now w = Inr v"
  shows "\<exists>w'. worker_run (cw_step wp) (CwStart, w) (CwWaiting, w') \<and>
    (\<forall>s. worker_run (cw_step wp) (CwWaiting, w') s \<longrightarrow> fst s = CwWaiting \<and> \<not> is_paused (w_config (snd s)))"
proof -
  obtain t :: "'b turn" where True by simp
  let ?on = "t\<lparr>t_exits := False, t_execute := True, t_now := now\<rparr>" and ?off = "t\<lparr>t_exits := False, t_execute := False, t_now := now\<rparr>"
  let ?w1 = "set_paused False w"
  let ?w2 = "SetNumActiveThreads (t_active t) ?w1"
  have stay: "\<not> ShouldExit False ?w2"
    using assms(7) by (simp add: ShouldExit_def SetNumActiveThreads_def set_paused_def)
  obtain w3 where w3: "start_idle now ?w2 = Inr w3"
    using assms(8) by (auto simp: start_idle_def SetNumActiveThreads_def set_paused_def bindR_Inr_conv)
  have turns: "cw_turn wp ?on CwStart w = Inr (CwNoConcurrency, ?w1)"
    "cw_turn wp ?on CwNoConcurrency ?w1 = Inr (CwCreate, ?w1)"
    "cw_turn wp ?on CwCreate ?w1 = Inr (CwExit1, ?w2)"
    "cw_turn wp ?on CwExit1 ?w2 = Inr (CwSend, ?w2)"
    "cw_turn wp ?off CwSend ?w2 = Inr (CwExit2, ?w2)"
    "cw_turn wp ?off CwExit2 ?w2 = Inr (CwWait, ?w2)"
    "cw_turn wp ?off CwWait ?w2 = Inr (CwWaiting, w3)"
    using assms(1-4) stay w3
    by (simp_all add: set_paused_def CreateContextsAsNecessary_def exit_check_def)
  have ids: "\<forall>c \<in> set (w_ctxs w). unat (ic_request_id c) < 2 ^ 48" "\<forall>c \<in> set (w_ctxs ?w1). unat (ic_request_id c) < 2 ^ 48"
    "\<forall>c \<in> set (w_ctxs ?w2). unat (ic_request_id c) < 2 ^ 48"
    using assms(5) by (auto simp: set_paused_def SetNumActiveThreads_def)
  have run: "worker_run (cw_step wp) (CwStart, w) (CwWaiting, w3)"
    using worker_run.start [THEN cw_run_turn, OF ids(1) turns(1), THEN cw_run_turn, OF ids(2) turns(2),
        THEN cw_run_turn, OF ids(2) turns(3), THEN cw_run_turn, OF ids(3) turns(4), THEN cw_run_turn, OF ids(3) turns(5),
        THEN cw_run_turn, OF ids(3) turns(6), THEN cw_run_turn, OF ids(3) turns(7)] .
  have "missed_pause wp CwWaiting w3"
    using w3 assms(2,5,6) by (auto simp: missed_pause_def set_paused_def SetNumActiveThreads_def dest!: idle_frame(1))
  then have "fst s = CwWaiting \<and> \<not> is_paused (w_config (snd s))" if "worker_run (cw_step wp) (CwWaiting, w3) s" for s
    using missed.run_ok [OF that] by (simp add: missed_pause_def)
  with run show ?thesis by blast
qed

theorem pause_can_be_missed_witness:
  "\<exists>w'. worker_run (cw_step (sample_params\<lparr>wp_on_sequence_model := True\<rparr>))
       (CwStart, sample_worker\<lparr>w_ctxs := [fst sample_start, fst sample_start]\<rparr>) (CwWaiting, w') \<and>
     (\<forall>s. worker_run (cw_step (sample_params\<lparr>wp_on_sequence_model := True\<rparr>)) (CwWaiting, w') s \<longrightarrow>
       fst s = CwWaiting \<and> \<not> is_paused (w_config (snd s)))"
proof -
  let ?w = "sample_worker\<lparr>w_ctxs := [fst sample_start, fst sample_start]\<rparr>"
  obtain v where "start_idle 3 ?w = Inr v"
    by (simp add: start_idle_def sample_defs timer_defs new_timer_def)
  then show ?thesis
    by (intro pause_can_be_missed [where now = 3 and v = v])
      (simp_all add: sample_defs sample_start_def InferContext_def ShouldExit_def)
qed

end
