(* ===== verification/Rate_Worker.thy ===== *)
theory Rate_Worker
  imports Load_Worker Concurrency_Manager
begin

text \<open>
  The other two kinds of worker: \<open>request_rate_worker.cc\<close>, which sends at the times of a schedule,
  and \<open>periodic_concurrency_worker.cc\<close>, which sends one request and reports its responses to the
  periodic manager. They share the operations and the runs of \<open>Load_Worker\<close>.
\<close>

section \<open>The request-rate worker\<close>

record rate_params =
  rp_serial_sequences :: bool
  rp_num_threads :: u64
  rp_dataset_offset :: u64
  rp_start_time :: nanos

definition rw_CreateCtxIdTracker :: "'g \<Rightarrow> 'i worker_params \<Rightarrow> rate_params \<Rightarrow> ('i, 'g) worker_state \<Rightarrow> ('i, 'g) worker_state" where
  "rw_CreateCtxIdTracker g0 wp rp w =
     w\<lparr>w_tracker := CreateTracker g0 False (wp_on_sequence_model wp) (rp_serial_sequences rp)\<rparr>"

definition rw_CreateContextFinalize :: "rate_params \<Rightarrow> 'i infer_context \<Rightarrow> 'i infer_context" where
  "rw_CreateContextFinalize rp c =
     ApplyDatasetOffset (rp_dataset_offset rp) (c\<lparr>num_active_threads := rp_num_threads rp\<rparr>)"

definition rw_ResetFreeCtxIds :: "('i, 'g) worker_state \<Rightarrow> ('i, 'g) worker_state" where
  "rw_ResetFreeCtxIds w = w\<lparr>w_tracker := Reset (w_tracker w) (length (w_ctxs w))\<rparr>"

definition CreateContexts :: "'i worker_params \<Rightarrow> rate_params \<Rightarrow> (nat \<Rightarrow> cb_error) \<Rightarrow> (nat \<Rightarrow> cb_error) \<Rightarrow>
    ('i, 'g) worker_state \<Rightarrow> exn + ('i, 'g) worker_state" where
  "CreateContexts wp rp created started w =
     (let active_ctx_cnt = (if wp_on_sequence_model wp then unat (num_sequences (w_config w)) else 1)
      in bindR (foldR (\<lambda>w i. CreateContext wp (created i) (started i) (rw_CreateContextFinalize rp) w) w
                  [length (w_ctxs w)..<active_ctx_cnt]) (\<lambda>w'. Inr (rw_ResetFreeCtxIds w')))"

text \<open>
  What \<open>SleepIfNecessary\<close> does once a context is free: the next timestamp is taken from the schedule, and
  when it is past by more than the tolerance the request is delayed and is sent at once.
\<close>

definition delay_tolerance :: nanos where
  "delay_tolerance = 1000000"

definition next_send :: "rate_params \<Rightarrow> nanos \<Rightarrow> rate_schedule \<Rightarrow> exn + bool \<times> nanos \<times> rate_schedule" where
  "next_send rp now sch =
     bindR (Next sch) (\<lambda>(next_timestamp, sch').
       let current_timestamp = now - rp_start_time rp
       in bindR (nanos_checked (next_timestamp - current_timestamp)) (\<lambda>wait_time.
            Inr (wait_time < 0 \<and> \<bar>wait_time\<bar> > delay_tolerance, wait_time, sch')))"

definition rw_send :: "'i worker_params \<Rightarrow> 'g turn \<Rightarrow> bool \<Rightarrow> ('i, 'g) worker_state \<Rightarrow> exn + ('i, 'g) worker_state" where
  "rw_send wp t delayed w =
     bindR (GetCtxId (se_uniform (t_seq t)) w) (\<lambda>(ctx_id, w1).
     bindR (worker_SendInferRequest wp (t_seq t) (t_answer t) (t_exits t) (t_execute t) ctx_id delayed w1) (\<lambda>w2.
       Inr (RestoreFreeCtxId wp ctx_id w2)))"

text \<open>
  The points of the loop of \<open>Infer\<close>: \<open>HandleExecuteOff\<close> with its two waits; \<open>WaitForFreeCtx\<close>, where the test for
  a free context, the reset of \<open>notified_\<close> and the wait are three steps, because the first two
  do not hold the lock; the sleep; the request; the exit.
\<close>

datatype rw_phase =
    RwStart | RwPausing | RwPaused | RwCheckFree | RwClear | RwWait | RwWaiting | RwTime | RwSleeping
  | RwSend bool | RwExit | RwDraining | RwDone

fun rw_turn :: "'i worker_params \<Rightarrow> rate_params \<Rightarrow> 'g turn \<Rightarrow> rw_phase \<times> rate_schedule \<Rightarrow> ('i, 'g) worker_state \<Rightarrow>
    exn + (rw_phase \<times> rate_schedule) \<times> ('i, 'g) worker_state" where
  "rw_turn wp rp t (RwStart, sch) w =
     (if \<not> t_execute t then
        bindR (CompleteOngoingSequences wp (t_seq t) (t_answers t) w) (\<lambda>w'. Inr ((RwPausing, sch), w'))
      else Inr ((RwCheckFree, sch), set_paused False w))"
| "rw_turn wp rp t (RwPausing, sch) w =
     (if GetNumOngoingRequests w \<noteq> 0 then Inr ((RwPausing, sch), w)
      else Inr ((RwPaused, sch), set_paused True (rw_ResetFreeCtxIds w)))"
| "rw_turn wp rp t (RwPaused, sch) w =
     (if t_exits t \<or> t_execute t then Inr ((RwCheckFree, sch), set_paused False w)
      else Inr ((RwPaused, sch), w))"
| "rw_turn wp rp t (RwCheckFree, sch) w =
     Inr ((if IsAvailable (w_tracker w) then RwTime else RwClear, sch), w)"
| "rw_turn wp rp t (RwClear, sch) w = Inr ((RwWait, sch), w\<lparr>w_notified := False\<rparr>)"
| "rw_turn wp rp t (RwWait, sch) w =
     bindR (start_idle (t_now t) w) (\<lambda>w'. Inr ((RwWaiting, sch), w'))"
| "rw_turn wp rp t (RwWaiting, sch) w =
     (if w_notified w then
        bindR (stop_idle (t_now t) (w\<lparr>w_notified := False\<rparr>)) (\<lambda>w'. Inr ((RwTime, sch), w'))
      else Inr ((RwWaiting, sch), w))"
| "rw_turn wp rp t (RwTime, sch) w =
     bindR (next_send rp (t_now t) sch) (\<lambda>(delayed, _, sch').
       if delayed then Inr ((RwSend True, sch'), w)
       else bindR (start_idle (t_now t) w) (\<lambda>w'. Inr ((RwSleeping, sch'), w')))"
| "rw_turn wp rp t (RwSleeping, sch) w =
     bindR (stop_idle (t_now t) w) (\<lambda>w'. Inr ((RwSend False, sch), w'))"
| "rw_turn wp rp t (RwSend delayed, sch) w =
     bindR (rw_send wp t delayed w) (\<lambda>w'. Inr ((RwExit, sch), w'))"
| "rw_turn wp rp t (RwExit, sch) w = exit_check wp t (RwDraining, sch) (RwStart, sch) w"
| "rw_turn wp rp t (RwDraining, sch) w =
     Inr ((if GetNumOngoingRequests w \<noteq> 0 then RwDraining else RwDone, sch), w)"
| "rw_turn wp rp t (RwDone, sch) w = Inr ((RwDone, sch), w)"

definition rw_step :: "'i worker_params \<Rightarrow> rate_params \<Rightarrow> rw_phase \<times> rate_schedule \<Rightarrow> ('i, 'g) worker_state \<Rightarrow>
    (rw_phase \<times> rate_schedule) \<times> ('i, 'g) worker_state \<Rightarrow> bool" where
  "rw_step wp rp p w s \<longleftrightarrow> (\<exists>t. rw_turn wp rp t p w = Inr s)"

section \<open>The periodic concurrency worker\<close>

text \<open>\<open>Infer\<close> is one pass of \<open>RunInference\<close>.\<close>

definition pw_turn :: "'i worker_params \<Rightarrow> 'g turn \<Rightarrow> cw_phase \<Rightarrow> ('i, 'g) worker_state \<Rightarrow>
    exn + cw_phase \<times> ('i, 'g) worker_state" where
  "pw_turn wp t p w = (if p = CwExit3 then exit_check wp t CwDraining CwDone w else cw_turn wp t p w)"

definition period_error :: exn where
  "period_error = RuntimeError (''Request received final response before request period was reached. '' @
     ''Request period must be at most the total number of responses received by any request.'')"

definition WorkerCallback :: "u64 \<Rightarrow> nat \<Rightarrow> 'i infer_context list \<Rightarrow> ('g, 'z) periodic_manager_scheme \<Rightarrow>
    exn + ('g, 'z) periodic_manager_scheme" where
  "WorkerCallback period infer_context_id ctxs m =
     bindR (vec_at ctxs infer_context_id) (\<lambda>c.
       let m1 = (if num_responses c = period then PeriodCompletedCallback m else m)
       in if has_received_final_response c then
            if num_responses c < period then
              Inl period_error
            else RequestCompletedCallback m1
          else Inr m1)"

text \<open>
  The callback for a response to a periodic worker: the worker's callback sees the context before the
  end of the request is counted.
\<close>

definition pw_callback :: "u64 \<Rightarrow> int \<Rightarrow> cb_error \<times> infer_stat \<Rightarrow> infer_result \<Rightarrow> nat \<Rightarrow>
    ('i, 'g) worker_state \<times> ('h, 'z) periodic_manager_scheme \<Rightarrow>
    exn + ('i, 'g) worker_state \<times> ('h, 'z) periodic_manager_scheme" where
  "pw_callback period now stat r i = (\<lambda>(w, m).
     bindR (vec_index (w_ctxs w) i) (\<lambda>c.
     bindR (callback_locked now stat r (c, w_stat w)) (\<lambda>((c1, ts1), goes_on, is_final).
     let w1 = w\<lparr>w_ctxs := (w_ctxs w)[i := c1], w_stat := ts1\<rparr>
     in if \<not> goes_on then Inr (w1, m)
        else bindR (WorkerCallback period (ic_id c) (w_ctxs w1) m) (\<lambda>m'.
          if is_final then
            let c2 = c1\<lparr>total_ongoing_requests := total_ongoing_requests c1 - 1, num_responses := 0\<rparr>
            in Inr (AsyncCallbackFinalize (ic_id c) (w1\<lparr>w_ctxs := (w_ctxs w1)[i := c2]\<rparr>), m')
          else Inr (w1, m')))))"

section \<open>A wake-up can be lost\<close>

text \<open>A rate worker that waits for a free context with nothing in flight.\<close>

definition missed_wake :: "rw_phase \<times> rate_schedule \<Rightarrow> ('i, 'g) worker_state \<Rightarrow> bool" where
  "missed_wake p w \<longleftrightarrow> fst p = RwWaiting \<and> \<not> w_notified w \<and> (\<forall>c \<in> set (w_ctxs w). async_req_map c = [])"

interpretation missed_wake: worker_invariant "rw_step wp rp" missed_wake for wp :: "'i worker_params" and rp
proof
  fix p and w w' :: "('i, 'g) worker_state" and i now stat and r :: infer_result
  assume "missed_wake p w" "i < length (w_ctxs w)"
    "map_find (async_req_map (w_ctxs w ! i)) (snd (r_id r)) \<noteq> None" "worker_callback now stat r i w = Inr w'"
  then show "missed_wake p w'" using nth_mem [of i "w_ctxs w"] by (simp add: missed_wake_def map_find_def)
next
  fix p p' and w w' :: "('i, 'g) worker_state"
  assume "missed_wake p w" "rw_step wp rp p w (p', w')"
  then show "missed_wake p' w'" by (cases p) (auto simp: missed_wake_def rw_step_def)
qed (simp_all add: missed_wake_def)

text \<open>
  When the last responses arrive after a rate worker has found no free context and before it
  resets \<open>notified_\<close>, it waits for ever, although contexts are free again.
\<close>

theorem wake_up_can_be_lost:
  assumes "worker_run (rw_step wp rp) ((RwClear, sch0), w0) ((RwClear, sch), w)"
    and "\<forall>c \<in> set (w_ctxs w). async_req_map c = [] \<and> unat (ic_request_id c) < 2 ^ 48"
    and "\<not> is_idle (ts_idle_timer (w_stat w))"
  shows "\<exists>w'. worker_run (rw_step wp rp) ((RwClear, sch0), w0) ((RwWaiting, sch), w') \<and>
    w_tracker w' = w_tracker w \<and>
    (\<forall>s. worker_run (rw_step wp rp) ((RwWaiting, sch), w') s \<longrightarrow> fst (fst s) = RwWaiting)"
proof -
  let ?w1 = "w\<lparr>w_notified := False\<rparr>"
  obtain w2 where w2: "start_idle 0 ?w1 = Inr w2" and tr: "w_tracker w2 = w_tracker w"
    using assms(3) by (auto simp: start_idle_def timer_defs)
  obtain t :: "'b turn" where t: "t_now t = 0"
    by (metis turn.select_convs(3))
  have "rw_turn wp rp t (RwClear, sch) w = Inr ((RwWait, sch), ?w1)"
    "rw_turn wp rp t (RwWait, sch) ?w1 = Inr ((RwWaiting, sch), w2)" using w2 t by simp_all
  then have "rw_step wp rp (RwClear, sch) w ((RwWait, sch), ?w1)" "rw_step wp rp (RwWait, sch) ?w1 ((RwWaiting, sch), w2)"
    unfolding rw_step_def by blast+
  then have run: "worker_run (rw_step wp rp) ((RwClear, sch0), w0) ((RwWaiting, sch), w2)"
    using worker_run.thread [OF worker_run.thread [OF assms(1)]] assms(2) by simp
  have "missed_wake (RwWaiting, sch) w2"
    using w2 assms(2) by (auto simp: missed_wake_def dest!: idle_frame(1))
  then have "fst (fst s) = RwWaiting" if "worker_run (rw_step wp rp) ((RwWaiting, sch), w2) s" for s
    using missed_wake.run_ok [OF that] by (simp add: missed_wake_def)
  with run tr show ?thesis by blast
qed

section \<open>The reports of a periodic worker\<close>

text \<open>A response without errors to the request with the given key.\<close>

definition response_ok :: "string \<Rightarrow> infer_result \<Rightarrow> bool" where
  "response_ok key r \<longleftrightarrow> r_status r = Success \<and> r_id r = (Success, key) \<and> fst (r_null r) = Success \<and> fst (r_final r) = Success"

definition pw_responses :: "u64 \<Rightarrow> int \<Rightarrow> cb_error \<times> infer_stat \<Rightarrow> nat \<Rightarrow> infer_result list \<Rightarrow>
    ('i, 'g) worker_state \<times> ('h, 'z) periodic_manager_scheme \<Rightarrow>
    exn + ('i, 'g) worker_state \<times> ('h, 'z) periodic_manager_scheme" where
  "pw_responses period now stat i rs s = foldR (\<lambda>s r. pw_callback period now stat r i s) s rs"

text \<open>The context with a request in flight that has had \<open>j\<close> responses.\<close>

definition awaiting :: "string \<Rightarrow> nat \<Rightarrow> nat \<Rightarrow> 'i infer_data \<Rightarrow> ('i, 'g) worker_state \<Rightarrow> bool" where
  "awaiting key i j x w \<longleftrightarrow> i < length (w_ctxs w) \<and> i < length (contexts_stat (w_stat w)) \<and>
     cb_status (w_stat w) = Success \<and> (let c = w_ctxs w ! i in ic_id c = i \<and> ic_infer_data c = x \<and>
       num_responses c = word_of_nat j \<and> \<not> has_received_final_response c \<and> map_wf (async_req_map c) \<and>
       map_find (async_req_map c) key \<noteq> None)"

text \<open>For the worker itself the callback is the one of every worker.\<close>

lemma pw_callback_refines:
  assumes "pw_callback period now stat r i (w, m) = Inr (w', m')"
  shows "worker_callback now stat r i w = Inr w'"
proof -
  from assms obtain c st where c: "vec_index (w_ctxs w) i = Inr c" "callback_locked now stat r (c, w_stat w) = Inr st"
    by (auto simp: pw_callback_def bindR_Inr_conv)
  obtain c1 ts1 goes_on is_final where "st = ((c1, ts1), goes_on, is_final)" by (cases st) auto
  with assms c show ?thesis
    by (cases goes_on; cases is_final)
      (auto simp: pw_callback_def worker_callback_def AsyncCallbackFuncImpl_def bindR_Inr_conv AsyncCallbackFinalize_def)
qed

lemma next_count:
  assumes "Suc j < 2 ^ 64"
  shows "(1 + word_of_nat j = (n :: u64)) \<longleftrightarrow> Suc j = unat n" and "(1 + word_of_nat j < (n :: u64)) \<longleftrightarrow> Suc j < unat n"
proof -
  have "unat (word_of_nat (Suc j) :: u64) = Suc j"
    using assms by (simp add: unat_of_nat take_bit_nat_eq_self del: of_nat_Suc)
  then have "unat (1 + word_of_nat j :: u64) = Suc j" by simp
  then show "(1 + word_of_nat j = n) \<longleftrightarrow> Suc j = unat n" and "(1 + word_of_nat j < n) \<longleftrightarrow> Suc j < unat n"
    by (simp_all add: word_unat_eq_iff word_less_nat_alt)
qed

lemma pw_callback_more:
  assumes "awaiting key i j x w" and "response_ok key r" and "\<not> snd (r_final r)" and "Suc j < 2 ^ 64"
  shows "\<exists>w'. pw_callback period now stat r i (w, m) =
      Inr (w', if Suc j = unat period then PeriodCompletedCallback m else m) \<and> awaiting key i (Suc j) x w'"
proof -
  obtain c where c: "w_ctxs w ! i = c" by simp
  show ?thesis
    using assms c
    by (auto simp: awaiting_def response_ok_def pw_callback_def callback_locked_def record_response_def WorkerCallback_def
        Let_def add.commute [of _ "1 :: u64"] next_count [OF assms(4)])
qed

lemma pw_callback_last:
  assumes "awaiting key i j x w" and "response_ok key r" and "snd (r_final r)" and "Suc j < 2 ^ 64"
    and "ValidateOutputs r x = Inr e"
  shows "\<exists>w'. pw_callback period now stat r i (w, m) =
    (if Suc j < unat period then Inl period_error
     else bindR (RequestCompletedCallback (if Suc j = unat period then PeriodCompletedCallback m else m)) (\<lambda>m'. Inr (w', m')))"
proof -
  obtain c where c: "w_ctxs w ! i = c" by simp
  show ?thesis
    using assms c
    by (auto simp: awaiting_def response_ok_def pw_callback_def callback_locked_def record_response_def WorkerCallback_def
        client_stat_def Let_def add.commute [of _ "1 :: u64"] next_count [OF assms(4)])
qed

lemma pw_responses_report:
  assumes "awaiting key i j x w" and "j + length rs < 2 ^ 64" and "rs \<noteq> []" and "\<forall>r \<in> set rs. response_ok key r"
    and "\<forall>r \<in> set (butlast rs). \<not> snd (r_final r)" and "snd (r_final (last rs))" and "ValidateOutputs (last rs) x = Inr e"
  shows "\<exists>w'. pw_responses period now stat i rs (w, m) =
    (if j + length rs < unat period then Inl period_error
     else bindR (RequestCompletedCallback (if j < unat period then PeriodCompletedCallback m else m)) (\<lambda>m'. Inr (w', m')))"
  using assms
proof (induction rs arbitrary: j w m)
  case (Cons r rs)
  show ?case
  proof (cases "rs = []")
    case True
    with Cons.prems pw_callback_last [of key i j x w r e period now stat m] show ?thesis
      by (auto simp: pw_responses_def)
  next
    case False
    have "awaiting key i j x w" "response_ok key r" "\<not> snd (r_final r)" "Suc j < 2 ^ 64" using Cons.prems False by auto
    from pw_callback_more [OF this] obtain w1 where w1: "awaiting key i (Suc j) x w1"
      "pw_callback period now stat r i (w, m) = Inr (w1, if Suc j = unat period then PeriodCompletedCallback m else m)"
      by blast
    let ?m1 = "if Suc j = unat period then PeriodCompletedCallback m else m"
    obtain w' where "pw_responses period now stat i rs (w1, ?m1) =
      (if Suc j + length rs < unat period then Inl period_error
       else bindR (RequestCompletedCallback (if Suc j < unat period then PeriodCompletedCallback ?m1 else ?m1)) (\<lambda>m'. Inr (w', m')))"
      using Cons.IH [OF w1(1), of ?m1] Cons.prems False by auto
    moreover have "(if Suc j < unat period then PeriodCompletedCallback ?m1 else ?m1) =
        (if j < unat period then PeriodCompletedCallback m else m)" by auto
    ultimately show ?thesis using w1(2) by (auto simp: pw_responses_def)
  qed
qed simp

text \<open>The reports after some responses that are not final.\<close>

lemma pw_responses_more:
  assumes "awaiting key i j x w" and "j + length rs < 2 ^ 64" and "\<forall>r \<in> set rs. response_ok key r \<and> \<not> snd (r_final r)"
  shows "\<exists>w'. pw_responses period now stat i rs (w, m) =
    Inr (w', if j < unat period \<and> unat period \<le> j + length rs then PeriodCompletedCallback m else m)"
  using assms
proof (induction rs arbitrary: j w m)
  case (Cons r rs)
  from Cons.prems have "response_ok key r" "\<not> snd (r_final r)" "Suc j < 2 ^ 64" by simp_all
  from pw_callback_more [OF Cons.prems(1) this] obtain w1 where w1: "awaiting key i (Suc j) x w1"
    "pw_callback period now stat r i (w, m) = Inr (w1, if Suc j = unat period then PeriodCompletedCallback m else m)"
    by blast
  let ?m1 = "if Suc j = unat period then PeriodCompletedCallback m else m"
  obtain w' where "pw_responses period now stat i rs (w1, ?m1) =
      Inr (w', if Suc j < unat period \<and> unat period \<le> Suc j + length rs then PeriodCompletedCallback ?m1 else ?m1)"
    using Cons.IH [OF w1(1), of ?m1] Cons.prems by auto
  with w1(2) show ?case by (auto simp: pw_responses_def)
qed (auto simp: pw_responses_def)

text \<open>
  C35: Of the responses to its request a periodic worker reports the one that completes the period
  (the \<open>period\<close>-th), and the final one, each exactly once: after the first \<open>k\<close> responses, the
  final one not among them, the manager's \<open>PeriodCompletedCallback\<close> has been called once if \<open>k\<close>
  is at least the period, and not at all otherwise; with the final response, the
  \<open>RequestCompletedCallback\<close> is called after it, whether or not the two come with the same
  response; when the final response comes before the period is complete, the worker throws.
\<close>

theorem periodic_worker_reports:
  assumes "awaiting key i 0 x w" and "0 < period" and "rs \<noteq> []" and "length rs < 2 ^ 64"
    and "\<forall>r \<in> set rs. response_ok key r" and "\<forall>r \<in> set (butlast rs). \<not> snd (r_final r)" and "snd (r_final (last rs))"
    and "ValidateOutputs (last rs) x = Inr e"
  shows "(\<forall>k < length rs. \<exists>w'. pw_responses period now stat i (take k rs) (w, m) =
      Inr (w', if unat period \<le> k then PeriodCompletedCallback m else m)) \<and>
    (\<exists>w'. pw_responses period now stat i rs (w, m) =
      (if length rs < unat period then Inl period_error
       else bindR (RequestCompletedCallback (PeriodCompletedCallback m)) (\<lambda>m'. Inr (w', m'))))"
proof (intro conjI allI impI)
  have pos: "0 < unat period" using assms(2) by (simp add: unat_gt_0)
  fix k assume k: "k < length rs"
  then have "take k rs = take k (butlast rs)" by (simp add: take_butlast)
  then have "\<forall>r \<in> set (take k rs). response_ok key r \<and> \<not> snd (r_final r)"
    using assms(5,6) by (metis in_set_takeD)
  from pw_responses_more [OF assms(1) _ this, of period now stat m] k assms(4) pos
  show "\<exists>w'. pw_responses period now stat i (take k rs) (w, m) =
      Inr (w', if unat period \<le> k then PeriodCompletedCallback m else m)" by simp
next
  have "0 < unat period" using assms(2) by (simp add: unat_gt_0)
  with pw_responses_report [OF assms(1) _ assms(3,5-8), of period now stat m] assms(4)
  show "\<exists>w'. pw_responses period now stat i rs (w, m) =
      (if length rs < unat period then Inl period_error
       else bindR (RequestCompletedCallback (PeriodCompletedCallback m)) (\<lambda>m'. Inr (w', m')))"
    by (auto split: if_splits)
qed

text \<open>A worker whose one request is in flight.\<close>

definition sample_waiting :: "(infer_input, unit) worker_state" where
  "sample_waiting = sample_worker\<lparr>w_stat := ThreadStat\<lparr>contexts_stat := [snd (a_stat sample_answer)]\<rparr>,
     w_ctxs := [(fst sample_start)\<lparr>async_req_map := [(''k'', new_request_record)], total_ongoing_requests := 1\<rparr>]\<rparr>"

definition sample_reply :: "bool \<Rightarrow> infer_result" where
  "sample_reply final = sample_response\<lparr>r_id := (Success, ''k''), r_final := (Success, final)\<rparr>"

theorem periodic_worker_reports_witness:
  "let m = ex_periodic_manager \<lparr>range_start = 1, range_end = 3, range_step = 1\<rparr>;
       run = (\<lambda>rs. pw_responses 2 9 (a_stat sample_answer) 0 rs (sample_waiting, m))
   in (\<exists>w'. run [sample_reply False] = Inr (w', m)) \<and>
      (\<exists>w'. run [sample_reply False, sample_reply False] = Inr (w', PeriodCompletedCallback m)) \<and>
      (\<exists>w'. run [sample_reply False, sample_reply False, sample_reply True] =
         bindR (RequestCompletedCallback (PeriodCompletedCallback m)) (\<lambda>m'. Inr (w', m')))"
proof -
  let ?m = "ex_periodic_manager \<lparr>range_start = 1, range_end = 3, range_step = 1\<rparr>"
  let ?rs = "[sample_reply False, sample_reply False, sample_reply True]"
  have "awaiting ''k'' 0 0 (ic_infer_data (fst sample_start)) sample_waiting"
    by (simp add: awaiting_def sample_waiting_def sample_worker_def sample_start_def InferContext_def ThreadStat_def
        map_wf_def map_find_def)
  moreover have "ValidateOutputs (sample_reply True) (ic_infer_data (fst sample_start)) = Inr Success"
    by (simp add: ValidateOutputs_def sample_start_def InferContext_def)
  ultimately have r: "(\<forall>k < length ?rs. \<exists>w'. pw_responses 2 9 (a_stat sample_answer) 0 (take k ?rs) (sample_waiting, ?m) =
      Inr (w', if unat (2 :: u64) \<le> k then PeriodCompletedCallback ?m else ?m)) \<and>
    (\<exists>w'. pw_responses 2 9 (a_stat sample_answer) 0 ?rs (sample_waiting, ?m) =
      (if length ?rs < unat (2 :: u64) then Inl period_error
       else bindR (RequestCompletedCallback (PeriodCompletedCallback ?m)) (\<lambda>m'. Inr (w', m'))))"
    by (intro periodic_worker_reports [of "''k''" 0 "ic_infer_data (fst sample_start)" sample_waiting 2 ?rs Success])
       (auto simp: sample_reply_def sample_response_def response_ok_def)
  from r [THEN conjunct1, rule_format, of 1] r [THEN conjunct1, rule_format, of 2] r [THEN conjunct2]
  show ?thesis by (simp add: Let_def)
qed

end
