(* ===== verification/Model_Parser.thy ===== *)
theory Model_Parser
  imports Data_Loader Server_Stats
begin

text \<open>
  \<open>model_parser.h\<close> and \<open>model_parser.cc\<close>: what the analyzer knows of the model under test, taken from the
  metadata and the configuration that the server returns. \<open>ModelConfig\<close> of the backend is the
  parameter \<open>model_config\<close>. An initialization that fails leaves a partly filled parser behind, which
  the program does not use; the model returns the error alone.
\<close>

section \<open>Data\<close>

datatype inference_load_mode =
    NoLoadMode | ConcurrencyMode | RequestRateMode | CustomIntervalsMode | PeriodicConcurrencyMode
  | SessionConcurrencyMode | FixedScheduleMode

datatype scheduler_type = NONE | DYNAMIC | SEQUENCE | ENSEMBLE | ENSEMBLE_SEQUENCE

record model_parser =
  mp_inputs :: model_tensor_map
  mp_outputs :: model_tensor_map
  composing_models_map :: composing_map
  mp_scheduler_type :: scheduler_type
  is_decoupled :: bool
  mp_model_name :: string
  mp_model_version :: string
  mp_signature_name :: string
  max_batch_size :: u64
  response_cache_enabled :: bool
  top_level_response_caching :: bool

definition new_tensor :: model_tensor where
  "new_tensor = \<lparr>mt_name = [], mt_datatype = [], mt_shape = [], is_shape_tensor = False, is_optional = False\<rparr>"

text \<open>\<open>emplace(key, ModelTensor()).first\<close> and what is done to the entry.\<close>

definition with_tensor :: "string \<Rightarrow> (model_tensor \<Rightarrow> model_tensor) \<Rightarrow> model_tensor_map \<Rightarrow> model_tensor_map" where
  "with_tensor key f m = map_assign key (f (map_get new_tensor m key)) m"

text \<open>The tensors that the analyzer adds itself have one element.\<close>

definition add_tensor :: "string \<Rightarrow> string \<Rightarrow> model_tensor_map \<Rightarrow> model_tensor_map" where
  "add_tensor key datatype = with_tensor key (\<lambda>t. t\<lparr>mt_name := key, mt_datatype := datatype, mt_shape := mt_shape t @ [1]\<rparr>)"

definition ModelParser :: "inference_load_mode \<Rightarrow> model_parser" where
  "ModelParser load_mode =
     \<lparr>mp_inputs =
        (let m0 = [];
             m1 = (if load_mode = FixedScheduleMode then add_tensor ''timestamp'' ''UINT64'' m0 else m0)
         in if load_mode = SessionConcurrencyMode then
              add_tensor ''session_id'' ''BYTES''
                (with_tensor ''delay'' (\<lambda>t. t\<lparr>is_optional := True\<rparr>) (add_tensor ''delay'' ''UINT64'' m1))
            else m1),
      mp_outputs = [], composing_models_map = [], mp_scheduler_type = NONE, is_decoupled = False,
      mp_model_name = [], mp_model_version = [], mp_signature_name = [], max_batch_size = 0,
      response_cache_enabled = False, top_level_response_caching = False\<rparr>"

section \<open>Reading values\<close>

definition FindMember :: "json \<Rightarrow> string \<Rightarrow> exn + json option" where
  "FindMember v k = (if IsObject v then Inr (member v k) else Inl json_assert)"

definition GetBool :: "json \<Rightarrow> exn + bool" where
  "GetBool v = (case v of JBool b \<Rightarrow> Inr b | _ \<Rightarrow> Inl json_assert)"

definition string_member :: "json \<Rightarrow> string \<Rightarrow> exn + string" where
  "string_member v k = bindR (GetMember v k) GetString"

definition bool_member :: "json \<Rightarrow> string \<Rightarrow> exn + bool" where
  "bool_member v k = bindR (GetMember v k) GetBool"

definition GetInt :: "json \<Rightarrow> cb_error + int" where
  "GetInt value =
     (case value of
        JString str \<Rightarrow>
          (case stoll str of
             Inl _ \<Rightarrow> Inl (generic_error (''unable to convert '' @ [CHR 0x27] @ str @ [CHR 0x27] @ '' to integer''))
           | Inr i \<Rightarrow> Inr i)
      | _ \<Rightarrow>
          if IsInt64 value \<or> IsInt value then Inr (GetIntValue value)
          else Inl (generic_error ''failed to parse the integer value''))"

text \<open>A loop over the array in a member that need not be there.\<close>

definition for_members :: "json \<Rightarrow> string \<Rightarrow> ('s \<Rightarrow> json \<Rightarrow> failure + 's) \<Rightarrow> 's \<Rightarrow> failure + 's" where
  "for_members v k f s =
     bindR (liftE (FindMember v k)) (\<lambda>found.
       case found of None \<Rightarrow> Inr s | Some arr \<Rightarrow> bindR (liftE (GetArray arr)) (foldR f s))"

section \<open>Composing models\<close>

definition is_ensemble :: "json \<Rightarrow> exn + bool" where
  "is_ensemble config =
     bindR (HasMember config ''platform'') (\<lambda>has.
       if has then bindR (string_member config ''platform'') (\<lambda>p. Inr (p = ''ensemble'')) else Inr False)"

definition step_id :: "json \<Rightarrow> failure + model_identifier" where
  "step_id st =
     bindR (liftE (GetMember st ''model_version'')) (\<lambda>v.
     bindR (liftC (GetInt v)) (\<lambda>version.
     bindR (liftE (string_member st ''model_name'')) (\<lambda>name.
       Inr (name, if version = - 1 then [] else to_string version))))"

definition add_composing :: "string \<Rightarrow> model_identifier \<Rightarrow> composing_map \<Rightarrow> composing_map" where
  "add_composing parent c cm = map_assign parent (set_emplace c (map_get [] cm parent)) cm"

text \<open>
  \<open>AddEnsembleComposingModels\<close> calls itself on the configuration of every step; \<open>depth\<close> is the number
  of nested calls that the stack allows.
\<close>

fun AddEnsembleComposingModels :: "(string \<Rightarrow> string \<Rightarrow> cb_error + json) \<Rightarrow> nat \<Rightarrow> json \<Rightarrow> composing_map \<Rightarrow>
    failure + composing_map" where
  "AddEnsembleComposingModels model_config 0 config cm = Inl (Throws (UndefinedBehaviour ''stack overflow''))"
| "AddEnsembleComposingModels model_config (Suc depth) config cm =
     bindR (liftE (is_ensemble config)) (\<lambda>ensemble.
       if \<not> ensemble then Inr cm
       else
         bindR (liftE (bindR (GetMember config ''ensemble_scheduling'') (\<lambda>s. bindR (GetMember s ''step'') GetArray))) (\<lambda>steps.
           foldR (\<lambda>cm st.
             bindR (step_id st) (\<lambda>c.
             bindR (liftE (string_member config ''name'')) (\<lambda>parent.
             bindR (liftC (model_config (fst c) (snd c))) (\<lambda>composing_model_config.
               AddEnsembleComposingModels model_config depth composing_model_config (add_composing parent c cm))))) cm steps))"

definition AddBLSComposingModels :: "(string \<Rightarrow> string \<Rightarrow> cb_error + json) \<Rightarrow> nat \<Rightarrow> model_identifier list \<Rightarrow> json \<Rightarrow>
    composing_map \<Rightarrow> failure + composing_map" where
  "AddBLSComposingModels model_config depth bls config =
     (\<lambda>cm. foldR (\<lambda>cm model.
        bindR (liftE (string_member config ''name'')) (\<lambda>parent.
        bindR (liftC (model_config (fst model) (snd model))) (\<lambda>composing_model_config.
          AddEnsembleComposingModels model_config depth composing_model_config (add_composing parent model cm)))) cm bls)"

definition DetermineComposingModelMap :: "(string \<Rightarrow> string \<Rightarrow> cb_error + json) \<Rightarrow> nat \<Rightarrow> model_identifier list \<Rightarrow> json \<Rightarrow>
    composing_map \<Rightarrow> failure + composing_map" where
  "DetermineComposingModelMap model_config depth bls config cm =
     bindR (AddBLSComposingModels model_config depth bls config cm)
       (AddEnsembleComposingModels model_config depth config)"

section \<open>The scheduler\<close>

text \<open>The state of the loop is \<open>*is_sequential\<close> and \<open>response_cache_enabled_\<close>.\<close>

definition composing_scheduler :: "(string \<Rightarrow> string \<Rightarrow> cb_error + json) \<Rightarrow> bool \<times> bool \<Rightarrow> model_identifier \<Rightarrow>
    failure + bool \<times> bool" where
  "composing_scheduler model_config = (\<lambda>(is_sequential, cache) c.
     bindR (liftC (model_config (fst c) (snd c))) (\<lambda>config.
     bindR (liftE (FindMember config ''sequence_batching'')) (\<lambda>sequence.
     bindR (liftE (FindMember config ''response_cache'')) (\<lambda>caching.
     bindR (case caching of
              Some v \<Rightarrow> if \<not> cache then liftE (bool_member v ''enable'') else Inr cache
            | None \<Rightarrow> Inr cache) (\<lambda>cache'.
       Inr (is_sequential \<or> sequence \<noteq> None, cache'))))))"

definition GetComposingSchedulerType :: "(string \<Rightarrow> string \<Rightarrow> cb_error + json) \<Rightarrow> composing_map \<Rightarrow> bool \<Rightarrow>
    failure + bool \<times> bool" where
  "GetComposingSchedulerType model_config cm cache =
     foldR (composing_scheduler model_config) (False, cache) (concat (map snd cm))"

definition DetermineSchedulerType :: "(string \<Rightarrow> string \<Rightarrow> cb_error + json) \<Rightarrow> json \<Rightarrow> model_parser \<Rightarrow>
    failure + model_parser" where
  "DetermineSchedulerType model_config config p =
     (if composing_models_map p \<noteq> [] then
        bindR (GetComposingSchedulerType model_config (composing_models_map p) (response_cache_enabled p))
          (\<lambda>(is_sequential, cache).
             Inr (p\<lparr>mp_scheduler_type := if is_sequential then ENSEMBLE_SEQUENCE else ENSEMBLE,
                    response_cache_enabled := cache\<rparr>))
      else
        bindR (liftE (FindMember config ''sequence_batching'')) (\<lambda>sequence.
          if sequence \<noteq> None then Inr (p\<lparr>mp_scheduler_type := SEQUENCE\<rparr>)
          else
            bindR (liftE (FindMember config ''dynamic_batching'')) (\<lambda>dynamic.
              Inr (p\<lparr>mp_scheduler_type := if dynamic \<noteq> None then DYNAMIC else NONE\<rparr>))))"

section \<open>Triton\<close>

text \<open>The first dimension of a model that supports batching is the batch.\<close>

definition dims_of :: "u64 \<Rightarrow> json list \<Rightarrow> cb_error + int list" where
  "dims_of max_batch ds = mapR GetInt (if max_batch > 0 then drop 1 ds else ds)"

text \<open>A shape with a wildcard is replaced by the one of the user.\<close>

definition user_shape :: "(string, int list) std_map \<Rightarrow> bool \<Rightarrow> model_tensor \<Rightarrow> model_tensor" where
  "user_shape shapes is_dynamic t =
     (if is_dynamic then case map_find shapes (mt_name t) of Some s \<Rightarrow> t\<lparr>mt_shape := s\<rparr> | None \<Rightarrow> t else t)"

definition triton_input :: "u64 \<Rightarrow> (string, int list) std_map \<Rightarrow> model_tensor_map \<Rightarrow> json \<Rightarrow> failure + model_tensor_map" where
  "triton_input max_batch shapes m input =
     bindR (liftE (string_member input ''name'')) (\<lambda>name.
     bindR (liftE (string_member input ''datatype'')) (\<lambda>datatype.
     bindR (liftE (bindR (GetMember input ''shape'') GetArray)) (\<lambda>ds.
     bindR (liftC (dims_of max_batch ds)) (\<lambda>dims.
       Inr (with_tensor name (\<lambda>t.
         user_shape shapes (- 1 \<in> set dims)
           (t\<lparr>mt_name := name, mt_datatype := datatype, mt_shape := mt_shape t @ dims\<rparr>)) m)))))"

definition triton_output :: "u64 \<Rightarrow> model_tensor_map \<Rightarrow> json \<Rightarrow> failure + model_tensor_map" where
  "triton_output max_batch m out =
     bindR (liftE (string_member out ''name'')) (\<lambda>name.
     bindR (liftE (string_member out ''datatype'')) (\<lambda>datatype.
     bindR (liftE (bindR (GetMember out ''shape'') GetArray)) (\<lambda>ds.
     bindR (liftC (dims_of max_batch ds)) (\<lambda>dims.
       Inr (with_tensor name (\<lambda>t. t\<lparr>mt_name := name, mt_datatype := datatype, mt_shape := mt_shape t @ dims\<rparr>) m)))))"

text \<open>What the configuration says of a tensor; \<open>kind\<close> is \<open>input\<close> or \<open>output\<close>.\<close>

definition set_shape_tensor :: "json \<Rightarrow> model_tensor \<Rightarrow> failure + model_tensor" where
  "set_shape_tensor cfg t =
     bindR (liftE (FindMember cfg ''is_shape_tensor'')) (\<lambda>found.
       case found of None \<Rightarrow> Inr t
       | Some v \<Rightarrow> bindR (liftE (GetBool v)) (\<lambda>b. Inr (t\<lparr>is_shape_tensor := b\<rparr>)))"

definition set_optional :: "json \<Rightarrow> model_tensor \<Rightarrow> failure + model_tensor" where
  "set_optional cfg t =
     bindR (liftE (HasMember cfg ''optional'')) (\<lambda>has.
       if has then bindR (liftE (bool_member cfg ''optional'')) (\<lambda>b. Inr (t\<lparr>is_optional := b\<rparr>))
       else Inr (t\<lparr>is_optional := False\<rparr>))"

definition tensor_config :: "string \<Rightarrow> (json \<Rightarrow> model_tensor \<Rightarrow> failure + model_tensor) \<Rightarrow> model_tensor_map \<Rightarrow> json \<Rightarrow>
    failure + model_tensor_map" where
  "tensor_config kind apply_config m cfg =
     bindR (liftE (string_member cfg ''name'')) (\<lambda>name.
       case map_find m name of
         None \<Rightarrow> Inl (Fails (generic_error (''no metadata found for '' @ kind @ '' tensor '' @ name)))
       | Some t \<Rightarrow> bindR (apply_config cfg t) (\<lambda>t'. Inr (map_assign name t' m)))"

definition read_batch_size :: "json \<Rightarrow> model_parser \<Rightarrow> failure + model_parser" where
  "read_batch_size config p =
     bindR (liftE (FindMember config ''max_batch_size'')) (\<lambda>found.
       case found of None \<Rightarrow> Inr (p\<lparr>max_batch_size := 0\<rparr>)
       | Some v \<Rightarrow> bindR (liftC (GetInt v)) (\<lambda>mbs. Inr (p\<lparr>max_batch_size := word_of_int mbs\<rparr>)))"

definition read_decoupled :: "json \<Rightarrow> model_parser \<Rightarrow> failure + model_parser" where
  "read_decoupled config p =
     bindR (liftE (FindMember config ''model_transaction_policy'')) (\<lambda>found.
       case found of None \<Rightarrow> Inr p
       | Some v \<Rightarrow> bindR (liftE (bool_member v ''decoupled'')) (\<lambda>b. Inr (p\<lparr>is_decoupled := b\<rparr>)))"

definition read_inputs :: "json \<Rightarrow> json \<Rightarrow> (string, int list) std_map \<Rightarrow> model_parser \<Rightarrow> failure + model_parser" where
  "read_inputs metadata config shapes p =
     bindR (for_members metadata ''inputs'' (triton_input (max_batch_size p) shapes) (mp_inputs p)) (\<lambda>m1.
     bindR (for_members config ''input''
              (tensor_config ''input'' (\<lambda>cfg t. bindR (set_shape_tensor cfg t) (set_optional cfg))) m1) (\<lambda>m2.
       Inr (p\<lparr>mp_inputs := m2\<rparr>)))"

definition read_outputs :: "json \<Rightarrow> json \<Rightarrow> model_parser \<Rightarrow> failure + model_parser" where
  "read_outputs metadata config p =
     bindR (for_members metadata ''outputs'' (triton_output (max_batch_size p)) (mp_outputs p)) (\<lambda>m1.
     bindR (for_members config ''output'' (tensor_config ''output'' set_shape_tensor) m1) (\<lambda>m2.
       Inr (p\<lparr>mp_outputs := m2\<rparr>)))"

definition read_caching :: "json \<Rightarrow> model_parser \<Rightarrow> failure + model_parser" where
  "read_caching config p =
     bindR (liftE (FindMember config ''response_cache'')) (\<lambda>found.
       case found of None \<Rightarrow> Inr p
       | Some v \<Rightarrow> bindR (liftE (bool_member v ''enable'')) (\<lambda>b.
           Inr (p\<lparr>response_cache_enabled := response_cache_enabled p \<or> b, top_level_response_caching := b\<rparr>)))"

definition InitTriton :: "(string \<Rightarrow> string \<Rightarrow> cb_error + json) \<Rightarrow> nat \<Rightarrow> json \<Rightarrow> json \<Rightarrow> string \<Rightarrow>
    model_identifier list \<Rightarrow> (string, int list) std_map \<Rightarrow> model_parser \<Rightarrow> failure + model_parser" where
  "InitTriton model_config depth metadata config version bls shapes p =
     bindR (liftE (string_member metadata ''name'')) (\<lambda>name.
     bindR (DetermineComposingModelMap model_config depth bls config (composing_models_map p)) (\<lambda>cm.
     bindR (DetermineSchedulerType model_config config
              (p\<lparr>mp_model_name := name, mp_model_version := version, composing_models_map := cm\<rparr>)) (\<lambda>p1.
     bindR (read_batch_size config p1) (\<lambda>p2.
     bindR (read_decoupled config p2) (\<lambda>p3.
     bindR (read_inputs metadata config shapes p3) (\<lambda>p4.
     bindR (read_outputs metadata config p4) (read_caching config)))))))"

section \<open>The other services\<close>

definition tfs_dims :: "u64 \<Rightarrow> json list \<Rightarrow> failure + int list" where
  "tfs_dims max_batch ds =
     bindR (mapR (\<lambda>d. bindR (liftE (GetMember d ''size'')) (\<lambda>v. liftC (GetInt v))) (if max_batch \<noteq> 0 then take 1 ds else [])) (\<lambda>batch.
       if \<exists>d \<in> set batch. d \<noteq> - 1 then
         Inl (Fails (generic_error ''Can not specify -b flag for saved model with input not having their first dim as -1''))
       else mapR (\<lambda>d. bindR (liftE (GetMember d ''size'')) (\<lambda>v. liftC (GetInt v))) (if max_batch \<noteq> 0 then drop 1 ds else ds))"

definition tfs_tensor :: "u64 \<Rightarrow> (string, int list) std_map \<Rightarrow> model_tensor_map \<Rightarrow> string \<times> json \<Rightarrow> failure + model_tensor_map" where
  "tfs_tensor max_batch shapes m = (\<lambda>(name, v).
     bindR (liftE (string_member v ''dtype'')) (\<lambda>dtype.
     bindR (liftC (ConvertDTypeFromTFS dtype)) (\<lambda>datatype.
     bindR (liftE (GetMember v ''tensor_shape'')) (\<lambda>shape.
     bindR (liftE (bool_member shape ''unknown_rank'')) (\<lambda>unknown.
     bindR (if unknown then
              if max_batch \<noteq> 0 then
                Inl (Fails (generic_error ''Can not specify -b flag for saved model with unknown ranked inputs''))
              else Inr ([], True)
            else
              bindR (liftE (bindR (GetMember shape ''dim'') GetArray)) (\<lambda>ds.
              bindR (tfs_dims max_batch ds) (\<lambda>dims. Inr (dims, - 1 \<in> set dims)))) (\<lambda>(dims, is_dynamic).
       Inr (with_tensor name (\<lambda>t.
         user_shape shapes is_dynamic (t\<lparr>mt_name := name, mt_datatype := datatype, mt_shape := mt_shape t @ dims\<rparr>)) m)))))))"

definition Members :: "json \<Rightarrow> exn + (string \<times> json) list" where
  "Members v = (case v of JObject kvs \<Rightarrow> Inr kvs | _ \<Rightarrow> Inl json_assert)"

definition InitTFServe :: "json \<Rightarrow> string \<Rightarrow> string \<Rightarrow> string \<Rightarrow> int \<Rightarrow> (string, int list) std_map \<Rightarrow> model_parser \<Rightarrow>
    failure + model_parser" where
  "InitTFServe metadata name version signature batch_size shapes p =
     (let p1 = p\<lparr>mp_model_name := name, mp_model_version := version, mp_signature_name := signature,
                 mp_scheduler_type := NONE, max_batch_size := word_of_int batch_size\<rparr>
      in bindR (liftE (bindR (GetMember metadata ''metadata'') (\<lambda>v.
                  bindR (GetMember v ''signature_def'') (\<lambda>v. GetMember v ''signature_def'')))) (\<lambda>sigs.
         bindR (liftE (HasMember sigs signature)) (\<lambda>has.
           if \<not> has then
             Inl (Fails (generic_error (''Failed to find signature_name '' @ [CHR 0x22] @ signature @ [CHR 0x22] @
               '' in the metadata'')))
           else
             bindR (liftE (GetMember sigs signature)) (\<lambda>sg.
             bindR (liftE (FindMember sg ''inputs'')) (\<lambda>found.
               case found of None \<Rightarrow> Inr p1
               | Some inputs \<Rightarrow>
                   bindR (liftE (Members inputs)) (\<lambda>kvs.
                   bindR (foldR (tfs_tensor (max_batch_size p1) shapes) (mp_inputs p1) kvs) (\<lambda>m.
                     Inr (p1\<lparr>mp_inputs := m\<rparr>))))))))"

definition with_names :: "string \<Rightarrow> string \<Rightarrow> int \<Rightarrow> model_parser \<Rightarrow> model_parser" where
  "with_names name version batch_size p =
     p\<lparr>mp_model_name := name, mp_model_version := version, max_batch_size := word_of_int batch_size\<rparr>"

definition InitDynamicGrpc :: "string \<Rightarrow> string \<Rightarrow> int \<Rightarrow> model_parser \<Rightarrow> model_parser" where
  "InitDynamicGrpc name version batch_size p =
     (with_names name version batch_size p)
       \<lparr>mp_inputs := add_tensor ''message_generator'' ''BYTES'' (mp_inputs p),
        mp_outputs := add_tensor ''response'' ''JSON'' (mp_outputs p)\<rparr>"

definition InitOpenAI :: "string \<Rightarrow> string \<Rightarrow> int \<Rightarrow> model_parser \<Rightarrow> model_parser" where
  "InitOpenAI name version batch_size p =
     (with_names name version batch_size p)
       \<lparr>mp_inputs := add_tensor ''payload'' ''JSON'' (mp_inputs p),
        mp_outputs := add_tensor ''response'' ''JSON'' (mp_outputs p)\<rparr>"

definition InitTorchServe :: "string \<Rightarrow> string \<Rightarrow> int \<Rightarrow> model_parser \<Rightarrow> model_parser" where
  "InitTorchServe name version batch_size p =
     (with_names name version batch_size p)\<lparr>mp_inputs := add_tensor ''TORCHSERVE_INPUT'' ''BYTES'' (mp_inputs p)\<rparr>"

section \<open>Well-typed parsers\<close>

text \<open>A tensor is filed under its own name; the composing models of a parent are a set.\<close>

definition tensors_ok :: "model_tensor_map \<Rightarrow> bool" where
  "tensors_ok m \<longleftrightarrow> map_wf m \<and> (\<forall>k t. map_find m k = Some t \<longrightarrow> mt_name t = k)"

definition composing_ok :: "composing_map \<Rightarrow> bool" where
  "composing_ok cm \<longleftrightarrow> map_wf cm \<and> (\<forall>k cs. map_find cm k = Some cs \<longrightarrow> cs \<noteq> [] \<and> sorted_wrt (<) cs)"

definition parser_ok :: "model_parser \<Rightarrow> bool" where
  "parser_ok p \<longleftrightarrow> tensors_ok (mp_inputs p) \<and> tensors_ok (mp_outputs p) \<and> composing_ok (composing_models_map p)"

lemma tensors_ok_Nil [simp]: "tensors_ok []"
  by (simp add: tensors_ok_def)

lemma tensors_ok_assign: "tensors_ok m \<Longrightarrow> mt_name t = key \<Longrightarrow> tensors_ok (map_assign key t m)"
  by (auto simp: tensors_ok_def split: if_splits)

lemma tensors_ok_with: "tensors_ok m \<Longrightarrow> (\<And>t. mt_name (f t) = key) \<Longrightarrow> tensors_ok (with_tensor key f m)"
  by (simp add: with_tensor_def tensors_ok_assign)

lemma tensors_ok_add [simp]: "tensors_ok m \<Longrightarrow> tensors_ok (add_tensor key dt m)"
  by (simp add: add_tensor_def tensors_ok_with)

lemma tensors_ok_delay: "tensors_ok m \<Longrightarrow> tensors_ok (with_tensor key (\<lambda>t. t\<lparr>is_optional := b\<rparr>) (add_tensor key dt m))"
  unfolding with_tensor_def [of key "\<lambda>t. t\<lparr>is_optional := b\<rparr>"]
  by (rule tensors_ok_assign)
    (auto simp: add_tensor_def with_tensor_def map_get_def tensors_ok_def)

lemma user_shape_name [simp]: "mt_name (user_shape shapes d t) = mt_name t"
  by (simp add: user_shape_def split: option.split)

lemma for_members_inv:
  assumes "for_members v k f s = Inr s'" and "P s" and "\<And>s x s'. P s \<Longrightarrow> f s x = Inr s' \<Longrightarrow> P s'"
  shows "P s'"
proof -
  obtain found where "FindMember v k = Inr found"
    and loop: "(case found of None \<Rightarrow> Inr s | Some arr \<Rightarrow> bindR (liftE (GetArray arr)) (foldR f s)) = Inr s'"
    using assms(1) by (auto simp: for_members_def bindR_Inr_conv)
  show ?thesis
  proof (cases found)
    case (Some arr)
    then obtain xs where "foldR f s xs = Inr s'" using loop by (auto simp: bindR_Inr_conv)
    then show ?thesis using assms(2,3) by (rule foldR_inv)
  qed (use loop assms(2) in simp)
qed

lemma triton_input_ok: "tensors_ok m \<Longrightarrow> triton_input mb shapes m x = Inr m' \<Longrightarrow> tensors_ok m'"
  by (auto simp: triton_input_def bindR_Inr_conv intro!: tensors_ok_with)

lemma triton_output_ok: "tensors_ok m \<Longrightarrow> triton_output mb m x = Inr m' \<Longrightarrow> tensors_ok m'"
  by (auto simp: triton_output_def bindR_Inr_conv intro!: tensors_ok_with)

lemma tensor_config_ok:
  assumes "tensors_ok m" and "tensor_config kind f m x = Inr m'" and "\<And>t t'. f x t = Inr t' \<Longrightarrow> mt_name t' = mt_name t"
  shows "tensors_ok m'"
  using assms
  by (auto simp: tensor_config_def bindR_Inr_conv split: option.splits intro!: tensors_ok_assign)
    (auto simp: tensors_ok_def)

lemma set_shape_tensor_name: "set_shape_tensor cfg t = Inr t' \<Longrightarrow> mt_name t' = mt_name t"
  by (auto simp: set_shape_tensor_def bindR_Inr_conv split: option.splits)

lemma set_optional_name: "set_optional cfg t = Inr t' \<Longrightarrow> mt_name t' = mt_name t"
  by (auto simp: set_optional_def bindR_Inr_conv split: if_splits)

lemma read_inputs_ok:
  assumes "read_inputs metadata config shapes p = Inr p'" and "tensors_ok (mp_inputs p)"
  shows "\<exists>m. tensors_ok m \<and> p' = p\<lparr>mp_inputs := m\<rparr>"
proof -
  obtain m1 m2 where m1: "for_members metadata ''inputs'' (triton_input (max_batch_size p) shapes) (mp_inputs p) = Inr m1"
    and m2: "for_members config ''input'' (tensor_config ''input'' (\<lambda>cfg t. bindR (set_shape_tensor cfg t) (set_optional cfg))) m1 = Inr m2"
    and p': "p' = p\<lparr>mp_inputs := m2\<rparr>"
    using assms(1) by (auto simp: read_inputs_def bindR_Inr_conv)
  have "tensors_ok m1" using m1 assms(2) by (rule for_members_inv) (rule triton_input_ok)
  with m2 have "tensors_ok m2"
    by (rule for_members_inv)
      (erule tensor_config_ok, assumption, auto simp: bindR_Inr_conv dest!: set_shape_tensor_name set_optional_name)
  with p' show ?thesis by blast
qed

lemma read_outputs_ok:
  assumes "read_outputs metadata config p = Inr p'" and "tensors_ok (mp_outputs p)"
  shows "\<exists>m. tensors_ok m \<and> p' = p\<lparr>mp_outputs := m\<rparr>"
proof -
  obtain m1 m2 where m1: "for_members metadata ''outputs'' (triton_output (max_batch_size p)) (mp_outputs p) = Inr m1"
    and m2: "for_members config ''output'' (tensor_config ''output'' set_shape_tensor) m1 = Inr m2"
    and p': "p' = p\<lparr>mp_outputs := m2\<rparr>"
    using assms(1) by (auto simp: read_outputs_def bindR_Inr_conv)
  have "tensors_ok m1" using m1 assms(2) by (rule for_members_inv) (rule triton_output_ok)
  with m2 have "tensors_ok m2"
    by (rule for_members_inv) (erule tensor_config_ok, assumption, erule set_shape_tensor_name)
  with p' show ?thesis by blast
qed

section \<open>Composing models\<close>

text \<open>The entries that the configuration of an ensemble asks for, and the configurations inside it.\<close>

definition lists_model :: "json \<Rightarrow> string \<Rightarrow> model_identifier \<Rightarrow> bool" where
  "lists_model config parent c \<longleftrightarrow> (\<exists>s steps st. is_ensemble config = Inr True \<and>
     GetMember config ''ensemble_scheduling'' = Inr s \<and> bindR (GetMember s ''step'') GetArray = Inr steps \<and>
     st \<in> set steps \<and> step_id st = Inr c \<and> string_member config ''name'' = Inr parent)"

inductive nested :: "(string \<Rightarrow> string \<Rightarrow> cb_error + json) \<Rightarrow> json \<Rightarrow> json \<Rightarrow> bool" for model_config where
  itself: "nested model_config config config"
| inner: "lists_model config parent c \<Longrightarrow> model_config (fst c) (snd c) = Inr config' \<Longrightarrow>
    nested model_config config' cfg \<Longrightarrow> nested model_config config cfg"

definition entries :: "composing_map \<Rightarrow> (string \<times> model_identifier) set" where
  "entries cm = {(parent, c). c \<in> set (map_get [] cm parent)}"

definition nested_entries :: "(string \<Rightarrow> string \<Rightarrow> cb_error + json) \<Rightarrow> json \<Rightarrow> (string \<times> model_identifier) set" where
  "nested_entries model_config config = {(parent, c). \<exists>cfg. nested model_config config cfg \<and> lists_model cfg parent c}"

lemma add_composing_ok: "composing_ok cm \<Longrightarrow> composing_ok (add_composing parent c cm)"
  by (auto simp: composing_ok_def add_composing_def map_get_def set_emplace_sorted
      split: if_splits option.splits dest: arg_cong [where f = set])

lemma entries_add: "map_wf cm \<Longrightarrow> entries (add_composing parent c cm) = insert (parent, c) (entries cm)"
  by (auto simp: entries_def add_composing_def map_get_def split: if_splits option.splits)

lemma composing_ok_wf: "composing_ok cm \<Longrightarrow> map_wf cm"
  by (simp add: composing_ok_def)

text \<open>A loop that adds to the map what each element stands for.\<close>

lemma fold_entries:
  assumes "foldR f cm xs = Inr cm'" and "composing_ok cm"
    and "\<And>cm x cm'. x \<in> set xs \<Longrightarrow> composing_ok cm \<Longrightarrow> f cm x = Inr cm' \<Longrightarrow>
      composing_ok cm' \<and> entries cm' = entries cm \<union> E x"
  shows "composing_ok cm' \<and> entries cm' = entries cm \<union> (\<Union>x \<in> set xs. E x)"
  using assms
proof (induction xs arbitrary: cm)
  case (Cons x xs)
  obtain cm1 where cm1: "f cm x = Inr cm1" "foldR f cm1 xs = Inr cm'"
    using Cons.prems(1) by (auto simp: bindR_Inr_conv)
  have ok: "composing_ok cm1" "entries cm1 = entries cm \<union> E x"
    using Cons.prems(3) [OF _ Cons.prems(2) cm1(1)] by simp_all
  have "composing_ok cm' \<and> entries cm' = entries cm1 \<union> (\<Union>x \<in> set xs. E x)"
    using cm1(2) ok(1) by (rule Cons.IH) (rule Cons.prems(3), simp_all)
  with ok(2) show ?case by auto
qed auto

lemma foldR_each: "foldR f s xs = Inr s' \<Longrightarrow> x \<in> set xs \<Longrightarrow> \<exists>s1 s2. f s1 x = Inr s2"
  by (induction xs arbitrary: s) (auto simp: bindR_Inr_conv)

lemma nested_entries_unfold:
  "nested_entries model_config config =
     {(parent, c). lists_model config parent c} \<union>
     {e. \<exists>parent c config'. lists_model config parent c \<and> model_config (fst c) (snd c) = Inr config' \<and>
        e \<in> nested_entries model_config config'}"
  (is "?l = ?r")
proof
  show "?l \<subseteq> ?r" by (auto simp: nested_entries_def elim: nested.cases)
  show "?r \<subseteq> ?l"
  proof
    fix e assume "e \<in> ?r"
    then consider "e \<in> {(parent, c). lists_model config parent c}"
      | parent c config' where "lists_model config parent c" "model_config (fst c) (snd c) = Inr config'"
          "e \<in> nested_entries model_config config'" by blast
    then show "e \<in> ?l"
    proof cases
      case 1
      then show ?thesis by (auto simp: nested_entries_def intro: nested.itself)
    next
      case 2
      then show ?thesis using nested.inner [of config parent c model_config config', OF 2(1,2)] by (auto simp: nested_entries_def)
    qed
  qed
qed

text \<open>What one step of an ensemble adds.\<close>

definition step_entries :: "(string \<Rightarrow> string \<Rightarrow> cb_error + json) \<Rightarrow> json \<Rightarrow> json \<Rightarrow> (string \<times> model_identifier) set" where
  "step_entries model_config config st = {e. \<exists>parent c cfg. step_id st = Inr c \<and> string_member config ''name'' = Inr parent \<and>
     model_config (fst c) (snd c) = Inr cfg \<and> (e = (parent, c) \<or> e \<in> nested_entries model_config cfg)}"

lemma nested_entries_steps:
  assumes "is_ensemble config = Inr True" and "GetMember config ''ensemble_scheduling'' = Inr s"
    and "bindR (GetMember s ''step'') GetArray = Inr steps"
    and all: "\<And>st. st \<in> set steps \<Longrightarrow> \<exists>c parent cfg. step_id st = Inr c \<and> string_member config ''name'' = Inr parent \<and>
      model_config (fst c) (snd c) = Inr cfg"
  shows "nested_entries model_config config = (\<Union>st \<in> set steps. step_entries model_config config st)"
    (is "_ = ?steps")
proof -
  have lists: "lists_model config parent c \<longleftrightarrow> (\<exists>st \<in> set steps. step_id st = Inr c \<and> string_member config ''name'' = Inr parent)"
    for parent c using assms(1-3) by (auto simp: lists_model_def)
  show ?thesis
  proof (rule trans [OF nested_entries_unfold], intro equalityI subsetI)
    fix e assume "e \<in> {(parent, c). lists_model config parent c} \<union> {e. \<exists>parent c config'. lists_model config parent c \<and>
      model_config (fst c) (snd c) = Inr config' \<and> e \<in> nested_entries model_config config'}"
    then obtain parent c where c: "lists_model config parent c"
      "e = (parent, c) \<or> (\<exists>config'. model_config (fst c) (snd c) = Inr config' \<and> e \<in> nested_entries model_config config')" by blast
    then obtain st where st: "st \<in> set steps" "step_id st = Inr c" "string_member config ''name'' = Inr parent" using lists by blast
    with all [OF st(1)] obtain cfg where "model_config (fst c) (snd c) = Inr cfg" by auto
    with c(2) st have "e \<in> step_entries model_config config st" unfolding step_entries_def by blast
    with st(1) show "e \<in> ?steps" by blast
  next
    fix e assume "e \<in> ?steps"
    then obtain st parent c cfg where "st \<in> set steps" "step_id st = Inr c" "string_member config ''name'' = Inr parent"
      and cfg: "model_config (fst c) (snd c) = Inr cfg" "e = (parent, c) \<or> e \<in> nested_entries model_config cfg"
      by (auto simp: step_entries_def)
    then have "lists_model config parent c" using lists by blast
    with cfg show "e \<in> {(parent, c). lists_model config parent c} \<union> {e. \<exists>parent c config'. lists_model config parent c \<and>
      model_config (fst c) (snd c) = Inr config' \<and> e \<in> nested_entries model_config config'}" by blast
  qed
qed

lemma AddEnsemble_entries:
  "AddEnsembleComposingModels model_config depth config cm = Inr cm' \<Longrightarrow> composing_ok cm \<Longrightarrow>
     composing_ok cm' \<and> entries cm' = entries cm \<union> nested_entries model_config config"
proof (induction depth arbitrary: config cm cm')
  case (Suc depth)
  obtain ensemble where ens: "is_ensemble config = Inr ensemble"
    using Suc.prems(1) by (auto simp: bindR_Inr_conv)
  show ?case
  proof (cases ensemble)
    case False
    then have "nested_entries model_config config = {}"
      using ens by (subst nested_entries_unfold) (simp add: lists_model_def)
    with Suc.prems ens False show ?thesis by simp
  next
    case True
    let ?f = "\<lambda>cm st. bindR (step_id st) (\<lambda>c. bindR (liftE (string_member config ''name'')) (\<lambda>parent.
      bindR (liftC (model_config (fst c) (snd c))) (\<lambda>cfg.
        AddEnsembleComposingModels model_config depth cfg (add_composing parent c cm))))"
    obtain s steps where s: "GetMember config ''ensemble_scheduling'' = Inr s" "bindR (GetMember s ''step'') GetArray = Inr steps"
      and loop: "foldR ?f cm steps = Inr cm'"
      using Suc.prems(1) ens True by (auto simp: bindR_Inr_conv)
    have one: "\<exists>c parent cfg. step_id st = Inr c \<and> string_member config ''name'' = Inr parent \<and>
        model_config (fst c) (snd c) = Inr cfg \<and>
        AddEnsembleComposingModels model_config depth cfg (add_composing parent c cm1) = Inr cm2"
      if "?f cm1 st = Inr cm2" for cm1 st cm2 using that by (auto simp: bindR_Inr_conv)
    have step: "composing_ok cm2 \<and> entries cm2 = entries cm1 \<union> step_entries model_config config st"
      if ok1: "composing_ok cm1" and f1: "?f cm1 st = Inr cm2" for cm1 st cm2
    proof -
      from one [OF f1] obtain c parent cfg where c: "step_id st = Inr c" "string_member config ''name'' = Inr parent"
        "model_config (fst c) (snd c) = Inr cfg"
        and rec: "AddEnsembleComposingModels model_config depth cfg (add_composing parent c cm1) = Inr cm2" by blast
      have "step_entries model_config config st = insert (parent, c) (nested_entries model_config cfg)"
        using c by (auto simp: step_entries_def)
      with Suc.IH [OF rec add_composing_ok [OF ok1]] entries_add [OF composing_ok_wf [OF ok1]]
      show ?thesis by auto
    qed
    have "composing_ok cm' \<and> entries cm' = entries cm \<union> (\<Union>st \<in> set steps. step_entries model_config config st)"
      by (rule fold_entries [OF loop Suc.prems(2)]) (rule step)
    moreover have "nested_entries model_config config = (\<Union>st \<in> set steps. step_entries model_config config st)"
    proof (rule nested_entries_steps [OF _ s])
      fix st assume "st \<in> set steps"
      from foldR_each [OF loop this] obtain cm1 cm2 where "?f cm1 st = Inr cm2" by blast
      from one [OF this] show "\<exists>c parent cfg. step_id st = Inr c \<and> string_member config ''name'' = Inr parent \<and>
        model_config (fst c) (snd c) = Inr cfg" by blast
    qed (use ens True in simp)
    ultimately show ?thesis by simp
  qed
qed simp

lemma AddBLS_entries:
  assumes "AddBLSComposingModels model_config depth bls config cm = Inr cm'" and "composing_ok cm"
  shows "composing_ok cm' \<and> entries cm' = entries cm \<union> (\<Union>b \<in> set bls. {e. \<exists>parent cfg.
    string_member config ''name'' = Inr parent \<and> model_config (fst b) (snd b) = Inr cfg \<and>
    e \<in> insert (parent, b) (nested_entries model_config cfg)})"
    (is "_ \<and> _ = _ \<union> (\<Union>b \<in> set bls. ?E b)")
proof -
  let ?f = "\<lambda>cm model. bindR (liftE (string_member config ''name'')) (\<lambda>parent.
    bindR (liftC (model_config (fst model) (snd model))) (\<lambda>cfg.
      AddEnsembleComposingModels model_config depth cfg (add_composing parent model cm)))"
  have step: "composing_ok cm2 \<and> entries cm2 = entries cm1 \<union> ?E b" if ok1: "composing_ok cm1" and f1: "?f cm1 b = Inr cm2" for cm1 b cm2
  proof -
    obtain parent cfg where c: "string_member config ''name'' = Inr parent" "model_config (fst b) (snd b) = Inr cfg"
      and rec: "AddEnsembleComposingModels model_config depth cfg (add_composing parent b cm1) = Inr cm2"
      using f1 by (auto simp: bindR_Inr_conv)
    have "?E b = insert (parent, b) (nested_entries model_config cfg)" using c by auto
    with AddEnsemble_entries [OF rec add_composing_ok [OF ok1]] entries_add [OF composing_ok_wf [OF ok1]]
    show ?thesis by auto
  qed
  have "foldR ?f cm bls = Inr cm'" using assms(1) by (simp add: AddBLSComposingModels_def)
  then show ?thesis using assms(2) by (rule fold_entries) (rule step)
qed

section \<open>Frames\<close>

lemma DetermineSchedulerType_frame:
  assumes "DetermineSchedulerType model_config config p = Inr p'"
  shows "mp_inputs p' = mp_inputs p \<and> mp_outputs p' = mp_outputs p \<and> composing_models_map p' = composing_models_map p"
  using assms by (auto simp: DetermineSchedulerType_def bindR_Inr_conv split: if_splits)

lemma read_batch_size_frame: "read_batch_size config p = Inr p' \<Longrightarrow> \<exists>b. p' = p\<lparr>max_batch_size := b\<rparr>"
  by (auto simp: read_batch_size_def bindR_Inr_conv split: option.splits)

lemma read_decoupled_frame: "read_decoupled config p = Inr p' \<Longrightarrow> \<exists>b. p' = p\<lparr>is_decoupled := b\<rparr>"
  by (auto simp: read_decoupled_def bindR_Inr_conv split: option.splits intro: exI [of _ "is_decoupled p"])

lemma read_caching_frame:
  "read_caching config p = Inr p' \<Longrightarrow> mp_inputs p' = mp_inputs p \<and> mp_outputs p' = mp_outputs p \<and>
    composing_models_map p' = composing_models_map p \<and> mp_scheduler_type p' = mp_scheduler_type p \<and>
    max_batch_size p' = max_batch_size p"
  by (auto simp: read_caching_def bindR_Inr_conv split: option.splits)

lemma composing_complete:
  assumes "DetermineComposingModelMap model_config depth bls config cm = Inr cm'" and "composing_ok cm"
  shows "composing_ok cm' \<and> entries cm' = entries cm \<union> nested_entries model_config config \<union>
    (\<Union>b \<in> set bls. {e. \<exists>parent cfg. string_member config ''name'' = Inr parent \<and>
      model_config (fst b) (snd b) = Inr cfg \<and> e \<in> insert (parent, b) (nested_entries model_config cfg)})"
proof -
  obtain cm1 where cm1: "AddBLSComposingModels model_config depth bls config cm = Inr cm1"
    and cm': "AddEnsembleComposingModels model_config depth config cm1 = Inr cm'"
    using assms(1) by (auto simp: DetermineComposingModelMap_def bindR_Inr_conv)
  from AddBLS_entries [OF cm1 assms(2)] AddEnsemble_entries [OF cm'] show ?thesis by auto
qed

text \<open>The parts of a successful initialization.\<close>

lemma InitTriton_parts:
  assumes "InitTriton model_config depth metadata config version bls shapes p = Inr q"
  obtains name cm p1 b d p4 p5 where
    "DetermineComposingModelMap model_config depth bls config (composing_models_map p) = Inr cm"
    "DetermineSchedulerType model_config config
       (p\<lparr>mp_model_name := name, mp_model_version := version, composing_models_map := cm\<rparr>) = Inr p1"
    "read_inputs metadata config shapes (p1\<lparr>max_batch_size := b, is_decoupled := d\<rparr>) = Inr p4"
    "read_outputs metadata config p4 = Inr p5" "read_caching config p5 = Inr q"
    "read_batch_size config p1 = Inr (p1\<lparr>max_batch_size := b\<rparr>)"
proof -
  obtain name cm p1 p2 p3 p4 p5 where parts:
    "DetermineComposingModelMap model_config depth bls config (composing_models_map p) = Inr cm"
    "DetermineSchedulerType model_config config
       (p\<lparr>mp_model_name := name, mp_model_version := version, composing_models_map := cm\<rparr>) = Inr p1"
    "read_batch_size config p1 = Inr p2" "read_decoupled config p2 = Inr p3" "read_inputs metadata config shapes p3 = Inr p4"
    "read_outputs metadata config p4 = Inr p5" "read_caching config p5 = Inr q"
    using assms by (auto simp: InitTriton_def bindR_Inr_conv)
  obtain b d where "p3 = p1\<lparr>max_batch_size := b, is_decoupled := d\<rparr>" "p2 = p1\<lparr>max_batch_size := b\<rparr>"
    using read_batch_size_frame [OF parts(3)] read_decoupled_frame [OF parts(4)] by auto
  with parts that show thesis by blast
qed

lemma InitTriton_ok:
  assumes "InitTriton model_config depth metadata config version bls shapes p = Inr q" and "parser_ok p"
  shows "parser_ok q"
  using assms(1)
proof (rule InitTriton_parts)
  fix name cm p1 b d p4 p5
  assume parts: "DetermineComposingModelMap model_config depth bls config (composing_models_map p) = Inr cm"
    "DetermineSchedulerType model_config config
       (p\<lparr>mp_model_name := name, mp_model_version := version, composing_models_map := cm\<rparr>) = Inr p1"
    "read_inputs metadata config shapes (p1\<lparr>max_batch_size := b, is_decoupled := d\<rparr>) = Inr p4"
    "read_outputs metadata config p4 = Inr p5" "read_caching config p5 = Inr q"
  have "composing_ok cm" using composing_complete [OF parts(1)] assms(2) by (simp add: parser_ok_def)
  with DetermineSchedulerType_frame [OF parts(2)] assms(2)
  have p1: "tensors_ok (mp_inputs p1)" "tensors_ok (mp_outputs p1)" "composing_ok (composing_models_map p1)"
    by (simp_all add: parser_ok_def)
  obtain m where m: "tensors_ok m" "p4 = p1\<lparr>max_batch_size := b, is_decoupled := d, mp_inputs := m\<rparr>"
    using read_inputs_ok [OF parts(3)] p1(1) by auto
  obtain n where n: "tensors_ok n" "p5 = p4\<lparr>mp_outputs := n\<rparr>" using read_outputs_ok [OF parts(4)] p1(2) m(2) by auto
  show ?thesis using read_caching_frame [OF parts(5)] m n p1(3) by (auto simp: parser_ok_def)
qed

lemma tfs_tensor_ok: "tensors_ok m \<Longrightarrow> tfs_tensor mb shapes m x = Inr m' \<Longrightarrow> tensors_ok m'"
  by (cases x) (auto simp: tfs_tensor_def bindR_Inr_conv intro!: tensors_ok_with)

lemma InitTFServe_ok:
  assumes "InitTFServe metadata name version signature batch_size shapes p = Inr q" and "parser_ok p"
  shows "parser_ok q"
proof -
  have "tensors_ok m" if "foldR (tfs_tensor mb shapes) (mp_inputs p) kvs = Inr m" for mb kvs m
    using that by (rule foldR_inv) (use assms(2) in \<open>auto simp: parser_ok_def intro: tfs_tensor_ok\<close>)
  with assms show ?thesis
    by (auto simp: InitTFServe_def parser_ok_def bindR_Inr_conv Let_def split: if_splits option.splits)
qed

section \<open>The scheduler of a composed model\<close>

lemma composing_models_set:
  assumes "composing_ok cm"
  shows "set (concat (map snd cm)) = {c. \<exists>parent. (parent, c) \<in> entries cm}" and "cm = [] \<longleftrightarrow> entries cm = {}"
proof -
  have wf: "map_wf cm" using assms by (simp add: composing_ok_def)
  show "set (concat (map snd cm)) = {c. \<exists>parent. (parent, c) \<in> entries cm}"
  proof (intro equalityI subsetI)
    fix c assume "c \<in> set (concat (map snd cm))"
    then obtain parent cs where "(parent, cs) \<in> set cm" "c \<in> set cs" by auto
    then show "c \<in> {c. \<exists>parent. (parent, c) \<in> entries cm}"
      using map_find_wf [OF wf] by (auto simp: entries_def map_get_def intro!: exI [of _ parent])
  next
    fix c assume "c \<in> {c. \<exists>parent. (parent, c) \<in> entries cm}"
    then obtain parent where "c \<in> set (map_get [] cm parent)" by (auto simp: entries_def)
    then obtain cs where "map_find cm parent = Some cs" "c \<in> set cs"
      by (cases "map_find cm parent") (auto simp: map_get_def)
    then show "c \<in> set (concat (map snd cm))" using map_find_in [of cm parent cs] by force
  qed
  show "cm = [] \<longleftrightarrow> entries cm = {}"
  proof (cases cm)
    case (Cons e rest)
    then have "map_find cm (fst e) = Some (snd e)" by (cases e) (simp add: map_find_def)
    moreover from this have "snd e \<noteq> []" using assms by (auto simp: composing_ok_def)
    ultimately have "(fst e, hd (snd e)) \<in> entries cm" by (simp add: entries_def map_get_def)
    then show ?thesis using Cons by auto
  qed (simp add: entries_def map_get_def)
qed

text \<open>A model with its own batching of sequences.\<close>

definition is_sequential_model :: "(string \<Rightarrow> string \<Rightarrow> cb_error + json) \<Rightarrow> model_identifier \<Rightarrow> bool" where
  "is_sequential_model model_config c \<longleftrightarrow>
     (\<exists>config. model_config (fst c) (snd c) = Inr config \<and> member config ''sequence_batching'' \<noteq> None)"

lemma composing_scheduler_result:
  "composing_scheduler model_config (sq, cache) c = Inr r \<Longrightarrow> fst r = (sq \<or> is_sequential_model model_config c)"
  by (auto simp: composing_scheduler_def is_sequential_model_def FindMember_def bindR_Inr_conv split: if_splits)

lemma scheduler_fold:
  "foldR (composing_scheduler model_config) st cs = Inr r \<Longrightarrow>
     fst r = (fst st \<or> (\<exists>c \<in> set cs. is_sequential_model model_config c))"
proof (induction cs arbitrary: st)
  case (Cons c cs)
  obtain st1 where st1: "composing_scheduler model_config st c = Inr st1"
    "foldR (composing_scheduler model_config) st1 cs = Inr r"
    using Cons.prems by (auto simp: bindR_Inr_conv)
  with Cons.IH [OF st1(2)] composing_scheduler_result [of model_config "fst st" "snd st" c st1] show ?case by auto
qed simp

lemma scheduler_determined:
  assumes "DetermineSchedulerType model_config config p = Inr p'" and "composing_ok (composing_models_map p)"
  shows "mp_scheduler_type p' =
    (if entries (composing_models_map p) = {} then
       if member config ''sequence_batching'' \<noteq> None then SEQUENCE
       else if member config ''dynamic_batching'' \<noteq> None then DYNAMIC else NONE
     else if \<exists>(_, c) \<in> entries (composing_models_map p). is_sequential_model model_config c then ENSEMBLE_SEQUENCE
     else ENSEMBLE)"
proof (cases "composing_models_map p = []")
  case True
  then show ?thesis using assms composing_models_set(2) [OF assms(2)]
    by (auto simp: DetermineSchedulerType_def FindMember_def bindR_Inr_conv split: if_splits)
next
  case False
  then obtain sq cache where r: "foldR (composing_scheduler model_config) (False, response_cache_enabled p)
      (concat (map snd (composing_models_map p))) = Inr (sq, cache)"
    and p': "mp_scheduler_type p' = (if sq then ENSEMBLE_SEQUENCE else ENSEMBLE)"
    using assms(1) by (auto simp: DetermineSchedulerType_def GetComposingSchedulerType_def bindR_Inr_conv)
  have "sq \<longleftrightarrow> (\<exists>(_, c) \<in> entries (composing_models_map p). is_sequential_model model_config c)"
    using scheduler_fold [OF r] unfolding composing_models_set(1) [OF assms(2)] by auto
  with False p' composing_models_set(2) [OF assms(2)] show ?thesis by simp
qed

section \<open>Properties\<close>

text \<open>
  C23: What the parser knows of the model is well typed, whatever the server returns: the constructor and
  the initialization for every kind of service produce a parser in which the inputs and the outputs
  are each filed once, in order, under their own names, and the composing models of every
  parent are a non-empty set.
\<close>

theorem parsed_model_well_typed:
  "parser_ok (ModelParser load_mode) \<and>
   (parser_ok p \<longrightarrow>
      (InitTriton model_config depth metadata config version bls shapes p = Inr q \<longrightarrow> parser_ok q) \<and>
      (InitTFServe metadata name version signature batch_size shapes p = Inr q \<longrightarrow> parser_ok q) \<and>
      parser_ok (InitDynamicGrpc name version batch_size p) \<and> parser_ok (InitOpenAI name version batch_size p) \<and>
      parser_ok (InitTorchServe name version batch_size p))"
proof (intro conjI impI)
  show "parser_ok (ModelParser load_mode)"
    using tensors_ok_delay [of "[]" "''delay''" True "''UINT64''"]
    by (simp add: ModelParser_def parser_ok_def composing_ok_def Let_def)
qed (erule (1) InitTriton_ok | erule (1) InitTFServe_ok | simp add: InitDynamicGrpc_def InitOpenAI_def InitTorchServe_def with_names_def parser_ok_def)+

definition sample_metadata :: json where
  "sample_metadata = JObject [(''name'', JString ''ens''), (''inputs'', JArray [JObject [(''name'', JString ''A''),
     (''datatype'', JString ''INT32''), (''shape'', JArray [JInt (- 1), JString ''4'', JInt (- 1)])]])]"

definition sample_config :: json where
  "sample_config = JObject [(''name'', JString ''ens''), (''platform'', JString ''ensemble''), (''max_batch_size'', JInt 8),
     (''ensemble_scheduling'', JObject [(''step'', JArray [JObject [(''model_version'', JInt (- 1)),
       (''model_name'', JString ''enc'')]])])]"

definition sample_models :: "string \<Rightarrow> string \<Rightarrow> cb_error + json" where
  "sample_models name version =
     (if name = ''enc'' then Inr (JObject [(''sequence_batching'', JObject [])]) else Inl (generic_error ''unknown model''))"

definition sample_init :: "failure + model_parser" where
  "sample_init = InitTriton sample_models 2 sample_metadata sample_config ''1'' [] [(''A'', [4, 7])] (ModelParser NoLoadMode)"

lemma sample_init_works: "\<exists>q. sample_init = Inr q"
proof -
  have "(case sample_init of Inr _ \<Rightarrow> True | Inl _ \<Rightarrow> False)" by code_simp
  then show ?thesis by (auto split: sum.splits)
qed

theorem parsed_model_well_typed_witness:
  "\<exists>q. sample_init = Inr q \<and> parser_ok q \<and> parser_ok (InitOpenAI ''m'' ''1'' 1 (ModelParser SessionConcurrencyMode))"
proof -
  obtain q where q: "sample_init = Inr q" using sample_init_works by blast
  have "parser_ok q"
    using parsed_model_well_typed [of NoLoadMode "ModelParser NoLoadMode" sample_models 2 sample_metadata sample_config "''1''" "[]"
        "[(''A'', [4, 7])]" q] q
    by (simp add: sample_init_def)
  moreover have "parser_ok (InitOpenAI ''m'' ''1'' 1 (ModelParser SessionConcurrencyMode))"
    using parsed_model_well_typed [of SessionConcurrencyMode "ModelParser SessionConcurrencyMode"] by blast
  ultimately show ?thesis using q by blast
qed

text \<open>
  C22: The map of composing models of a Triton model is complete and exact: it has the models that the user names as
  called by the model's own logic, and every step of every ensemble, however deeply nested, inside
  the model or inside one of those; nothing else. The model is treated as a sequence ensemble
  exactly when one of these models batches sequences; a model without composing models is
  treated as its own configuration says.
\<close>

theorem composing_models_complete:
  assumes "InitTriton model_config depth metadata config version bls shapes p = Inr q" and "composing_models_map p = []"
  shows "entries (composing_models_map q) = nested_entries model_config config \<union>
      (\<Union>b \<in> set bls. {e. \<exists>parent cfg. string_member config ''name'' = Inr parent \<and>
        model_config (fst b) (snd b) = Inr cfg \<and> e \<in> insert (parent, b) (nested_entries model_config cfg)}) \<and>
    mp_scheduler_type q =
      (if entries (composing_models_map q) = {} then
         if member config ''sequence_batching'' \<noteq> None then SEQUENCE
         else if member config ''dynamic_batching'' \<noteq> None then DYNAMIC else NONE
       else if \<exists>(_, c) \<in> entries (composing_models_map q). is_sequential_model model_config c then ENSEMBLE_SEQUENCE
       else ENSEMBLE)"
  using assms(1)
proof (rule InitTriton_parts)
  fix name cm p1 b d p4 p5
  assume parts: "DetermineComposingModelMap model_config depth bls config (composing_models_map p) = Inr cm"
    "DetermineSchedulerType model_config config
       (p\<lparr>mp_model_name := name, mp_model_version := version, composing_models_map := cm\<rparr>) = Inr p1"
    "read_inputs metadata config shapes (p1\<lparr>max_batch_size := b, is_decoupled := d\<rparr>) = Inr p4"
    "read_outputs metadata config p4 = Inr p5" "read_caching config p5 = Inr q"
  have q: "composing_models_map q = cm" "mp_scheduler_type q = mp_scheduler_type p1"
    using DetermineSchedulerType_frame [OF parts(2)] parts(3,4) read_caching_frame [OF parts(5)]
    by (auto simp: read_inputs_def read_outputs_def bindR_Inr_conv)
  have none: "composing_ok (composing_models_map p)" "entries (composing_models_map p) = {}"
    using assms(2) by (simp_all add: composing_ok_def entries_def map_get_def)
  from composing_complete [OF parts(1) none(1)] none(2) scheduler_determined [OF parts(2)] show ?thesis
    by (simp add: q)
qed

theorem composing_models_complete_witness:
  "\<exists>q. sample_init = Inr q \<and> entries (composing_models_map q) = nested_entries sample_models sample_config \<and>
     mp_scheduler_type q = ENSEMBLE_SEQUENCE"
proof -
  obtain q where q: "sample_init = Inr q" using sample_init_works by blast
  have "(case sample_init of Inr q \<Rightarrow> composing_models_map q = [(''ens'', [(''enc'', [])])] | Inl _ \<Rightarrow> False)" by code_simp
  then have "composing_models_map q = [(''ens'', [(''enc'', [])])]" unfolding q by simp
  then have cm: "(''ens'', (''enc'', [])) \<in> entries (composing_models_map q)"
    by (simp add: entries_def map_get_def map_find_def)
  have enc: "is_sequential_model sample_models (''enc'', [])"
    by (simp add: is_sequential_model_def sample_models_def member_def)
  show ?thesis
    using composing_models_complete [of sample_models 2 sample_metadata sample_config "''1''" "[]" "[(''A'', [4, 7])]"
        "ModelParser NoLoadMode" q] q cm enc
    by (auto simp: sample_init_def ModelParser_def)
qed

lemma map_find_with:
  "map_wf m \<Longrightarrow> map_find (with_tensor key f m) k = (if k = key then Some (f (map_get new_tensor m key)) else map_find m k)"
  by (simp add: with_tensor_def)

lemma map_wf_with [simp]: "map_wf m \<Longrightarrow> map_wf (with_tensor key f m)"
  by (simp add: with_tensor_def)

text \<open>
  What the server says of a model, read off the JSON documents: whether it supports batching,
  and the name, the type and the dimensions of an input, of which the first one is the batch
  when the model supports batching.
\<close>

definition supports_batching :: "json \<Rightarrow> bool" where
  "supports_batching config \<longleftrightarrow>
     (\<exists>v mbs. member config ''max_batch_size'' = Some v \<and> GetInt v = Inr mbs \<and> (word_of_int mbs :: u64) \<noteq> 0)"

definition describes :: "bool \<Rightarrow> json \<Rightarrow> string \<Rightarrow> string \<Rightarrow> int list \<Rightarrow> bool" where
  "describes batching input name dt dims \<longleftrightarrow>
     member input ''name'' = Some (JString name) \<and> member input ''datatype'' = Some (JString dt) \<and>
     (\<exists>ds. member input ''shape'' = Some (JArray ds) \<and>
       list_all2 (\<lambda>v d. GetInt v = Inr d) (if batching then tl ds else ds) dims)"

text \<open>The dimensions that the analyzer itself has given an input of this name before.\<close>

definition reserved_shape :: "inference_load_mode \<Rightarrow> string \<Rightarrow> int list" where
  "reserved_shape load_mode name =
     (if load_mode = FixedScheduleMode \<and> name = ''timestamp'' \<or>
         load_mode = SessionConcurrencyMode \<and> name \<in> {''delay'', ''session_id''} then [1] else [])"

definition served_shape :: "(string, int list) std_map \<Rightarrow> string \<Rightarrow> int list \<Rightarrow> int list \<Rightarrow> int list" where
  "served_shape shapes name own dims =
     (case map_find shapes name of Some s \<Rightarrow> if - 1 \<in> set dims then s else own @ dims | None \<Rightarrow> own @ dims)"

lemma mapR_list_all2: "mapR f xs = Inr ys \<Longrightarrow> list_all2 (\<lambda>x y. f x = Inr y) xs ys"
  by (induction xs arbitrary: ys) (auto simp: bindR_Inr_conv)

lemma read_batch_size_batching:
  assumes "read_batch_size config p = Inr p'"
  shows "0 < max_batch_size p' \<longleftrightarrow> supports_batching config"
  using assms
  by (auto simp: read_batch_size_def FindMember_def bindR_Inr_conv supports_batching_def word_gt_0
      split: if_splits option.splits)

lemma triton_input_result:
  assumes "triton_input mb shapes m input = Inr m'"
  shows "\<exists>name dt dims. describes (0 < mb) input name dt dims \<and>
    m' = with_tensor name (\<lambda>t. user_shape shapes (- 1 \<in> set dims)
      (t\<lparr>mt_name := name, mt_datatype := dt, mt_shape := mt_shape t @ dims\<rparr>)) m"
  using assms
  by (auto simp: triton_input_def describes_def bindR_Inr_conv string_member_def GetMember_def GetString_def
      GetArray_def dims_of_def drop_Suc split: option.splits json.splits if_splits dest!: mapR_list_all2)

lemma described_name: "describes b x name dt dims \<Longrightarrow> string_member x ''name'' = Inr name"
  by (simp add: describes_def string_member_def GetMember_def GetString_def)

definition input_served :: "bool \<Rightarrow> (string, int list) std_map \<Rightarrow> (string \<Rightarrow> int list) \<Rightarrow> model_tensor_map \<Rightarrow> json \<Rightarrow> bool" where
  "input_served b shapes own m x \<longleftrightarrow> (\<exists>name dt dims t. describes b x name dt dims \<and> map_find m name = Some t \<and>
     mt_datatype t = dt \<and> mt_shape t = served_shape shapes name (own name) dims)"

lemma triton_inputs_result:
  assumes "foldR (triton_input mb shapes) m xs = Inr m'" and "map_wf m"
    and "distinct (map (\<lambda>x. string_member x ''name'') xs)"
    and "\<forall>x \<in> set xs. \<forall>name. string_member x ''name'' = Inr name \<longrightarrow> mt_shape (map_get new_tensor m name) = own name"
  shows "map_wf m' \<and>
    (\<forall>k. Inr k \<notin> (\<lambda>x. string_member x ''name'') ` set xs \<longrightarrow> map_find m' k = map_find m k) \<and>
    (\<forall>x \<in> set xs. input_served (0 < mb) shapes own m' x)"
  using assms
proof (induction xs arbitrary: m)
  case (Cons x xs)
  obtain m1 where m1: "triton_input mb shapes m x = Inr m1" and rest: "foldR (triton_input mb shapes) m1 xs = Inr m'"
    using Cons.prems(1) by (auto simp: bindR_Inr_conv)
  obtain name dt dims where d: "describes (0 < mb) x name dt dims"
    and m1': "m1 = with_tensor name (\<lambda>t. user_shape shapes (- 1 \<in> set dims)
      (t\<lparr>mt_name := name, mt_datatype := dt, mt_shape := mt_shape t @ dims\<rparr>)) m"
    using triton_input_result [OF m1] by blast
  note nm = described_name [OF d]
  have new: "Inr name \<notin> (\<lambda>x. string_member x ''name'') ` set xs" using Cons.prems(3) nm by (auto simp: image_iff)
  have other: "map_find m1 k = map_find m k" if "k \<noteq> name" for k using that Cons.prems(2) by (simp add: m1' map_find_with)
  have own: "mt_shape (map_get new_tensor m name) = own name" using Cons.prems(4) nm by simp
  have keep: "map_get new_tensor m1 n = map_get new_tensor m n" if "y \<in> set xs" "string_member y ''name'' = Inr n" for y n
    using other [of n] new that by (force simp: map_get_def image_iff)
  have "map_wf m1" "distinct (map (\<lambda>x. string_member x ''name'') xs)"
    "\<forall>x \<in> set xs. \<forall>name. string_member x ''name'' = Inr name \<longrightarrow> mt_shape (map_get new_tensor m1 name) = own name"
    using Cons.prems(2-4) m1' keep by simp_all
  note IH = Cons.IH [OF rest this]
  have "map_find m' name = map_find m1 name" using IH new by blast
  then have "input_served (0 < mb) shapes own m' x"
    unfolding input_served_def using d own Cons.prems(2) m1'
    by (intro exI [of _ name] exI [of _ dt] exI [of _ dims])
       (auto simp: map_find_with user_shape_def served_shape_def split: option.splits)
  moreover have "map_find m' k = map_find m k" if "Inr k \<notin> (\<lambda>x. string_member x ''name'') ` set (x # xs)" for k
    using that IH nm other [of k] by auto
  ultimately show ?case using IH by simp
qed simp

lemma reserved_shape_ModelParser:
  "mt_shape (map_get new_tensor (mp_inputs (ModelParser load_mode)) name) = reserved_shape load_mode name"
  by (simp add: ModelParser_def add_tensor_def reserved_shape_def map_get_def map_find_with new_tensor_def)

text \<open>The configuration does not change the shape or the type of an input.\<close>

lemma config_keeps_shape:
  assumes "foldR (tensor_config kind f) m xs = Inr m'" and "map_wf m" and "map_find m name = Some t"
    and "\<And>cfg t t'. f cfg t = Inr t' \<Longrightarrow> mt_shape t' = mt_shape t \<and> mt_datatype t' = mt_datatype t"
  shows "\<exists>t'. map_find m' name = Some t' \<and> mt_shape t' = mt_shape t \<and> mt_datatype t' = mt_datatype t"
  using assms(1-3)
proof (induction xs arbitrary: m t)
  case (Cons x xs)
  obtain m1 where m1: "tensor_config kind f m x = Inr m1" and rest: "foldR (tensor_config kind f) m1 xs = Inr m'"
    using Cons.prems(1) by (auto simp: bindR_Inr_conv)
  from m1 obtain n u u' where u: "map_find m n = Some u" "f x u = Inr u'" "m1 = map_assign n u' m"
    by (auto simp: tensor_config_def bindR_Inr_conv split: option.splits)
  have wf1: "map_wf m1" using u(3) Cons.prems(2) by simp
  have "\<exists>t1. map_find m1 name = Some t1 \<and> mt_shape t1 = mt_shape t \<and> mt_datatype t1 = mt_datatype t"
    using u Cons.prems(2,3) assms(4) [OF u(2)] by (cases "name = n") auto
  then obtain t1 where "map_find m1 name = Some t1" "mt_shape t1 = mt_shape t" "mt_datatype t1 = mt_datatype t" by blast
  with Cons.IH [OF rest wf1] show ?case by auto
qed auto

lemma input_config_keeps:
  "bindR (set_shape_tensor cfg t) (set_optional cfg) = Inr t' \<Longrightarrow> mt_shape t' = mt_shape t \<and> mt_datatype t' = mt_datatype t"
  by (auto simp: set_shape_tensor_def set_optional_def bindR_Inr_conv split: option.splits if_splits)

text \<open>
  C34: The inputs of a Triton model are taken over as the server describes them, in every load mode. When the
  names in the metadata are distinct, every input has the type given there and the dimensions
  given there, without the first one when the model supports batching (a \<open>max_batch_size\<close> other
  than 0); the user's shape takes their place exactly when one of the remaining dimensions is
  a wildcard and the user gave one. An input with the name of one of the inputs that a load
  mode adds (\<open>timestamp\<close>, \<open>delay\<close>, \<open>session_id\<close>) keeps the dimension 1 of that input in front.
\<close>

theorem triton_inputs_described:
  assumes "InitTriton model_config depth metadata config version bls shapes (ModelParser load_mode) = Inr q"
    and "member metadata ''inputs'' = Some (JArray xs)" and "distinct (map (\<lambda>x. string_member x ''name'') xs)"
    and "x \<in> set xs"
  shows "\<exists>name dt dims t. describes (supports_batching config) x name dt dims \<and>
    map_find (mp_inputs q) name = Some t \<and> mt_datatype t = dt \<and>
    mt_shape t = served_shape shapes name (reserved_shape load_mode name) dims"
  using assms(1)
proof (rule InitTriton_parts)
  fix name cm p1 b d p4 p5
  assume parts: "DetermineSchedulerType model_config config
       ((ModelParser load_mode)\<lparr>mp_model_name := name, mp_model_version := version, composing_models_map := cm\<rparr>) = Inr p1"
    "read_inputs metadata config shapes (p1\<lparr>max_batch_size := b, is_decoupled := d\<rparr>) = Inr p4"
    "read_outputs metadata config p4 = Inr p5" "read_caching config p5 = Inr q"
    "read_batch_size config p1 = Inr (p1\<lparr>max_batch_size := b\<rparr>)"
  let ?m0 = "mp_inputs (ModelParser load_mode)"
  have p1: "mp_inputs p1 = ?m0" using DetermineSchedulerType_frame [OF parts(1)] by simp
  obtain m1 m2 where m1': "for_members metadata ''inputs'' (triton_input b shapes) ?m0 = Inr m1"
    and m2: "for_members config ''input'' (tensor_config ''input'' (\<lambda>cfg t. bindR (set_shape_tensor cfg t) (set_optional cfg))) m1 = Inr m2"
    and p4: "p4 = p1\<lparr>max_batch_size := b, is_decoupled := d, mp_inputs := m2\<rparr>"
    using parts(2) p1 by (auto simp: read_inputs_def bindR_Inr_conv)
  have m1: "foldR (triton_input b shapes) ?m0 xs = Inr m1"
    using m1' assms(2) by (auto simp: for_members_def FindMember_def GetArray_def bindR_Inr_conv split: if_splits)
  have q: "mp_inputs q = m2"
    using p4 parts(3) read_caching_frame [OF parts(4)] by (auto simp: read_outputs_def bindR_Inr_conv)
  have wf0: "map_wf ?m0" by (simp add: ModelParser_def add_tensor_def)
  note r = triton_inputs_result [OF m1 wf0 assms(3), of "reserved_shape load_mode"]
  then obtain name dt dims t where t: "describes (0 < b) x name dt dims" "map_find m1 name = Some t"
    "mt_datatype t = dt" "mt_shape t = served_shape shapes name (reserved_shape load_mode name) dims"
    and wf: "map_wf m1"
    using assms(4) by (auto simp: reserved_shape_ModelParser input_served_def)
  have "\<exists>t'. map_find m' name = Some t' \<and> mt_shape t' = mt_shape t \<and> mt_datatype t' = mt_datatype t"
    if "foldR (tensor_config ''input'' (\<lambda>cfg t. bindR (set_shape_tensor cfg t) (set_optional cfg))) m1 ys = Inr m'" for ys m'
    using that wf t(2) by (rule config_keeps_shape) (rule input_config_keeps)
  then have "\<exists>t'. map_find m2 name = Some t' \<and> mt_shape t' = mt_shape t \<and> mt_datatype t' = mt_datatype t"
    using m2 t(2) by (auto simp: for_members_def bindR_Inr_conv split: option.splits)
  with t q read_batch_size_batching [OF parts(5)] show ?thesis by (auto simp del: not_gr_zero)
qed

theorem triton_inputs_described_witness:
  "\<exists>q t. sample_init = Inr q \<and> map_find (mp_inputs q) ''A'' = Some t \<and> mt_datatype t = ''INT32'' \<and> mt_shape t = [4, 7]"
proof -
  let ?ds = "[JInt (- 1), JString ''4'', JInt (- 1)]"
  let ?x = "JObject [(''name'', JString ''A''), (''datatype'', JString ''INT32''), (''shape'', JArray ?ds)]"
  obtain q where q: "sample_init = Inr q" using sample_init_works by blast
  have x: "member sample_metadata ''inputs'' = Some (JArray [?x])" by (simp add: sample_metadata_def member_def)
  obtain name dt dims t where d: "describes (supports_batching sample_config) ?x name dt dims"
    and t: "map_find (mp_inputs q) name = Some t" "mt_datatype t = dt"
    "mt_shape t = served_shape [(''A'', [4, 7])] name (reserved_shape NoLoadMode name) dims"
    using triton_inputs_described [OF q [unfolded sample_init_def] x, of ?x] by auto
  have eight: "GetInt (JInt 8) = Inr 8" by code_simp
  have "supports_batching sample_config"
    by (simp add: supports_batching_def sample_config_def member_def) (simp add: eight)
  moreover have "GetInt (JString ''4'') = Inr 4" "GetInt (JInt (- 1)) = Inr (- 1)" by code_simp+
  ultimately have "name = ''A''" "dt = ''INT32''" "dims = [4, - 1]"
    using d by (auto simp: describes_def member_def list_all2_Cons1)
  with q t show ?thesis by (auto simp: served_shape_def map_find_def)
qed

end
