(* ===== verification/Session_Concurrency.thy ===== *)
theory Session_Concurrency
  imports Model_Parser Infer_Context
begin

text \<open>
  The session mode, under \<open>session_concurrency\<close>: \<open>payload_dataset_manager.cc\<close> groups the payloads of the input
  data by their session, \<open>payload_json_utils.cc\<close> and \<open>response_json_utils.cc\<close> keep the history of a
  conversation, \<open>request_handler.cc\<close> sends one request and waits for its response, and
  \<open>session_concurrency_manager.cc\<close> lets a number of threads work on the sessions. RapidJSON's parser and
  writer are parameters (\<open>parse\<close>, \<open>serialize\<close>), and so is the order in which an \<open>std::unordered_map\<close> is
  visited (\<open>order\<close>).
\<close>

section \<open>The data set\<close>

text \<open>\<open>if (!error.IsOk()) throw std::runtime_error(error.Message())\<close>.\<close>

fun or_throw :: "failure + 'a \<Rightarrow> exn + 'a" where
  "or_throw (Inr x) = Inr x"
| "or_throw (Inl (Fails e)) = Inl (RuntimeError (Message e))"
| "or_throw (Inl (Throws x)) = Inl x"

text \<open>\<open>(*parser_->Inputs())[name]\<close> inserts a tensor without a name when there is none.\<close>

definition dataset_tensor :: "string \<Rightarrow> nat \<Rightarrow> model_parser \<Rightarrow> data_loader \<Rightarrow> exn + tensor_data" where
  "dataset_tensor name i p d = or_throw (GetInputData (map_get new_tensor (mp_inputs p) name) 0 (cast_int i) d)"

text \<open>Reading the memory behind a pointer.\<close>

definition read_memory :: "bytes option \<Rightarrow> nat \<Rightarrow> nat \<Rightarrow> exn + bytes" where
  "read_memory ptr offset n =
     (case ptr of
        None \<Rightarrow> if n = 0 then Inr [] else Inl (UndefinedBehaviour ''null pointer'')
      | Some bs \<Rightarrow> if offset + n \<le> length bs then Inr (take n (drop offset bs))
                   else Inl (UndefinedBehaviour ''read past the end''))"

definition GetDelay :: "nat \<Rightarrow> model_parser \<Rightarrow> data_loader \<Rightarrow> exn + int option" where
  "GetDelay i p d =
     bindR (dataset_tensor ''delay'' i p d) (\<lambda>t.
       if data_ptr t = None then Inr None
       else bindR (read_memory (data_ptr t) 0 8) (\<lambda>bs. Inr (Some (sint (word_of_nat (le_nat bs) :: u64)))))"

definition GetPayload :: "nat \<Rightarrow> model_parser \<Rightarrow> data_loader \<Rightarrow> exn + string" where
  "GetPayload i p d =
     bindR (dataset_tensor ''payload'' i p d) (\<lambda>t.
     bindR (read_memory (data_ptr t) 0 (batch1_size t)) (\<lambda>bs. Inr (bytes_str bs)))"

definition GetSessionID :: "nat \<Rightarrow> model_parser \<Rightarrow> data_loader \<Rightarrow> exn + string" where
  "GetSessionID i p d =
     bindR (dataset_tensor ''session_id'' i p d) (\<lambda>t.
     bindR (read_memory (data_ptr t) 0 4) (\<lambda>len.
     bindR (read_memory (data_ptr t) 4 (le_nat len)) (\<lambda>bs. Inr (bytes_str bs))))"

definition CreateSessionIdToPayloadsMap :: "model_parser \<Rightarrow> data_loader \<Rightarrow> exn + (string, nat list) std_map" where
  "CreateSessionIdToPayloadsMap p d =
     bindR (GetTotalSteps 0 d) (\<lambda>dataset_size.
       foldR (\<lambda>m i.
         bindR (GetSessionID i p d) (\<lambda>session_id.
           Inr (map_assign session_id (map_get [] m session_id @ [i]) m))) [] [0..<dataset_size])"

definition GroupPayloadsBySession :: "((string \<times> nat list) list \<Rightarrow> (string \<times> nat list) list) \<Rightarrow> model_parser \<Rightarrow>
    data_loader \<Rightarrow> exn + nat list list" where
  "GroupPayloadsBySession order p d =
     (if GetDataStreamsCount d \<noteq> 1 then
        Inl (RuntimeError (''Expected input data JSON to have one stream. Session concurrency mode must have an '' @
          ''input data JSON with a single flat array for the '' @ [CHR 0x22] @ ''data'' @ [CHR 0x22] @
          '' field with one element per request payload.''))
      else bindR (CreateSessionIdToPayloadsMap p d) (\<lambda>m. Inr (map snd (order m))))"

section \<open>Conversations\<close>

record json_io =
  parse :: "string \<Rightarrow> nat + json"
  serialize :: "json \<Rightarrow> string"

text \<open>A text in an error message stands between empty lines.\<close>

definition quoted :: "string \<Rightarrow> string" where
  "quoted s = replicate 2 (CHR 0x0A) @ s @ replicate 3 (CHR 0x0A)"

definition parse_or_throw :: "json_io \<Rightarrow> string \<Rightarrow> exn + json" where
  "parse_or_throw io text =
     (case parse io text of
        Inl code \<Rightarrow> Inl (RuntimeError (''RapidJSON parse error '' @ to_string (int code) @
          ''. Review JSON for formatting errors:'' @ quoted text))
      | Inr v \<Rightarrow> Inr v)"

definition GetPayloadMessages :: "json_io \<Rightarrow> json \<Rightarrow> exn + json list" where
  "GetPayloadMessages io doc =
     (case member doc ''messages'' of
        Some (JArray ms) \<Rightarrow> Inr ms
      | _ \<Rightarrow> Inl (RuntimeError (''Request body must be an object and it must have a '' @ [CHR 0x27] @ ''messages'' @ [CHR 0x27] @
          '' field that is an array. Request body:'' @ quoted (serialize io doc))))"

text \<open>\<open>document[k] = v\<close> for a member that is there: the first of that name.\<close>

fun set_member :: "string \<Rightarrow> json \<Rightarrow> (string \<times> json) list \<Rightarrow> (string \<times> json) list" where
  "set_member k v [] = []"
| "set_member k v ((l, w) # kvs) = (if l = k then (l, v) # kvs else (l, w) # set_member k v kvs)"

definition SetPayloadToChatHistory :: "json list \<Rightarrow> json \<Rightarrow> json" where
  "SetPayloadToChatHistory history doc =
     (case doc of JObject kvs \<Rightarrow> JObject (set_member ''messages'' (JArray history) kvs) | _ \<Rightarrow> doc)"

definition UpdateHistoryAndAddToPayload :: "json_io \<Rightarrow> string \<Rightarrow> json list \<Rightarrow> exn + string \<times> json list" where
  "UpdateHistoryAndAddToPayload io payload history =
     bindR (parse_or_throw io payload) (\<lambda>doc.
     bindR (GetPayloadMessages io doc) (\<lambda>ms.
       let history' = history @ ms
       in Inr (serialize io (SetPayloadToChatHistory history' doc), history')))"

definition GetMessage :: "json_io \<Rightarrow> json \<Rightarrow> exn + json" where
  "GetMessage io doc =
     (case member doc ''choices'' of
        Some (JArray (choice # _)) \<Rightarrow>
          (case member choice ''message'' of
             Some (JObject kvs) \<Rightarrow> Inr (JObject kvs)
           | _ \<Rightarrow> Inl (RuntimeError (''Response body '' @ [CHR 0x27] @ ''choices'' @ [CHR 0x27] @
               '' field'' @ [CHR 0x27] @ ''s first element must be an object and have a '' @ [CHR 0x27] @ ''message'' @ [CHR 0x27] @
               '' field that is an object. Response body:'' @ quoted (serialize io doc))))
      | _ \<Rightarrow> Inl (RuntimeError (''Response body must be an object and have a '' @ [CHR 0x27] @ ''choices'' @ [CHR 0x27] @
          '' field that is an array with at least one element. Response body:'' @ quoted (serialize io doc))))"

section \<open>One request\<close>

text \<open>What the backend answers to a request: the status of sending it, and the result in the callback.\<close>

record session_answer =
  sa_status :: cb_error
  sa_result :: "infer_result option"
  sa_start :: int
  sa_end :: int

definition RecordRequestInputs :: "string \<Rightarrow> nat \<Rightarrow> model_parser \<Rightarrow> data_loader \<Rightarrow> exn + (string, record_data) std_map" where
  "RecordRequestInputs payload i p d =
     (let m1 = map_emplace ''payload'' (RecordData (str_bytes payload) ''JSON'') []
      in bindR (GetSessionID i p d) (\<lambda>session_id.
         let m2 = map_emplace ''session_id'' (RecordData (str_bytes session_id) ''BYTES'') m1
         in bindR (GetDelay i p d) (\<lambda>delay.
            Inr (case delay of
                   None \<Rightarrow> m2
                 | Some ms \<Rightarrow> map_emplace ''delay''
                     (RecordData (le_bytes 8 (unat (word_of_int ms :: u64))) ''UINT64'') m2))))"

definition PrepareInputs :: "'i input_ops \<Rightarrow> string \<Rightarrow> exn + 'i" where
  "PrepareInputs ops payload =
     or_throw (liftC (bindR (in_create ops ''payload'' [1] ''BYTES'') (\<lambda>i.
       in_append ops i (Some (str_bytes payload)) (length payload))))"

definition RecordResponse :: "int \<Rightarrow> infer_result \<Rightarrow> request_record \<Rightarrow> request_record" where
  "RecordResponse now r rec =
     rec\<lparr>response_timestamps := response_timestamps rec @ [now],
         response_outputs := response_outputs rec @
           [map_emplace ''response'' (RecordData (case r_raw r ''response'' of Some bs \<Rightarrow> bs | None \<Rightarrow> []) ''JSON'') []]\<rparr>"

text \<open>The text of the backend's error is not part of \<open>infer_result\<close>.\<close>

definition GetResponseBuffer :: "infer_result \<Rightarrow> exn + bytes" where
  "GetResponseBuffer r =
     (case r_raw r ''response'' of Some bs \<Rightarrow> Inr bs | None \<Rightarrow> Inl (RuntimeError []))"

text \<open>The callback that \<open>PrepareCallback\<close> makes.\<close>

definition session_callback :: "json_io \<Rightarrow> int \<Rightarrow> infer_result option \<Rightarrow> json list \<times> request_record \<Rightarrow>
    exn + json list \<times> request_record" where
  "session_callback io now result = (\<lambda>(history, rec).
     case result of
       None \<Rightarrow> Inl (RuntimeError ''infer_result was null'')
     | Some r \<Rightarrow>
         if \<not> IsOk (r_status r) then Inl (RuntimeError (Message (r_status r)))
         else
           let rec' = RecordResponse now r rec
           in bindR (GetResponseBuffer r) (\<lambda>buf.
              bindR (parse_or_throw io (bytes_str buf)) (\<lambda>doc.
              bindR (GetMessage io doc) (\<lambda>msg. Inr (history @ [msg], rec')))))"

definition session_SendRequest :: "'i input_ops \<Rightarrow> json_io \<Rightarrow> session_answer \<Rightarrow> string \<Rightarrow> json list \<times> request_record \<Rightarrow>
    exn + json list \<times> request_record" where
  "session_SendRequest ops io a payload = (\<lambda>(history, rec).
     bindR (or_throw (liftC (out_create ops ''response'' ''JSON''))) (\<lambda>_.
     bindR (PrepareInputs ops payload) (\<lambda>_.
       if \<not> IsOk (sa_status a) then Inl (RuntimeError (Message (sa_status a)))
       else session_callback io (sa_end a) (sa_result a) (history, rec\<lparr>start_time := sa_start a\<rparr>))))"

text \<open>The result has the payload that was sent as well.\<close>

definition SendRequestAndWaitForResponse :: "'i input_ops \<Rightarrow> json_io \<Rightarrow> model_parser \<Rightarrow> data_loader \<Rightarrow> session_answer \<Rightarrow> nat \<Rightarrow>
    json list \<Rightarrow> exn + string \<times> json list \<times> request_record" where
  "SendRequestAndWaitForResponse ops io p d a i history =
     bindR (GetPayload i p d) (\<lambda>payload0.
     bindR (UpdateHistoryAndAddToPayload io payload0 history) (\<lambda>(payload, history1).
     bindR (RecordRequestInputs payload i p d) (\<lambda>inputs.
     bindR (session_SendRequest ops io a payload (history1, new_request_record\<lparr>request_inputs := [inputs]\<rparr>)) (\<lambda>(history2, rec).
       Inr (payload, history2, rec)))))"

section \<open>Sessions\<close>

definition GetAndWaitForDelay :: "nat \<Rightarrow> model_parser \<Rightarrow> data_loader \<Rightarrow> exn + int" where
  "GetAndWaitForDelay i p d =
     bindR (GetDelay i p d) (\<lambda>delay.
       case delay of
         None \<Rightarrow> Inl (RuntimeError (''Missing '' @ [CHR 0x27] @ ''delay'' @ [CHR 0x27] @ '' input for payload with index '' @ to_string (int i)))
       | Some ms \<Rightarrow> Inr ms)"

text \<open>The loop over the payloads of a session; \<open>answers\<close> are the answers of the backend, one per request.\<close>

fun session_loop :: "'i input_ops \<Rightarrow> json_io \<Rightarrow> model_parser \<Rightarrow> data_loader \<Rightarrow> (nat \<Rightarrow> session_answer) \<Rightarrow> nat list \<Rightarrow>
    json list \<Rightarrow> exn + (string \<times> request_record) list" where
  "session_loop ops io p d answers [] history = Inr []"
| "session_loop ops io p d answers (i # is) history =
     bindR (SendRequestAndWaitForResponse ops io p d (answers i) i history) (\<lambda>(payload, history', rec).
       if is = [] then Inr [(payload, rec)]
       else
         bindR (GetAndWaitForDelay i p d) (\<lambda>_.
         bindR (session_loop ops io p d answers is history') (\<lambda>rest. Inr ((payload, rec) # rest))))"

definition SendSequentialRequestsForOneSession :: "'i input_ops \<Rightarrow> json_io \<Rightarrow> model_parser \<Rightarrow> data_loader \<Rightarrow>
    (nat \<Rightarrow> session_answer) \<Rightarrow> nat list \<Rightarrow> request_record list \<Rightarrow> exn + request_record list" where
  "SendSequentialRequestsForOneSession ops io p d answers one_session_payloads recs =
     bindR (session_loop ops io p d answers one_session_payloads []) (\<lambda>rs. Inr (recs @ map snd rs))"

section \<open>The manager\<close>

datatype session_thread = Fetching | Working nat "nat list" "json list" | Finished

record session_manager =
  next_session_index :: nat
  session_threads :: "session_thread list"
  all_threads_request_records :: "request_record list list"

definition MakeThreads :: "nat \<Rightarrow> nat list list \<Rightarrow> session_manager \<Rightarrow> exn + session_manager" where
  "MakeThreads session_concurrency all_session_payloads m =
     (if session_threads m \<noteq> [] then Inl (RuntimeError ''Expected threads_ to be empty.'')
      else if all_threads_request_records m \<noteq> [] then
        Inl (RuntimeError ''Expected all_threads_request_records_ to be empty.'')
      else if length all_session_payloads < session_concurrency then
        Inl (RuntimeError (''The input data file contains '' @ to_string (int (length all_session_payloads)) @
          '' unique session IDs, which is fewer than the required session concurrency level of '' @
          to_string (int session_concurrency) @ ''. Please add more unique session IDs to the file or lower the '' @
          ''session concurrency level.''))
      else Inr (m\<lparr>all_threads_request_records := replicate session_concurrency [],
                  session_threads := replicate session_concurrency Fetching\<rparr>))"

text \<open>Where a thread stands once it has the payloads \<open>is\<close> of session \<open>s\<close> left.\<close>

definition resume_session :: "nat \<Rightarrow> nat list \<Rightarrow> json list \<Rightarrow> session_thread" where
  "resume_session s is history = (if is = [] then Fetching else Working s is history)"

text \<open>
  The steps of the threads in \<open>ProcessSessionsUntilComplete\<close>: taking the next index from the atomic counter,
  and one request with the delay after it. The list beside the state is the requests sent so
  far, each with its thread, its session and its place in the data set.
\<close>

inductive session_step :: "'i input_ops \<Rightarrow> json_io \<Rightarrow> model_parser \<Rightarrow> data_loader \<Rightarrow> nat list list \<Rightarrow>
    session_manager \<times> (nat \<times> nat \<times> nat) list \<Rightarrow> session_manager \<times> (nat \<times> nat \<times> nat) list \<Rightarrow> bool"
  for ops io p d payloads where
  fetch: "j < length (session_threads m) \<Longrightarrow> session_threads m ! j = Fetching \<Longrightarrow>
    next_session_index m < length payloads \<Longrightarrow>
    session_step ops io p d payloads (m, sent)
      (m\<lparr>session_threads := (session_threads m)
           [j := resume_session (next_session_index m) (payloads ! next_session_index m) []],
         next_session_index := Suc (next_session_index m)\<rparr>, sent)"
| finish: "j < length (session_threads m) \<Longrightarrow> session_threads m ! j = Fetching \<Longrightarrow>
    \<not> next_session_index m < length payloads \<Longrightarrow>
    session_step ops io p d payloads (m, sent)
      (m\<lparr>session_threads := (session_threads m)[j := Finished],
         next_session_index := Suc (next_session_index m)\<rparr>, sent)"
| request: "j < length (session_threads m) \<Longrightarrow> session_threads m ! j = Working s (i # is) history \<Longrightarrow>
    SendRequestAndWaitForResponse ops io p d a i history = Inr (payload, history', rec) \<Longrightarrow>
    is = [] \<or> GetAndWaitForDelay i p d = Inr ms \<Longrightarrow>
    session_step ops io p d payloads (m, sent)
      (m\<lparr>session_threads := (session_threads m)[j := resume_session s is history'],
         all_threads_request_records := (all_threads_request_records m)
           [j := all_threads_request_records m ! j @ [rec]]\<rparr>, sent @ [(j, s, i)])"

definition session_GetRequestRecords :: "session_manager \<Rightarrow> request_record list" where
  "session_GetRequestRecords m = concat (all_threads_request_records m)"

section \<open>Grouping\<close>

lemma groups_of_map:
  assumes "foldR (\<lambda>m i. bindR (f i) (\<lambda>sid. Inr (map_assign sid (map_get [] m sid @ [i]) m))) [] [0..<n] = Inr m"
  shows "map_wf m \<and> (\<forall>sid. map_get [] m sid = filter (\<lambda>i. f i = Inr sid) [0..<n]) \<and>
    (\<forall>sid. map_find m sid \<noteq> None \<longrightarrow> map_get [] m sid \<noteq> []) \<and> (\<forall>i < n. \<exists>sid. f i = Inr sid)"
  using assms
proof (induction n arbitrary: m)
  case (Suc n)
  obtain m1 sid where m1: "foldR (\<lambda>m i. bindR (f i) (\<lambda>sid. Inr (map_assign sid (map_get [] m sid @ [i]) m))) [] [0..<n] = Inr m1"
    and sid: "f n = Inr sid" and m: "m = map_assign sid (map_get [] m1 sid @ [n]) m1"
    using Suc.prems by (auto simp: foldR_append bindR_Inr_conv)
  from Suc.IH [OF m1] sid show ?case unfolding m
    by (auto simp: map_get_def less_Suc_eq split: option.splits if_splits)
qed (auto simp: map_get_def)

lemma concat_filters:
  assumes "distinct (map fst xs)" and "\<forall>(sid, cs) \<in> set xs. cs = filter (\<lambda>i. f i = Inr sid) [0..<n]"
  shows "distinct (concat (map snd xs)) \<and>
    set (concat (map snd xs)) = {i. i < n \<and> (\<exists>sid \<in> fst ` set xs. f i = Inr sid)}"
  using assms
proof (induction xs)
  case (Cons x xs)
  obtain sid cs where x: "x = (sid, cs)" by fastforce
  have cs: "cs = filter (\<lambda>i. f i = Inr sid) [0..<n]" using Cons.prems(2) x by auto
  have IH: "distinct (concat (map snd xs))" "set (concat (map snd xs)) = {i. i < n \<and> (\<exists>sid \<in> fst ` set xs. f i = Inr sid)}"
    using Cons by auto
  have "sid \<notin> fst ` set xs" using Cons.prems(1) x by auto
  then have "set cs \<inter> set (concat (map snd xs)) = {}" unfolding IH(2) cs by force
  moreover have "set cs \<union> set (concat (map snd xs)) = {i. i < n \<and> (\<exists>s \<in> fst ` set (x # xs). f i = Inr s)}"
    unfolding IH(2) cs x by auto
  ultimately show ?case using IH(1) cs x by simp
qed simp

text \<open>
  The sessions are a partition of the data set. Whatever order the map of sessions is visited in, every payload
  is in exactly one group; a group is not empty, has all the payloads of one session id in
  the order of the data set, and two groups have different ids.
\<close>

theorem sessions_partition_dataset:
  assumes "GroupPayloadsBySession order p d = Inr groups" and "\<forall>m. mset (order m) = mset m" and "GetTotalSteps 0 d = Inr n"
  shows "mset (concat groups) = mset [0..<n] \<and>
    (\<exists>sids. distinct sids \<and> length sids = length groups \<and>
       (\<forall>k < length groups. groups ! k \<noteq> [] \<and> groups ! k = filter (\<lambda>i. GetSessionID i p d = Inr (sids ! k)) [0..<n]))"
proof -
  obtain m where m: "foldR (\<lambda>m i. bindR (GetSessionID i p d) (\<lambda>sid. Inr (map_assign sid (map_get [] m sid @ [i]) m))) [] [0..<n] = Inr m"
    and g: "groups = map snd (order m)"
    using assms(1,3) by (auto simp: GroupPayloadsBySession_def CreateSessionIdToPayloadsMap_def bindR_Inr_conv split: if_splits)
  note r = groups_of_map [OF m]
  have wf: "map_wf m" using r by simp
  have set_order: "set (order m) = set m" using assms(2) by (metis set_mset_mset)
  have dist: "distinct (map fst (order m))"
    using wf assms(2) by (metis mset_map mset_eq_imp_distinct_iff map_wf_def strict_sorted_iff)
  have val: "cs \<noteq> [] \<and> cs = filter (\<lambda>i. GetSessionID i p d = Inr sid) [0..<n]" if "(sid, cs) \<in> set m" for sid cs
    using r map_find_wf [OF wf that] by (auto simp: map_get_def split: option.splits)
  have parts: "distinct (concat groups)"
      "set (concat groups) = {i. i < n \<and> (\<exists>sid \<in> fst ` set (order m). GetSessionID i p d = Inr sid)}"
    using concat_filters [OF dist, of "\<lambda>i. GetSessionID i p d" n] val set_order g by auto
  have "\<exists>sid \<in> fst ` set (order m). GetSessionID i p d = Inr sid" if i: "i < n" for i
  proof -
    obtain sid where sid: "GetSessionID i p d = Inr sid" using r i by blast
    then have "i \<in> set (map_get [] m sid)" using r i by simp
    then obtain cs where "map_find m sid = Some cs" by (cases "map_find m sid") (auto simp: map_get_def)
    then have "(sid, cs) \<in> set (order m)" using map_find_in set_order by fastforce
    with sid show ?thesis by force
  qed
  then have "set (concat groups) = set [0..<n]" using parts(2) by auto
  then have "mset (concat groups) = mset [0..<n]"
    using parts(1) by (simp add: set_eq_iff_mset_eq_distinct del: set_upt set_concat)
  moreover have "groups ! k \<noteq> [] \<and> groups ! k = filter (\<lambda>i. GetSessionID i p d = Inr (map fst (order m) ! k)) [0..<n]"
    if "k < length groups" for k
    using that val [of "fst (order m ! k)" "snd (order m ! k)"] nth_mem [of k "order m"] set_order g by auto
  moreover have "length (map fst (order m)) = length groups" using g by simp
  ultimately show ?thesis using dist by blast
qed

section \<open>The history of a conversation\<close>

text \<open>The messages of a payload in the data set, and the message in an answer.\<close>

definition payload_messages :: "json_io \<Rightarrow> model_parser \<Rightarrow> data_loader \<Rightarrow> nat \<Rightarrow> exn + json \<times> json list" where
  "payload_messages io p d i =
     bindR (GetPayload i p d) (\<lambda>text. bindR (parse_or_throw io text) (\<lambda>doc.
       bindR (GetPayloadMessages io doc) (\<lambda>ms. Inr (doc, ms))))"

definition reply_message :: "json_io \<Rightarrow> session_answer \<Rightarrow> exn + json" where
  "reply_message io a =
     (case sa_result a of None \<Rightarrow> Inl (RuntimeError ''infer_result was null'')
      | Some r \<Rightarrow> bindR (GetResponseBuffer r) (\<lambda>buf. bindR (parse_or_throw io (bytes_str buf)) (GetMessage io)))"

text \<open>What one request adds to the history, when it succeeds.\<close>

definition exchange :: "json_io \<Rightarrow> model_parser \<Rightarrow> data_loader \<Rightarrow> (nat \<Rightarrow> session_answer) \<Rightarrow> nat \<Rightarrow> json list" where
  "exchange io p d answers i =
     (case (payload_messages io p d i, reply_message io (answers i)) of
        (Inr (_, ms), Inr reply) \<Rightarrow> ms @ [reply]
      | _ \<Rightarrow> [])"

lemma session_request_result:
  assumes "SendRequestAndWaitForResponse ops io p d a i history = Inr (payload, history', rec)"
  shows "\<exists>doc ms reply. payload_messages io p d i = Inr (doc, ms) \<and> reply_message io a = Inr reply \<and>
    payload = serialize io (SetPayloadToChatHistory (history @ ms) doc) \<and> history' = history @ ms @ [reply] \<and>
    length (response_timestamps rec) = 1 \<and> start_time rec = sa_start a"
  using assms
  by (auto simp: SendRequestAndWaitForResponse_def UpdateHistoryAndAddToPayload_def session_SendRequest_def
      session_callback_def payload_messages_def reply_message_def RecordResponse_def new_request_record_def
      bindR_Inr_conv Let_def split: if_splits option.splits)

lemma session_loop_history:
  assumes "session_loop ops io p d answers is history = Inr rs"
  shows "length rs = length is \<and> (\<forall>k < length is. \<exists>doc ms. payload_messages io p d (is ! k) = Inr (doc, ms) \<and>
    fst (rs ! k) = serialize io (SetPayloadToChatHistory
      (history @ concat (map (exchange io p d answers) (take k is)) @ ms) doc))"
  using assms
proof (induction "is" arbitrary: history rs)
  case (Cons i "is")
  obtain payload history' rec where send: "SendRequestAndWaitForResponse ops io p d (answers i) i history = Inr (payload, history', rec)"
    and rest: "(if is = [] then Inr [(payload, rec)] else bindR (GetAndWaitForDelay i p d) (\<lambda>_.
      bindR (session_loop ops io p d answers is history') (\<lambda>rest. Inr ((payload, rec) # rest)))) = Inr rs"
    using Cons.prems by (auto simp: bindR_Inr_conv)
  from session_request_result [OF send] obtain doc ms reply
    where r: "payload_messages io p d i = Inr (doc, ms)" "reply_message io (answers i) = Inr reply"
      "payload = serialize io (SetPayloadToChatHistory (history @ ms) doc)" "history' = history @ ms @ [reply]" by blast
  then have ex: "exchange io p d answers i = ms @ [reply]" by (simp add: exchange_def)
  obtain rs' where rs': "session_loop ops io p d answers is history' = Inr rs'" "rs = (payload, rec) # rs'"
    using rest by (cases "is = []") (auto simp: bindR_Inr_conv)
  from Cons.IH [OF rs'(1)] r ex rs'(2) show ?case by (auto simp: nth_Cons less_Suc_eq_0_disj)
qed simp

lemma set_member_messages:
  assumes "map_of kvs k = Some w"
  shows "map fst (set_member k v kvs) = map fst kvs \<and> map_of (set_member k v kvs) k = Some v \<and>
    (\<forall>l. l \<noteq> k \<longrightarrow> map_of (set_member k v kvs) l = map_of kvs l)"
  using assms by (induction kvs) (auto split: if_splits)

lemma session_loop_exchanges:
  assumes "session_loop ops io p d answers is history = Inr rs"
  shows "\<forall>k < length is. \<exists>doc ms reply. payload_messages io p d (is ! k) = Inr (doc, ms) \<and>
    reply_message io (answers (is ! k)) = Inr reply"
  using assms
proof (induction "is" arbitrary: history rs)
  case (Cons i "is")
  obtain payload history' rec where send: "SendRequestAndWaitForResponse ops io p d (answers i) i history = Inr (payload, history', rec)"
    and rest: "is = [] \<or> (\<exists>rs'. session_loop ops io p d answers is history' = Inr rs')"
    using Cons.prems by (cases "is = []") (auto simp: bindR_Inr_conv)
  have "\<exists>doc ms reply. payload_messages io p d i = Inr (doc, ms) \<and> reply_message io (answers i) = Inr reply"
    using session_request_result [OF send] by blast
  with rest Cons.IH show ?case by (auto simp: nth_Cons less_Suc_eq_0_disj)
qed simp

lemma parse_or_throw_Inr: "parse_or_throw io raw = Inr v \<longleftrightarrow> parse io raw = Inr v"
  by (auto simp: parse_or_throw_def split: sum.split)

lemma GetPayloadMessages_Inr: "GetPayloadMessages io doc = Inr ms \<longleftrightarrow> member doc ''messages'' = Some (JArray ms)"
  by (auto simp: GetPayloadMessages_def split: option.split json.split)

lemma GetMessage_Inr: "GetMessage io doc = Inr m \<Longrightarrow>
    \<exists>c cs. member doc ''choices'' = Some (JArray (c # cs)) \<and> member c ''message'' = Some m"
  by (auto simp: GetMessage_def split: option.splits json.splits list.splits)

lemma payload_messages_json:
  assumes "payload_messages io p d i = Inr (doc, ms)"
  obtains raw kvs where "GetPayload i p d = Inr raw" and "parse io raw = Inr doc" and "doc = JObject kvs"
    and "map_of kvs ''messages'' = Some (JArray ms)"
  using assms that
  by (cases doc) (auto simp: payload_messages_def parse_or_throw_Inr GetPayloadMessages_Inr member_def bindR_Inr_conv)

lemma reply_message_json:
  assumes "reply_message io a = Inr reply"
  obtains r buf doc c cs where "sa_result a = Some r" and "r_raw r ''response'' = Some buf"
    and "parse io (bytes_str buf) = Inr doc" and "member doc ''choices'' = Some (JArray (c # cs))"
    and "member c ''message'' = Some reply"
proof -
  from assms obtain r where r: "sa_result a = Some r" by (auto simp: reply_message_def split: option.splits)
  with assms obtain buf where buf: "r_raw r ''response'' = Some buf"
    by (auto simp: reply_message_def GetResponseBuffer_def split: option.splits)
  with assms r obtain doc where "parse io (bytes_str buf) = Inr doc" "GetMessage io doc = Inr reply"
    by (auto simp: reply_message_def GetResponseBuffer_def bindR_Inr_conv parse_or_throw_Inr)
  with r buf GetMessage_Inr that show thesis by blast
qed

text \<open>
  C13: Every request of a session carries the whole conversation. When a session succeeds, one
  request was sent for each of its payloads, in order. \<open>msgs j\<close> are the messages of the j-th
  payload in the data set and \<open>reply j\<close> the message of the first choice in the response to it. The
  body of the k-th request is an object with the members of its payload, in which
  \<open>messages\<close> is the array of the messages and the reply of every earlier exchange, in order, and then
  of its own messages, and every other member is that of the data set.
\<close>

theorem requests_carry_conversation:
  assumes "session_loop ops io p d answers is [] = Inr rs"
  shows "length rs = length is \<and> (\<exists>msgs reply. \<forall>k < length is.
    (\<exists>raw kvs body.
       GetPayload (is ! k) p d = Inr raw \<and> parse io raw = Inr (JObject kvs) \<and>
       map_of kvs ''messages'' = Some (JArray (msgs k)) \<and>
       fst (rs ! k) = serialize io (JObject body) \<and> map fst body = map fst kvs \<and>
       map_of body ''messages'' = Some (JArray (concat (map (\<lambda>j. msgs j @ [reply j]) [0..<k]) @ msgs k)) \<and>
       (\<forall>key. key \<noteq> ''messages'' \<longrightarrow> map_of body key = map_of kvs key)) \<and>
    (\<exists>r buf doc c cs. sa_result (answers (is ! k)) = Some r \<and> r_raw r ''response'' = Some buf \<and>
       parse io (bytes_str buf) = Inr doc \<and> member doc ''choices'' = Some (JArray (c # cs)) \<and>
       member c ''message'' = Some (reply k)))"
proof -
  from session_loop_exchanges [OF assms] obtain docs msgs reply where
    ex: "\<forall>k < length is. payload_messages io p d (is ! k) = Inr (docs k, msgs k) \<and>
      reply_message io (answers (is ! k)) = Inr (reply k)" by metis
  have conv: "concat (map (exchange io p d answers) (take k is)) = concat (map (\<lambda>j. msgs j @ [reply j]) [0..<k])"
    if "k < length is" for k
  proof -
    have "map (exchange io p d answers) (take k is) = map (\<lambda>j. msgs j @ [reply j]) [0..<k]"
      using that ex by (intro nth_equalityI) (auto simp: exchange_def)
    then show ?thesis by simp
  qed
  have sent: "fst (rs ! k) = serialize io (SetPayloadToChatHistory
      (concat (map (\<lambda>j. msgs j @ [reply j]) [0..<k]) @ msgs k) (docs k))" if k: "k < length is" for k
    using session_loop_history [OF assms] ex k conv [OF k] by force
  show ?thesis
  proof (intro conjI exI [of _ msgs] exI [of _ reply] allI impI)
    show "length rs = length is" using session_loop_history [OF assms] by simp
  next
    fix k assume k: "k < length is"
    then obtain raw kvs where t: "GetPayload (is ! k) p d = Inr raw" "parse io raw = Inr (docs k)" "docs k = JObject kvs"
      "map_of kvs ''messages'' = Some (JArray (msgs k))" using ex payload_messages_json by metis
    then show "\<exists>raw kvs body.
       GetPayload (is ! k) p d = Inr raw \<and> parse io raw = Inr (JObject kvs) \<and>
       map_of kvs ''messages'' = Some (JArray (msgs k)) \<and>
       fst (rs ! k) = serialize io (JObject body) \<and> map fst body = map fst kvs \<and>
       map_of body ''messages'' = Some (JArray (concat (map (\<lambda>j. msgs j @ [reply j]) [0..<k]) @ msgs k)) \<and>
       (\<forall>key. key \<noteq> ''messages'' \<longrightarrow> map_of body key = map_of kvs key)"
      using sent [OF k] set_member_messages [OF t(4)] by (auto simp: SetPayloadToChatHistory_def)
    show "\<exists>r buf doc c cs. sa_result (answers (is ! k)) = Some r \<and> r_raw r ''response'' = Some buf \<and>
       parse io (bytes_str buf) = Inr doc \<and> member doc ''choices'' = Some (JArray (c # cs)) \<and>
       member c ''message'' = Some (reply k)"
      using ex k reply_message_json by metis
  qed
qed

text \<open>One user message, the same answer to everything.\<close>

definition sample_io :: json_io where
  "sample_io = \<lparr>parse = (\<lambda>_. Inr (JObject [(''messages'', JArray [JString ''hi'']),
     (''choices'', JArray [JObject [(''message'', JObject [])]])])), serialize = (\<lambda>_. ''x'')\<rparr>"

definition sample_parser :: model_parser where
  "sample_parser = InitOpenAI ''m'' ''1'' 1 (ModelParser SessionConcurrencyMode)"

definition sample_dataset :: data_loader where
  "sample_dataset = (DataLoader 1)\<lparr>data_stream_cnt := 1, step_num := [2],
     input_data := map_assign ''payload_0_0'' [1] (map_assign ''payload_0_1'' [2]
       (map_assign ''session_id_0_0'' (le_bytes 4 1 @ [65]) (map_assign ''session_id_0_1'' (le_bytes 4 1 @ [65])
       (map_assign ''delay_0_0'' (le_bytes 8 5) []))))\<rparr>"

definition sample_reply_to :: session_answer where
  "sample_reply_to = \<lparr>sa_status = Success, sa_result = Some \<lparr>r_status = Success, r_id = (Success, []), r_raw = (\<lambda>_. Some [1]),
     r_null = (Success, False), r_final = (Success, True)\<rparr>, sa_start = 1, sa_end = 2\<rparr>"

abbreviation "sample_session_ops \<equiv> openai_ops (\<lambda>_ _. Inr ())"

text \<open>A conversation of two payloads, with a writer of JSON text.\<close>

fun json_text :: "json \<Rightarrow> string" where
  "json_text JNull = ''null''"
| "json_text (JBool b) = (if b then ''true'' else ''false'')"
| "json_text (JInt i) = to_string i"
| "json_text (JDouble w) = to_string (uint w)"
| "json_text (JString s) = [CHR 0x22] @ s @ [CHR 0x22]"
| "json_text (JArray vs) = ''['' @ concat (map (\<lambda>v. json_text v @ '','') vs) @ '']''"
| "json_text (JObject kvs) = ''{'' @ concat (map (\<lambda>(k, v). k @ '':'' @ json_text v @ '','') kvs) @ ''}''"

definition chat_io :: json_io where
  "chat_io = \<lparr>parse = (\<lambda>raw.
     if raw = [CHR 0x01] then Inr (JObject [(''model'', JString ''m''), (''messages'', JArray [JString ''hi''])])
     else if raw = [CHR 0x02] then Inr (JObject [(''model'', JString ''m''), (''messages'', JArray [JString ''bye''])])
     else Inr (JObject [(''choices'', JArray [JObject [(''message'', JObject [(''content'', JString ''hello'')])]])])),
     serialize = json_text\<rparr>"

definition chat_reply :: session_answer where
  "chat_reply = \<lparr>sa_status = Success, sa_result = Some \<lparr>r_status = Success, r_id = (Success, []), r_raw = (\<lambda>_. Some [3]),
     r_null = (Success, False), r_final = (Success, True)\<rparr>, sa_start = 1, sa_end = 2\<rparr>"

lemma chat_payloads:
  "GetPayload 0 sample_parser sample_dataset = Inr [CHR 0x01]" "GetPayload 1 sample_parser sample_dataset = Inr [CHR 0x02]"
  by code_simp+

lemma chat_text: "parse chat_io (bytes_str [3]) =
    Inr (JObject [(''choices'', JArray [JObject [(''message'', JObject [(''content'', JString ''hello'')])]])])"
  by code_simp

theorem requests_carry_conversation_witness:
  "\<exists>rs. session_loop sample_session_ops chat_io sample_parser sample_dataset (\<lambda>_. chat_reply) [0, 1] [] = Inr rs \<and>
     length rs = 2 \<and> fst (rs ! 1) = json_text (JObject [(''model'', JString ''m''),
       (''messages'', JArray [JString ''hi'', JObject [(''content'', JString ''hello'')], JString ''bye''])])"
proof -
  let ?loop = "session_loop sample_session_ops chat_io sample_parser sample_dataset (\<lambda>_. chat_reply) [0, 1] []"
  have "(case ?loop of Inr _ \<Rightarrow> True | Inl _ \<Rightarrow> False)" by code_simp
  then obtain rs where rs: "?loop = Inr rs" by (auto split: sum.splits)
  from requests_carry_conversation [OF rs] obtain msgs reply where len: "length rs = length [0 :: nat, 1]" and
    ex: "\<forall>k < length [0 :: nat, 1]. (\<exists>raw kvs body.
       GetPayload ([0, 1] ! k) sample_parser sample_dataset = Inr raw \<and> parse chat_io raw = Inr (JObject kvs) \<and>
       map_of kvs ''messages'' = Some (JArray (msgs k)) \<and>
       fst (rs ! k) = serialize chat_io (JObject body) \<and> map fst body = map fst kvs \<and>
       map_of body ''messages'' = Some (JArray (concat (map (\<lambda>j. msgs j @ [reply j]) [0..<k]) @ msgs k)) \<and>
       (\<forall>key. key \<noteq> ''messages'' \<longrightarrow> map_of body key = map_of kvs key)) \<and>
    (\<exists>r buf doc c cs. sa_result chat_reply = Some r \<and> r_raw r ''response'' = Some buf \<and>
       parse chat_io (bytes_str buf) = Inr doc \<and> member doc ''choices'' = Some (JArray (c # cs)) \<and>
       member c ''message'' = Some (reply k))" by blast
  have m0: "msgs 0 = [JString ''hi'']" using ex [rule_format, of 0] by (auto simp: chat_payloads chat_io_def)
  have r0: "reply 0 = JObject [(''content'', JString ''hello'')]"
  proof -
    have "\<exists>r buf doc c cs. sa_result chat_reply = Some r \<and> r_raw r ''response'' = Some buf \<and>
       parse chat_io (bytes_str buf) = Inr doc \<and> member doc ''choices'' = Some (JArray (c # cs)) \<and>
       member c ''message'' = Some (reply 0)" using ex [rule_format, of 0] by simp
    moreover have "sa_result chat_reply = Some r \<Longrightarrow> r_raw r k = Some buf \<Longrightarrow> buf = [3]" for r k buf
      by (auto simp: chat_reply_def)
    ultimately obtain c cs where "member c ''message'' = Some (reply 0)"
      "\<exists>doc. parse chat_io (bytes_str [3]) = Inr doc \<and> member doc ''choices'' = Some (JArray (c # cs))" by blast
    then show ?thesis by (auto simp: chat_text member_def)
  qed
  have m1: "msgs 1 = [JString ''bye'']" using ex [rule_format, of 1] chat_payloads(2) by (auto simp: chat_io_def)
  have one: "1 < length [0 :: nat, 1]" by simp
  from ex [rule_format, OF one] obtain raw kvs body where raw: "GetPayload ([0, 1] ! 1) sample_parser sample_dataset = Inr raw"
      "parse chat_io raw = Inr (JObject kvs)"
    and bd: "fst (rs ! 1) = serialize chat_io (JObject body)" "map fst body = map fst kvs"
      "map_of body ''messages'' = Some (JArray (concat (map (\<lambda>j. msgs j @ [reply j]) [0..<1]) @ msgs 1))"
      "\<forall>key. key \<noteq> ''messages'' \<longrightarrow> map_of body key = map_of kvs key" by blast
  have body: "fst (rs ! 1) = json_text (JObject body)" using bd(1) by (simp add: chat_io_def)
  have vals: "map_of body ''messages'' = Some (JArray (msgs 0 @ [reply 0] @ msgs 1))" "map_of body ''model'' = map_of kvs ''model''"
    using bd(3,4) by simp_all
  have "kvs = [(''model'', JString ''m''), (''messages'', JArray [JString ''bye''])]"
    using raw chat_payloads(2) by (simp add: chat_io_def)
  then have "body = [(''model'', JString ''m''), (''messages'', JArray (msgs 0 @ [reply 0] @ msgs 1))]"
    using bd(2) vals by (auto simp: map_eq_Cons_conv)
  then have "body = [(''model'', JString ''m''),
      (''messages'', JArray [JString ''hi'', JObject [(''content'', JString ''hello'')], JString ''bye''])]"
    by (simp only: m0 r0 m1 append.simps)
  then show ?thesis using body rs len by (intro exI [of _ rs]) (simp del: json_text.simps session_loop.simps)
qed

section \<open>The threads\<close>

text \<open>The places in the data set of the requests sent for a session, in order.\<close>

definition of_session :: "nat \<Rightarrow> (nat \<times> nat \<times> nat) list \<Rightarrow> nat list" where
  "of_session s sent = map (snd \<circ> snd) (filter (\<lambda>(_, s', _). s' = s) sent)"

lemma of_session_simps [simp]:
  "of_session s [] = []"
  "of_session s (sent @ [(j, s', i)]) = of_session s sent @ (if s' = s then [i] else [])"
  by (simp_all add: of_session_def)

lemma sessions_cover:
  "(\<forall>(_, s, _) \<in> set sent. s < n) \<Longrightarrow> mset (concat (map (\<lambda>s. of_session s sent) [0..<n])) = mset (map (snd \<circ> snd) sent)"
proof (induction sent rule: rev_induct)
  case Nil
  then show ?case by (induction n) (simp_all add: of_session_def)
next
  case (snoc x sent)
  obtain j s i where x: "x = (j, s, i)" by (cases x)
  then have s: "s < n" and prev: "\<forall>(_, s, _) \<in> set sent. s < n" using snoc.prems by auto
  have "mset (concat (map (\<lambda>s'. of_session s' (sent @ [x])) [0..<m])) =
      mset (concat (map (\<lambda>s'. of_session s' sent) [0..<m])) + (if s < m then {#i#} else {#})" for m
    by (induction m) (auto simp: x less_Suc_eq)
  with s snoc.IH [OF prev] show ?case by (simp add: x)
qed

text \<open>Which session a thread works on, and with what left.\<close>

definition working :: "session_manager \<Rightarrow> nat \<Rightarrow> nat \<Rightarrow> nat list \<Rightarrow> bool" where
  "working m j s is \<longleftrightarrow> j < length (session_threads m) \<and> (\<exists>h. session_threads m ! j = Working s is h)"

definition session_inv :: "nat list list \<Rightarrow> session_manager \<Rightarrow> (nat \<times> nat \<times> nat) list \<Rightarrow> bool" where
  "session_inv payloads m sent \<longleftrightarrow>
     (\<forall>s. next_session_index m \<le> s \<longrightarrow> of_session s sent = []) \<and>
     (\<forall>j s is. working m j s is \<longrightarrow> s < next_session_index m \<and> s < length payloads \<and> payloads ! s = of_session s sent @ is) \<and>
     (\<forall>s. s < next_session_index m \<and> s < length payloads \<and> (\<forall>j is. \<not> working m j s is) \<longrightarrow> of_session s sent = payloads ! s) \<and>
     (\<forall>j j' s is is'. working m j s is \<and> working m j' s is' \<longrightarrow> j = j') \<and>
     (\<forall>(j, s, i) \<in> set sent. s < length payloads \<and> (\<forall>j' is. working m j' s is \<longrightarrow> j' = j) \<and>
        (\<forall>(j', s', i') \<in> set sent. s' = s \<longrightarrow> j' = j)) \<and>
     (Finished \<in> set (session_threads m) \<longrightarrow> length payloads \<le> next_session_index m) \<and>
     length (all_threads_request_records m) = length (session_threads m) \<and>
     length (concat (all_threads_request_records m)) = length sent"

lemma session_inv_sent:
  assumes "session_inv payloads m sent" and "e \<in> set sent"
  shows "fst (snd e) < length payloads \<and> (\<forall>j' is. working m j' (fst (snd e)) is \<longrightarrow> j' = fst e) \<and>
    (\<forall>e' \<in> set sent. fst (snd e') = fst (snd e) \<longrightarrow> fst e' = fst e)"
  using assms unfolding session_inv_def split_def by blast

lemma working_update:
  "j < length (session_threads m) \<Longrightarrow> working (m\<lparr>session_threads := (session_threads m)[j := t], next_session_index := n\<rparr>) j' s is \<longleftrightarrow>
     (if j' = j then \<exists>h. t = Working s is h else working m j' s is)"
  by (auto simp: working_def nth_list_update)

lemma working_frame:
  "working (m\<lparr>all_threads_request_records := rs\<rparr>) = working m"
  by (simp add: working_def fun_eq_iff)

lemma resume_working: "(\<exists>h. resume_session s is h' = Working s' is' h) \<longleftrightarrow> s' = s \<and> is' = is \<and> is \<noteq> []"
  by (auto simp: resume_session_def)

lemma resume_not_finished [simp]: "resume_session s is h \<noteq> Finished" "Finished \<noteq> resume_session s is h"
  by (auto simp: resume_session_def)

lemma session_inv_fetch:
  assumes inv: "session_inv payloads m sent" and j: "j < length (session_threads m)" "session_threads m ! j = Fetching"
    and n: "next_session_index m < length payloads"
  shows "session_inv payloads (m\<lparr>session_threads := (session_threads m)
       [j := resume_session (next_session_index m) (payloads ! next_session_index m) []],
     next_session_index := Suc (next_session_index m)\<rparr>) sent"
proof -
  let ?n = "next_session_index m"
  let ?m = "m\<lparr>session_threads := (session_threads m)[j := resume_session ?n (payloads ! ?n) []], next_session_index := Suc ?n\<rparr>"
  have w: "working ?m j' s is \<longleftrightarrow> (if j' = j then s = ?n \<and> is = payloads ! ?n \<and> is \<noteq> [] else working m j' s is)" for j' s "is"
    using working_update [OF j(1), where t = "resume_session ?n (payloads ! ?n) []" and n = "Suc ?n"] by (auto simp: resume_working)
  have idle: "\<not> working m j s is" for s "is" using j by (simp add: working_def)
  have below: "s < ?n" if "working m j' s is" for j' s "is" using inv that by (auto simp: session_inv_def)
  have sent_below: "s < ?n" if "(j', s, i) \<in> set sent" for j' s i
  proof (rule ccontr)
    assume "\<not> s < ?n"
    then have "of_session s sent = []" using inv by (simp add: session_inv_def)
    with that show False by (auto simp: of_session_def filter_empty_conv)
  qed
  show ?thesis
    unfolding session_inv_def
  proof (intro conjI)
    show "\<forall>s. next_session_index ?m \<le> s \<longrightarrow> of_session s sent = []" using inv by (simp add: session_inv_def)
    show "\<forall>j s is. working ?m j s is \<longrightarrow> s < next_session_index ?m \<and> s < length payloads \<and> payloads ! s = of_session s sent @ is"
      using inv n by (auto simp: w session_inv_def less_Suc_eq)
    show "\<forall>s. s < next_session_index ?m \<and> s < length payloads \<and> (\<forall>j is. \<not> working ?m j s is) \<longrightarrow> of_session s sent = payloads ! s"
    proof (intro allI impI)
      fix s assume s: "s < next_session_index ?m \<and> s < length payloads \<and> (\<forall>j is. \<not> working ?m j s is)"
      show "of_session s sent = payloads ! s"
      proof (cases "s = ?n")
        case True
        then have "payloads ! ?n = []" using s by (auto simp: w split: if_splits)
        then show ?thesis using True inv by (simp add: session_inv_def)
      next
        case False
        then have "\<forall>j is. \<not> working m j s is" using s idle by (metis w)
        then show ?thesis using False s inv by (simp add: session_inv_def less_Suc_eq)
      qed
    qed
    show "\<forall>j j' s is is'. working ?m j s is \<and> working ?m j' s is' \<longrightarrow> j = j'"
      using inv below by (auto simp: w session_inv_def) (metis less_irrefl)+
    show "\<forall>(j, s, i) \<in> set sent. s < length payloads \<and> (\<forall>j' is. working ?m j' s is \<longrightarrow> j' = j) \<and>
        (\<forall>(j', s', i') \<in> set sent. s' = s \<longrightarrow> j' = j)"
    proof (rule ballI, unfold split_def, intro conjI)
      fix e assume e: "e \<in> set sent"
      then have ne: "fst (snd e) \<noteq> ?n" using sent_below [of "fst e" "fst (snd e)" "snd (snd e)"] by auto
      note one = session_inv_sent [OF inv e]
      show "fst (snd e) < length payloads" using one by blast
      show "\<forall>j' is. working ?m j' (fst (snd e)) is \<longrightarrow> j' = fst e" using one ne by (auto simp: w split: if_splits)
      show "\<forall>e' \<in> set sent. fst (snd e') = fst (snd e) \<longrightarrow> fst e' = fst e" using one by blast
    qed
    show "Finished \<in> set (session_threads ?m) \<longrightarrow> length payloads \<le> next_session_index ?m"
      using inv n set_update_subset_insert [of "session_threads m" j "resume_session ?n (payloads ! ?n) []"]
      by (auto simp: session_inv_def)
  qed (use inv in \<open>simp_all add: session_inv_def\<close>)
qed

lemma session_inv_finish:
  assumes inv: "session_inv payloads m sent" and j: "j < length (session_threads m)" "session_threads m ! j = Fetching"
    and n: "\<not> next_session_index m < length payloads"
  shows "session_inv payloads (m\<lparr>session_threads := (session_threads m)[j := Finished],
     next_session_index := Suc (next_session_index m)\<rparr>) sent"
proof -
  let ?m = "m\<lparr>session_threads := (session_threads m)[j := Finished], next_session_index := Suc (next_session_index m)\<rparr>"
  have "working ?m = working m"
    using working_update [OF j(1), where t = Finished and n = "Suc (next_session_index m)"] j by (auto simp: fun_eq_iff working_def)
  then show ?thesis using inv n by (simp add: session_inv_def less_Suc_eq)
qed

lemma session_inv_request:
  assumes inv: "session_inv payloads m sent" and j: "j < length (session_threads m)" "session_threads m ! j = Working s (i # is) h"
  shows "session_inv payloads (m\<lparr>session_threads := (session_threads m)[j := resume_session s is h'],
     all_threads_request_records := (all_threads_request_records m)[j := all_threads_request_records m ! j @ [rec]]\<rparr>)
     (sent @ [(j, s, i)])"
proof -
  let ?t = "m\<lparr>session_threads := (session_threads m)[j := resume_session s is h']\<rparr>"
  let ?m = "m\<lparr>session_threads := (session_threads m)[j := resume_session s is h'],
    all_threads_request_records := (all_threads_request_records m)[j := all_threads_request_records m ! j @ [rec]]\<rparr>"
  have w: "working ?m j' s' is' \<longleftrightarrow> (if j' = j then s' = s \<and> is' = is \<and> is \<noteq> [] else working m j' s' is')" for j' s' is'
    using working_update [OF j(1), where t = "resume_session s is h'" and n = "next_session_index m"]
    by (auto simp: resume_working working_frame)
  have here: "working m j s (i # is)" using j by (auto simp: working_def)
  have only: "j' = j" if "working m j' s is'" for j' is' using inv here that unfolding session_inv_def by blast
  have s: "s < next_session_index m" "s < length payloads" "payloads ! s = of_session s sent @ i # is"
    using inv here unfolding session_inv_def by blast+
  have other: "s' = s" if "working m j s' is'" for s' is' using that j by (auto simp: working_def)
  have records: "j < length (all_threads_request_records m)"
    "length (concat (all_threads_request_records m)) = length sent" using inv j(1) by (simp_all add: session_inv_def)
  show ?thesis
    unfolding session_inv_def
  proof (intro conjI)
    show "\<forall>s'. next_session_index ?m \<le> s' \<longrightarrow> of_session s' (sent @ [(j, s, i)]) = []"
      using inv s(1) by (auto simp: session_inv_def)
    show "\<forall>j' s' is'. working ?m j' s' is' \<longrightarrow> s' < next_session_index ?m \<and> s' < length payloads \<and>
        payloads ! s' = of_session s' (sent @ [(j, s, i)]) @ is'"
    proof (intro allI impI)
      fix j' s' is' assume a: "working ?m j' s' is'"
      show "s' < next_session_index ?m \<and> s' < length payloads \<and> payloads ! s' = of_session s' (sent @ [(j, s, i)]) @ is'"
      proof (cases "j' = j")
        case False
        then have b: "working m j' s' is'" "s' \<noteq> s" using a only by (auto simp: w)
        then have "s' < next_session_index m \<and> s' < length payloads \<and> payloads ! s' = of_session s' sent @ is'"
          using inv unfolding session_inv_def by blast
        with b(2) show ?thesis by simp
      qed (use a s in \<open>simp add: w\<close>)
    qed
    show "\<forall>s'. s' < next_session_index ?m \<and> s' < length payloads \<and> (\<forall>j' is'. \<not> working ?m j' s' is') \<longrightarrow>
        of_session s' (sent @ [(j, s, i)]) = payloads ! s'"
    proof (intro allI impI)
      fix s' assume a: "s' < next_session_index ?m \<and> s' < length payloads \<and> (\<forall>j' is'. \<not> working ?m j' s' is')"
      show "of_session s' (sent @ [(j, s, i)]) = payloads ! s'"
      proof (cases "s' = s")
        case True
        then have "is = []" using a by (auto simp: w split: if_splits)
        with True s show ?thesis by simp
      next
        case False
        then have "\<forall>j' is'. \<not> working m j' s' is'" using a other by (metis w)
        then have "of_session s' sent = payloads ! s'" using a inv by (simp add: session_inv_def)
        with False show ?thesis by simp
      qed
    qed
    show "\<forall>j1 j2 s' is1 is2. working ?m j1 s' is1 \<and> working ?m j2 s' is2 \<longrightarrow> j1 = j2"
    proof (intro allI impI, elim conjE)
      fix j1 j2 s' is1 is2 assume "working ?m j1 s' is1" "working ?m j2 s' is2"
      then have "\<exists>is1 is2. working m j1 s' is1 \<and> working m j2 s' is2" using here by (auto simp: w split: if_splits)
      then show "j1 = j2" using inv unfolding session_inv_def by blast
    qed
    show "\<forall>(j1, s1, i1) \<in> set (sent @ [(j, s, i)]). s1 < length payloads \<and> (\<forall>j' is'. working ?m j' s1 is' \<longrightarrow> j' = j1) \<and>
        (\<forall>(j', s', i') \<in> set (sent @ [(j, s, i)]). s' = s1 \<longrightarrow> j' = j1)"
    proof (rule ballI, unfold split_def, intro conjI)
      fix e assume e: "e \<in> set (sent @ [(j, s, i)])"
      have one: "fst (snd e) < length payloads \<and> (\<forall>j' is'. working m j' (fst (snd e)) is' \<longrightarrow> j' = fst e) \<and>
          (\<forall>e' \<in> set sent. fst (snd e') = fst (snd e) \<longrightarrow> fst e' = fst e)"
      proof (cases "e \<in> set sent")
        case True
        then show ?thesis by (rule session_inv_sent [OF inv])
      next
        case False
        then have e': "fst e = j" "fst (snd e) = s" using e by simp_all
        have "fst e2 = j" if "e2 \<in> set sent" and "fst (snd e2) = s" for e2
          using session_inv_sent [OF inv that(1)] here that(2) by metis
        with s(2) only show ?thesis unfolding e' by blast
      qed
      then show "fst (snd e) < length payloads" by blast
      show "\<forall>j' is'. working ?m j' (fst (snd e)) is' \<longrightarrow> j' = fst e" using one here by (auto simp: w split: if_splits)
      show "\<forall>e' \<in> set (sent @ [(j, s, i)]). fst (snd e') = fst (snd e) \<longrightarrow> fst e' = fst e" using one here by auto
    qed
    show "Finished \<in> set (session_threads ?m) \<longrightarrow> length payloads \<le> next_session_index ?m"
      using inv set_update_subset_insert [of "session_threads m" j "resume_session s is h'"] by (auto simp: session_inv_def)
    show "length (concat (all_threads_request_records ?m)) = length (sent @ [(j, s, i)])"
      using records by (simp add: length_concat map_update sum_list_update)
  qed (use inv in \<open>simp add: session_inv_def\<close>)
qed

lemma session_steps_inv:
  assumes "(session_step ops io p d payloads)\<^sup>*\<^sup>* (m0, []) (m, sent)" and "session_inv payloads m0 []"
  shows "session_inv payloads m sent"
  using assms
proof (induction "(m, sent)" arbitrary: m sent rule: rtranclp_induct)
  case (step st)
  obtain m1 sent1 where st: "st = (m1, sent1)" by fastforce
  then have "session_inv payloads m1 sent1" using step by simp
  with step(2) st show ?case
    by (auto elim!: session_step.cases intro: session_inv_fetch session_inv_finish session_inv_request)
qed simp

lemma session_inv_start:
  "MakeThreads k payloads m = Inr m0 \<Longrightarrow> next_session_index m = 0 \<Longrightarrow> session_inv payloads m0 []"
  by (auto simp: MakeThreads_def session_inv_def working_def split: if_splits)

lemma session_steps_threads:
  "(session_step ops io p d payloads)\<^sup>*\<^sup>* st st' \<Longrightarrow> length (session_threads (fst st')) = length (session_threads (fst st))"
  by (induction rule: rtranclp_induct) (auto elim!: session_step.cases)

section \<open>Properties\<close>

text \<open>
  C12: Every payload of the data set is sent exactly once. However the threads interleave, when all of them have
  finished, the requests sent are the payloads of the data set, each once; the payloads of a session
  were sent in their order and by one thread; and there is one record for every request.
\<close>

theorem every_payload_sent_once:
  assumes "GroupPayloadsBySession order p d = Inr payloads" and "\<forall>m. mset (order m) = mset m" and "GetTotalSteps 0 d = Inr n"
    and "MakeThreads k payloads m = Inr m0" and "next_session_index m = 0" and "0 < k"
    and "(session_step ops io p d payloads)\<^sup>*\<^sup>* (m0, []) (m', sent)" and "\<forall>t \<in> set (session_threads m'). t = Finished"
  shows "mset (map (snd \<circ> snd) sent) = mset [0..<n] \<and> (\<forall>s < length payloads. of_session s sent = payloads ! s) \<and>
    (\<forall>e \<in> set sent. \<forall>e' \<in> set sent. fst (snd e') = fst (snd e) \<longrightarrow> fst e' = fst e) \<and>
    length (session_GetRequestRecords m') = n"
proof -
  have inv: "session_inv payloads m' sent" by (rule session_steps_inv [OF assms(7) session_inv_start [OF assms(4,5)]])
  have "length (session_threads m') = k"
    using session_steps_threads [OF assms(7)] assms(4) by (auto simp: MakeThreads_def split: if_splits)
  then have "Finished \<in> set (session_threads m')" using assms(6,8) by (metis length_greater_0_conv nth_mem)
  then have all: "length payloads \<le> next_session_index m'" using inv by (simp add: session_inv_def)
  have "\<not> working m' j s is" for j s "is" using assms(8) nth_mem by (fastforce simp: working_def)
  then have order: "\<forall>s < length payloads. of_session s sent = payloads ! s" using inv all by (auto simp: session_inv_def)
  have "\<forall>(_, s, _) \<in> set sent. s < length payloads" using session_inv_sent [OF inv] by (auto simp: split_def)
  then have "mset (map (snd \<circ> snd) sent) = mset (concat (map (\<lambda>s. of_session s sent) [0..<length payloads]))"
    by (simp add: sessions_cover)
  also have "map (\<lambda>s. of_session s sent) [0..<length payloads] = payloads"
    using order by (auto intro: nth_equalityI)
  finally have cover: "mset (map (snd \<circ> snd) sent) = mset [0..<n]"
    using sessions_partition_dataset [OF assms(1-3)] by (simp add: comp_def)
  then have "length sent = n" by (metis length_map length_upt minus_nat.diff_0 size_mset)
  then have "length (session_GetRequestRecords m') = n" using inv by (simp add: session_inv_def session_GetRequestRecords_def)
  with cover order session_inv_sent [OF inv] show ?thesis by blast
qed

definition sample_sessions :: session_manager where
  "sample_sessions = \<lparr>next_session_index = 0, session_threads = [], all_threads_request_records = []\<rparr>"

lemma sample_requests_work:
  "i < 2 \<Longrightarrow> \<exists>payload h' rec. SendRequestAndWaitForResponse sample_session_ops sample_io sample_parser sample_dataset sample_reply_to i h =
     Inr (payload, h', rec)"
proof -
  assume i: "i < 2"
  have "(case (GetPayload 0 sample_parser sample_dataset, RecordRequestInputs ''x'' 0 sample_parser sample_dataset,
       GetPayload 1 sample_parser sample_dataset, RecordRequestInputs ''x'' 1 sample_parser sample_dataset,
       PrepareInputs sample_session_ops ''x'') of (Inr _, Inr _, Inr _, Inr _, Inr _) \<Rightarrow> True | _ \<Rightarrow> False)" by code_simp
  then have "\<exists>t r x. GetPayload i sample_parser sample_dataset = Inr t \<and>
      RecordRequestInputs ''x'' i sample_parser sample_dataset = Inr r \<and> PrepareInputs sample_session_ops ''x'' = Inr x"
    using i by (auto simp: numeral_2_eq_2 less_Suc_eq split: sum.splits prod.splits)
  then show ?thesis
    by (auto simp: SendRequestAndWaitForResponse_def UpdateHistoryAndAddToPayload_def parse_or_throw_def GetPayloadMessages_def
        session_SendRequest_def session_callback_def GetResponseBuffer_def GetMessage_def sample_io_def sample_reply_to_def
        openai_ops_def member_def Let_def)
qed

theorem every_payload_sent_once_witness:
  "\<exists>m' (sent :: (nat \<times> nat \<times> nat) list). GroupPayloadsBySession id sample_parser sample_dataset = Inr [[0, 1]] \<and>
     (\<forall>t \<in> set (session_threads m'). t = Finished) \<and> mset (map (snd \<circ> snd) sent) = mset [0..<2] \<and>
     length (session_GetRequestRecords m') = 2"
proof -
  let ?step = "session_step sample_session_ops sample_io sample_parser sample_dataset [[0, 1]]"
  have g: "GroupPayloadsBySession id sample_parser sample_dataset = Inr [[0, 1]]"
    and n: "GetTotalSteps 0 sample_dataset = Inr 2" by code_simp+
  obtain m0 where m0: "MakeThreads 1 [[0, 1]] sample_sessions = Inr m0" and m0': "m0 = sample_sessions\<lparr>all_threads_request_records := [[]],
      session_threads := [Fetching]\<rparr>"
    by (simp add: MakeThreads_def sample_sessions_def)
  obtain p0 h0 r0 where s0: "SendRequestAndWaitForResponse sample_session_ops sample_io sample_parser sample_dataset sample_reply_to 0 [] =
      Inr (p0, h0, r0)" using sample_requests_work [of 0 "[]"] by auto
  obtain p1 h1 r1 where s1: "SendRequestAndWaitForResponse sample_session_ops sample_io sample_parser sample_dataset sample_reply_to 1 h0 =
      Inr (p1, h1, r1)" using sample_requests_work [of 1 h0] by auto
  have delay: "GetAndWaitForDelay 0 sample_parser sample_dataset = Inr 5" by code_simp
  let ?m = "\<lambda>n t rs. \<lparr>next_session_index = n, session_threads = [t], all_threads_request_records = [rs]\<rparr>"
  have st1: "?step (?m 0 Fetching [], []) (?m 1 (Working 0 [0, 1] []) [], [])"
    using session_step.fetch [of 0 "?m 0 Fetching []" "[[0, 1]]" sample_session_ops sample_io sample_parser sample_dataset "[]"]
    by (simp add: resume_session_def)
  have st2: "?step (?m 1 (Working 0 [0, 1] []) [], []) (?m 1 (Working 0 [1] h0) [r0], [(0, 0, 0)])"
    using session_step.request [OF _ _ s0, of 0 "?m 1 (Working 0 [0, 1] []) []" 0 "[1]" 5 "[[0, 1]]" "[]"] delay
    by (simp add: resume_session_def)
  have st3: "?step (?m 1 (Working 0 [1] h0) [r0], [(0, 0, 0)]) (?m 1 Fetching [r0, r1], [(0, 0, 0), (0, 0, 1)])"
    using session_step.request [OF _ _ s1, of 0 "?m 1 (Working 0 [1] h0) [r0]" 0 "[]" 5 "[[0, 1]]" "[(0, 0, 0)]"]
    by (simp add: resume_session_def)
  have st4: "?step (?m 1 Fetching [r0, r1], [(0, 0, 0), (0, 0, 1)]) (?m (Suc 1) Finished [r0, r1], [(0, 0, 0), (0, 0, 1)])"
    using session_step.finish [of 0 "?m 1 Fetching [r0, r1]" "[[0, 1]]" sample_session_ops sample_io sample_parser sample_dataset
        "[(0, 0, 0), (0, 0, 1)]"]
    by simp
  have m0'': "m0 = ?m 0 Fetching []" by (simp add: m0' sample_sessions_def)
  have run: "?step\<^sup>*\<^sup>* (m0, []) (?m (Suc 1) Finished [r0, r1], [(0, 0, 0), (0, 0, 1)])"
    unfolding m0'' by (rule converse_rtranclp_into_rtranclp, rule st1, rule converse_rtranclp_into_rtranclp, rule st2,
      rule converse_rtranclp_into_rtranclp, rule st3, rule r_into_rtranclp, rule st4)
  have fin: "\<forall>t \<in> set (session_threads (?m (Suc 1) Finished [r0, r1])). t = Finished" by simp
  have side: "\<forall>m :: (string \<times> nat list) list. mset (id m) = mset m" "next_session_index sample_sessions = 0" "(0 :: nat) < 1"
    by (simp_all add: sample_sessions_def)
  note sent = every_payload_sent_once [OF g side(1) n m0 side(2,3) run fin]
  show ?thesis
  proof (intro exI conjI)
    show "GroupPayloadsBySession id sample_parser sample_dataset = Inr [[0, 1]]" by (rule g)
    show "\<forall>t \<in> set (session_threads (?m (Suc 1) Finished [r0, r1])). t = Finished" by (rule fin)
    show "mset (map (snd \<circ> snd) [(0 :: nat, 0 :: nat, 0 :: nat), (0, 0, 1)]) = mset [0..<2]" by (rule conjunct1 [OF sent])
    show "length (session_GetRequestRecords (?m (Suc 1) Finished [r0, r1])) = 2"
      by (rule conjunct2 [OF conjunct2 [OF conjunct2 [OF sent]]])
  qed
qed

end
