(* ===== verification/Std_String.thy ===== *)
theory Std_String
  imports Perf_Utils
begin

text \<open>
  What the command line parser uses of the C++ library on strings: \<open>find\<close>, \<open>rfind\<close> and
  \<open>substr\<close>, and the conversions \<open>stoi\<close>, \<open>stoul\<close>, \<open>stoull\<close>, \<open>stof\<close>, \<open>stod\<close>,
  \<open>atoi\<close> and \<open>atol\<close> of the \<open>C\<close> locale on a 64-bit host. A conversion skips leading white
  space, takes the longest numeral and ignores what follows it; without a numeral it throws
  \<open>std::invalid_argument\<close>, and outside the type \<open>std::out_of_range\<close>.
\<close>

section \<open>Searching and cutting\<close>

text \<open>\<open>None\<close> stands for \<open>std::string::npos\<close>.\<close>

fun find_at :: "string \<Rightarrow> string \<Rightarrow> nat \<Rightarrow> nat option" where
  "find_at d s pos =
     (if take (length d) s = d then Some pos
      else case s of [] \<Rightarrow> None | c # s' \<Rightarrow> find_at d s' (Suc pos))"

declare find_at.simps [simp del]

definition str_find :: "string \<Rightarrow> string \<Rightarrow> nat \<Rightarrow> nat option" where
  "str_find str d pos = (if length str < pos then None else find_at d (drop pos str) pos)"

text \<open>The last position of a character.\<close>

definition str_rfind :: "string \<Rightarrow> char \<Rightarrow> nat option" where
  "str_rfind str c =
     (case find_at [c] (rev str) 0 of None \<Rightarrow> None | Some i \<Rightarrow> Some (length str - 1 - i))"

definition substr :: "string \<Rightarrow> nat \<Rightarrow> nat option \<Rightarrow> exn + string" where
  "substr str pos stop =
     (if length str < pos then Inl OutOfRange
      else case stop of None \<Rightarrow> Inr (drop pos str) | Some e \<Rightarrow> Inr (take (e - pos) (drop pos str)))"

lemma find_at_ge: "find_at d s pos = Some i \<Longrightarrow> pos \<le> i \<and> i \<le> pos + length s"
proof (induction d s pos rule: find_at.induct)
  case (1 d s pos)
  then show ?case
    by (subst (asm) (2) find_at.simps) (fastforce split: if_splits list.splits)
qed

lemma str_find_bounds: "str_find str d pos = Some i \<Longrightarrow> pos \<le> i \<and> i \<le> length str"
  using find_at_ge [of d "drop pos str" pos i] by (auto simp: str_find_def split: if_splits)

text \<open>The parts of a string between the occurrences of a character.\<close>

fun pieces :: "char \<Rightarrow> string \<Rightarrow> string list" where
  "pieces c [] = [[]]"
| "pieces c (x # s) =
     (if x = c then [] # pieces c s
      else case pieces c s of [] \<Rightarrow> [[x]] | p # ps \<Rightarrow> (x # p) # ps)"

lemma pieces_nonempty [simp]: "pieces c s \<noteq> []"
  by (induction s) (auto split: list.splits)

lemma pieces_single: "c \<notin> set s \<Longrightarrow> pieces c s = [s]"
  by (induction s) auto

lemma pieces_append: "c \<notin> set s \<Longrightarrow> pieces c (s @ c # t) = s # pieces c t"
  by (induction s) auto

lemma find_at_char_None: "find_at [c] s pos = None \<longleftrightarrow> c \<notin> set s"
  by (induction s arbitrary: pos) (auto simp: find_at.simps)

lemma find_at_char_Some:
  "find_at [c] s pos = Some i \<Longrightarrow>
     \<exists>a b. s = a @ c # b \<and> c \<notin> set a \<and> i = pos + length a"
proof (induction s arbitrary: pos)
  case (Cons x s)
  show ?case
  proof (cases "x = c")
    case True
    with Cons.prems show ?thesis by (auto simp: find_at.simps intro: exI [of _ "[]"])
  next
    case False
    then have "find_at [c] s (Suc pos) = Some i" using Cons.prems by (simp add: find_at.simps)
    from Cons.IH [OF this] obtain a b where "s = a @ c # b" "c \<notin> set a" "i = Suc pos + length a" by blast
    with False show ?thesis by (intro exI [of _ "x # a"] exI [of _ b]) auto
  qed
qed (simp add: find_at.simps)

section \<open>Integers\<close>

definition skip_space :: "string \<Rightarrow> string" where
  "skip_space s = dropWhile is_space s"

definition read_sign :: "string \<Rightarrow> bool \<times> string" where
  "read_sign s =
     (case s of
        c # s' \<Rightarrow> if c = CHR ''-'' then (True, s') else if c = CHR ''+'' then (False, s') else (False, s)
      | [] \<Rightarrow> (False, s))"

text \<open>The sign and the digits of the numeral in front of a string, if there is one.\<close>

definition read_int :: "string \<Rightarrow> (bool \<times> nat) option" where
  "read_int s =
     (let (neg, r) = read_sign (skip_space s); ds = takeWhile is_digit r
      in if ds = [] then None else Some (neg, string_to_nat ds))"

definition signed :: "bool \<times> nat \<Rightarrow> int" where
  "signed x = (if fst x then - int (snd x) else int (snd x))"

definition sto_signed :: "nat \<Rightarrow> string \<Rightarrow> string \<Rightarrow> exn + int" where
  "sto_signed bits what s =
     (case read_int s of
        None \<Rightarrow> Inl (InvalidArgument what)
      | Some x \<Rightarrow> if - (2 ^ (bits - 1)) \<le> signed x \<and> signed x < 2 ^ (bits - 1) then Inr (signed x)
                  else Inl OutOfRange)"

definition stoi :: "string \<Rightarrow> exn + int" where "stoi = sto_signed 32 ''stoi''"

text \<open>A minus sign in front of an unsigned numeral negates it modulo \<open>2\<^sup>6\<^sup>4\<close>.\<close>

definition sto_unsigned :: "string \<Rightarrow> string \<Rightarrow> exn + u64" where
  "sto_unsigned what s =
     (case read_int s of
        None \<Rightarrow> Inl (InvalidArgument what)
      | Some x \<Rightarrow> if snd x < 2 ^ 64 then Inr (word_of_int (signed x)) else Inl OutOfRange)"

definition stoull :: "string \<Rightarrow> exn + u64" where "stoull = sto_unsigned ''stoull''"
definition stoul :: "string \<Rightarrow> exn + u64" where "stoul = sto_unsigned ''stoul''"

text \<open>
  \<open>atol\<close> is \<open>strtol\<close> without its error: 0 without a numeral, the nearest \<open>long\<close> outside the
  range; \<open>atoi\<close> is its low half.
\<close>

definition atol :: "string \<Rightarrow> int" where
  "atol s = (case read_int s of
     None \<Rightarrow> 0 | Some x \<Rightarrow> max (- (2 ^ 63)) (min (2 ^ 63 - 1) (signed x)))"

definition atoi :: "string \<Rightarrow> int" where
  "atoi s = sint (word_of_int (atol s) :: 32 word)"

lemma skip_space_digits: "s = c # t \<Longrightarrow> is_digit c \<Longrightarrow> skip_space s = s"
  by (simp add: skip_space_def is_digit_facts)

text \<open>The decimal rendering of a number, in front of anything but a digit, is read back.\<close>

lemma read_int_nat:
  assumes "t = [] \<or> \<not> is_digit (hd t)"
  shows "read_int (nat_to_string n @ t) = Some (False, n)"
proof -
  obtain c r where s: "nat_to_string n = c # r" by (cases "nat_to_string n") auto
  have ds: "\<forall>x \<in> set (nat_to_string n). is_digit x" using nat_to_string_digits by blast
  then have c: "is_digit c" by (simp add: s)
  then have "c \<noteq> CHR ''-''" "c \<noteq> CHR ''+''" by (auto simp: is_digit_def)
  then have "read_sign (skip_space (nat_to_string n @ t)) = (False, nat_to_string n @ t)"
    using c by (simp add: s skip_space_digits read_sign_def)
  moreover have "takeWhile is_digit (nat_to_string n @ t) = nat_to_string n"
    using ds assms by (cases t) (auto simp: takeWhile_append)
  ultimately show ?thesis by (simp add: read_int_def)
qed

lemma stoull_to_string [simp]: "stoull (nat_to_string (unat w)) = Inr w"
proof -
  have "unat w < 2 ^ 64" using unsigned_less [of w, where ?'a = nat] by simp
  then show ?thesis
    using read_int_nat [of "[]" "unat w"] by (simp add: stoull_def sto_unsigned_def signed_def)
qed

lemma stoi_to_string: "n < 2 ^ 31 \<Longrightarrow> stoi (nat_to_string n) = Inr (int n)"
  using read_int_nat [of "[]" n] by (simp add: stoi_def sto_signed_def signed_def)

text \<open>A value that both conversions accept is the same number.\<close>

lemma stoull_of_stoi: "stoi s = Inr i \<Longrightarrow> 0 \<le> i \<Longrightarrow> stoull s = Inr (word_of_int i)"
  by (auto simp: stoi_def stoull_def sto_signed_def sto_unsigned_def signed_def
      split: option.splits if_splits)

lemma stoul_of_stoi: "stoi s = Inr i \<Longrightarrow> 0 \<le> i \<Longrightarrow> stoul s = Inr (word_of_int i)"
  by (auto simp: stoi_def stoul_def sto_signed_def sto_unsigned_def signed_def
      split: option.splits if_splits)

lemma stoi_range: "stoi s = Inr i \<Longrightarrow> - (2 ^ 31) \<le> i \<and> i < 2 ^ 31"
  by (auto simp: stoi_def sto_signed_def split: option.splits if_splits)

section \<open>Floating point\<close>

text \<open>
  \<open>strtod\<close>: an infinity or not a number by name, a hexadecimal numeral with an optional binary
  exponent, or a decimal numeral with an optional decimal one.
\<close>

definition hex_val :: "char \<Rightarrow> nat option" where
  "hex_val c =
     (let n = (of_char c :: nat)
      in if 48 \<le> n \<and> n \<le> 57 then Some (n - 48)
         else if 97 \<le> n \<and> n \<le> 102 then Some (n - 87)
         else if 65 \<le> n \<and> n \<le> 70 then Some (n - 55) else None)"

definition base_digit :: "nat \<Rightarrow> char \<Rightarrow> nat option" where
  "base_digit b c = (case hex_val c of None \<Rightarrow> None | Some d \<Rightarrow> if d < b then Some d else None)"

definition read_digits :: "nat \<Rightarrow> string \<Rightarrow> nat \<times> nat \<times> string" where
  "read_digits b s =
     (let ds = takeWhile (\<lambda>c. base_digit b c \<noteq> None) s
      in (foldl (\<lambda>n c. b * n + the (base_digit b c)) 0 ds, length ds, drop (length ds) s))"

definition read_exponent :: "char \<Rightarrow> string \<Rightarrow> int" where
  "read_exponent e s =
     (case s of
        c # s' \<Rightarrow>
          if tolower c = e then
            (let (neg, r) = read_sign s'; (n, k, _) = read_digits 10 r
             in if k = 0 then 0 else signed (neg, n))
          else 0
      | [] \<Rightarrow> 0)"

text \<open>The value of the numeral in front of a string, with the given base and exponent.\<close>

definition read_numeral :: "nat \<Rightarrow> char \<Rightarrow> rat \<Rightarrow> string \<Rightarrow> rat option" where
  "read_numeral b e eb s =
     (let (w, k, r) = read_digits b s;
          (f, l, r') = (case r of c # r1 \<Rightarrow> if c = CHR ''.'' then read_digits b r1 else (0, 0, r)
                        | [] \<Rightarrow> (0, 0, r))
      in if k + l = 0 then None
         else Some ((of_nat w + of_nat f / of_nat b ^ l) * eb powi read_exponent e r'))"

definition begins :: "string \<Rightarrow> string \<Rightarrow> bool" where
  "begins p s \<longleftrightarrow> map tolower (take (length p) s) = p"

definition read_double :: "string \<Rightarrow> (bool \<times> ieee) option" where
  "read_double s =
     (let (neg, r) = read_sign (skip_space s)
      in if begins ''inf'' r then Some (neg, PInf)
         else if begins ''nan'' r then Some (neg, NaN)
         else map_option (\<lambda>q. (neg, Fin q))
           (case (if begins ''0x'' r then read_numeral 16 (CHR ''p'') 2 (drop 2 r) else None) of
              Some q \<Rightarrow> Some q
            | None \<Rightarrow> read_numeral 10 (CHR ''e'') 10 r))"

text \<open>
  The numeral is rounded once; a result that overflows, or that underflows and is not exact,
  is out of range.
\<close>

definition sto_floating :: "fmt \<Rightarrow> string \<Rightarrow> string \<Rightarrow> exn + ieee" where
  "sto_floating F what s =
     (case read_double s of
        None \<Rightarrow> Inl (InvalidArgument what)
      | Some (neg, Fin q) \<Rightarrow>
          (case fin F (if neg then - q else q) of
             Fin r \<Rightarrow> if \<bar>r\<bar> < 2 powi (emin F) \<and> r \<noteq> (if neg then - q else q) then Inl OutOfRange
                      else Inr (Fin r)
           | _ \<Rightarrow> Inl OutOfRange)
      | Some (neg, v) \<Rightarrow> Inr (if neg then ieee_uminus v else v))"

definition stod :: "string \<Rightarrow> exn + ieee" where "stod = sto_floating binary64 ''stod''"
definition stof :: "string \<Rightarrow> exn + ieee" where "stof = sto_floating binary32 ''stof''"

end
