(* ===== verification/Command_Line.thy ===== *)
theory Command_Line
  imports Std_String Profiler Concurrency_Manager Request_Rate_Manager Infer_Data_Manager Model_Parser Data_Loader
begin

text \<open>
  The command line of \<open>command_line_parser.cc\<close>: the parameters and their defaults, one
  definition per option of the switch in \<open>ParseCommandLine\<close>, what the parser derives once the
  options are read, and \<open>VerifyOptions\<close>. \<open>getopt_long\<close> is the C library's: the model starts
  from the sequence of its results. The file system (\<open>stat\<close>), the documents that
  \<open>GetDatasetSize\<close> reads, the MPI library and the build's GPU switch are the environment.
  What is printed is left out; the text that \<open>Usage\<close> prints is its argument.
\<close>

section \<open>Data\<close>

datatype shared_memory_type = SYSTEM_SHARED_MEMORY | CUDA_SHARED_MEMORY | NO_SHARED_MEMORY

datatype grpc_compression = COMPRESS_NONE | COMPRESS_DEFLATE | COMPRESS_GZIP

record ssl_options =
  ssl_grpc_use_ssl :: bool
  ssl_grpc_root_certifications_file :: string
  ssl_grpc_private_key_file :: string
  ssl_grpc_certificate_chain_file :: string
  ssl_https_verify_peer :: int
  ssl_https_verify_host :: int
  ssl_https_ca_certificates_file :: string
  ssl_https_client_certificate_file :: string
  ssl_https_client_certificate_type :: string
  ssl_https_private_key_file :: string
  ssl_https_private_key_type :: string

definition SslOptionsBase :: ssl_options where
  "SslOptionsBase = \<lparr>ssl_grpc_use_ssl = False, ssl_grpc_root_certifications_file = [],
     ssl_grpc_private_key_file = [], ssl_grpc_certificate_chain_file = [],
     ssl_https_verify_peer = 1, ssl_https_verify_host = 2, ssl_https_ca_certificates_file = [],
     ssl_https_client_certificate_file = [], ssl_https_client_certificate_type = [],
     ssl_https_private_key_file = [], ssl_https_private_key_type = []\<rparr>"

record pa_params =
  p_verbose :: bool
  p_extra_verbose :: bool
  p_load_mode :: inference_load_mode
  p_streaming :: bool
  p_max_threads :: u64
  p_max_threads_specified :: bool
  p_sequence_length :: u64
  p_sequence_length_specified :: bool
  p_sequence_length_variation :: ieee
  p_percentile :: int
  p_user_data :: "string list"
  p_input_shapes :: "(string, int list) std_map"
  p_bls_composing_models :: "model_identifier list"
  p_measurement_window_ms :: u64
  p_concurrency_range :: range
  p_request_parameters :: "(string, request_parameter) std_map"
  p_latency_threshold_ms :: u64
  p_stability_threshold :: ieee
  p_max_trials :: u64
  p_request_count :: u64
  p_zero_input :: bool
  p_string_length :: u64
  p_string_data :: string
  p_async :: bool
  p_forced_sync :: bool
  p_request_rate_range :: "ieee list"
  p_num_of_sequences :: u32
  p_serial_sequences :: bool
  p_search_mode :: search_mode
  p_request_distribution :: distribution
  p_request_intervals_file :: string
  p_shared_memory_type :: shared_memory_type
  p_output_shm_size :: u64
  p_kind :: backend_kind
  p_model_signature_name :: string
  p_using_grpc_compression :: bool
  p_compression_algorithm :: grpc_compression
  p_measurement_mode :: measurement_mode
  p_measurement_request_count :: u64
  p_triton_server_path :: string
  p_model_repository_path :: string
  p_start_sequence_id :: u64
  p_sequence_id_range :: u64
  p_ssl_options :: ssl_options
  p_verbose_csv :: bool
  p_enable_mpi :: bool
  p_trace_options :: "(string, string list) std_map"
  p_url_specified :: bool
  p_url :: string
  p_endpoint :: string
  p_model_name :: string
  p_model_version :: string
  p_batch_size :: u64
  p_using_batch_size :: bool
  p_protocol :: protocol_type
  p_http_headers :: "(string, string) std_map"
  p_filename :: string
  p_memory_type :: string
  p_should_collect_metrics :: bool
  p_metrics_url :: string
  p_metrics_url_specified :: bool
  p_metrics_interval_ms :: u64
  p_metrics_interval_ms_specified :: bool
  p_overhead_pct_threshold :: ieee
  p_input_tensor_format :: tensor_format
  p_output_tensor_format :: tensor_format
  p_profile_export_file :: string
  p_periodic_concurrency_range :: range
  p_request_period :: u64
  p_warmup_request_count :: u64
  p_session_concurrency :: u64
  p_grpc_method :: string

definition unit_range :: range where
  "unit_range = \<lparr>range_start = 1, range_end = 1, range_step = 1\<rparr>"

definition PerfAnalyzerParameters :: pa_params where
  "PerfAnalyzerParameters =
    \<lparr>p_verbose = False, p_extra_verbose = False, p_load_mode = NoLoadMode, p_streaming = False,
     p_max_threads = 4, p_max_threads_specified = False, p_sequence_length = 20,
     p_sequence_length_specified = False, p_sequence_length_variation = Fin 20, p_percentile = - 1,
     p_user_data = [], p_input_shapes = [], p_bls_composing_models = [],
     p_measurement_window_ms = 5000, p_concurrency_range = unit_range, p_request_parameters = [],
     p_latency_threshold_ms = NO_LIMIT, p_stability_threshold = fin binary64 (1 / 10),
     p_max_trials = 10, p_request_count = 0, p_zero_input = False, p_string_length = 128,
     p_string_data = [], p_async = False, p_forced_sync = False,
     p_request_rate_range = [Fin 1, Fin 1, Fin 1], p_num_of_sequences = 4,
     p_serial_sequences = False, p_search_mode = LINEAR, p_request_distribution = CONSTANT,
     p_request_intervals_file = [], p_shared_memory_type = NO_SHARED_MEMORY,
     p_output_shm_size = 100 * 1024, p_kind = TRITON, p_model_signature_name = ''serving_default'',
     p_using_grpc_compression = False, p_compression_algorithm = COMPRESS_NONE,
     p_measurement_mode = TIME_WINDOWS, p_measurement_request_count = 50,
     p_triton_server_path = ''/opt/tritonserver'', p_model_repository_path = [],
     p_start_sequence_id = 1, p_sequence_id_range = 4294967295, p_ssl_options = SslOptionsBase,
     p_verbose_csv = False, p_enable_mpi = False, p_trace_options = [], p_url_specified = False,
     p_url = ''localhost:8000'', p_endpoint = [], p_model_name = [], p_model_version = [],
     p_batch_size = 1, p_using_batch_size = False, p_protocol = HTTP, p_http_headers = [],
     p_filename = [], p_memory_type = ''system'', p_should_collect_metrics = False, p_metrics_url = ''localhost:8002/metrics'',
     p_metrics_url_specified = False, p_metrics_interval_ms = 1000,
     p_metrics_interval_ms_specified = False, p_overhead_pct_threshold = Fin 50,
     p_input_tensor_format = BINARY_FORMAT,
     p_output_tensor_format = BINARY_FORMAT, p_profile_export_file = [],
     p_periodic_concurrency_range = unit_range, p_request_period = 10, p_warmup_request_count = 0,
     p_session_concurrency = 0, p_grpc_method = []\<rparr>"

record cl_env =
  stat_mode :: "string \<Rightarrow> nat option"
  json_docs :: "string \<Rightarrow> json option option"
  json_error :: "string \<Rightarrow> nat"
  gpu_enabled :: bool
  mpi_init :: "exn + unit"
  mpi_is_run :: "exn + bool"

text \<open>The file tests look at single bits of the mode that \<open>stat\<close> fills in.\<close>

definition IsDirectory :: "cl_env \<Rightarrow> string \<Rightarrow> bool" where
  "IsDirectory env path = (case stat_mode env path of None \<Rightarrow> False | Some m \<Rightarrow> odd (m div 0x4000))"

definition IsFile :: "cl_env \<Rightarrow> string \<Rightarrow> bool" where
  "IsFile env path = (case stat_mode env path of None \<Rightarrow> False | Some m \<Rightarrow> odd (m div 0x8000))"

definition is_regular_file :: "cl_env \<Rightarrow> string \<Rightarrow> bool" where
  "is_regular_file env path = (stat_mode env path \<noteq> None \<and> the (stat_mode env path) div 0x1000 mod 16 = 8)"

definition IsMPIRun :: "cl_env \<Rightarrow> pa_params \<Rightarrow> exn + bool" where
  "IsMPIRun env p = (if p_enable_mpi p then mpi_is_run env else Inr False)"

section \<open>Shared parts of the options\<close>

definition Usage :: "string \<Rightarrow> exn + 'a" where
  "Usage msg = Inl (PerfAnalyzerException [] GENERIC_ERROR)"

function split_from :: "string \<Rightarrow> string \<Rightarrow> nat \<Rightarrow> exn + string list" where
  "split_from str delimiter pos =
     (case str_find str delimiter pos of
        None \<Rightarrow> bindR (substr str pos None) (\<lambda>s. Inr [s])
      | Some colon_pos \<Rightarrow>
          bindR (substr str pos (Some colon_pos)) (\<lambda>s.
            bindR (split_from str delimiter (colon_pos + 1)) (\<lambda>ss. Inr (s # ss))))"
  by pat_completeness auto
termination
  by (relation "measure (\<lambda>(str, _, pos). Suc (length str) - pos)") (auto dest: str_find_bounds)

declare split_from.simps [simp del]

definition SplitString :: "string \<Rightarrow> string \<Rightarrow> exn + string list" where
  "SplitString str delimiter = split_from str delimiter 0"

definition ToLowerCase :: "string \<Rightarrow> string" where
  "ToLowerCase s = map tolower s"

text \<open>The enumerator \<open>RequestRate\<close> has no case.\<close>

definition mode_to_string :: "inference_load_mode \<Rightarrow> exn + string" where
  "mode_to_string m =
     (case m of
        NoLoadMode \<Rightarrow> Inr ''None''
      | ConcurrencyMode \<Rightarrow> Inr ''Concurrency''
      | CustomIntervalsMode \<Rightarrow> Inr ''CustomIntervals''
      | PeriodicConcurrencyMode \<Rightarrow> Inr ''PeriodicConcurrency''
      | SessionConcurrencyMode \<Rightarrow> Inr ''SessionConcurrency''
      | FixedScheduleMode \<Rightarrow> Inr ''FixedSchedule''
      | RequestRateMode \<Rightarrow> Inl (InvalidArgument ''Invalid InferenceLoadMode value''))"

text \<open>\<open>optarg\<close> is null for an option without an argument.\<close>

fun with_arg :: "string option \<Rightarrow> (string \<Rightarrow> exn + 'a) \<Rightarrow> exn + 'a" where
  "with_arg None f = Inl (UndefinedBehaviour ''null optarg'')"
| "with_arg (Some a) f = f a"

text \<open>An option that chooses the load mode is refused once another one has.\<close>

definition choose_mode :: "inference_load_mode \<Rightarrow> string \<Rightarrow> pa_params \<Rightarrow> exn + pa_params" where
  "choose_mode m name p =
     (if p_load_mode p \<noteq> NoLoadMode then
        bindR (mode_to_string (p_load_mode p)) (\<lambda>other.
          Usage (''Cannot use both '' @ other @ '' and '' @ name @ '' inference load modes.''))
      else Inr (p\<lparr>p_load_mode := m\<rparr>))"

text \<open>\<open>if (std::stoi(arg) > 0) ... std::stoull(arg) ... else Usage(...)\<close>.\<close>

definition positive_arg :: "string \<Rightarrow> string \<Rightarrow> exn + u64" where
  "positive_arg msg a = bindR (stoi a) (\<lambda>i. if i > 0 then stoull a else Usage msg)"

text \<open>The values of \<open>start:end:step\<close>, those given.\<close>

definition assign_range :: "string list \<Rightarrow> range \<Rightarrow> exn + range" where
  "assign_range values r =
     bindR (mapR stoull values) (\<lambda>vs.
       Inr (r\<lparr>range_start := (if 0 < length vs then vs ! 0 else range_start r),
              range_end := (if 1 < length vs then vs ! 1 else range_end r),
              range_step := (if 2 < length vs then vs ! 2 else range_step r)\<rparr>))"

type_synonym option_case = "cl_env \<Rightarrow> string option \<Rightarrow> pa_params \<Rightarrow> exn + pa_params"

definition flag :: "(pa_params \<Rightarrow> pa_params) \<Rightarrow> option_case" where
  "flag f env arg p = Inr (f p)"

definition text_arg :: "(string \<Rightarrow> pa_params \<Rightarrow> pa_params) \<Rightarrow> option_case" where
  "text_arg f env arg p = with_arg arg (\<lambda>a. Inr (f a p))"

definition positive_option :: "string \<Rightarrow> (u64 \<Rightarrow> pa_params \<Rightarrow> pa_params) \<Rightarrow> option_case" where
  "positive_option msg f env arg p = with_arg arg (\<lambda>a. bindR (positive_arg msg a) (\<lambda>n. Inr (f n p)))"

definition file_option :: "string \<Rightarrow> (string \<Rightarrow> pa_params \<Rightarrow> pa_params) \<Rightarrow> option_case" where
  "file_option msg f env arg p = with_arg arg (\<lambda>a. if IsFile env a then Inr (f a p) else Usage msg)"

text \<open>An option whose value is one of some words.\<close>

definition word_option :: "string \<Rightarrow> (string \<times> (pa_params \<Rightarrow> pa_params)) list \<Rightarrow> option_case" where
  "word_option msg ws env arg p =
     with_arg arg (\<lambda>a. case map_of ws a of Some f \<Rightarrow> Inr (f p) | None \<Rightarrow> Usage msg)"

section \<open>The options\<close>

definition opt_streaming :: option_case where
  "opt_streaming = flag (\<lambda>p. p\<lparr>p_streaming := True\<rparr>)"

definition opt_max_threads :: option_case where
  "opt_max_threads = positive_option ''Failed to parse --max-threads. The value must be > 0.''
     (\<lambda>n p. p\<lparr>p_max_threads := n, p_max_threads_specified := True\<rparr>)"

definition opt_sequence_length :: option_case where
  "opt_sequence_length env arg p =
     with_arg arg (\<lambda>a. bindR (stoi a) (\<lambda>i.
       bindR (if i > 0 then bindR (stoull a) (\<lambda>n. Inr (p\<lparr>p_sequence_length := n\<rparr>)) else Inr p) (\<lambda>p'.
         Inr (p'\<lparr>p_sequence_length_specified := True\<rparr>))))"

definition opt_percentile :: option_case where
  "opt_percentile = text_arg (\<lambda>a p. p\<lparr>p_percentile := atoi a\<rparr>)"

definition opt_data_directory :: option_case where
  "opt_data_directory = text_arg (\<lambda>a p. p\<lparr>p_user_data := p_user_data p @ [a]\<rparr>)"

definition parse_dims :: "string \<Rightarrow> exn + int list" where
  "parse_dims shape_str =
     mapR (\<lambda>s. bindR (stoll s) (\<lambda>dim.
       if dim \<le> 0 then Usage ''Failed to parse --shape. The dimensions of input tensor must be > 0.''
       else Inr dim)) (pieces (CHR '','') shape_str)"

definition opt_shape :: option_case where
  "opt_shape env arg p =
     with_arg arg (\<lambda>a.
       case str_rfind a (CHR '':'') of
         None \<Rightarrow> Usage ''Failed to parse --shape. There must be a colon after input name.''
       | Some colon_pos \<Rightarrow>
           bindR (substr a 0 (Some colon_pos)) (\<lambda>name.
             bindR (substr a (length name + 1) None) (\<lambda>shape_str.
               bindR (parse_dims shape_str) (\<lambda>shape.
                 Inr (p\<lparr>p_input_shapes := map_assign name shape (p_input_shapes p)\<rparr>)))))"

definition opt_measurement_interval :: option_case where
  "opt_measurement_interval = positive_option
     ''Failed to parse --measurement-interval (-p). The value must be > 0 msec.''
     (\<lambda>n p. p\<lparr>p_measurement_window_ms := n\<rparr>)"

definition opt_concurrency_range :: option_case where
  "opt_concurrency_range env arg p =
     bindR (choose_mode ConcurrencyMode ''Concurrency'' p) (\<lambda>p'.
       with_arg arg (\<lambda>a. bindR (SplitString a '':'') (\<lambda>values.
         if length values > 3 then
           Usage ''Failed to parse --concurrency-range. The value does not match <start:end:step>.''
         else bindR (assign_range values (p_concurrency_range p')) (\<lambda>r.
           Inr (p'\<lparr>p_concurrency_range := r\<rparr>)))))"

definition opt_latency_threshold :: option_case where
  "opt_latency_threshold env arg p =
     with_arg arg (\<lambda>a. bindR (stoi a) (\<lambda>i.
       if i = 0 then Inr (p\<lparr>p_latency_threshold_ms := NO_LIMIT\<rparr>)
       else if i > 0 then bindR (stoull a) (\<lambda>n. Inr (p\<lparr>p_latency_threshold_ms := n\<rparr>))
       else Usage ''Failed to parse --latency-threshold (-l). The value must be >= 0 msecs.''))"

definition opt_stability_percentage :: option_case where
  "opt_stability_percentage env arg p =
     with_arg arg (\<lambda>a. bindR (stof a) (\<lambda>x.
       if ieee_le (Fin 0) x then Inr (p\<lparr>p_stability_threshold := ieee_div binary32 x (Fin 100)\<rparr>)
       else Usage ''Failed to parse --stability-percentage (-s). The value must be >= 0.0.''))"

definition opt_max_trials :: option_case where
  "opt_max_trials = positive_option ''Failed to parse --max-trials (-r). The value must be > 0.''
     (\<lambda>n p. p\<lparr>p_max_trials := n\<rparr>)"

definition opt_input_data :: option_case where
  "opt_input_data env arg p =
     with_arg arg (\<lambda>a.
       if IsDirectory env a \<or> IsFile env a then Inr (p\<lparr>p_user_data := p_user_data p @ [a]\<rparr>)
       else if a = ''zero'' then Inr (p\<lparr>p_zero_input := True\<rparr>)
       else if a = ''random'' then Inr p
       else Usage (''Failed to parse --input-data. Unsupported type provided: '' @ a))"

definition opt_string_length :: option_case where
  "opt_string_length = positive_option ''Failed to parse --string-length. The value must be > 0''
     (\<lambda>n p. p\<lparr>p_string_length := n\<rparr>)"

definition opt_string_data :: option_case where
  "opt_string_data = text_arg (\<lambda>a p. p\<lparr>p_string_data := a\<rparr>)"

definition opt_async :: option_case where
  "opt_async = flag (\<lambda>p. p\<lparr>p_async := True\<rparr>)"

definition opt_sync :: option_case where
  "opt_sync = flag (\<lambda>p. p\<lparr>p_forced_sync := True\<rparr>)"

text \<open>The third value is the last: \<open>index\<close> is checked before it is used.\<close>

definition opt_request_rate_range :: option_case where
  "opt_request_rate_range env arg p =
     bindR (choose_mode RequestRateMode ''RequestRate'' p) (\<lambda>p'.
       with_arg arg (\<lambda>a.
         bindR (foldR (\<lambda>(index, r) s.
                  if index > 2 then
                    Usage ''Failed to parse --request-rate-range. The value does not match <start:end:step>.''
                  else bindR (stod s) (\<lambda>x. Inr (index + 1, r[index := x])))
                (0, p_request_rate_range p') (pieces (CHR '':'') a)) (\<lambda>(_, r).
           Inr (p'\<lparr>p_request_rate_range := r\<rparr>))))"

definition opt_num_of_sequences :: option_case where
  "opt_num_of_sequences env arg p =
     with_arg arg (\<lambda>a. bindR (stoi a) (\<lambda>i.
       if i > 0 then bindR (stoul a) (\<lambda>n. Inr (p\<lparr>p_num_of_sequences := ucast n\<rparr>))
       else Usage ''Failed to parse --num-of-sequences. The value must be > 0.''))"

definition opt_binary_search :: option_case where
  "opt_binary_search = flag (\<lambda>p. p\<lparr>p_search_mode := BINARY\<rparr>)"

definition opt_request_distribution :: option_case where
  "opt_request_distribution = word_option
     ''Failed to parse --request-distribution. Unsupported type provided.''
     [(''poisson'', \<lambda>p. p\<lparr>p_request_distribution := POISSON\<rparr>),
      (''constant'', \<lambda>p. p\<lparr>p_request_distribution := CONSTANT\<rparr>)]"

definition opt_request_intervals :: option_case where
  "opt_request_intervals env arg p =
     bindR (choose_mode CustomIntervalsMode ''CustomIntervals'' p)
       (file_option ''Failed to parse --request-intervals. The value must be a valid file path''
          (\<lambda>a p'. p'\<lparr>p_request_intervals_file := a\<rparr>) env arg)"

definition opt_shared_memory :: option_case where
  "opt_shared_memory env arg p =
     with_arg arg (\<lambda>a.
       if a = ''system'' then Inr (p\<lparr>p_shared_memory_type := SYSTEM_SHARED_MEMORY\<rparr>)
       else if a = ''cuda'' then
         (if gpu_enabled env then Inr (p\<lparr>p_shared_memory_type := CUDA_SHARED_MEMORY\<rparr>)
          else Usage ''CUDA shared memory is not supported when building with TRITON_ENABLE_GPU=OFF'')
       else if a = ''none'' then Inr (p\<lparr>p_shared_memory_type := NO_SHARED_MEMORY\<rparr>)
       else Usage (''Failed to parse --shared-memory. Unsupported type provided: '' @ a))"

definition opt_output_shm_size :: option_case where
  "opt_output_shm_size env arg p =
     with_arg arg (\<lambda>a. bindR (stoi a) (\<lambda>i.
       if i \<ge> 0 then bindR (stoull a) (\<lambda>n. Inr (p\<lparr>p_output_shm_size := n\<rparr>))
       else Usage ''Failed to parse --output-shared-memory-size. The value must be >= 0.''))"

definition opt_service_kind :: option_case where
  "opt_service_kind = word_option ''Failed to parse --service-kind. Unsupported type provided.''
     [(''triton'', \<lambda>p. p\<lparr>p_kind := TRITON\<rparr>), (''tfserving'', \<lambda>p. p\<lparr>p_kind := TENSORFLOW_SERVING\<rparr>),
      (''torchserve'', \<lambda>p. p\<lparr>p_kind := TORCHSERVE\<rparr>), (''triton_c_api'', \<lambda>p. p\<lparr>p_kind := TRITON_C_API\<rparr>),
      (''openai'', \<lambda>p. p\<lparr>p_kind := OPENAI\<rparr>), (''dynamic_grpc'', \<lambda>p. p\<lparr>p_kind := DYNAMIC_GRPC\<rparr>)]"

definition opt_model_signature_name :: option_case where
  "opt_model_signature_name = text_arg (\<lambda>a p. p\<lparr>p_model_signature_name := a\<rparr>)"

definition opt_grpc_compression :: option_case where
  "opt_grpc_compression = word_option
     ''Failed to parse --grpc-compression-algorithm. Unsupported type provided.''
     [(''none'', \<lambda>p. p\<lparr>p_compression_algorithm := COMPRESS_NONE, p_using_grpc_compression := True\<rparr>),
      (''deflate'', \<lambda>p. p\<lparr>p_compression_algorithm := COMPRESS_DEFLATE, p_using_grpc_compression := True\<rparr>),
      (''gzip'', \<lambda>p. p\<lparr>p_compression_algorithm := COMPRESS_GZIP, p_using_grpc_compression := True\<rparr>)]"

definition opt_measurement_mode :: option_case where
  "opt_measurement_mode = word_option ''Failed to parse --measurement-mode. Unsupported type provided.''
     [(''time_windows'', \<lambda>p. p\<lparr>p_measurement_mode := TIME_WINDOWS\<rparr>),
      (''count_windows'', \<lambda>p. p\<lparr>p_measurement_mode := COUNT_WINDOWS\<rparr>)]"

definition opt_measurement_request_count :: option_case where
  "opt_measurement_request_count = positive_option
     ''Failed to parse --measurement-request-count. The value must be > 0.''
     (\<lambda>n p. p\<lparr>p_measurement_request_count := n\<rparr>)"

definition opt_triton_server_directory :: option_case where
  "opt_triton_server_directory = text_arg (\<lambda>a p. p\<lparr>p_triton_server_path := a\<rparr>)"

definition opt_model_repository :: option_case where
  "opt_model_repository = text_arg (\<lambda>a p. p\<lparr>p_model_repository_path := a\<rparr>)"

text \<open>
  \<open>start:end\<close>: every part but the last is read as the start; the last is the start when it
  is the only one and the end otherwise. \<open>start_id\<close> is not set before the first part.
\<close>

fun read_id_range :: "nat \<Rightarrow> int \<Rightarrow> int \<Rightarrow> string list \<Rightarrow> exn + nat \<times> int \<times> int" where
  "read_id_range idx start_id end_id [] = Inr (idx, start_id, end_id)"
| "read_id_range idx start_id end_id (s # ss) =
     (if idx > 1 then
        Usage ''Failed to parse --sequence-id-range. The value does not match <start:end>.''
      else bindR (stoi s) (\<lambda>i.
        if ss = [] then
          (if idx = 0 then Inr (idx, i, end_id) else Inr (idx, start_id, i))
        else read_id_range (idx + 1) i end_id ss))"

definition opt_sequence_id_range :: option_case where
  "opt_sequence_id_range env arg p =
     with_arg arg (\<lambda>a.
       bindR (read_id_range 0 0 (2 ^ 63 - 1) (pieces (CHR '':'') a)) (\<lambda>(idx, start_id, end_id).
         if start_id < 0 \<or> end_id < 0 then
           Usage ''Failed to parse --sequence-id-range. The range values must be >= 0.''
         else if start_id > end_id then
           Usage ''Failed to parse --sequence-id-range. The end value must be greater than start value.''
         else if idx = 0 then Inr (p\<lparr>p_start_sequence_id := word_of_int start_id\<rparr>)
         else Inr (p\<lparr>p_start_sequence_id := word_of_int start_id,
                     p_sequence_id_range := word_of_int (end_id - start_id)\<rparr>)))"

definition opt_grpc_use_ssl :: option_case where
  "opt_grpc_use_ssl = flag (\<lambda>p. p\<lparr>p_ssl_options := p_ssl_options p\<lparr>ssl_grpc_use_ssl := True\<rparr>\<rparr>)"

definition opt_grpc_root_certifications :: option_case where
  "opt_grpc_root_certifications = file_option
     ''Failed to parse --ssl-grpc-root-certifications-file. The value must be a valid file path.''
     (\<lambda>a p. p\<lparr>p_ssl_options := p_ssl_options p\<lparr>ssl_grpc_root_certifications_file := a\<rparr>\<rparr>)"

definition opt_grpc_private_key :: option_case where
  "opt_grpc_private_key = file_option
     ''Failed to parse --ssl-grpc-private-key-file. The value must be a valid file path.''
     (\<lambda>a p. p\<lparr>p_ssl_options := p_ssl_options p\<lparr>ssl_grpc_private_key_file := a\<rparr>\<rparr>)"

definition opt_grpc_certificate_chain :: option_case where
  "opt_grpc_certificate_chain = file_option
     ''Failed to parse --ssl-grpc-certificate-chain-file. The value must be a valid file path.''
     (\<lambda>a p. p\<lparr>p_ssl_options := p_ssl_options p\<lparr>ssl_grpc_certificate_chain_file := a\<rparr>\<rparr>)"

definition opt_https_verify_peer :: option_case where
  "opt_https_verify_peer env arg p =
     with_arg arg (\<lambda>a.
       if atol a = 0 \<or> atol a = 1 then
         Inr (p\<lparr>p_ssl_options := p_ssl_options p\<lparr>ssl_https_verify_peer := atol a\<rparr>\<rparr>)
       else Usage ''Failed to parse --ssl-https-verify-peer. The value must be either 0 or 1.'')"

definition opt_https_verify_host :: option_case where
  "opt_https_verify_host env arg p =
     with_arg arg (\<lambda>a.
       if atol a = 0 \<or> atol a = 1 \<or> atol a = 2 then
         Inr (p\<lparr>p_ssl_options := p_ssl_options p\<lparr>ssl_https_verify_host := atol a\<rparr>\<rparr>)
       else Usage ''Failed to parse --ssl-https-verify-host. The value must be either 0, 1, or 2.'')"

definition opt_https_ca_certificates :: option_case where
  "opt_https_ca_certificates = file_option
     ''Failed to parse --ssl-https-ca-certificates-file. The value must be a valid file path.''
     (\<lambda>a p. p\<lparr>p_ssl_options := p_ssl_options p\<lparr>ssl_https_ca_certificates_file := a\<rparr>\<rparr>)"

definition opt_https_client_certificate :: option_case where
  "opt_https_client_certificate = file_option
     ''Failed to parse --ssl-https-client-certificate-file. The value must be a valid file path.''
     (\<lambda>a p. p\<lparr>p_ssl_options := p_ssl_options p\<lparr>ssl_https_client_certificate_file := a\<rparr>\<rparr>)"

definition opt_https_client_certificate_type :: option_case where
  "opt_https_client_certificate_type env arg p =
     with_arg arg (\<lambda>a.
       if a = ''PEM'' \<or> a = ''DER'' then Inr (p\<lparr>p_ssl_options := p_ssl_options p\<lparr>ssl_https_client_certificate_type := a\<rparr>\<rparr>)
       else Usage ''Failed to parse --ssl-https-client-certificate-type. Unsupported type provided.'')"

definition opt_https_private_key :: option_case where
  "opt_https_private_key = file_option
     ''Failed to parse --ssl-https-private-key-file. The value must be a valid file path.''
     (\<lambda>a p. p\<lparr>p_ssl_options := p_ssl_options p\<lparr>ssl_https_private_key_file := a\<rparr>\<rparr>)"

definition opt_https_private_key_type :: option_case where
  "opt_https_private_key_type env arg p =
     with_arg arg (\<lambda>a.
       if a = ''PEM'' \<or> a = ''DER'' then Inr (p\<lparr>p_ssl_options := p_ssl_options p\<lparr>ssl_https_private_key_type := a\<rparr>\<rparr>)
       else Usage ''Failed to parse --ssl-https-private-key-type. Unsupported type provided.'')"

definition opt_verbose_csv :: option_case where
  "opt_verbose_csv = flag (\<lambda>p. p\<lparr>p_verbose_csv := True\<rparr>)"

definition opt_enable_mpi :: option_case where
  "opt_enable_mpi = flag (\<lambda>p. p\<lparr>p_enable_mpi := True\<rparr>)"

definition set_trace :: "string \<Rightarrow> string \<Rightarrow> pa_params \<Rightarrow> pa_params" where
  "set_trace key v p = p\<lparr>p_trace_options := map_assign key [v] (p_trace_options p)\<rparr>"

definition opt_trace_level :: option_case where
  "opt_trace_level env arg p =
     with_arg arg (\<lambda>a.
       if a = ''OFF'' \<or> a = ''TIMESTAMPS'' \<or> a = ''TENSORS'' then Inr (set_trace ''trace_level'' a p)
       else Usage (''Failed to parse --trace-level. Unsupported type provided: '' @ a))"

definition opt_trace_rate :: option_case where
  "opt_trace_rate = text_arg (set_trace ''trace_rate'')"

definition opt_trace_count :: option_case where
  "opt_trace_count env arg p =
     with_arg arg (\<lambda>a. bindR (stoi a) (\<lambda>i.
       if i \<ge> - 1 then Inr (set_trace ''trace_count'' a p)
       else Usage ''Failed to parse --trace-count. The value must be >= 0 or set to -1 (default).''))"

definition opt_log_frequency :: option_case where
  "opt_log_frequency env arg p =
     with_arg arg (\<lambda>a. bindR (stoi a) (\<lambda>i.
       if i \<ge> 0 then Inr (set_trace ''log_frequency'' a p)
       else Usage ''Failed to parse --log-frequency. The value must be >= 0.''))"

definition opt_collect_metrics :: option_case where
  "opt_collect_metrics = flag (\<lambda>p. p\<lparr>p_should_collect_metrics := True\<rparr>)"

definition opt_metrics_url :: option_case where
  "opt_metrics_url = text_arg (\<lambda>a p. p\<lparr>p_metrics_url := a, p_metrics_url_specified := True\<rparr>)"

definition opt_metrics_interval :: option_case where
  "opt_metrics_interval = positive_option ''Failed to parse --metrics-interval. The value must be > 0 msecs.''
     (\<lambda>n p. p\<lparr>p_metrics_interval_ms := n, p_metrics_interval_ms_specified := True\<rparr>)"

definition opt_sequence_length_variation :: option_case where
  "opt_sequence_length_variation env arg p =
     with_arg arg (\<lambda>a. bindR (stod a) (\<lambda>x. Inr (p\<lparr>p_sequence_length_variation := x\<rparr>)))"

text \<open>\<open>getline\<close> up to a comma while the stream is good: the parts between the commas.\<close>

definition composing_model :: "string \<Rightarrow> exn + model_identifier" where
  "composing_model s =
     (case str_find s '':'' 0 of
        None \<Rightarrow> Inr (s, [])
      | Some colon_pos \<Rightarrow>
          bindR (substr s 0 (Some colon_pos)) (\<lambda>name.
            bindR (substr s (colon_pos + 1) None) (\<lambda>version. Inr (name, version))))"

definition opt_bls_composing_models :: option_case where
  "opt_bls_composing_models env arg p =
     with_arg arg (\<lambda>a.
       bindR (mapR composing_model (pieces (CHR '','') (filter (\<lambda>c. \<not> is_space c) a))) (\<lambda>ms.
         Inr (p\<lparr>p_bls_composing_models := p_bls_composing_models p @ ms\<rparr>)))"

definition opt_serial_sequences :: option_case where
  "opt_serial_sequences = flag (\<lambda>p. p\<lparr>p_serial_sequences := True\<rparr>)"

definition opt_input_tensor_format :: option_case where
  "opt_input_tensor_format env arg p =
     with_arg arg (\<lambda>a.
       if ParseTensorFormat a = UNKNOWN_FORMAT then
         Usage ''Failed to parse --input-tensor-format. Unsupported type provided.''
       else Inr (p\<lparr>p_input_tensor_format := ParseTensorFormat a\<rparr>))"

definition opt_output_tensor_format :: option_case where
  "opt_output_tensor_format env arg p =
     with_arg arg (\<lambda>a.
       if ParseTensorFormat a = UNKNOWN_FORMAT then
         Usage ''Failed to parse --output-tensor-format. Unsupported type provided.''
       else Inr (p\<lparr>p_output_tensor_format := ParseTensorFormat a\<rparr>))"

definition opt_profile_export_file :: option_case where
  "opt_profile_export_file env arg p =
     with_arg arg (\<lambda>a.
       if IsFile env a \<or> IsDirectory env a then
         Usage ''Failed to parse --profile-export-file. Path must not already exist.''
       else Inr (p\<lparr>p_profile_export_file := a\<rparr>))"

definition check_periodic :: "range \<Rightarrow> exn + unit" where
  "check_periodic r =
     (if range_step r = 0 then
        Usage ''Failed to parse --periodic-concurrency-range. The <step> value must be > 0.''
      else if range_start r > range_end r then
        Usage ''Failed to parse --periodic-concurrency-range. The <start> must be <= <end>.''
      else if (range_end r - range_start r) mod range_step r \<noteq> 0 then
        Usage ''Failed to parse --periodic-concurrency-range. The <step> value must be a factor of the range size (<end> - <start>).''
      else Inr ())"

definition opt_periodic_concurrency_range :: option_case where
  "opt_periodic_concurrency_range env arg p =
     bindR (choose_mode PeriodicConcurrencyMode ''PeriodicConcurrency'' p) (\<lambda>p'.
       with_arg arg (\<lambda>a. bindR (SplitString a '':'') (\<lambda>values.
         if length values < 2 then
           Usage ''Failed to parse --periodic-concurrency-range. Both <start> and <end> values must be provided.''
         else if length values > 3 then
           Usage ''Failed to parse --periodic-concurrency-range. The value does not match <start:end:step>.''
         else bindR (assign_range values (p_periodic_concurrency_range p')) (\<lambda>r.
           bindR (check_periodic r) (\<lambda>_. Inr (p'\<lparr>p_periodic_concurrency_range := r\<rparr>))))))"

definition opt_request_period :: option_case where
  "opt_request_period = positive_option ''Failed to parse --request-period. The value must be > 0''
     (\<lambda>n p. p\<lparr>p_request_period := n\<rparr>)"

definition opt_request_parameter :: option_case where
  "opt_request_parameter env arg p =
     with_arg arg (\<lambda>a. bindR (SplitString a '':'') (\<lambda>values.
       if length values \<noteq> 3 then
         Usage ''Failed to parse --request-parameter. The value does not match <name:value:type>.''
       else Inr (p\<lparr>p_request_parameters := map_assign (values ! 0)
         \<lparr>rp_name = values ! 0, rp_value = values ! 1, rp_type = ToLowerCase (values ! 2)\<rparr>
         (p_request_parameters p)\<rparr>)))"

definition opt_endpoint :: option_case where
  "opt_endpoint = text_arg (\<lambda>a p. p\<lparr>p_endpoint := a\<rparr>)"

text \<open>The first request count stands.\<close>

definition opt_request_count :: option_case where
  "opt_request_count env arg p =
     with_arg arg (\<lambda>a. bindR (stoi a) (\<lambda>i.
       if i \<le> 0 then Usage ''Failed to parse --request-count. The value must be > 0.''
       else if p_request_count p = 0 then Inr (p\<lparr>p_request_count := word_of_int i\<rparr>)
       else Inr p))"

definition opt_warmup_request_count :: option_case where
  "opt_warmup_request_count env arg p =
     with_arg arg (\<lambda>a. bindR (stoi a) (\<lambda>i.
       if i < 0 then Usage ''Failed to parse --warmup-request-count. The value must be >= 0.''
       else Inr (p\<lparr>p_warmup_request_count := word_of_int i\<rparr>)))"

definition opt_fixed_schedule :: option_case where
  "opt_fixed_schedule env arg p = choose_mode FixedScheduleMode ''FixedSchedule'' p"

definition opt_session_concurrency :: option_case where
  "opt_session_concurrency env arg p =
     bindR (choose_mode SessionConcurrencyMode ''SessionConcurrency'' p) (\<lambda>p'.
       with_arg arg (\<lambda>a. bindR (stoull a) (\<lambda>n.
         if n = 0 then Usage ''Failed to parse --session-concurrency. Session concurrency must be > 0.''
         else Inr (p'\<lparr>p_session_concurrency := n\<rparr>))))"

definition opt_grpc_method :: option_case where
  "opt_grpc_method env arg p =
     with_arg arg (\<lambda>a. bindR (SplitString a ''/'') (\<lambda>components.
       if length components \<noteq> 2 then
         Usage ''Received gRPC method name that does not match the format: <package>.<service>/<method>.''
       else Inr (p\<lparr>p_grpc_method := a\<rparr>)))"

section \<open>The short options\<close>

definition opt_v :: option_case where
  "opt_v = flag (\<lambda>p. p\<lparr>p_extra_verbose := p_verbose p, p_verbose := True\<rparr>)"

definition opt_z :: option_case where
  "opt_z = flag (\<lambda>p. p\<lparr>p_zero_input := True\<rparr>)"

text \<open>The deprecated options do not set the load mode themselves.\<close>

definition deprecated_check :: "pa_params \<Rightarrow> exn + pa_params" where
  "deprecated_check p =
     bindR (choose_mode ConcurrencyMode ''DeprecatedConcurrency'' p) (\<lambda>_. Inr p)"

definition opt_d :: option_case where
  "opt_d env arg p = deprecated_check p"

definition opt_t :: option_case where
  "opt_t env arg p =
     bindR (deprecated_check p) (\<lambda>p'. with_arg arg (\<lambda>a. bindR (stoull a) (\<lambda>n.
       Inr (p'\<lparr>p_concurrency_range := p_concurrency_range p'\<lparr>range_start := n\<rparr>\<rparr>))))"

definition opt_c :: option_case where
  "opt_c env arg p =
     bindR (deprecated_check p) (\<lambda>p'. with_arg arg (\<lambda>a. bindR (stoull a) (\<lambda>n.
       Inr (p'\<lparr>p_concurrency_range := p_concurrency_range p'\<lparr>range_end := n\<rparr>\<rparr>))))"

definition opt_u :: option_case where
  "opt_u = text_arg (\<lambda>a p. p\<lparr>p_url_specified := True, p_url := a\<rparr>)"

definition opt_m :: option_case where
  "opt_m = text_arg (\<lambda>a p. p\<lparr>p_model_name := a\<rparr>)"

definition opt_x :: option_case where
  "opt_x = text_arg (\<lambda>a p. p\<lparr>p_model_version := a\<rparr>)"

definition opt_b :: option_case where
  "opt_b = positive_option ''Failed to parse -b (batch size). The value must be > 0.''
     (\<lambda>n p. p\<lparr>p_batch_size := n, p_using_batch_size := True\<rparr>)"

definition opt_i :: option_case where
  "opt_i = text_arg (\<lambda>a p. p\<lparr>p_protocol := ParseProtocol a\<rparr>)"

definition opt_H :: option_case where
  "opt_H env arg p =
     with_arg arg (\<lambda>a.
       bindR (substr a 0 (str_find a '':'' 0)) (\<lambda>header.
         bindR (substr a (length header + 1) None) (\<lambda>value.
           Inr (p\<lparr>p_http_headers := map_assign header value (p_http_headers p)\<rparr>))))"

definition opt_f :: option_case where
  "opt_f = text_arg (\<lambda>a p. p\<lparr>p_filename := a\<rparr>)"

section \<open>The switch\<close>

text \<open>The long options and whether they take an argument; their codes start at 256.\<close>

definition long_options :: "(string \<times> bool) list" where
  "long_options =
     [(''streaming'', False), (''max-threads'', True), (''sequence-length'', True),
      (''percentile'', True), (''data-directory'', True), (''shape'', True),
      (''measurement-interval'', True), (''concurrency-range'', True),
      (''latency-threshold'', True), (''stability-percentage'', True), (''max-trials'', True),
      (''input-data'', True), (''string-length'', True), (''string-data'', True),
      (''async'', False), (''sync'', False), (''request-rate-range'', True),
      (''num-of-sequences'', True), (''binary-search'', False), (''request-distribution'', True),
      (''request-intervals'', True), (''shared-memory'', True),
      (''output-shared-memory-size'', True), (''service-kind'', True),
      (''model-signature-name'', True), (''grpc-compression-algorithm'', True),
      (''measurement-mode'', True), (''measurement-request-count'', True),
      (''triton-server-directory'', True), (''model-repository'', True),
      (''sequence-id-range'', True), (''ssl-grpc-use-ssl'', False),
      (''ssl-grpc-root-certifications-file'', True), (''ssl-grpc-private-key-file'', True),
      (''ssl-grpc-certificate-chain-file'', True), (''ssl-https-verify-peer'', True),
      (''ssl-https-verify-host'', True), (''ssl-https-ca-certificates-file'', True),
      (''ssl-https-client-certificate-file'', True),
      (''ssl-https-client-certificate-type'', True), (''ssl-https-private-key-file'', True),
      (''ssl-https-private-key-type'', True), (''verbose-csv'', False), (''enable-mpi'', False),
      (''trace-level'', True), (''trace-rate'', True), (''trace-count'', True),
      (''log-frequency'', True), (''collect-metrics'', False), (''metrics-url'', True),
      (''metrics-interval'', True), (''sequence-length-variation'', True),
      (''bls-composing-models'', True), (''serial-sequences'', False),
      (''input-tensor-format'', True), (''output-tensor-format'', True), (''version'', False),
      (''profile-export-file'', True), (''periodic-concurrency-range'', True),
      (''request-period'', True), (''request-parameter'', True), (''endpoint'', True),
      (''request-count'', True), (''warmup-request-count'', True), (''fixed-schedule'', False),
      (''session-concurrency'', True), (''grpc-method'', True)]"

definition long_cases :: "(nat \<times> option_case) list" where
  "long_cases =
     [(256, opt_streaming), (257, opt_max_threads), (258, opt_sequence_length),
      (259, opt_percentile), (260, opt_data_directory), (261, opt_shape),
      (262, opt_measurement_interval), (263, opt_concurrency_range), (264, opt_latency_threshold),
      (265, opt_stability_percentage), (266, opt_max_trials), (267, opt_input_data),
      (268, opt_string_length), (269, opt_string_data), (270, opt_async), (271, opt_sync),
      (272, opt_request_rate_range), (273, opt_num_of_sequences), (274, opt_binary_search),
      (275, opt_request_distribution), (276, opt_request_intervals), (277, opt_shared_memory),
      (278, opt_output_shm_size), (279, opt_service_kind), (280, opt_model_signature_name),
      (281, opt_grpc_compression), (282, opt_measurement_mode),
      (283, opt_measurement_request_count), (284, opt_triton_server_directory),
      (285, opt_model_repository), (286, opt_sequence_id_range), (287, opt_grpc_use_ssl),
      (288, opt_grpc_root_certifications), (289, opt_grpc_private_key),
      (290, opt_grpc_certificate_chain), (291, opt_https_verify_peer),
      (292, opt_https_verify_host), (293, opt_https_ca_certificates),
      (294, opt_https_client_certificate), (295, opt_https_client_certificate_type),
      (296, opt_https_private_key), (297, opt_https_private_key_type), (298, opt_verbose_csv),
      (299, opt_enable_mpi), (300, opt_trace_level), (301, opt_trace_rate),
      (302, opt_trace_count), (303, opt_log_frequency), (304, opt_collect_metrics),
      (305, opt_metrics_url), (306, opt_metrics_interval), (307, opt_sequence_length_variation),
      (308, opt_bls_composing_models), (309, opt_serial_sequences),
      (310, opt_input_tensor_format), (311, opt_output_tensor_format),
      (313, opt_profile_export_file), (314, opt_periodic_concurrency_range),
      (315, opt_request_period), (316, opt_request_parameter), (317, opt_endpoint),
      (318, opt_request_count), (319, opt_warmup_request_count), (320, opt_fixed_schedule),
      (321, opt_session_concurrency), (322, opt_grpc_method)]"

text \<open>The short options by their character codes; five of them share a case with a long one.\<close>

definition short_cases :: "(nat \<times> option_case) list" where
  "short_cases =
     [(112, opt_measurement_interval), (108, opt_latency_threshold),
      (115, opt_stability_percentage), (114, opt_max_trials), (97, opt_async), (118, opt_v),
      (122, opt_z), (100, opt_d), (117, opt_u), (109, opt_m), (120, opt_x), (98, opt_b),
      (116, opt_t), (105, opt_i), (72, opt_H), (99, opt_c), (102, opt_f)]"

text \<open>
  A result of \<open>getopt_long\<close>: an option with \<open>optarg\<close>, or \<open>'?'\<close> with \<open>optopt\<close>, \<open>optind > 1\<close>, the
  argument before \<open>optind\<close> and whether \<open>optarg\<close> is null.
\<close>

datatype getopt_result = Opt nat "string option" | Bad nat bool string bool

text \<open>The program ends with a status, or an exception leaves the parser.\<close>

datatype cl_stop = Exit nat | Throw exn

fun liftT :: "exn + 'a \<Rightarrow> cl_stop + 'a" where
  "liftT (Inl e) = Inl (Throw e)"
| "liftT (Inr x) = Inr x"

definition long_option_idx_base :: nat where "long_option_idx_base = 256"

definition option_name :: "nat \<Rightarrow> string" where
  "option_name opt =
     (if opt < long_option_idx_base then ''-'' @ [char_of opt]
      else ''--'' @ fst (long_options ! (opt - long_option_idx_base)))"

text \<open>Only \<open>std::invalid_argument\<close> is caught.\<close>

definition catch_invalid :: "nat \<Rightarrow> string option \<Rightarrow> exn + 'a \<Rightarrow> exn + 'a" where
  "catch_invalid opt optarg r =
     (case r of
        Inl (InvalidArgument _) \<Rightarrow>
          with_arg optarg (\<lambda>a. Usage (''Failed to parse '' @ option_name opt @ ''. Invalid value provided: '' @ a))
      | _ \<Rightarrow> r)"

definition isprint :: "nat \<Rightarrow> bool" where
  "isprint n \<longleftrightarrow> 32 \<le> n \<and> n \<le> 126"

definition bad_option :: "nat \<Rightarrow> bool \<Rightarrow> string \<Rightarrow> bool \<Rightarrow> exn" where
  "bad_option optopt past_first arg null_optarg =
     (let last_arg = (if past_first then arg else []); q = [CHR 0x27]
      in PerfAnalyzerException
           (if optopt \<noteq> 0 \<and> isprint optopt then
              ''Error: Invalid short option '' @ q @ ''-'' @ [char_of optopt] @ q
            else if take 2 last_arg = ''--'' \<and> optopt = 0 then
              ''Error: Invalid long option '' @ q @ last_arg @ q
            else if null_optarg \<and> past_first \<and> take 1 last_arg = ''-'' then
              ''Error: Missing value for option '' @ q @ last_arg @ q
            else ''Error: Unknown command-line argument.'') GENERIC_ERROR)"

definition is_deprecated :: "nat \<Rightarrow> bool" where
  "is_deprecated opt \<longleftrightarrow> opt = 100 \<or> opt = 116 \<or> opt = 99"

definition run_case :: "cl_env \<Rightarrow> nat \<Rightarrow> string option \<Rightarrow> pa_params \<Rightarrow> exn + pa_params" where
  "run_case env opt optarg p =
     (case map_of (long_cases @ short_cases) opt of
        None \<Rightarrow> Inr p
      | Some h \<Rightarrow> catch_invalid opt optarg (h env optarg p))"

definition parse_option :: "cl_env \<Rightarrow> pa_params \<times> bool \<Rightarrow> getopt_result \<Rightarrow> cl_stop + pa_params \<times> bool" where
  "parse_option env st res =
     (case res of
        Bad optopt past_first arg null_optarg \<Rightarrow> Inl (Throw (bad_option optopt past_first arg null_optarg))
      | Opt opt optarg \<Rightarrow>
          if opt = long_option_idx_base + 56 then Inl (Exit SUCCESS)
          else bindR (liftT (run_case env opt optarg (fst st))) (\<lambda>p.
            Inr (p, snd st \<or> is_deprecated opt)))"

section \<open>What the parser derives\<close>

definition DEFAULT_MAX_THREADS :: u64 where "DEFAULT_MAX_THREADS = 16"

definition final_mode :: "pa_params \<times> bool \<Rightarrow> pa_params" where
  "final_mode st =
     (if p_load_mode (fst st) = NoLoadMode \<or> snd st then (fst st)\<lparr>p_load_mode := ConcurrencyMode\<rparr> else fst st)"

definition default_url :: "pa_params \<Rightarrow> pa_params" where
  "default_url p =
     (if \<not> p_url_specified p \<and> p_protocol p = GRPC then
        (if p_kind p = TRITON then p\<lparr>p_url := ''localhost:8001''\<rparr>
         else if p_kind p = TENSORFLOW_SERVING then p\<lparr>p_url := ''localhost:8500''\<rparr> else p)
      else p)"

definition default_threads :: "pa_params \<Rightarrow> pa_params" where
  "default_threads p =
     (if \<not> p_max_threads_specified p \<and> p_load_mode p = ConcurrencyMode
      then p\<lparr>p_max_threads := max DEFAULT_MAX_THREADS (range_end (p_concurrency_range p))\<rparr> else p)"

definition no_search :: "pa_params \<Rightarrow> pa_params" where
  "no_search p = (if p_load_mode p = CustomIntervalsMode then p\<lparr>p_search_mode := NO_SEARCH\<rparr> else p)"

definition fixed_schedule_count :: "cl_env \<Rightarrow> pa_params \<Rightarrow> exn + pa_params" where
  "fixed_schedule_count env p =
     (if p_load_mode p \<noteq> FixedScheduleMode then Inr p
      else if p_request_count p \<noteq> 0 then
        Inl (RuntimeError ''Cannot specify `--request-count` when using `--fixed-schedule`.'')
      else if p_user_data p = [] then
        Inl (RuntimeError ''When using `--fixed-schedule`, you must provide a dataset using `--input-data`.'')
      else if \<not> list_all (is_regular_file env) (p_user_data p) then
        Inl (RuntimeError ''When using `--fixed-schedule`, all paths passed to --input-data must be files.'')
      else bindR (GetDatasetSize (json_docs env) (json_error env) (p_user_data p)) (\<lambda>size.
        let dataset_size = (word_of_nat size :: u64)
        in if dataset_size = 0 then
             Inl (RuntimeError ''The dataset provided is empty.'')
           else if p_warmup_request_count p \<ge> dataset_size then
             Inl (RuntimeError ''The warmup request count must be less than the total number of payloads in the dataset.'')
           else Inr (p\<lparr>p_request_count := dataset_size - p_warmup_request_count p\<rparr>)))"

definition count_windows :: "pa_params \<Rightarrow> pa_params" where
  "count_windows p =
     (if p_request_count p \<noteq> 0
      then p\<lparr>p_measurement_mode := COUNT_WINDOWS, p_measurement_request_count := p_request_count p\<rparr> else p)"

definition derive :: "cl_env \<Rightarrow> pa_params \<times> bool \<Rightarrow> exn + pa_params" where
  "derive env st =
     (let p = final_mode st
      in bindR (if p_enable_mpi p then mpi_init env else Inr ()) (\<lambda>_.
           bindR (fixed_schedule_count env (no_search (default_threads (default_url p)))) (\<lambda>p'.
             Inr (count_windows p'))))"

definition ParseCommandLine :: "cl_env \<Rightarrow> getopt_result list \<Rightarrow> cl_stop + pa_params" where
  "ParseCommandLine env argv =
     bindR (foldR (parse_option env) (PerfAnalyzerParameters, False) argv) (\<lambda>st. liftT (derive env st))"

section \<open>Verification of the options\<close>

definition reject :: "bool \<Rightarrow> string \<Rightarrow> (unit \<Rightarrow> exn + 'a) \<Rightarrow> exn + 'a" where
  "reject c msg k = (if c then Usage msg else k ())"

abbreviation (input) kSTART :: nat where "kSTART \<equiv> 0"
abbreviation (input) kEND :: nat where "kEND \<equiv> 1"
abbreviation (input) kSTEP :: nat where "kSTEP \<equiv> 2"

abbreviation rate_at :: "pa_params \<Rightarrow> nat \<Rightarrow> ieee" where
  "rate_at p i \<equiv> p_request_rate_range p ! i"

definition verify_values :: "pa_params \<Rightarrow> exn + pa_params" where
  "verify_values p =
     reject (p_model_name p = [] \<and> p_kind p \<noteq> DYNAMIC_GRPC)
       ''Failed to parse -m (model name). The value must be specified.'' (\<lambda>_.
     reject (range_start (p_concurrency_range p) \<le> 0) ''The start of the search range must be > 0'' (\<lambda>_.
     reject (ieee_le (rate_at p kSTART) (Fin 0))
       ''Failed to parse --request-rate-range. The start of the search range must be > 0.'' (\<lambda>_.
     reject (p_protocol p = UNKNOWN_PROTOCOL)
       ''Failed to parse -i (protocol). The value should be either HTTP or gRPC.'' (\<lambda>_.
     reject (p_streaming p \<and> p_protocol p \<noteq> GRPC \<and> p_kind p \<noteq> TRITON_C_API)
       ''Streaming is only allowed with gRPC protocol and Triton C API.'' (\<lambda>_.
     reject (p_using_grpc_compression p \<and> p_protocol p \<noteq> GRPC)
       ''Using compression algorithm is only allowed with gRPC protocol.'' (\<lambda>_.
     reject (ieee_lt (p_sequence_length_variation p) (Fin 0))
       ''Failed to parse --sequence-length-variation. The value must be >= 0.0.'' (\<lambda>_.
     let p1 = (if p_start_sequence_id p = 0 then p\<lparr>p_start_sequence_id := 1\<rparr> else p) in
     reject (p_percentile p1 \<noteq> - 1 \<and> (p_percentile p1 > 99 \<or> p_percentile p1 < 1))
       ''Failed to parse --percentile. The value must be -1 for not reporting or in range (0, 100).'' (\<lambda>_.
     reject (p_zero_input p1 \<and> p_user_data p1 \<noteq> [])
       ''The -z flag cannot be set when --data-directory is provided.'' (\<lambda>_.
     reject (p_async p1 \<and> p_forced_sync p1)
       ''Cannot specify --async and --sync simultaneously.'' (\<lambda>_. Inr p1))))))))))"

definition verify_periodic :: "pa_params \<Rightarrow> exn + pa_params" where
  "verify_periodic p =
     (if p_load_mode p = PeriodicConcurrencyMode then
        reject (\<not> p_streaming p)
          ''The --periodic-concurrency-range option requires bi-directional gRPC streaming.'' (\<lambda>_.
        reject (p_profile_export_file p = [])
          ''Must provide --profile-export-file when using the --periodic-concurrency-range option.'' (\<lambda>_.
        if range_end (p_periodic_concurrency_range p) = NO_LIMIT then
          Inr (p\<lparr>p_periodic_concurrency_range :=
                 p_periodic_concurrency_range p\<lparr>range_end := p_max_threads p\<rparr>\<rparr>)
        else
          Inr (p\<lparr>p_max_threads := max (p_max_threads p) (range_end (p_periodic_concurrency_range p))\<rparr>)))
      else Inr p)"

definition verify_multi_model :: "cl_env \<Rightarrow> pa_params \<Rightarrow> exn + pa_params" where
  "verify_multi_model env p =
     reject (p_request_parameters p \<noteq> [] \<and> p_protocol p \<noteq> GRPC)
       ''The --request-parameter option is currently only supported by gRPC protocol.'' (\<lambda>_.
     bindR (if p_load_mode p = RequestRateMode then IsMPIRun env p else Inr False) (\<lambda>mpi_rate.
     reject (mpi_rate \<and> (\<not> ieee_eq (rate_at p kEND) (Fin 1) \<or> \<not> ieee_eq (rate_at p kSTEP) (Fin 1)))
       ''Cannot specify --request-rate-range when in multi-model mode.'' (\<lambda>_.
     bindR (if p_load_mode p = ConcurrencyMode then IsMPIRun env p else Inr False) (\<lambda>mpi_conc.
     reject (mpi_conc \<and> (range_end (p_concurrency_range p) \<noteq> 1 \<or> range_step (p_concurrency_range p) \<noteq> 1))
       ''Cannot specify --concurrency-range when in multi-model mode.'' (\<lambda>_. Inr p)))))"

definition open_ended :: "pa_params \<Rightarrow> bool" where
  "open_ended p \<longleftrightarrow>
     range_end (p_concurrency_range p) = NO_LIMIT \<or> ieee_eq (rate_at p kEND) (Fin 0)"

definition verify_search :: "pa_params \<Rightarrow> exn + pa_params" where
  "verify_search p =
     reject (open_ended p \<and> p_latency_threshold_ms p = NO_LIMIT)
       ''The end of the search range and the latency limit can not be both 0 (or 0.0) simultaneously'' (\<lambda>_.
     reject (open_ended p \<and> p_search_mode p = BINARY)
       ''The end of the range can not be 0 (or 0.0) for binary search mode.'' (\<lambda>_.
     reject (p_search_mode p = BINARY \<and> p_latency_threshold_ms p = NO_LIMIT)
       ''The --latency-threshold cannot be 0 for binary search mode.'' (\<lambda>_.
     reject ((range_end (p_concurrency_range p) < range_start (p_concurrency_range p) \<or>
              ieee_lt (rate_at p kEND) (rate_at p kSTART)) \<and> p_search_mode p = BINARY)
       ''The end of the range can not be less than start of the range for binary search mode.''
       (\<lambda>_. Inr p))))"

definition many_concurrencies :: "pa_params \<Rightarrow> bool" where
  "many_concurrencies p \<longleftrightarrow>
     p_load_mode p = ConcurrencyMode \<and>
     range_start (p_concurrency_range p) < range_end (p_concurrency_range p)"

definition many_rates :: "pa_params \<Rightarrow> bool" where
  "many_rates p \<longleftrightarrow> p_load_mode p = RequestRateMode \<and> ieee_lt (rate_at p kSTART) (rate_at p kEND)"

text \<open>The conversion of a \<open>double\<close> to an \<open>int\<close> is undefined outside the range of \<open>int\<close>.\<close>

definition double_to_int :: "ieee \<Rightarrow> exn + int" where
  "double_to_int x =
     (case ieee_trunc x of
        Some i \<Rightarrow> if - (2 ^ 31) \<le> i \<and> i < 2 ^ 31 then Inr i else Inl (UndefinedBehaviour ''double to int'')
      | None \<Rightarrow> Inl (UndefinedBehaviour ''double to int''))"

definition verify_counts :: "pa_params \<Rightarrow> exn + pa_params" where
  "verify_counts p =
     reject (p_warmup_request_count p \<noteq> 0 \<and> many_concurrencies p)
       ''--warmup-request-count not supported with multiple concurrency values in one run'' (\<lambda>_.
     reject (p_warmup_request_count p \<noteq> 0 \<and> many_rates p)
       ''--warmup-request-count not supported with multiple request rate values in one run'' (\<lambda>_.
     if p_request_count p = 0 then Inr p
     else
       reject (p_load_mode p = ConcurrencyMode \<and> p_request_count p < range_start (p_concurrency_range p))
         ''--request-count can not be less than concurrency'' (\<lambda>_.
       reject (many_concurrencies p)
         ''--request-count not supported with multiple concurrency values in one run'' (\<lambda>_.
       bindR (if p_load_mode p = RequestRateMode then double_to_int (rate_at p 0) else Inr 0) (\<lambda>rate.
       reject (p_load_mode p = RequestRateMode \<and> p_request_count p < word_of_int rate)
         ''--request-count can not be less than request rate'' (\<lambda>_.
       reject (many_rates p)
         ''--request-count not supported with multiple request rate values in one run'' (\<lambda>_. Inr p)))))))"

definition verify_serving :: "pa_params \<Rightarrow> exn + pa_params" where
  "verify_serving p =
     (if p_kind p = TENSORFLOW_SERVING then
        reject (p_protocol p \<noteq> GRPC)
          ''perf_analyzer supports only grpc protocol for TensorFlow Serving.'' (\<lambda>_.
        reject (p_streaming p) ''perf_analyzer does not support streaming for TensorFlow Serving.'' (\<lambda>_.
        reject (p_async p) ''perf_analyzer does not support async API for TensorFlow Serving.'' (\<lambda>_.
        Inr (if \<not> p_using_batch_size p then p\<lparr>p_batch_size := 0\<rparr> else p))))
      else if p_kind p = TORCHSERVE then
        reject (p_user_data p = [])
          ''--input-data should be provided with a json file with input data for torchserve.'' (\<lambda>_. Inr p)
      else Inr p)"

definition verify_c_api :: "pa_params \<Rightarrow> exn + pa_params" where
  "verify_c_api p =
     (if p_kind p = TRITON_C_API then
        reject (p_triton_server_path p = [])
          ''--triton-server-path should not be empty when using service-kind=triton_c_api.'' (\<lambda>_.
        reject (p_model_repository_path p = [])
          ''--model-repository should not be empty when using service-kind=triton_c_api.'' (\<lambda>_.
        reject (p_async p \<and> p_streaming p \<and> p_shared_memory_type p \<noteq> NO_SHARED_MEMORY)
          ''Cannot use --shared-memory=system or --shared-memory=cuda with --service-kind=triton_c_api and --async and --streaming.''
          (\<lambda>_. Inr (p\<lparr>p_protocol := UNKNOWN_PROTOCOL\<rparr>))))
      else Inr p)"

definition verify_openai :: "pa_params \<Rightarrow> exn + pa_params" where
  "verify_openai p =
     (if p_kind p = OPENAI then
        reject (p_user_data p = []) ''Must supply --input-data for OpenAI service kind.'' (\<lambda>_.
        reject (p_endpoint p = []) ''Must supply --endpoint for OpenAI service kind.'' (\<lambda>_.
        reject (\<not> p_async p) ''Only async mode is currently supported for OpenAI service-kind'' (\<lambda>_.
        reject (p_batch_size p \<noteq> 1) ''Batching is not currently supported with OpenAI service-kind''
          (\<lambda>_. Inr p))))
      else Inr p)"

definition verify_dynamic_grpc :: "pa_params \<Rightarrow> exn + pa_params" where
  "verify_dynamic_grpc p =
     (if p_kind p = DYNAMIC_GRPC then
        reject (p_async p) ''Dynamic gRPC client only supports synchronous RPCs at the moment.'' (\<lambda>_.
        reject (p_user_data p = [])
          ''Must supply --input-data to provide input data stream for streaming Dynamic gRPC service.''
          (\<lambda>_. Inr (p\<lparr>p_protocol := GRPC\<rparr>)))
      else Inr p)"

definition verify_metrics :: "pa_params \<Rightarrow> exn + pa_params" where
  "verify_metrics p =
     reject (p_should_collect_metrics p \<and> p_kind p \<noteq> TRITON)
       ''Server-side metric collection is only supported with Triton client backend.'' (\<lambda>_.
     reject (p_metrics_url_specified p \<and> \<not> p_should_collect_metrics p)
       ''Must specify --collect-metrics when using the --metrics-url option.'' (\<lambda>_.
     reject (p_metrics_interval_ms_specified p \<and> \<not> p_should_collect_metrics p)
       ''Must specify --collect-metrics when using the --metrics-interval option.'' (\<lambda>_.
     bindR (if p_should_collect_metrics p \<and> \<not> p_metrics_url_specified p then
              (case str_find (p_url p) '':'' 0 of
                 Some colon_pos \<Rightarrow> bindR (substr (p_url p) 0 (Some colon_pos)) (\<lambda>host.
                   Inr (p\<lparr>p_metrics_url := host @ '':8002/metrics''\<rparr>))
               | None \<Rightarrow> Inr p)
            else Inr p) (\<lambda>p1.
     reject (p_load_mode p1 = SessionConcurrencyMode \<and> p_kind p1 \<noteq> OPENAI)
       ''Session concurrency mode is only supported with OpenAI service kind.'' (\<lambda>_. Inr p1)))))"

definition VerifyOptions :: "cl_env \<Rightarrow> pa_params \<Rightarrow> exn + pa_params" where
  "VerifyOptions env p =
     bindR (verify_values p) (\<lambda>p. bindR (verify_periodic p) (\<lambda>p.
     bindR (verify_multi_model env p) (\<lambda>p. bindR (verify_search p) (\<lambda>p. bindR (verify_counts p) (\<lambda>p.
     bindR (verify_serving p) (\<lambda>p. bindR (verify_c_api p) (\<lambda>p. bindR (verify_openai p) (\<lambda>p.
     bindR (verify_dynamic_grpc p) verify_metrics))))))))"

definition Parse :: "cl_env \<Rightarrow> getopt_result list \<Rightarrow> cl_stop + pa_params" where
  "Parse env argv = bindR (ParseCommandLine env argv) (\<lambda>p. liftT (VerifyOptions env p))"

section \<open>Splitting\<close>

text \<open>With a one-character delimiter the loop finds the parts between the delimiters.\<close>

lemma split_from_pieces: "pos \<le> length str \<Longrightarrow> split_from str [c] pos = Inr (pieces c (drop pos str))"
proof (induction str "[c]" pos rule: split_from.induct)
  case (1 str pos)
  have find: "str_find str [c] pos = find_at [c] (drop pos str) pos"
    using "1.prems" by (simp add: str_find_def)
  show ?case
  proof (cases "find_at [c] (drop pos str) pos")
    case None
    then have "c \<notin> set (drop pos str)" by (simp add: find_at_char_None)
    with None "1.prems" show ?thesis
      by (simp add: split_from.simps [of str] find substr_def pieces_single)
  next
    case (Some i)
    from find_at_char_Some [OF Some] obtain a b where
      ab: "drop pos str = a @ c # b" "c \<notin> set a" "i = pos + length a" by blast
    have len: "length str - pos = length a + Suc (length b)"
      using arg_cong [OF ab(1), of length] by simp
    have "drop (i + 1) str = drop (Suc (length a)) (drop pos str)" by (simp add: ab(3) add.commute)
    then have b: "drop (i + 1) str = b" by (simp add: ab(1))
    have "split_from str [c] (i + 1) = Inr (pieces c b)"
      using "1.hyps" [of i "take (i - pos) (drop pos str)"] Some find len b "1.prems" ab(3)
      by (simp add: substr_def)
    then show ?thesis
      using Some ab "1.prems"
      by (simp add: split_from.simps [of str _ pos] find substr_def pieces_append)
  qed
qed

lemma SplitString_pieces [simp]: "SplitString str [c] = Inr (pieces c str)"
  by (simp add: SplitString_def split_from_pieces)

section \<open>What the options keep\<close>

lemma Usage_Inr [simp]: "Usage msg \<noteq> Inr x" "Inr x \<noteq> Usage msg"
  by (simp_all add: Usage_def)

lemma with_arg_Inr [simp]: "with_arg arg f = Inr x \<longleftrightarrow> (\<exists>a. arg = Some a \<and> f a = Inr x)"
  by (cases arg) auto

lemma positive_arg_Inr: "positive_arg msg a = Inr n \<Longrightarrow> n \<noteq> 0 \<and> unat n < 2 ^ 31"
proof -
  assume "positive_arg msg a = Inr n"
  then obtain i where i: "stoi a = Inr i" "0 < i" "stoull a = Inr n"
    by (auto simp: positive_arg_def bindR_Inr_conv split: if_splits)
  then have n: "n = word_of_int i" using stoull_of_stoi [of a i] by simp
  have "i < 2 ^ 31" using stoi_range [OF i(1)] by simp
  then have "uint n = i" using i(2) by (simp add: n uint_word_of_int_eq take_bit_int_eq_self)
  then have "unat n = nat i" by (simp add: unat_eq_nat_uint)
  moreover have "nat i < 2 ^ 31" "nat i \<noteq> 0" using i(2) \<open>i < 2 ^ 31\<close> by simp_all
  ultimately show ?thesis by force
qed

definition keeps :: "(pa_params \<Rightarrow> bool) \<Rightarrow> option_case \<Rightarrow> bool" where
  "keeps I h \<longleftrightarrow> (\<forall>env arg p p'. I p \<longrightarrow> h env arg p = Inr p' \<longrightarrow> I p')"

lemma keepsI: "(\<And>env arg p p'. I p \<Longrightarrow> h env arg p = Inr p' \<Longrightarrow> I p') \<Longrightarrow> keeps I h"
  by (auto simp: keeps_def)

lemma keeps_flag: "(\<And>p. I p \<Longrightarrow> I (f p)) \<Longrightarrow> keeps I (flag f)"
  by (auto simp: keeps_def flag_def)

lemma keeps_text: "(\<And>a p. I p \<Longrightarrow> I (f a p)) \<Longrightarrow> keeps I (text_arg f)"
  by (auto simp: keeps_def text_arg_def)

lemma keeps_positive: "(\<And>n p. I p \<Longrightarrow> n \<noteq> 0 \<Longrightarrow> unat n < 2 ^ 31 \<Longrightarrow> I (f n p)) \<Longrightarrow> keeps I (positive_option msg f)"
  unfolding keeps_def positive_option_def
  by (auto simp: bindR_Inr_conv dest: positive_arg_Inr)

lemma keeps_file: "(\<And>a p. I p \<Longrightarrow> I (f a p)) \<Longrightarrow> keeps I (file_option msg f)"
  by (auto simp: keeps_def file_option_def split: if_splits)

lemma keeps_word:
  assumes "\<forall>x \<in> set ws. \<forall>p. I p \<longrightarrow> I (snd x p)"
  shows "keeps I (word_option msg ws)"
proof (rule keepsI)
  fix env arg p p' assume p: "I p" and "word_option msg ws env arg p = Inr p'"
  then obtain a f where "map_of ws a = Some f" "p' = f p"
    by (auto simp: word_option_def split: option.splits)
  with p assms show "I p'" by (auto dest!: map_of_SomeD)
qed

lemma choose_mode_Inr [simp]:
  "choose_mode m name p = Inr p' \<longleftrightarrow> p_load_mode p = NoLoadMode \<and> p' = p\<lparr>p_load_mode := m\<rparr>"
  by (auto simp: choose_mode_def bindR_Inr_conv)

lemma deprecated_check_Inr [simp]: "deprecated_check p = Inr p' \<longleftrightarrow> p_load_mode p = NoLoadMode \<and> p' = p"
  by (auto simp: deprecated_check_def bindR_Inr_conv)

text \<open>
  What every option leaves true of the parameters: sizes that are used as divisors, bounds or
  window lengths are not zero, shapes have positive dimensions, the rates are three, and the
  modes that need a count or a range have one.
\<close>

definition periodic_ok :: "range \<Rightarrow> bool" where
  "periodic_ok r \<longleftrightarrow> range_step r \<noteq> 0 \<and> range_start r \<le> range_end r \<and>
     (range_end r - range_start r) mod range_step r = 0"

definition shapes_ok :: "(string, int list) std_map \<Rightarrow> bool" where
  "shapes_ok m \<longleftrightarrow> (\<forall>(name, shape) \<in> set m. shape \<noteq> [] \<and> (\<forall>d \<in> set shape. 0 < d))"

definition opts_ok :: "pa_params \<Rightarrow> bool" where
  "opts_ok p \<longleftrightarrow>
     p_max_threads p \<noteq> 0 \<and> p_sequence_length p \<noteq> 0 \<and> p_measurement_window_ms p \<noteq> 0 \<and>
     p_max_trials p \<noteq> 0 \<and> p_string_length p \<noteq> 0 \<and> p_num_of_sequences p \<noteq> 0 \<and>
     p_measurement_request_count p \<noteq> 0 \<and> p_metrics_interval_ms p \<noteq> 0 \<and> p_request_period p \<noteq> 0 \<and>
     p_batch_size p \<noteq> 0 \<and> length (p_request_rate_range p) = 3 \<and>
     ieee_le (Fin 0) (p_stability_threshold p) \<and> shapes_ok (p_input_shapes p) \<and>
     (p_load_mode p = SessionConcurrencyMode \<longrightarrow> p_session_concurrency p \<noteq> 0) \<and>
     (p_load_mode p = PeriodicConcurrencyMode \<longrightarrow> periodic_ok (p_periodic_concurrency_range p))"

text \<open>The other fields do not matter.\<close>

lemma opts_ok_frame [simp]:
  "opts_ok (p\<lparr>p_verbose := x0\<rparr>) = opts_ok p"
  "opts_ok (p\<lparr>p_extra_verbose := x1\<rparr>) = opts_ok p"
  "opts_ok (p\<lparr>p_streaming := x2\<rparr>) = opts_ok p"
  "opts_ok (p\<lparr>p_max_threads_specified := x3\<rparr>) = opts_ok p"
  "opts_ok (p\<lparr>p_sequence_length_specified := x4\<rparr>) = opts_ok p"
  "opts_ok (p\<lparr>p_sequence_length_variation := x5\<rparr>) = opts_ok p"
  "opts_ok (p\<lparr>p_percentile := x6\<rparr>) = opts_ok p"
  "opts_ok (p\<lparr>p_user_data := x7\<rparr>) = opts_ok p"
  "opts_ok (p\<lparr>p_bls_composing_models := x8\<rparr>) = opts_ok p"
  "opts_ok (p\<lparr>p_concurrency_range := x9\<rparr>) = opts_ok p"
  "opts_ok (p\<lparr>p_request_parameters := x10\<rparr>) = opts_ok p"
  "opts_ok (p\<lparr>p_latency_threshold_ms := x11\<rparr>) = opts_ok p"
  "opts_ok (p\<lparr>p_request_count := x12\<rparr>) = opts_ok p"
  "opts_ok (p\<lparr>p_zero_input := x13\<rparr>) = opts_ok p"
  "opts_ok (p\<lparr>p_string_data := x14\<rparr>) = opts_ok p"
  "opts_ok (p\<lparr>p_async := x15\<rparr>) = opts_ok p"
  "opts_ok (p\<lparr>p_forced_sync := x16\<rparr>) = opts_ok p"
  "opts_ok (p\<lparr>p_serial_sequences := x17\<rparr>) = opts_ok p"
  "opts_ok (p\<lparr>p_search_mode := x18\<rparr>) = opts_ok p"
  "opts_ok (p\<lparr>p_request_distribution := x19\<rparr>) = opts_ok p"
  "opts_ok (p\<lparr>p_request_intervals_file := x20\<rparr>) = opts_ok p"
  "opts_ok (p\<lparr>p_shared_memory_type := x21\<rparr>) = opts_ok p"
  "opts_ok (p\<lparr>p_output_shm_size := x22\<rparr>) = opts_ok p"
  "opts_ok (p\<lparr>p_kind := x23\<rparr>) = opts_ok p"
  "opts_ok (p\<lparr>p_model_signature_name := x24\<rparr>) = opts_ok p"
  "opts_ok (p\<lparr>p_using_grpc_compression := x25\<rparr>) = opts_ok p"
  "opts_ok (p\<lparr>p_compression_algorithm := x26\<rparr>) = opts_ok p"
  "opts_ok (p\<lparr>p_measurement_mode := x27\<rparr>) = opts_ok p"
  "opts_ok (p\<lparr>p_triton_server_path := x28\<rparr>) = opts_ok p"
  "opts_ok (p\<lparr>p_model_repository_path := x29\<rparr>) = opts_ok p"
  "opts_ok (p\<lparr>p_start_sequence_id := x30\<rparr>) = opts_ok p"
  "opts_ok (p\<lparr>p_sequence_id_range := x31\<rparr>) = opts_ok p"
  "opts_ok (p\<lparr>p_ssl_options := x32\<rparr>) = opts_ok p"
  "opts_ok (p\<lparr>p_verbose_csv := x33\<rparr>) = opts_ok p"
  "opts_ok (p\<lparr>p_enable_mpi := x34\<rparr>) = opts_ok p"
  "opts_ok (p\<lparr>p_trace_options := x35\<rparr>) = opts_ok p"
  "opts_ok (p\<lparr>p_url_specified := x36\<rparr>) = opts_ok p"
  "opts_ok (p\<lparr>p_url := x37\<rparr>) = opts_ok p"
  "opts_ok (p\<lparr>p_endpoint := x38\<rparr>) = opts_ok p"
  "opts_ok (p\<lparr>p_model_name := x39\<rparr>) = opts_ok p"
  "opts_ok (p\<lparr>p_model_version := x40\<rparr>) = opts_ok p"
  "opts_ok (p\<lparr>p_using_batch_size := x41\<rparr>) = opts_ok p"
  "opts_ok (p\<lparr>p_protocol := x42\<rparr>) = opts_ok p"
  "opts_ok (p\<lparr>p_http_headers := x43\<rparr>) = opts_ok p"
  "opts_ok (p\<lparr>p_filename := x44\<rparr>) = opts_ok p"
  "opts_ok (p\<lparr>p_should_collect_metrics := x45\<rparr>) = opts_ok p"
  "opts_ok (p\<lparr>p_metrics_url := x46\<rparr>) = opts_ok p"
  "opts_ok (p\<lparr>p_metrics_url_specified := x47\<rparr>) = opts_ok p"
  "opts_ok (p\<lparr>p_metrics_interval_ms_specified := x48\<rparr>) = opts_ok p"
  "opts_ok (p\<lparr>p_input_tensor_format := x49\<rparr>) = opts_ok p"
  "opts_ok (p\<lparr>p_output_tensor_format := x50\<rparr>) = opts_ok p"
  "opts_ok (p\<lparr>p_profile_export_file := x51\<rparr>) = opts_ok p"
  "opts_ok (p\<lparr>p_warmup_request_count := x52\<rparr>) = opts_ok p"
  "opts_ok (p\<lparr>p_grpc_method := x53\<rparr>) = opts_ok p"
  by (simp_all add: opts_ok_def)

lemma opts_ok_sizes [simp]:
  "opts_ok p \<Longrightarrow> n \<noteq> 0 \<Longrightarrow> opts_ok (p\<lparr>p_max_threads := n\<rparr>)"
  "opts_ok p \<Longrightarrow> n \<noteq> 0 \<Longrightarrow> opts_ok (p\<lparr>p_sequence_length := n\<rparr>)"
  "opts_ok p \<Longrightarrow> n \<noteq> 0 \<Longrightarrow> opts_ok (p\<lparr>p_measurement_window_ms := n\<rparr>)"
  "opts_ok p \<Longrightarrow> n \<noteq> 0 \<Longrightarrow> opts_ok (p\<lparr>p_max_trials := n\<rparr>)"
  "opts_ok p \<Longrightarrow> n \<noteq> 0 \<Longrightarrow> opts_ok (p\<lparr>p_string_length := n\<rparr>)"
  "opts_ok p \<Longrightarrow> n \<noteq> 0 \<Longrightarrow> opts_ok (p\<lparr>p_measurement_request_count := n\<rparr>)"
  "opts_ok p \<Longrightarrow> n \<noteq> 0 \<Longrightarrow> opts_ok (p\<lparr>p_metrics_interval_ms := n\<rparr>)"
  "opts_ok p \<Longrightarrow> n \<noteq> 0 \<Longrightarrow> opts_ok (p\<lparr>p_request_period := n\<rparr>)"
  "opts_ok p \<Longrightarrow> n \<noteq> 0 \<Longrightarrow> opts_ok (p\<lparr>p_batch_size := n\<rparr>)"
  by (simp_all add: opts_ok_def)

text \<open>The options of one shape, and those whose cases are read off.\<close>

lemmas plain_options =
  opt_streaming_def opt_async_def opt_sync_def opt_binary_search_def opt_grpc_use_ssl_def
  opt_verbose_csv_def opt_enable_mpi_def opt_collect_metrics_def opt_serial_sequences_def
  opt_v_def opt_z_def opt_percentile_def opt_data_directory_def opt_string_data_def
  opt_model_signature_name_def opt_triton_server_directory_def opt_model_repository_def
  opt_trace_rate_def opt_metrics_url_def opt_endpoint_def opt_u_def opt_m_def opt_x_def
  opt_i_def opt_f_def opt_max_threads_def opt_measurement_interval_def opt_max_trials_def
  opt_string_length_def opt_measurement_request_count_def opt_metrics_interval_def
  opt_request_period_def opt_b_def opt_grpc_root_certifications_def opt_grpc_private_key_def
  opt_grpc_certificate_chain_def opt_https_ca_certificates_def
  opt_https_client_certificate_def opt_https_private_key_def opt_request_distribution_def
  opt_service_kind_def opt_grpc_compression_def opt_measurement_mode_def

lemmas plain_options_keep = plain_options keeps_flag keeps_text keeps_positive keeps_file keeps_word set_trace_def

lemmas other_options =
  opt_latency_threshold_def opt_input_data_def opt_shared_memory_def opt_output_shm_size_def
  opt_sequence_id_range_def opt_https_verify_peer_def opt_https_verify_host_def
  opt_https_client_certificate_type_def opt_https_private_key_type_def opt_trace_level_def
  opt_trace_count_def opt_log_frequency_def opt_sequence_length_variation_def
  opt_bls_composing_models_def opt_input_tensor_format_def opt_output_tensor_format_def
  opt_profile_export_file_def opt_request_parameter_def opt_request_count_def
  opt_warmup_request_count_def opt_grpc_method_def opt_d_def opt_t_def opt_c_def opt_H_def

lemmas mode_options =
  opt_concurrency_range_def opt_request_rate_range_def opt_request_intervals_def
  opt_periodic_concurrency_range_def opt_fixed_schedule_def opt_session_concurrency_def
  opt_shape_def opt_stability_percentage_def opt_num_of_sequences_def opt_sequence_length_def

lemma stoi_positive:
  assumes "stoi a = Inr i" and "0 < i"
  shows "word_of_int i \<noteq> (0 :: u64)" and "ucast (word_of_int i :: u64) \<noteq> (0 :: u32)"
proof -
  have i: "i < 2 ^ 31" using stoi_range [OF assms(1)] by simp
  then have "uint (word_of_int i :: u64) = i"
    using assms(2) by (simp add: uint_word_of_int_eq take_bit_int_eq_self)
  with assms(2) show "word_of_int i \<noteq> (0 :: u64)" by (metis less_irrefl unsigned_0)
  have "uint (word_of_int i :: u32) = i"
    using assms(2) i by (simp add: uint_word_of_int_eq take_bit_int_eq_self)
  moreover have "ucast (word_of_int i :: u64) = (word_of_int i :: u32)"
    by (rule bit_word_eqI) (simp add: bit_simps)
  ultimately show "ucast (word_of_int i :: u64) \<noteq> (0 :: u32)" using assms(2) by force
qed

lemma keeps_sequence_length [simp]: "keeps opts_ok opt_sequence_length"
  unfolding opt_sequence_length_def
  by (rule keepsI) (auto simp: bindR_Inr_conv stoull_of_stoi stoi_positive split: if_splits)

lemma keeps_num_of_sequences [simp]: "keeps opts_ok opt_num_of_sequences"
proof (rule keepsI)
  fix env arg p p' assume p: "opts_ok p" and r: "opt_num_of_sequences env arg p = Inr p'"
  then obtain a i where a: "stoi a = Inr i" "0 < i"
      and p': "p' = p\<lparr>p_num_of_sequences := ucast (word_of_int i :: u64)\<rparr>"
    by (auto simp: opt_num_of_sequences_def bindR_Inr_conv stoul_of_stoi split: if_splits)
  show "opts_ok p'" using p stoi_positive(2) [OF a] by (simp add: p' opts_ok_def)
qed

lemma fin_nonneg: "0 \<le> x \<Longrightarrow> ieee_le (Fin 0) (fin F x)"
proof -
  assume "0 \<le> x"
  then have "0 \<le> rnd F x" by (auto simp: rnd_def rnd_pos_nonneg)
  moreover have "0 < (2 :: rat) powi (emax F + 1)" by simp
  ultimately have "\<not> rnd F x \<le> - (2 powi (emax F + 1))" by linarith
  then show ?thesis using \<open>0 \<le> rnd F x\<close> by (simp add: fin_def Let_def)
qed

lemma percent_nonneg: "ieee_le (Fin 0) x \<Longrightarrow> ieee_le (Fin 0) (ieee_div F x (Fin 100))"
  by (cases x) (auto simp: fin_nonneg inf_of_sgn_def)

lemma keeps_stability_percentage [simp]: "keeps opts_ok opt_stability_percentage"
  unfolding opt_stability_percentage_def
  by (rule keepsI) (auto simp: bindR_Inr_conv opts_ok_def percent_nonneg split: if_splits)

lemma map_assign_set: "set (map_assign k v m) \<subseteq> insert (k, v) (set m)"
  by (induction k v m rule: map_assign.induct) auto

lemma parse_dims_ok: "parse_dims s = Inr shape \<Longrightarrow> shape \<noteq> [] \<and> (\<forall>d \<in> set shape. 0 < d)"
proof -
  assume r: "parse_dims s = Inr shape"
  then have len: "length shape = length (pieces (CHR '','') s)"
    unfolding parse_dims_def by (rule mapR_length)
  have "0 < shape ! i" if "i < length shape" for i
    using mapR_nth [OF r [unfolded parse_dims_def], of i] that len
    by (auto simp: bindR_Inr_conv split: if_splits)
  then show ?thesis using len by (auto simp: in_set_conv_nth)
qed

lemma keeps_shape [simp]: "keeps opts_ok opt_shape"
proof (rule keepsI)
  fix env arg p p' assume p: "opts_ok p" and r: "opt_shape env arg p = Inr p'"
  then obtain name shape s where s: "parse_dims s = Inr shape"
      and p': "p' = p\<lparr>p_input_shapes := map_assign name shape (p_input_shapes p)\<rparr>"
    by (auto simp: opt_shape_def bindR_Inr_conv split: option.splits)
  have "shapes_ok (p_input_shapes p)" using p by (simp add: opts_ok_def)
  then have "shapes_ok (map_assign name shape (p_input_shapes p))"
    using map_assign_set [of name shape "p_input_shapes p"] parse_dims_ok [OF s]
    unfolding shapes_ok_def by blast
  with p show "opts_ok p'" by (simp add: p' opts_ok_def)
qed

lemma opts_ok_modes [simp]:
  "opts_ok p \<Longrightarrow> m \<noteq> SessionConcurrencyMode \<Longrightarrow> m \<noteq> PeriodicConcurrencyMode \<Longrightarrow> opts_ok (p\<lparr>p_load_mode := m\<rparr>)"
  by (auto simp: opts_ok_def)

lemma keeps_modes [simp]:
  "keeps opts_ok opt_concurrency_range"
  "keeps opts_ok opt_request_intervals"
  "keeps opts_ok opt_fixed_schedule"
  unfolding opt_concurrency_range_def opt_request_intervals_def opt_fixed_schedule_def file_option_def
  by (rule keepsI, auto simp: bindR_Inr_conv split: if_splits)+

lemma keeps_session_concurrency [simp]: "keeps opts_ok opt_session_concurrency"
  unfolding opt_session_concurrency_def
  by (rule keepsI) (auto simp: bindR_Inr_conv opts_ok_def split: if_splits)

lemma keeps_request_rate_range [simp]: "keeps opts_ok opt_request_rate_range"
proof (rule keepsI)
  fix env arg p p' assume p: "opts_ok p" and r: "opt_request_rate_range env arg p = Inr p'"
  then obtain f xs k rates where
    rates: "foldR f (0 :: nat, p_request_rate_range p) xs = Inr (k, rates)"
    and f: "f = (\<lambda>(index, r) s. if index > 2 then
               Usage ''Failed to parse --request-rate-range. The value does not match <start:end:step>.''
               else bindR (stod s) (\<lambda>x. Inr (index + 1, r[index := x])))"
    and p': "p' = p\<lparr>p_load_mode := RequestRateMode, p_request_rate_range := rates\<rparr>"
    by (auto simp: opt_request_rate_range_def bindR_Inr_conv)
  have "length (snd (k, rates)) = 3"
    using rates by (rule foldR_inv [where P = "\<lambda>s. length (snd s) = 3"])
      (use p in \<open>auto simp: f opts_ok_def bindR_Inr_conv split: if_splits\<close>)
  with p show "opts_ok p'" by (simp add: p' opts_ok_def)
qed

lemma check_periodic_Inr: "check_periodic r = Inr u \<longleftrightarrow> periodic_ok r"
  by (auto simp: check_periodic_def periodic_ok_def)

lemma keeps_periodic [simp]: "keeps opts_ok opt_periodic_concurrency_range"
  unfolding opt_periodic_concurrency_range_def
  by (rule keepsI) (auto simp: bindR_Inr_conv check_periodic_Inr opts_ok_def split: if_splits)

lemma liftT_Inr [simp]: "liftT r = Inr x \<longleftrightarrow> r = Inr x"
  by (cases r) auto

text \<open>
  An invariant of the options: each case of the switch keeps it, hence so does the loop over
  what \<open>getopt_long\<close> returns.
\<close>

locale option_invariant =
  fixes I :: "pa_params \<Rightarrow> bool"
  assumes long_keep: "list_all (\<lambda>x. keeps I (snd x)) long_cases"
    and short_keep: "list_all (\<lambda>x. keeps I (snd x)) short_cases"
begin

lemma case_keeps: "map_of (long_cases @ short_cases) opt = Some h \<Longrightarrow> keeps I h"
  using long_keep short_keep by (auto simp: list_all_iff map_add_def split: option.splits dest!: map_of_SomeD)

lemma run_case_keeps:
  assumes "I p" and "run_case env opt optarg p = Inr p'"
  shows "I p'"
proof (cases "map_of (long_cases @ short_cases) opt")
  case None
  with assms show ?thesis by (simp add: run_case_def del: map_of_append)
next
  case (Some h)
  with assms(2) have "h env optarg p = Inr p'"
    by (auto simp: run_case_def catch_invalid_def simp del: map_of_append split: sum.splits exn.splits)
  with assms(1) case_keeps [OF Some] show ?thesis by (auto simp: keeps_def)
qed

lemma parse_option_keeps: "I (fst st) \<Longrightarrow> parse_option env st res = Inr st' \<Longrightarrow> I (fst st')"
  by (auto simp: parse_option_def bindR_Inr_conv liftT_Inr intro: run_case_keeps
      split: getopt_result.splits if_splits)

lemma options_keep: "foldR (parse_option env) st argv = Inr st' \<Longrightarrow> I (fst st) \<Longrightarrow> I (fst st')"
  by (erule foldR_inv [where P = "\<lambda>s. I (fst s)"]) (auto intro: parse_option_keeps)

end

interpretation opt_values: option_invariant opts_ok
proof unfold_locales
  show "list_all (\<lambda>x. keeps opts_ok (snd x)) long_cases"
    by (simp add: long_cases_def plain_options_keep; intro conjI)
      (rule keepsI, auto simp: other_options set_trace_def bindR_Inr_conv split: if_splits option.splits)+
  show "list_all (\<lambda>x. keeps opts_ok (snd x)) short_cases"
    by (simp add: short_cases_def plain_options_keep; intro conjI)
      (rule keepsI, auto simp: other_options set_trace_def bindR_Inr_conv split: if_splits option.splits)+
qed

text \<open>Once the load mode is chosen it stays.\<close>

definition mode_is :: "inference_load_mode \<Rightarrow> pa_params \<Rightarrow> bool" where
  "mode_is m p \<longleftrightarrow> m \<noteq> NoLoadMode \<and> p_load_mode p = m"

interpretation opt_mode: option_invariant "mode_is m" for m
proof unfold_locales
  show "list_all (\<lambda>x. keeps (mode_is m) (snd x)) long_cases"
    unfolding mode_is_def
    by (simp add: long_cases_def plain_options_keep; intro conjI)
      (rule keepsI, auto simp: other_options mode_options set_trace_def bindR_Inr_conv split: if_splits option.splits)+
  show "list_all (\<lambda>x. keeps (mode_is m) (snd x)) short_cases"
    unfolding mode_is_def
    by (simp add: short_cases_def plain_options_keep; intro conjI)
      (rule keepsI, auto simp: other_options mode_options set_trace_def bindR_Inr_conv split: if_splits option.splits)+
qed

section \<open>Derived and verified options\<close>

lemma default_opts_ok: "opts_ok PerfAnalyzerParameters"
  by (simp add: opts_ok_def PerfAnalyzerParameters_def NO_LIMIT_def shapes_ok_def fin_nonneg)

lemma default_threads_nonzero: "max DEFAULT_MAX_THREADS n \<noteq> 0"
  by (auto simp: DEFAULT_MAX_THREADS_def max_def)

lemma field_self [simp]:
  "\<exists>x. p = p\<lparr>p_request_count := x\<rparr>" "\<exists>x. p = p\<lparr>p_protocol := x\<rparr>"
  "\<exists>x. p = p\<lparr>p_batch_size := x\<rparr>" "\<exists>x. p = p\<lparr>p_metrics_url := x\<rparr>"
  by (rule exI [of _ "p_request_count p"], simp) (rule exI [of _ "p_protocol p"], simp,
    rule exI [of _ "p_batch_size p"], simp, rule exI [of _ "p_metrics_url p"], simp)

lemma fixed_schedule_count_Inr:
  assumes "fixed_schedule_count env p = Inr p'"
  shows "\<exists>n. p' = p\<lparr>p_request_count := n\<rparr>"
    and "p_load_mode p = FixedScheduleMode \<Longrightarrow> p_request_count p' \<noteq> 0"
    and "p_load_mode p \<noteq> FixedScheduleMode \<Longrightarrow> p' = p"
proof -
  show "\<exists>n. p' = p\<lparr>p_request_count := n\<rparr>"
    using assms unfolding fixed_schedule_count_def
    by (auto simp: bindR_Inr_conv Let_def split: if_splits)
  show "p_load_mode p = FixedScheduleMode \<Longrightarrow> p_request_count p' \<noteq> 0"
    using assms unfolding fixed_schedule_count_def
    by (auto simp: bindR_Inr_conv Let_def split: if_splits)
  show "p_load_mode p \<noteq> FixedScheduleMode \<Longrightarrow> p' = p"
    using assms by (simp add: fixed_schedule_count_def)
qed

lemma derive_Inr:
  assumes "derive env st = Inr p" and "opts_ok (fst st)"
  shows "opts_ok p" and "p_load_mode p \<noteq> NoLoadMode"
    and "p_load_mode p = FixedScheduleMode \<Longrightarrow> p_request_count p \<noteq> 0"
    and "p_request_count p \<noteq> 0 \<Longrightarrow>
      p_measurement_mode p = COUNT_WINDOWS \<and> p_measurement_request_count p = p_request_count p"
proof -
  define q where "q = no_search (default_threads (default_url (final_mode st)))"
  have "opts_ok (final_mode st)" using assms(2) by (simp add: final_mode_def)
  then have q: "opts_ok q"
    unfolding q_def no_search_def default_threads_def default_url_def
    using default_threads_nonzero by simp
  have m: "p_load_mode q \<noteq> NoLoadMode"
    by (simp add: q_def no_search_def default_threads_def default_url_def final_mode_def)
  obtain q' where q': "fixed_schedule_count env q = Inr q'" and p: "p = count_windows q'"
    using assms(1) by (auto simp: derive_def Let_def bindR_Inr_conv q_def split: if_splits)
  obtain n where n: "q' = q\<lparr>p_request_count := n\<rparr>" using fixed_schedule_count_Inr(1) [OF q'] ..
  show "opts_ok p" using q by (simp add: p n count_windows_def)
  show "p_load_mode p \<noteq> NoLoadMode" using m by (simp add: p n count_windows_def)
  show "p_load_mode p = FixedScheduleMode \<Longrightarrow> p_request_count p \<noteq> 0"
    using fixed_schedule_count_Inr(2) [OF q'] by (simp add: p n count_windows_def split: if_splits)
  show "p_request_count p \<noteq> 0 \<Longrightarrow>
      p_measurement_mode p = COUNT_WINDOWS \<and> p_measurement_request_count p = p_request_count p"
    by (simp add: p n count_windows_def split: if_splits)
qed

lemma ParseCommandLine_Inr:
  assumes "ParseCommandLine env argv = Inr p"
  obtains st where "derive env st = Inr p" and "opts_ok (fst st)"
  using assms opt_values.options_keep default_opts_ok
  by (fastforce simp: ParseCommandLine_def bindR_Inr_conv)

lemma reject_Inr [simp]: "reject c msg k = Inr x \<longleftrightarrow> \<not> c \<and> k () = Inr x"
  by (simp add: reject_def)

lemma verify_values_Inr:
  assumes "verify_values p = Inr p'"
  shows "p' = p\<lparr>p_start_sequence_id := (if p_start_sequence_id p = 0 then 1 else p_start_sequence_id p)\<rparr>"
    and "range_start (p_concurrency_range p) \<noteq> 0" and "\<not> ieee_le (rate_at p kSTART) (Fin 0)"
    and "p_percentile p = - 1 \<or> 1 \<le> p_percentile p \<and> p_percentile p \<le> 99"
    and "\<not> (p_async p \<and> p_forced_sync p)"
  using assms by (auto simp: verify_values_def Let_def split: if_splits)

lemma verify_periodic_Inr:
  assumes "verify_periodic p = Inr p'"
  shows "\<exists>r n. p' = p\<lparr>p_periodic_concurrency_range := r, p_max_threads := n\<rparr> \<and>
    (p_max_threads p \<noteq> 0 \<longrightarrow> n \<noteq> 0) \<and>
    (p_load_mode p = PeriodicConcurrencyMode \<longrightarrow>
       p_streaming p \<and> p_profile_export_file p \<noteq> [] \<and>
       range_start r = range_start (p_periodic_concurrency_range p) \<and>
       range_step r = range_step (p_periodic_concurrency_range p) \<and> range_end r \<le> n \<and>
       (if range_end (p_periodic_concurrency_range p) = 0 then range_end r = n
        else range_end r = range_end (p_periodic_concurrency_range p)))"
proof (cases "p_load_mode p = PeriodicConcurrencyMode")
  case True
  show ?thesis
  proof (cases "range_end (p_periodic_concurrency_range p) = 0")
    case zero: True
    show ?thesis
      using assms True zero
      by (intro exI [of _ "p_periodic_concurrency_range p\<lparr>range_end := p_max_threads p\<rparr>"] exI [of _ "p_max_threads p"])
        (auto simp: verify_periodic_def NO_LIMIT_def)
  next
    case False
    show ?thesis
      using assms True False
      by (intro exI [of _ "p_periodic_concurrency_range p"]
          exI [of _ "max (p_max_threads p) (range_end (p_periodic_concurrency_range p))"])
        (auto simp: verify_periodic_def NO_LIMIT_def max_def word_neq_0_conv)
  qed
next
  case False
  with assms have "p' = p" by (simp add: verify_periodic_def)
  with False show ?thesis
    by (intro exI [of _ "p_periodic_concurrency_range p"] exI [of _ "p_max_threads p"]) simp
qed

lemma verify_multi_model_Inr: "verify_multi_model env p = Inr p' \<Longrightarrow> p' = p"
  by (auto simp: verify_multi_model_def bindR_Inr_conv)

lemma verify_search_Inr:
  assumes "verify_search p = Inr p'"
  shows "p' = p"
    and "range_end (p_concurrency_range p) = 0 \<Longrightarrow> p_latency_threshold_ms p \<noteq> 0"
    and "p_search_mode p = BINARY \<Longrightarrow> p_latency_threshold_ms p \<noteq> 0 \<and>
      range_end (p_concurrency_range p) \<noteq> 0 \<and>
      range_start (p_concurrency_range p) \<le> range_end (p_concurrency_range p) \<and>
      \<not> ieee_lt (rate_at p kEND) (rate_at p kSTART)"
  using assms by (auto simp: verify_search_def open_ended_def NO_LIMIT_def)

lemma verify_counts_Inr:
  assumes "verify_counts p = Inr p'"
  shows "p' = p"
    and "p_request_count p \<noteq> 0 \<Longrightarrow> p_load_mode p = ConcurrencyMode \<Longrightarrow>
      range_end (p_concurrency_range p) \<le> range_start (p_concurrency_range p) \<and>
      range_start (p_concurrency_range p) \<le> p_request_count p"
    and "p_warmup_request_count p \<noteq> 0 \<Longrightarrow> p_load_mode p = ConcurrencyMode \<Longrightarrow>
      range_end (p_concurrency_range p) \<le> range_start (p_concurrency_range p)"
  using assms by (auto simp: verify_counts_def many_concurrencies_def bindR_Inr_conv split: if_splits)

lemma verify_kinds_Inr:
  "verify_serving p = Inr p' \<Longrightarrow> \<exists>b. p' = p\<lparr>p_batch_size := b\<rparr> \<and> (p_kind p \<noteq> TENSORFLOW_SERVING \<longrightarrow> b = p_batch_size p)"
  "verify_c_api p = Inr p' \<Longrightarrow> \<exists>c. p' = p\<lparr>p_protocol := c\<rparr>"
  "verify_openai p = Inr p' \<Longrightarrow> p' = p \<and> (p_kind p = OPENAI \<longrightarrow> p_async p \<and> p_batch_size p = 1 \<and> p_user_data p \<noteq> [])"
  "verify_dynamic_grpc p = Inr p' \<Longrightarrow> \<exists>c. p' = p\<lparr>p_protocol := c\<rparr>"
  "verify_metrics p = Inr p' \<Longrightarrow> \<exists>u. p' = p\<lparr>p_metrics_url := u\<rparr> \<and> (p_load_mode p = SessionConcurrencyMode \<longrightarrow> p_kind p = OPENAI)"
proof -
  have same: "p = p\<lparr>p_batch_size := p_batch_size p\<rparr>" "p = p\<lparr>p_protocol := p_protocol p\<rparr>"
    "p = p\<lparr>p_metrics_url := p_metrics_url p\<rparr>" by simp_all
  show "verify_serving p = Inr p' \<Longrightarrow> \<exists>b. p' = p\<lparr>p_batch_size := b\<rparr> \<and> (p_kind p \<noteq> TENSORFLOW_SERVING \<longrightarrow> b = p_batch_size p)"
    using same(1) by (auto simp: verify_serving_def split: if_splits)
  show "verify_c_api p = Inr p' \<Longrightarrow> \<exists>c. p' = p\<lparr>p_protocol := c\<rparr>"
    using same(2) by (auto simp: verify_c_api_def split: if_splits)
  show "verify_openai p = Inr p' \<Longrightarrow> p' = p \<and> (p_kind p = OPENAI \<longrightarrow> p_async p \<and> p_batch_size p = 1 \<and> p_user_data p \<noteq> [])"
    by (auto simp: verify_openai_def split: if_splits)
  show "verify_dynamic_grpc p = Inr p' \<Longrightarrow> \<exists>c. p' = p\<lparr>p_protocol := c\<rparr>"
    using same(2) by (auto simp: verify_dynamic_grpc_def split: if_splits)
  show "verify_metrics p = Inr p' \<Longrightarrow> \<exists>u. p' = p\<lparr>p_metrics_url := u\<rparr> \<and> (p_load_mode p = SessionConcurrencyMode \<longrightarrow> p_kind p = OPENAI)"
    using same(3) by (auto simp: verify_metrics_def bindR_Inr_conv split: if_splits option.splits)
qed

lemma VerifyOptions_Inr:
  assumes "VerifyOptions env p0 = Inr p"
  obtains p1 p2 b c u where
    "verify_values p0 = Inr p1" and "verify_periodic p1 = Inr p2"
    and "verify_search p2 = Inr p2" and "verify_counts p2 = Inr p2"
    and "p = p2\<lparr>p_batch_size := b, p_protocol := c, p_metrics_url := u\<rparr>"
    and "p_kind p2 \<noteq> TENSORFLOW_SERVING \<longrightarrow> b = p_batch_size p2"
    and "p_kind p2 = OPENAI \<longrightarrow> p_async p2 \<and> b = 1 \<and> p_user_data p2 \<noteq> []"
    and "p_load_mode p2 = SessionConcurrencyMode \<longrightarrow> p_kind p2 = OPENAI"
proof -
  obtain p1 p2 p3 p4 p5 where
    s: "verify_values p0 = Inr p1" "verify_periodic p1 = Inr p2"
      "verify_search p2 = Inr p2" "verify_counts p2 = Inr p2" and
    s6: "verify_serving p2 = Inr p3" and s7: "verify_c_api p3 = Inr p4" and
    s8: "verify_openai p4 = Inr p4" and s9: "verify_dynamic_grpc p4 = Inr p5" and
    s10: "verify_metrics p5 = Inr p"
    using assms unfolding VerifyOptions_def bindR_Inr_conv
    by (metis verify_multi_model_Inr verify_search_Inr(1) verify_counts_Inr(1) verify_kinds_Inr(3))
  obtain b where e3: "p3 = p2\<lparr>p_batch_size := b\<rparr>" and b: "p_kind p2 \<noteq> TENSORFLOW_SERVING \<longrightarrow> b = p_batch_size p2"
    using verify_kinds_Inr(1) [OF s6] by blast
  obtain c c' u where e4: "p4 = p3\<lparr>p_protocol := c\<rparr>" and e5: "p5 = p4\<lparr>p_protocol := c'\<rparr>"
    and e6: "p = p5\<lparr>p_metrics_url := u\<rparr>" and sess: "p_load_mode p5 = SessionConcurrencyMode \<longrightarrow> p_kind p5 = OPENAI"
    using verify_kinds_Inr(2) [OF s7] verify_kinds_Inr(4) [OF s9] verify_kinds_Inr(5) [OF s10] by blast
  have p: "p = p2\<lparr>p_batch_size := b, p_protocol := c', p_metrics_url := u\<rparr>" by (simp add: e6 e5 e4 e3)
  have openai: "p_kind p2 = OPENAI \<longrightarrow> p_async p2 \<and> b = 1 \<and> p_user_data p2 \<noteq> []"
    using verify_kinds_Inr(3) [OF s8] by (simp add: e4 e3)
  have "p_load_mode p2 = SessionConcurrencyMode \<longrightarrow> p_kind p2 = OPENAI"
    using sess by (simp add: e5 e4 e3)
  from that [OF s p b openai this] show thesis .
qed

text \<open>
  C8: Every command line that the parser and the verification accept gives parameters that the
  managers and the search rely on. Sizes, windows, trials, threads and ids are not zero; the batch size
  is zero only for TensorFlow Serving; a percentile is in 1..99; an open end of the
  concurrency range has a latency limit; a binary search has a latency limit and a proper
  range of concurrencies and rates; a request count is measured in one window of that count, at
  a single concurrency not above it; a fixed schedule has requests; a periodic range is ordered
  and served by enough threads, and its step divides it unless its end was left open; sessions
  are run asynchronously, one request at a time, against an OpenAI server.
\<close>

theorem accepted_options:
  assumes "Parse env argv = Inr p"
  shows "p_load_mode p \<noteq> NoLoadMode \<and> \<not> (p_async p \<and> p_forced_sync p) \<and>
    p_max_threads p \<noteq> 0 \<and> p_max_trials p \<noteq> 0 \<and> p_measurement_window_ms p \<noteq> 0 \<and>
    p_measurement_request_count p \<noteq> 0 \<and> p_num_of_sequences p \<noteq> 0 \<and> p_sequence_length p \<noteq> 0 \<and>
    p_start_sequence_id p \<noteq> 0 \<and> p_request_period p \<noteq> 0 \<and> range_start (p_concurrency_range p) \<noteq> 0 \<and>
    shapes_ok (p_input_shapes p) \<and> ieee_le (Fin 0) (p_stability_threshold p) \<and>
    (p_kind p \<noteq> TENSORFLOW_SERVING \<longrightarrow> p_batch_size p \<noteq> 0) \<and>
    (p_percentile p = - 1 \<or> 1 \<le> p_percentile p \<and> p_percentile p \<le> 99) \<and>
    (range_end (p_concurrency_range p) = 0 \<longrightarrow> p_latency_threshold_ms p \<noteq> 0) \<and>
    (p_search_mode p = BINARY \<longrightarrow> p_latency_threshold_ms p \<noteq> 0 \<and> range_end (p_concurrency_range p) \<noteq> 0 \<and>
       range_start (p_concurrency_range p) \<le> range_end (p_concurrency_range p) \<and>
       \<not> ieee_lt (rate_at p kEND) (rate_at p kSTART)) \<and>
    (p_request_count p \<noteq> 0 \<longrightarrow>
       p_measurement_mode p = COUNT_WINDOWS \<and> p_measurement_request_count p = p_request_count p \<and>
       (p_load_mode p = ConcurrencyMode \<longrightarrow>
          range_end (p_concurrency_range p) \<le> range_start (p_concurrency_range p) \<and>
          range_start (p_concurrency_range p) \<le> p_request_count p)) \<and>
    (p_load_mode p = FixedScheduleMode \<longrightarrow> p_request_count p \<noteq> 0) \<and>
    (p_load_mode p = PeriodicConcurrencyMode \<longrightarrow>
       p_streaming p \<and> p_profile_export_file p \<noteq> [] \<and>
       range_step (p_periodic_concurrency_range p) \<noteq> 0 \<and>
       range_start (p_periodic_concurrency_range p) \<le> range_end (p_periodic_concurrency_range p) \<and>
       range_end (p_periodic_concurrency_range p) \<le> p_max_threads p \<and>
       (periodic_ok (p_periodic_concurrency_range p) \<or>
        range_start (p_periodic_concurrency_range p) = 0 \<and>
        range_end (p_periodic_concurrency_range p) = p_max_threads p)) \<and>
    (p_load_mode p = SessionConcurrencyMode \<longrightarrow>
       p_session_concurrency p \<noteq> 0 \<and> p_kind p = OPENAI \<and> p_async p \<and> p_batch_size p = 1)"
proof -
  obtain p0 where p0: "ParseCommandLine env argv = Inr p0" and v: "VerifyOptions env p0 = Inr p"
    using assms by (auto simp: Parse_def bindR_Inr_conv)
  obtain st where st: "derive env st = Inr p0" "opts_ok (fst st)" using ParseCommandLine_Inr [OF p0] .
  note d = derive_Inr [OF st]
  obtain p1 p2 b c u where s1: "verify_values p0 = Inr p1" and s2: "verify_periodic p1 = Inr p2"
    and s3: "verify_search p2 = Inr p2" and s4: "verify_counts p2 = Inr p2"
    and p: "p = p2\<lparr>p_batch_size := b, p_protocol := c, p_metrics_url := u\<rparr>"
    and kinds: "p_kind p2 \<noteq> TENSORFLOW_SERVING \<longrightarrow> b = p_batch_size p2"
      "p_kind p2 = OPENAI \<longrightarrow> p_async p2 \<and> b = 1 \<and> p_user_data p2 \<noteq> []"
      "p_load_mode p2 = SessionConcurrencyMode \<longrightarrow> p_kind p2 = OPENAI"
    using VerifyOptions_Inr [OF v] .
  note e1 = verify_values_Inr [OF s1]
  obtain r n where e2: "p2 = p1\<lparr>p_periodic_concurrency_range := r, p_max_threads := n\<rparr>"
    and per: "p_max_threads p1 \<noteq> 0 \<longrightarrow> n \<noteq> 0"
      "p_load_mode p1 = PeriodicConcurrencyMode \<longrightarrow>
       p_streaming p1 \<and> p_profile_export_file p1 \<noteq> [] \<and>
       range_start r = range_start (p_periodic_concurrency_range p1) \<and>
       range_step r = range_step (p_periodic_concurrency_range p1) \<and> range_end r \<le> n \<and>
       (if range_end (p_periodic_concurrency_range p1) = 0 then range_end r = n
        else range_end r = range_end (p_periodic_concurrency_range p1))"
    using verify_periodic_Inr [OF s2] by blast
  have periodic: "p_load_mode p2 = PeriodicConcurrencyMode \<longrightarrow>
      p_streaming p2 \<and> p_profile_export_file p2 \<noteq> [] \<and> range_step r \<noteq> 0 \<and>
      range_start r \<le> range_end r \<and> range_end r \<le> n \<and>
      (periodic_ok r \<or> range_start r = 0 \<and> range_end r = n)"
    using per d(1) by (auto simp: e2 e1(1) opts_ok_def periodic_ok_def split: if_splits)
  have "opts_ok p0 \<and> p_load_mode p0 \<noteq> NoLoadMode" using d(1,2) by simp
  then have sizes: "p_load_mode p2 \<noteq> NoLoadMode" "p_max_threads p2 \<noteq> 0" "p_max_trials p2 \<noteq> 0"
      "p_measurement_window_ms p2 \<noteq> 0" "p_measurement_request_count p2 \<noteq> 0" "p_num_of_sequences p2 \<noteq> 0"
      "p_sequence_length p2 \<noteq> 0" "p_start_sequence_id p2 \<noteq> 0" "p_request_period p2 \<noteq> 0"
      "shapes_ok (p_input_shapes p2)" "ieee_le (Fin 0) (p_stability_threshold p2)" "p_batch_size p2 \<noteq> 0"
      "p_load_mode p2 = SessionConcurrencyMode \<longrightarrow> p_session_concurrency p2 \<noteq> 0"
    using per(1) by (simp_all add: e2 e1(1) opts_ok_def)
  have counts: "p_load_mode p2 = FixedScheduleMode \<longrightarrow> p_request_count p2 \<noteq> 0"
      "p_request_count p2 \<noteq> 0 \<longrightarrow>
        p_measurement_mode p2 = COUNT_WINDOWS \<and> p_measurement_request_count p2 = p_request_count p2"
    using d(3,4) by (simp_all add: e2 e1(1))
  have checks: "range_start (p_concurrency_range p2) \<noteq> 0"
      "p_percentile p2 = - 1 \<or> 1 \<le> p_percentile p2 \<and> p_percentile p2 \<le> 99"
      "\<not> (p_async p2 \<and> p_forced_sync p2)"
    using e1(2,4,5) by (simp_all add: e2 e1(1))
  have r: "p_periodic_concurrency_range p2 = r" "p_max_threads p2 = n" by (simp_all add: e2)
  show ?thesis
    using sizes kinds periodic counts checks verify_search_Inr(2,3) [OF s3] verify_counts_Inr(2) [OF s4]
    unfolding p r [symmetric] by simp
qed

section \<open>Evaluating a command line\<close>

text \<open>An environment without files, for the concrete command lines below.\<close>

definition empty_env :: cl_env where
  "empty_env = \<lparr>stat_mode = \<lambda>_. None, json_docs = \<lambda>_. None, json_error = \<lambda>_. 0, gpu_enabled = False,
     mpi_init = Inr (), mpi_is_run = Inr False\<rparr>"

lemmas numeral_eval = stoull_def stoi_def sto_unsigned_def sto_signed_def read_int_def skip_space_def
  is_space_def read_sign_def is_digit_def string_to_nat.simps digit_val_def signed_def

lemmas parse_eval = ParseCommandLine_def parse_option_def run_case_def long_cases_def short_cases_def
  catch_invalid_def choose_mode_def deprecated_check_def long_option_idx_base_def is_deprecated_def map_add_def derive_def
  final_mode_def default_url_def default_threads_def no_search_def fixed_schedule_count_def
  count_windows_def flag_def text_arg_def assign_range_def PerfAnalyzerParameters_def unit_range_def
  NO_LIMIT_def DEFAULT_MAX_THREADS_def

lemmas verify_eval = VerifyOptions_def verify_values_def verify_periodic_def verify_multi_model_def
  IsMPIRun_def verify_search_def open_ended_def verify_counts_def many_concurrencies_def many_rates_def
  verify_serving_def verify_c_api_def verify_openai_def verify_dynamic_grpc_def verify_metrics_def reject_def

definition binary_search_line :: "getopt_result list" where
  "binary_search_line = [Opt 109 (Some ''m''), Opt 263 (Some ''2:8:2''), Opt 274 None, Opt 108 (Some ''100'')]"

definition binary_search_params :: pa_params where
  "binary_search_params = PerfAnalyzerParameters\<lparr>p_model_name := ''m'', p_load_mode := ConcurrencyMode,
     p_search_mode := BINARY, p_concurrency_range := \<lparr>range_start = 2, range_end = 8, range_step = 2\<rparr>,
     p_max_threads := 16, p_latency_threshold_ms := 100\<rparr>"

lemma binary_search_parsed: "ParseCommandLine empty_env binary_search_line = Inr binary_search_params"
  by (simp add: parse_eval numeral_eval binary_search_line_def binary_search_params_def opt_m_def
      opt_concurrency_range_def opt_binary_search_def opt_latency_threshold_def max_def)

lemma binary_search_accepted: "Parse empty_env binary_search_line = Inr binary_search_params"
  by (simp add: Parse_def binary_search_parsed verify_eval binary_search_params_def
      PerfAnalyzerParameters_def unit_range_def NO_LIMIT_def Let_def)

theorem accepted_options_witness:
  "\<exists>p. Parse empty_env binary_search_line = Inr p \<and> p_search_mode p = BINARY \<and>
     p_latency_threshold_ms p \<noteq> 0 \<and> range_start (p_concurrency_range p) \<noteq> 0 \<and>
     range_start (p_concurrency_range p) \<le> range_end (p_concurrency_range p) \<and> p_max_threads p \<noteq> 0"
proof -
  have "p_search_mode binary_search_params = BINARY" by (simp add: binary_search_params_def)
  then show ?thesis
    using accepted_options [OF binary_search_accepted] binary_search_accepted by blast
qed

section \<open>Load modes exclude each other\<close>

definition mode_codes :: "nat list" where
  "mode_codes = [263, 272, 276, 314, 320, 321]"

lemma mode_option_chooses:
  assumes "opt \<in> set mode_codes" and "run_case env opt optarg p = Inr p'"
  shows "p_load_mode p = NoLoadMode \<and> p_load_mode p' \<noteq> NoLoadMode"
proof -
  have "\<exists>h \<in> {opt_concurrency_range, opt_request_rate_range, opt_request_intervals,
      opt_periodic_concurrency_range, opt_fixed_schedule, opt_session_concurrency}. h env optarg p = Inr p'"
    using assms unfolding mode_codes_def run_case_def catch_invalid_def
    by (auto simp: long_cases_def split: sum.splits exn.splits)
  then show ?thesis
    by (auto simp: mode_options file_option_def bindR_Inr_conv split: if_splits)
qed

text \<open>
  C26: Two options that choose the load mode are never accepted together, whatever stands around
  and between them: the second ends the parsing.
\<close>

theorem load_modes_exclusive:
  assumes "m1 \<in> set mode_codes" and "m2 \<in> set mode_codes"
  shows "\<exists>e. Parse env (xs @ Opt m1 a1 # ys @ Opt m2 a2 # zs) = Inl e"
proof (rule ccontr)
  assume "\<not> ?thesis"
  then obtain p where "Parse env (xs @ Opt m1 a1 # ys @ Opt m2 a2 # zs) = Inr p" by (metis sum.exhaust)
  then obtain s1 s2 s3 s4 where
    1: "parse_option env s1 (Opt m1 a1) = Inr s2" and 2: "foldR (parse_option env) s2 ys = Inr s3" and
    3: "parse_option env s3 (Opt m2 a2) = Inr s4"
    by (auto simp: Parse_def ParseCommandLine_def foldR_append bindR_Inr_conv)
  have "run_case env m1 a1 (fst s1) = Inr (fst s2)"
    using 1 by (auto simp: parse_option_def bindR_Inr_conv split: if_splits)
  then have "mode_is (p_load_mode (fst s2)) (fst s2)"
    using mode_option_chooses [OF assms(1)] by (simp add: mode_is_def)
  then have "mode_is (p_load_mode (fst s2)) (fst s3)" using opt_mode.options_keep [OF 2] by blast
  moreover have "run_case env m2 a2 (fst s3) = Inr (fst s4)"
    using 3 by (auto simp: parse_option_def bindR_Inr_conv split: if_splits)
  ultimately show False using mode_option_chooses [OF assms(2)] by (auto simp: mode_is_def)
qed

theorem load_modes_exclusive_witness:
  "\<exists>e. Parse empty_env ([] @ Opt 263 (Some ''4'') # [Opt 97 None] @ Opt 272 (Some ''10'') # []) = Inl e"
  by (rule load_modes_exclusive) (simp_all add: mode_codes_def)

section \<open>Ranges are read back\<close>

lemma digits_no_colon: "CHR '':'' \<notin> set (nat_to_string n)"
  using nat_to_string_digits [of "CHR '':''" n] by (auto simp: is_digit_def)

lemma pieces_range:
  "pieces (CHR '':'') (nat_to_string a @ CHR '':'' # nat_to_string b @ CHR '':'' # nat_to_string c) =
     [nat_to_string a, nat_to_string b, nat_to_string c]"
  by (simp add: pieces_append pieces_single digits_no_colon)

text \<open>
  C29: The decimal rendering \<open>start:end:step\<close> of any three 64-bit numbers, given as the
  concurrency range, is read back as these numbers and selects the concurrency mode.
\<close>

theorem concurrency_range_roundtrip:
  assumes "p_load_mode p = NoLoadMode"
  shows "run_case env 263 (Some (nat_to_string (unat a) @ '':'' @ nat_to_string (unat b) @ '':'' @ nat_to_string (unat c))) p =
    Inr (p\<lparr>p_load_mode := ConcurrencyMode,
            p_concurrency_range := \<lparr>range_start = a, range_end = b, range_step = c\<rparr>\<rparr>)"
  using assms
  by (cases "p_concurrency_range p") (simp add: run_case_def long_cases_def opt_concurrency_range_def choose_mode_def pieces_range
      assign_range_def catch_invalid_def map_add_def)

theorem concurrency_range_roundtrip_witness:
  "run_case empty_env 263 (Some (nat_to_string (unat (4 :: u64)) @ '':'' @ nat_to_string (unat (64 :: u64)) @ '':'' @
       nat_to_string (unat (2 :: u64)))) PerfAnalyzerParameters =
    Inr (PerfAnalyzerParameters\<lparr>p_load_mode := ConcurrencyMode,
            p_concurrency_range := \<lparr>range_start = 4, range_end = 64, range_step = 2\<rparr>\<rparr>)"
  by (rule concurrency_range_roundtrip) (simp add: PerfAnalyzerParameters_def)

section \<open>Where the options fall short\<close>

text \<open>
  After \<open>--request-rate-range\<close>, naming the mode that is already chosen throws, and the handler
  reads the argument that \<open>--fixed-schedule\<close> and \<open>-d\<close> do not have.
\<close>

lemma conflict_with_rate_undefined:
  assumes "p_load_mode p = RequestRateMode"
  shows "run_case env 320 None p = Inl (UndefinedBehaviour ''null optarg'')"
    and "run_case env 100 None p = Inl (UndefinedBehaviour ''null optarg'')"
  using assms by (simp_all add: run_case_def long_cases_def short_cases_def opt_fixed_schedule_def opt_d_def
      deprecated_check_def choose_mode_def mode_to_string_def catch_invalid_def map_add_def)

text \<open>
  A deprecated option anywhere on the line decides the load mode, also over the mode that an
  option after it has chosen.
\<close>

lemma deprecated_flag:
  "foldR (parse_option env) st argv = Inr st' \<Longrightarrow>
     snd st' \<longleftrightarrow> snd st \<or> (\<exists>opt a. Opt opt a \<in> set argv \<and> is_deprecated opt)"
proof (induction argv arbitrary: st)
  case (Cons x argv)
  then obtain s where s: "parse_option env st x = Inr s" "foldR (parse_option env) s argv = Inr st'"
    by (auto simp: bindR_Inr_conv)
  then have "snd s \<longleftrightarrow> snd st \<or> (\<exists>opt a. x = Opt opt a \<and> is_deprecated opt)"
    by (auto simp: parse_option_def bindR_Inr_conv split: getopt_result.splits if_splits)
  with Cons.IH [OF s(2)] show ?case by auto
qed simp

lemma derive_deprecated:
  assumes "derive env (p, True) = Inr q"
  shows "p_load_mode q = ConcurrencyMode"
proof -
  define r where "r = no_search (default_threads (default_url (final_mode (p, True))))"
  have r: "p_load_mode r = ConcurrencyMode"
    by (simp add: r_def final_mode_def no_search_def default_threads_def default_url_def)
  obtain r' where r': "fixed_schedule_count env r = Inr r'" and q: "q = count_windows r'"
    using assms by (auto simp: derive_def Let_def bindR_Inr_conv r_def split: if_splits)
  have "r' = r" using fixed_schedule_count_Inr(3) [OF r'] r by simp
  with r show ?thesis by (simp add: q count_windows_def)
qed

lemma deprecated_option_decides:
  assumes "ParseCommandLine env argv = Inr p" and "Opt opt a \<in> set argv" and "is_deprecated opt"
  shows "p_load_mode p = ConcurrencyMode"
proof -
  obtain st where st: "foldR (parse_option env) (PerfAnalyzerParameters, False) argv = Inr st" "derive env st = Inr p"
    using assms(1) by (auto simp: ParseCommandLine_def bindR_Inr_conv)
  then have "snd st" using deprecated_flag [OF st(1)] assms(2,3) by auto
  with st(2) show ?thesis by (cases st) (auto intro: derive_deprecated)
qed

text \<open>A header without a colon leaves the parser with \<open>std::out_of_range\<close>, which nobody catches.\<close>

lemma header_without_colon:
  assumes "CHR '':'' \<notin> set h"
  shows "run_case env 72 (Some h) p = Inl OutOfRange"
  using assms by (simp add: run_case_def long_cases_def short_cases_def opt_H_def substr_def str_find_def
      find_at_char_None [THEN iffD2] catch_invalid_def map_add_def)

text \<open>A range of sequence ids whose end is its start is accepted as the size 0, the divisor of the ids.\<close>

lemma empty_id_range_accepted:
  assumes "n < 2 ^ 31"
  shows "run_case env 286 (Some (nat_to_string n @ CHR '':'' # nat_to_string n)) p =
    Inr (p\<lparr>p_start_sequence_id := word_of_nat n, p_sequence_id_range := 0\<rparr>)"
  using assms
  by (simp add: run_case_def long_cases_def opt_sequence_id_range_def pieces_append pieces_single
      digits_no_colon stoi_to_string catch_invalid_def map_add_def)

text \<open>With an open end, the end becomes the number of threads, which the step need not divide.\<close>

lemma open_periodic_range_not_divided:
  assumes "p_load_mode p = PeriodicConcurrencyMode" and "p_streaming p" and "p_profile_export_file p \<noteq> []"
    and "p_periodic_concurrency_range p = \<lparr>range_start = 0, range_end = 0, range_step = 3\<rparr>"
    and "p_max_threads p = 4"
  shows "periodic_ok (p_periodic_concurrency_range p) \<and>
    (\<exists>p'. verify_periodic p = Inr p' \<and> \<not> periodic_ok (p_periodic_concurrency_range p'))"
  using assms by (simp add: periodic_ok_def verify_periodic_def NO_LIMIT_def)

end
