(* ===== verification/Spec2Isabelle.thy ===== *)
theory Spec2Isabelle
  imports PA_Prelude Ctx_Id_Tracker Rate_Schedule Ieee_Float Sequence_Manager Profile_Data Server_Stats Client_Stats Profiler
    Load_Manager Concurrency_Manager Request_Rate_Manager
    Json_Dom Perf_Utils Data_Loader Infer_Input Infer_Data_Manager Infer_Context Load_Worker Rate_Worker Model_Parser Session_Concurrency
    Std_String Command_Line
begin

text \<open>
  Perf Analyzer: a model of its C++ sources (under \<open>src/src\<close>) and the theorems about it.

  \<^bold>\<open>The program.\<close> Perf Analyzer measures an inference server. A load manager keeps worker
  threads busy sending requests, either as many at a time as a given concurrency or at the
  times of a schedule; the workers leave a record of every finished request in their
  statistics; the profiler takes the records away window by window, summarizes them together
  with the statistics of the server, and repeats until the last windows agree; a search over
  concurrency levels or request rates calls the profiler for each value.

  \<^bold>\<open>The theories\<close>, in the order of their dependencies:
  \<^item> \<open>PA_Prelude\<close>: machine words, \<open>cb::Error\<close> and exceptions as values, the error monad, the fair
    division of a total over threads, decimal numbers and little-endian bytes. A function that
    may throw returns \<open>exn + 'a\<close>, one that returns a \<open>cb::Error\<close> returns \<open>cb_error + 'a\<close>, and one
    that may do both returns \<open>failure + 'a\<close>; reading outside a vector, dividing by zero and signed
    overflow are values of \<open>exn\<close> of their own. Counts of nanoseconds are integers: the sums of
    timestamps are checked, the timestamps of a schedule wrap as in the source, and the
    properties of schedules state up to where the counts fit; clock readings are taken to fit.
  \<^item> \<open>Std_Map\<close>: \<open>std::map\<close> as a sorted association list, with its laws as a locale.
  \<^item> \<open>Ieee_Float\<close>: double and single precision with rounding to nearest even.
  \<^item> \<open>Ctx_Id_Tracker\<close>: \<open>base_queue_ctx_id_tracker.h\<close>, \<open>fifo_ctx_id_tracker.h\<close>,
    \<open>concurrency_ctx_id_tracker.h\<close>, \<open>rand_ctx_id_tracker.h\<close>, \<open>ctx_id_tracker_factory.h\<close>. The ids of
    the contexts a worker may use; that never more requests are out than the concurrency allows.
  \<^item> \<open>Rate_Schedule\<close>: \<open>rate_schedule.h\<close> and \<open>idle_timer.h\<close>.
  \<^item> \<open>Sequence_Manager\<close>: \<open>sequence_manager.cc\<close>, \<open>sequence_status.h\<close>. Ids in use are in range
    and, unless two concurrent allocations have drawn the same id, distinct; start and end flags alternate; random lengths stay within their bounds.
  \<^item> \<open>Profile_Data\<close>: \<open>request_record.h\<close>, \<open>profile_data_collector.cc\<close>.
  \<^item> \<open>Server_Stats\<close>, \<open>Client_Stats\<close>, \<open>Profiler\<close>: \<open>inference_profiler.cc\<close>. Merging and differences of
    the server's counters; which requests a window counts and the numbers computed from them;
    the measurement loop, its stability test, and the linear and binary search.
  \<^item> \<open>Load_Manager\<close>, \<open>Concurrency_Manager\<close>, \<open>Request_Rate_Manager\<close>: \<open>load_manager.cc\<close>,
    \<open>concurrency_manager.cc\<close>, \<open>periodic_concurrency_manager.cc\<close>, \<open>request_rate_manager.cc\<close>,
    \<open>custom_load_manager.cc\<close>, \<open>custom_request_schedule_manager.cc\<close>, \<open>thread_config.h\<close>,
    \<open>thread_stat.h\<close>. A derived manager extends the record of its base. Concurrency, requests
    and sequences are divided over the threads exactly; the schedules of all the workers
    together are one timeline, with the locale \<open>timetable\<close> as the contract of the three functions
    that create them.
  \<^item> \<open>Json_Dom\<close>, \<open>Perf_Utils\<close>, \<open>Data_Loader\<close>: the documents of RapidJSON, \<open>perf_utils.cc\<close> and
    \<open>data_loader.cc\<close>. Sizes and encodings of tensors, where the data of the requests comes from.

  \<^item> \<open>Infer_Input\<close>, \<open>Infer_Data_Manager\<close>: the request inputs of the backends
    (\<open>client_backend/*/*_infer_input.cc\<close>), \<open>infer_data.h\<close>, \<open>infer_data_manager_base.cc\<close>,
    \<open>infer_data_manager.cc\<close>. The batches that a request carries, and what each backend sends.
  \<^item> \<open>Infer_Context\<close>: \<open>infer_context.cc\<close>. The requests in flight, their records and callbacks.
  \<^item> \<open>Load_Worker\<close>, \<open>Rate_Worker\<close>: \<open>load_worker.cc\<close>, \<open>concurrency_worker.cc\<close>,
    \<open>request_rate_worker.cc\<close>, \<open>periodic_concurrency_worker.cc\<close>. The loops of the worker threads, one
    turn at a time; the concurrency that a worker keeps, and the wake-ups that it can miss.
  \<^item> \<open>Model_Parser\<close>: \<open>model_parser.cc\<close>. The tensors, the scheduler and the composing models of
    the model, from the server's documents. \<open>AddEnsembleComposingModels\<close> takes the depth of the
    nested ensembles as fuel, since a cyclic configuration is not excluded by the code.
  \<^item> \<open>Session_Concurrency\<close>: \<open>session_concurrency_manager.cc\<close>, \<open>request_handler.cc\<close>,
    \<open>payload_dataset_manager.cc\<close> and the JSON helpers beside them. Every payload is sent once, with
    the conversation so far.
  \<^item> \<open>Std_String\<close>, \<open>Command_Line\<close>: the conversions of the C++ library and
    \<open>command_line_parser.cc\<close>. One definition per option, the locale \<open>option_invariant\<close> for what
    every option keeps, and what is true of the parameters of an accepted command line: the
    hypotheses that the properties of the managers and of the search make about them.

  \<^bold>\<open>State and environment.\<close> A class is a record and its methods are functions on the record;
  what a method reads from the world (clocks, the server, files, processes, random engines) is an
  argument. Where an interleaving matters it is a step relation, with the property proved for
  every sequence of steps. What runs under one lock is one step, and so is an access to one
  shared variable without a lock: \<open>worker_step\<close>, a worker that takes and gives back ids; \<open>seq_step\<close>, the allocation of sequence ids (a draw from the
  counter, the test of one slot, a write; the unlocked accesses are taken to be atomic);
  \<open>collect_step\<close>, the records of the threads, which the manager locks one after the other;
  \<open>periodic_step\<close>, the launches of the main thread, which hold no lock, and the callbacks of a
  periodic run; \<open>session_step\<close>, the threads of the session manager. Coarser are \<open>worker_run\<close> and
  \<open>async_reachable\<close>: a step of the worker's own thread is one turn of its control flow, and a
  response is one step, although the source takes two locks in turn while it handles it.

  \<^bold>\<open>Loops.\<close> Loops that always end are recursive functions with a termination proof. The two
  loops that fill schedules are partial functions into an option, where None is a loop that
  never ends, and the properties say when they end. The searches of the profiler take
  fuel, one unit per trial; the properties give the amount that is enough. The loops of the
  worker threads run until the program stops them and are step relations.

  \<^bold>\<open>Not modelled.\<close> The usage text of \<open>command_line_parser.cc\<close> and the parsing of
  \<open>getopt_long\<close>, whose results are the input of the model; the wiring in
  \<open>perf_analyzer.cc\<close>; the output of \<open>report_writer.cc\<close>; the thread of \<open>metrics_manager.cc\<close>; the
  adapters under \<open>client_backend\<close>, which call the client libraries; shared memory and CUDA;
  MPI; the unit tests and their mocks; the Python program under \<open>genai-perf\<close>.
\<close>

end
